(* ===== verification/Prelude.thy ===== *)
theory Prelude
  imports Main "HOL-Library.Word" "HOL-Library.Product_Lexorder"
begin

text \<open>
  Shared vocabulary of the development: the Rust integers the wrapper code
  computes with, the outcome of a call (a value, a thread blocked on a lock it
  holds itself, a panic), \<^verbatim>\<open>std::sync::Mutex\<close>, \<^verbatim>\<open>std::collections::BTreeMap\<close> as
  a strictly sorted association list, and the contract of a state machine with
  an invariant.

  The build profile modelled is the release one: \<^verbatim>\<open>debug_assert!\<close> is compiled out
  and integer arithmetic wraps, so the wrap-around is written out
  (\<open>i32_wrap\<close>) where the code adds.
\<close>

named_theorems outcome_simps \<open>rewriting of outcomes and locks\<close>
named_theorems bt_simps \<open>lookup laws of ordered maps\<close>
named_theorems bt_intros \<open>well-formedness of ordered maps\<close>

section \<open>Integers\<close>

type_synonym i32 = int
type_synonym i64 = int
type_synonym usize = nat
type_synonym u8 = "8 word"

definition is_i32 :: "int \<Rightarrow> bool" where
  "is_i32 x \<longleftrightarrow> - 2147483648 \<le> x \<and> x \<le> 2147483647"

definition i32_wrap :: "int \<Rightarrow> i32" where
  "i32_wrap x = (x + 2147483648) mod 4294967296 - 2147483648"

lemma is_i32_wrap [simp]: "is_i32 (i32_wrap x)"
proof -
  have "0 \<le> (x + 2147483648) mod 4294967296" "(x + 2147483648) mod 4294967296 < 4294967296"
    by simp_all
  then show ?thesis unfolding is_i32_def i32_wrap_def by linarith
qed

lemma i32_wrap_id: "is_i32 x \<Longrightarrow> i32_wrap x = x"
  by (simp add: is_i32_def i32_wrap_def)

lemma i32_wrap_over: "2147483647 < x \<Longrightarrow> x < 6442450944 \<Longrightarrow> i32_wrap x = x - 4294967296"
  by (simp add: i32_wrap_def mod_pos_geq)

lemma i32_wrap_under: "x < - 2147483648 \<Longrightarrow> - 6442450944 \<le> x \<Longrightarrow> i32_wrap x = x + 4294967296"
proof -
  assume x: "x < - 2147483648" "- 6442450944 \<le> x"
  have "(x + 2147483648) mod 4294967296 = (x + 2147483648 + 4294967296) mod 4294967296"
    by (rule mod_add_self2 [symmetric])
  also have "\<dots> = x + 2147483648 + 4294967296" using x by (intro mod_pos_pos_trivial) simp_all
  finally show ?thesis by (simp add: i32_wrap_def)
qed

text \<open>\<^verbatim>\<open>i32::try_from\<close> of a length, and \<^verbatim>\<open>usize::try_from\<close> of an \<open>i32\<close>.\<close>

definition i32_try_from_usize :: "usize \<Rightarrow> i32 option" where
  "i32_try_from_usize n = (if int n \<le> 2147483647 then Some (int n) else None)"

definition usize_try_from_i32 :: "i32 \<Rightarrow> usize option" where
  "usize_try_from_i32 x = (if 0 \<le> x then Some (nat x) else None)"

lemma usize_try_from_i32_Some: "usize_try_from_i32 x = Some n \<longleftrightarrow> x = int n"
  by (auto simp: usize_try_from_i32_def)

section \<open>Outcomes and locks\<close>

datatype 'a outcome = Ret 'a | Blocked | Panic

fun bind_outcome :: "'a outcome \<Rightarrow> ('a \<Rightarrow> 'b outcome) \<Rightarrow> 'b outcome" where
  "bind_outcome (Ret a) f = f a"
| "bind_outcome Blocked f = Blocked"
| "bind_outcome Panic f = Panic"

lemma bind_outcome_Ret_iff:
  "bind_outcome m f = Ret b \<longleftrightarrow> (\<exists>a. m = Ret a \<and> f a = Ret b)"
  by (cases m) auto

text \<open>
  A mutex holds its data, whether a thread panicked while it held the lock
  (\<^verbatim>\<open>lock()\<close> then returns \<open>Err\<close>), and whether the calling thread holds it: the
  standard library's mutex is not re-entrant, so a second \<^verbatim>\<open>lock()\<close> by the same
  thread does not return.
\<close>

record 'a mutex =
  m_data :: 'a
  m_poisoned :: bool
  m_held :: bool

definition mutex_new :: "'a \<Rightarrow> 'a mutex" where
  "mutex_new x = \<lparr>m_data = x, m_poisoned = False, m_held = False\<rparr>"

definition lock_ok :: "'a mutex \<Rightarrow> bool" where
  "lock_ok m \<longleftrightarrow> \<not> m_held m \<and> \<not> m_poisoned m"

definition with_lock :: "'a mutex \<Rightarrow> ('a \<Rightarrow> 'b outcome) \<Rightarrow> 'b outcome \<Rightarrow> 'b outcome" where
  "with_lock m ok err =
     (if m_held m then Blocked else if m_poisoned m then err else ok (m_data m))"

text \<open>The bare \<^verbatim>\<open>lock()\<close>, as its result, and taking and releasing the lock around nested calls.\<close>

definition lock_result :: "'a mutex \<Rightarrow> 'a option outcome" where
  "lock_result m = with_lock m (\<lambda>d. Ret (Some d)) (Ret None)"

definition acquire :: "'a mutex \<Rightarrow> 'a mutex" where
  "acquire m = m\<lparr>m_held := True\<rparr>"

definition release :: "'a \<Rightarrow> 'a mutex \<Rightarrow> 'a mutex" where
  "release x m = m\<lparr>m_data := x, m_held := False\<rparr>"

lemma with_lock_ok [outcome_simps]: "lock_ok m \<Longrightarrow> with_lock m ok err = ok (m_data m)"
  by (simp add: lock_ok_def with_lock_def)

lemma with_lock_held [outcome_simps]: "m_held m \<Longrightarrow> with_lock m ok err = Blocked"
  by (simp add: with_lock_def)

lemma with_lock_poisoned [outcome_simps]:
  "\<not> m_held m \<Longrightarrow> m_poisoned m \<Longrightarrow> with_lock m ok err = err"
  by (simp add: with_lock_def)

lemma lock_ok_new [simp]: "lock_ok (mutex_new x)"
  by (simp add: lock_ok_def mutex_new_def)

lemma m_data_new [simp]: "m_data (mutex_new x) = x"
  by (simp add: mutex_new_def)

lemma lock_ok_update [simp]: "lock_ok (m\<lparr>m_data := x\<rparr>) = lock_ok m"
  by (simp add: lock_ok_def)

lemma lock_result_ok [outcome_simps]: "lock_ok m \<Longrightarrow> lock_result m = Ret (Some (m_data m))"
  by (simp add: lock_result_def with_lock_ok)

lemma lock_ok_release [simp]: "lock_ok (release x m) \<longleftrightarrow> \<not> m_poisoned m"
  by (simp add: lock_ok_def release_def)

lemma release_acquire [simp]: "release x (acquire m) = release x m"
  by (simp add: acquire_def release_def)

lemma release_simps [simp]: "m_data (release x m) = x" "m_poisoned (release x m) = m_poisoned m"
  by (simp_all add: release_def)

lemma acquire_simps [simp]: "m_data (acquire m) = m_data m" "m_poisoned (acquire m) = m_poisoned m"
  "m_held (acquire m)"
  by (simp_all add: acquire_def)

lemma release_lock_ok: "lock_ok m \<Longrightarrow> release x m = m\<lparr>m_data := x\<rparr>"
  by (simp add: release_def lock_ok_def)

lemma release_same: "lock_ok m \<Longrightarrow> release (m_data m) m = m"
  by (simp add: release_def lock_ok_def)

section \<open>Ordered maps\<close>

text \<open>
  \<^verbatim>\<open>BTreeMap<K, V>\<close>: the entries in ascending key order, which is the order its
  iterators and \<^verbatim>\<open>keys()\<close> have.
\<close>

type_synonym ('k, 'v) btree = "('k \<times> 'v) list"

definition bt_get :: "'k \<Rightarrow> ('k, 'v) btree \<Rightarrow> 'v option" where
  "bt_get k m = map_of m k"

fun bt_insert :: "'k::linorder \<Rightarrow> 'v \<Rightarrow> ('k, 'v) btree \<Rightarrow> ('k, 'v) btree" where
  "bt_insert k v [] = [(k, v)]"
| "bt_insert k v ((k', v') # m) =
     (if k < k' then (k, v) # (k', v') # m
      else if k = k' then (k, v) # m
      else (k', v') # bt_insert k v m)"

definition bt_remove :: "'k \<Rightarrow> ('k, 'v) btree \<Rightarrow> ('k, 'v) btree" where
  "bt_remove k m = filter (\<lambda>e. fst e \<noteq> k) m"

definition bt_keys :: "('k, 'v) btree \<Rightarrow> 'k list" where
  "bt_keys m = map fst m"

definition bt_wf :: "('k::linorder, 'v) btree \<Rightarrow> bool" where
  "bt_wf m \<longleftrightarrow> sorted_wrt (<) (map fst m)"

lemma bt_get_Nil [bt_simps]: "bt_get k [] = None"
  by (simp add: bt_get_def)

lemma bt_get_insert [bt_simps]: "bt_get k (bt_insert k' v m) = (if k = k' then Some v else bt_get k m)"
  by (induction m) (auto simp: bt_get_def)

lemma bt_get_remove [bt_simps]: "bt_get k (bt_remove k' m) = (if k = k' then None else bt_get k m)"
  by (induction m) (auto simp: bt_get_def bt_remove_def)

lemma map_of_filter_neq: "map_of (filter (\<lambda>e. fst e \<noteq> i) xs) j = (if j = i then None else map_of xs j)"
  by (induction xs) auto

lemma set_bt_insert_keys: "fst ` set (bt_insert k v m) = insert k (fst ` set m)"
  by (induction k v m rule: bt_insert.induct) (simp_all add: insert_commute)

lemma bt_insert_neq_Nil [simp]: "bt_insert k v m \<noteq> []"
  by (cases "(k, v, m)" rule: bt_insert.cases) auto

lemma bt_wf_Nil [bt_intros, simp]: "bt_wf []"
  by (simp add: bt_wf_def)

lemma bt_wf_Cons: "bt_wf ((k, v) # m) \<longleftrightarrow> (\<forall>k' \<in> fst ` set m. k < k') \<and> bt_wf m"
  by (auto simp: bt_wf_def)

lemma bt_wf_insert [bt_intros]: "bt_wf m \<Longrightarrow> bt_wf (bt_insert k v m)"
proof (induction m)
  case Nil
  then show ?case by (simp add: bt_wf_def)
next
  case (Cons e m)
  then show ?case
    by (cases e) (auto simp: bt_wf_Cons set_bt_insert_keys dest: order.strict_trans)
qed

lemma bt_wf_filter: "bt_wf m \<Longrightarrow> bt_wf (filter P m)"
  by (auto simp: bt_wf_def intro: sorted_wrt_filter simp flip: sorted_wrt_map)
    (simp add: sorted_wrt_map sorted_wrt_filter)

lemma bt_wf_remove [bt_intros]: "bt_wf m \<Longrightarrow> bt_wf (bt_remove k m)"
  by (simp add: bt_remove_def bt_wf_filter)

lemma bt_wf_distinct: "bt_wf m \<Longrightarrow> distinct (map fst m)"
  by (simp add: bt_wf_def strict_sorted_iff)

lemma bt_get_Some_iff: "bt_wf m \<Longrightarrow> bt_get k m = Some v \<longleftrightarrow> (k, v) \<in> set m"
  by (simp add: bt_get_def map_of_eq_Some_iff bt_wf_distinct)

lemma bt_get_None_iff: "bt_get k m = None \<longleftrightarrow> k \<notin> set (bt_keys m)"
  by (simp add: bt_get_def bt_keys_def map_of_eq_None_iff)

lemma bt_get_keys: "k \<in> set (bt_keys m) \<Longrightarrow> \<exists>v. bt_get k m = Some v"
  using bt_get_None_iff [of k m] by (cases "bt_get k m") auto

lemma bt_fold_remove: "fold bt_remove ks m = filter (\<lambda>e. fst e \<notin> set ks) m"
proof (induction ks arbitrary: m)
  case (Cons k ks)
  have "filter (\<lambda>e. fst e \<notin> set ks) (bt_remove k m) = filter (\<lambda>e. fst e \<notin> set (k # ks)) m"
    by (auto simp: bt_remove_def intro: filter_cong)
  with Cons show ?case by simp
qed simp

text \<open>Two ordered maps with the same lookups are the same map.\<close>

lemma bt_eqI:
  assumes "bt_wf m" "bt_wf m'" "\<And>k. bt_get k m = bt_get k m'"
  shows "m = m'"
proof -
  have eq: "set m = set m'"
    using assms by (force simp: bt_get_Some_iff [symmetric])
  have srt: "sorted (map fst n) \<and> distinct (map fst n)" if "bt_wf n" for n :: "('a, 'b) btree"
    using that by (simp add: bt_wf_def strict_sorted_iff)
  have "inj_on fst (set m \<union> set m')"
    using srt [OF assms(1)] eq by (simp add: distinct_map)
  then show ?thesis
    using srt [OF assms(1)] srt [OF assms(2)] eq by (blast intro: map_sorted_distinct_set_unique)
qed

lemma option_filter_eqI:
  assumes "\<And>v. x = Some v \<longleftrightarrow> y = Some v \<and> \<not> P v"
  shows "x = (if \<exists>v. y = Some v \<and> P v then None else y)"
proof (cases y)
  case None
  with assms [of "the x"] show ?thesis by (cases x) simp_all
next
  case (Some w)
  with assms [of w] assms [of "the x"] show ?thesis by (cases "P w"; cases x) auto
qed

section \<open>Lists\<close>

text \<open>A list without its element at a position.\<close>

definition drop_nth :: "nat \<Rightarrow> 'a list \<Rightarrow> 'a list" where
  "drop_nth k xs = take k xs @ drop (Suc k) xs"

lemma map_drop_nth: "map f (drop_nth k xs) = drop_nth k (map f xs)"
  by (simp add: drop_nth_def take_map drop_map)

section \<open>State machines with an invariant\<close>

text \<open>
  A component that only changes by its operations: whatever holds at the start
  and is kept by each operation that returns holds after every sequence of
  operations; and if no operation blocks from such a state, no sequence does.
\<close>

fun run_ops :: "('op \<Rightarrow> 's \<Rightarrow> 's outcome) \<Rightarrow> 'op list \<Rightarrow> 's \<Rightarrow> 's outcome" where
  "run_ops step [] s = Ret s"
| "run_ops step (x # xs) s = bind_outcome (step x s) (run_ops step xs)"

locale invariant_machine =
  fixes step :: "'op \<Rightarrow> 's \<Rightarrow> 's outcome"
    and inv :: "'s \<Rightarrow> bool"
  assumes step_inv: "inv s \<Longrightarrow> step x s = Ret s' \<Longrightarrow> inv s'"
begin

lemma run_inv: "inv s \<Longrightarrow> run_ops step xs s = Ret s' \<Longrightarrow> inv s'"
  by (induction xs arbitrary: s) (auto simp: bind_outcome_Ret_iff dest: step_inv)

lemma run_append: "run_ops step (xs @ ys) s = bind_outcome (run_ops step xs s) (run_ops step ys)"
proof (induction xs arbitrary: s)
  case (Cons x xs)
  then show ?case by (cases "step x s") auto
qed simp

end

locale live_machine = invariant_machine +
  assumes step_live: "inv s \<Longrightarrow> step x s \<noteq> Blocked"
begin

lemma run_live: "inv s \<Longrightarrow> run_ops step xs s \<noteq> Blocked"
proof (induction xs arbitrary: s)
  case (Cons x xs)
  then show ?case using step_inv step_live by (cases "step x s") auto
qed simp

end

end
