(* ===== verification/Browser_Info_Map.thy ===== *)
theory Browser_Info_Map
  imports Prelude
begin

text \<open>
  \<^verbatim>\<open>cef/src/wrapper/browser_info_map.rs\<close>: the two-level ordered map from a browser
  id and a key to a pending object, which both sides of the message router keep
  their queries in. A visitor is a state transformer: its state is whatever the
  Rust visitor reaches through \<^verbatim>\<open>&self\<close> (a counter, the router it cancels queries
  of). The reference the traversals are proved against is one pass over the
  flat list of entries in ascending order (\<open>visit_entries\<close>).
\<close>

section \<open>Data\<close>

datatype visitor_result = RemoveEntry | KeepEntry

datatype control_flow = Break visitor_result | Continue visitor_result

fun cf_stop :: "control_flow \<Rightarrow> bool" where
  "cf_stop (Break r) = True"
| "cf_stop (Continue r) = False"

fun cf_result :: "control_flow \<Rightarrow> visitor_result" where
  "cf_result (Break r) = r"
| "cf_result (Continue r) = r"

type_synonym ('s, 'k, 'v) visitor = "'s \<Rightarrow> i32 \<Rightarrow> 'k \<Rightarrow> 'v \<Rightarrow> 's \<times> control_flow"

record ('k, 'v) browser_info_map =
  bim_map :: "(i32, ('k, 'v) btree) btree"

definition bim_default :: "('k, 'v) browser_info_map" where
  "bim_default = \<lparr>bim_map = []\<rparr>"

section \<open>Operations\<close>

definition bim_insert ::
  "i32 \<Rightarrow> 'k::linorder \<Rightarrow> 'v \<Rightarrow> ('k, 'v) browser_info_map \<Rightarrow> ('k, 'v) browser_info_map" where
  "bim_insert browser_id key value m =
     (let info_map = (case bt_get browser_id (bim_map m) of None \<Rightarrow> [] | Some im \<Rightarrow> im)
      in m\<lparr>bim_map := bt_insert browser_id (bt_insert key value info_map) (bim_map m)\<rparr>)"

text \<open>
  An inner map is changed in place through \<^verbatim>\<open>get_mut\<close>, and the browser's entry goes
  when its inner map has become empty.
\<close>

definition put_info_map ::
  "i32 \<Rightarrow> ('k, 'v) btree \<Rightarrow> ('k, 'v) browser_info_map \<Rightarrow> ('k, 'v) browser_info_map" where
  "put_info_map browser_id info_map m =
     (if info_map = [] then m\<lparr>bim_map := bt_remove browser_id (bim_map m)\<rparr>
      else m\<lparr>bim_map := bt_insert browser_id info_map (bim_map m)\<rparr>)"

definition bim_find ::
  "('s, 'k, 'v) visitor option \<Rightarrow> 's \<Rightarrow> i32 \<Rightarrow> 'k \<Rightarrow> ('k, 'v) browser_info_map \<Rightarrow>
   's \<times> 'v option \<times> ('k, 'v) browser_info_map" where
  "bim_find visitor s browser_id key m =
     (case bt_get browser_id (bim_map m) of
        None \<Rightarrow> (s, None, m)
      | Some info_map \<Rightarrow>
          (case bt_get key info_map of
             None \<Rightarrow> (s, None, m)
           | Some entry \<Rightarrow>
               (case visitor of
                  None \<Rightarrow> (s, Some entry, m)
                | Some vis \<Rightarrow>
                    (let (s', cf) = vis s browser_id key entry
                     in if cf_result cf = RemoveEntry
                        then (s', bt_get key info_map,
                              put_info_map browser_id (bt_remove key info_map) m)
                        else (s', Some entry, m)))))"

text \<open>The loop over the keys of one browser; \<^verbatim>\<open>expect\<close> is the \<open>Panic\<close> branch.\<close>

fun visit_keys ::
  "('s, 'k, 'v) visitor \<Rightarrow> i32 \<Rightarrow> ('k, 'v) btree \<Rightarrow> 'k list \<Rightarrow> 's \<Rightarrow> 'k list \<Rightarrow>
   ('s \<times> 'k list \<times> bool) outcome" where
  "visit_keys vis b info_map [] s removed = Ret (s, removed, True)"
| "visit_keys vis b info_map (key # keys) s removed =
     (case bt_get key info_map of
        None \<Rightarrow> Panic
      | Some value \<Rightarrow>
          (let (s', cf) = vis s b key value;
               removed' = (if cf_result cf = RemoveEntry then removed @ [key] else removed)
           in if cf_stop cf then Ret (s', removed', False)
              else visit_keys vis b info_map keys s' removed'))"

fun find_all_loop ::
  "('s, 'k::linorder, 'v) visitor \<Rightarrow> i32 list \<Rightarrow> 's \<Rightarrow> ('k, 'v) browser_info_map \<Rightarrow>
   ('s \<times> ('k, 'v) browser_info_map) outcome" where
  "find_all_loop vis [] s m = Ret (s, m)"
| "find_all_loop vis (b # bs) s m =
     (case bt_get b (bim_map m) of
        None \<Rightarrow> Panic
      | Some info_map \<Rightarrow>
          bind_outcome (visit_keys vis b info_map (bt_keys info_map) s [])
            (\<lambda>(s', removed, keep_going).
               let m' = put_info_map b (fold bt_remove removed info_map) m
               in if keep_going then find_all_loop vis bs s' m' else Ret (s', m')))"

definition bim_find_all ::
  "('s, 'k::linorder, 'v) visitor \<Rightarrow> 's \<Rightarrow> ('k, 'v) browser_info_map \<Rightarrow>
   ('s \<times> ('k, 'v) browser_info_map) outcome" where
  "bim_find_all vis s m = find_all_loop vis (bt_keys (bim_map m)) s m"

definition bim_find_browser_all ::
  "('s, 'k::linorder, 'v) visitor \<Rightarrow> 's \<Rightarrow> i32 \<Rightarrow> ('k, 'v) browser_info_map \<Rightarrow>
   ('s \<times> ('k, 'v) browser_info_map) outcome" where
  "bim_find_browser_all vis s browser_id m =
     (if bim_map m = [] then Ret (s, m)
      else case bt_get browser_id (bim_map m) of
             None \<Rightarrow> Ret (s, m)
           | Some info_map \<Rightarrow>
               bind_outcome (visit_keys vis browser_id info_map (bt_keys info_map) s [])
                 (\<lambda>(s', removed, _).
                    Ret (s', put_info_map browser_id (fold bt_remove removed info_map) m)))"

definition bim_is_empty :: "('k, 'v) browser_info_map \<Rightarrow> bool" where
  "bim_is_empty m \<longleftrightarrow> bim_map m = []"

definition bim_len :: "('k, 'v) browser_info_map \<Rightarrow> usize" where
  "bim_len m = sum_list (map (\<lambda>e. length (snd e)) (bim_map m))"

definition bim_browser_len :: "i32 \<Rightarrow> ('k, 'v) browser_info_map \<Rightarrow> usize" where
  "bim_browser_len browser_id m =
     (case bt_get browser_id (bim_map m) of None \<Rightarrow> 0 | Some info_map \<Rightarrow> length info_map)"

definition bim_clear :: "('k, 'v) browser_info_map \<Rightarrow> ('k, 'v) browser_info_map" where
  "bim_clear m = m\<lparr>bim_map := []\<rparr>"

section \<open>Invariant and abstraction\<close>

definition bim_inv :: "('k::linorder, 'v) browser_info_map \<Rightarrow> bool" where
  "bim_inv m \<longleftrightarrow> bt_wf (bim_map m) \<and> (\<forall>e \<in> set (bim_map m). snd e \<noteq> [] \<and> bt_wf (snd e))"

definition bim_lookup :: "('k, 'v) browser_info_map \<Rightarrow> i32 \<Rightarrow> 'k \<Rightarrow> 'v option" where
  "bim_lookup m b k = Option.bind (bt_get b (bim_map m)) (bt_get k)"

text \<open>All entries, in the order the traversals meet them.\<close>

definition browser_entries :: "i32 \<Rightarrow> ('k, 'v) btree \<Rightarrow> (i32 \<times> 'k \<times> 'v) list" where
  "browser_entries b info_map = map (\<lambda>e. (b, fst e, snd e)) info_map"

definition bim_entries :: "('k, 'v) browser_info_map \<Rightarrow> (i32 \<times> 'k \<times> 'v) list" where
  "bim_entries m = concat (map (\<lambda>e. browser_entries (fst e) (snd e)) (bim_map m))"

text \<open>
  The reference traversal: one pass over a list of entries that collects what is
  left, keeping everything after the visitor stopped.
\<close>

fun visit_entries ::
  "('s, 'k, 'v) visitor \<Rightarrow> (i32 \<times> 'k \<times> 'v) list \<Rightarrow> 's \<Rightarrow> 's \<times> (i32 \<times> 'k \<times> 'v) list \<times> bool" where
  "visit_entries vis [] s = (s, [], True)"
| "visit_entries vis ((b, k, v) # es) s =
     (let (s', cf) = vis s b k v;
          kept = (if cf_result cf = RemoveEntry then [] else [(b, k, v)])
      in if cf_stop cf then (s', kept @ es, False)
         else let (s'', rest, go) = visit_entries vis es s' in (s'', kept @ rest, go))"

section \<open>Inner maps\<close>

lemma bim_invI [intro]:
  "bt_wf (bim_map m) \<Longrightarrow> (\<And>b im. (b, im) \<in> set (bim_map m) \<Longrightarrow> im \<noteq> [] \<and> bt_wf im) \<Longrightarrow> bim_inv m"
  by (auto simp: bim_inv_def)

lemma bim_inv_wf: "bim_inv m \<Longrightarrow> bt_wf (bim_map m)"
  by (simp add: bim_inv_def)

lemma bim_inv_get: "bim_inv m \<Longrightarrow> bt_get b (bim_map m) = Some im \<Longrightarrow> im \<noteq> [] \<and> bt_wf im"
  by (auto simp: bim_inv_def bt_get_Some_iff)

lemma set_bt_insert: "set (bt_insert k v m) \<subseteq> insert (k, v) (set m)"
  by (induction k v m rule: bt_insert.induct) auto

lemma bim_inv_put:
  assumes "bim_inv m" "bt_wf im"
  shows "bim_inv (put_info_map b im m)"
proof (cases "im = []")
  case True
  with assms show ?thesis
    by (auto simp: put_info_map_def bim_inv_def bt_intros) (auto simp: bt_remove_def)
next
  case False
  with assms set_bt_insert [of b im "bim_map m"] show ?thesis
    by (auto simp: put_info_map_def bim_inv_def bt_intros)
qed

lemma bim_lookup_put [simp]:
  "bim_lookup (put_info_map b im m) b' k = (if b' = b then bt_get k im else bim_lookup m b' k)"
  by (auto simp: put_info_map_def bim_lookup_def bt_simps)

lemma bt_get_put:
  "bt_get b' (bim_map (put_info_map b im m)) =
     (if b' = b then (if im = [] then None else Some im) else bt_get b' (bim_map m))"
  by (auto simp: put_info_map_def bt_simps)

text \<open>Two maps with the invariant and the same lookups are the same map.\<close>

lemma bim_eqI:
  assumes "bim_inv m" "bim_inv m'" "\<And>b k. bim_lookup m b k = bim_lookup m' b k"
  shows "bim_map m = bim_map m'"
proof (rule bt_eqI)
  fix b
  have ne: "\<exists>k v. bt_get k im = Some v" if "im \<noteq> []" for im :: "('a, 'b) btree"
    using that by (cases im) (auto simp: bt_get_def)
  show "bt_get b (bim_map m) = bt_get b (bim_map m')"
  proof (cases "bt_get b (bim_map m)")
    case None
    then have "\<And>k. bim_lookup m' b k = None"
      using assms(3) [of b] by (simp add: bim_lookup_def)
    then have "bt_get b (bim_map m') = Some im \<Longrightarrow> False" for im
      using ne [of im] bim_inv_get [OF assms(2), of b im] by (force simp: bim_lookup_def)
    with None show ?thesis by (cases "bt_get b (bim_map m')") auto
  next
    case (Some im)
    then have "im \<noteq> []" "bt_wf im" using bim_inv_get [OF assms(1)] by auto
    obtain k v where "bt_get k im = Some v" using ne [OF \<open>im \<noteq> []\<close>] by blast
    then have "bim_lookup m' b k = Some v" using assms(3) [of b k] Some by (simp add: bim_lookup_def)
    then obtain im' where im': "bt_get b (bim_map m') = Some im'"
      by (auto simp: bim_lookup_def bind_eq_Some_conv)
    then have "bt_wf im'" using bim_inv_get [OF assms(2)] by auto
    then have "im = im'"
      using \<open>bt_wf im\<close> assms(3) [of b] Some im' by (intro bt_eqI) (simp_all add: bim_lookup_def)
    with Some im' show ?thesis by simp
  qed
qed (use assms in \<open>auto simp: bim_inv_def\<close>)

section \<open>Insertion and single lookups\<close>

lemma bim_inv_default [simp]: "bim_inv bim_default"
  by (simp add: bim_default_def bim_inv_def)

lemma bim_inv_insert:
  assumes "bim_inv m"
  shows "bim_inv (bim_insert b k v m)"
proof -
  let ?im = "case bt_get b (bim_map m) of None \<Rightarrow> [] | Some im \<Rightarrow> im"
  have "bim_insert b k v m = put_info_map b (bt_insert k v ?im) m"
    by (simp add: bim_insert_def put_info_map_def Let_def)
  moreover have "bt_wf (bt_insert k v ?im)"
    using bim_inv_get [OF assms] by (intro bt_wf_insert) (auto split: option.splits)
  ultimately show ?thesis using assms by (simp add: bim_inv_put)
qed

lemma bim_lookup_default [simp]: "bim_lookup bim_default b k = None"
  by (simp add: bim_default_def bim_lookup_def bt_simps)

lemma bim_lookup_insert:
  "bim_lookup (bim_insert b k v m) b' k' = (if b' = b \<and> k' = k then Some v else bim_lookup m b' k')"
  by (auto simp: bim_insert_def bim_lookup_def Let_def bt_simps split: option.splits)

lemma bim_find_result: "fst (snd (bim_find visitor s b k m)) = bim_lookup m b k"
  by (auto simp: bim_find_def bim_lookup_def split: option.splits prod.splits)

lemma bim_find_state:
  "fst (bim_find visitor s b k m) =
     (case (bim_lookup m b k, visitor) of
        (Some v, Some vis) \<Rightarrow> fst (vis s b k v) | _ \<Rightarrow> s)"
  by (auto simp: bim_find_def bim_lookup_def split: option.splits prod.splits)

lemma bim_find_inv:
  assumes "bim_inv m"
  shows "bim_inv (snd (snd (bim_find visitor s b k m)))"
proof -
  have "bim_inv (put_info_map b (bt_remove k im) m)" if "bt_get b (bim_map m) = Some im" for im
    using assms that bim_inv_get [OF assms that] by (auto intro: bim_inv_put bt_intros)
  then show ?thesis
    using assms by (auto simp: bim_find_def split: option.splits prod.splits)
qed

lemma bim_find_lookup:
  "bim_lookup (snd (snd (bim_find visitor s b k m))) b' k' =
     (if b' = b \<and> k' = k \<and>
         (\<exists>vis v. visitor = Some vis \<and> bim_lookup m b k = Some v
                \<and> cf_result (snd (vis s b k v)) = RemoveEntry)
      then None else bim_lookup m b' k')"
proof (cases "bt_get b (bim_map m)")
  case None
  then show ?thesis by (simp add: bim_find_def bim_lookup_def)
next
  case (Some im)
  then have "bim_lookup m b = (\<lambda>k. bt_get k im)" by (auto simp: bim_lookup_def)
  with Some show ?thesis
    by (auto simp: bim_find_def bt_simps split: option.splits prod.splits)
qed

section \<open>Traversals\<close>

text \<open>The entries of one browser.\<close>

definition browser_entries_of :: "i32 \<Rightarrow> ('k, 'v) browser_info_map \<Rightarrow> (i32 \<times> 'k \<times> 'v) list" where
  "browser_entries_of b m =
     (case bt_get b (bim_map m) of None \<Rightarrow> [] | Some im \<Rightarrow> browser_entries b im)"

lemma browser_entries_simps [simp]:
  "browser_entries b [] = []"
  "browser_entries b (e # im) = (b, fst e, snd e) # browser_entries b im"
  "length (browser_entries b im) = length im"
  "browser_entries b im = [] \<longleftrightarrow> im = []"
  by (auto simp: browser_entries_def)

lemma visit_entries_append:
  "visit_entries vis (xs @ ys) s =
     (let (s1, kept1, go1) = visit_entries vis xs s
      in if go1 then let (s2, kept2, go2) = visit_entries vis ys s1 in (s2, kept1 @ kept2, go2)
         else (s1, kept1 @ ys, False))"
  by (induction vis xs s rule: visit_entries.induct) (auto simp: Let_def split: prod.splits)

text \<open>
  The key loop agrees with the reference pass: it never hits \<^verbatim>\<open>expect\<close>, and what it
  marks as removed is what the reference pass leaves out.
\<close>

lemma visit_keys_spec:
  assumes "\<forall>e \<in> set es. bt_get (fst e) im = Some (snd e)" "distinct (map fst es)"
    and "visit_entries vis (browser_entries b es) s = (s', kept, go)"
  shows "\<exists>rem. visit_keys vis b im (map fst es) s removed = Ret (s', removed @ rem, go)
           \<and> kept = browser_entries b (filter (\<lambda>e. fst e \<notin> set rem) es)
           \<and> set rem \<subseteq> fst ` set es"
  using assms
proof (induction es arbitrary: s removed kept)
  case Nil
  then show ?case by auto
next
  case (Cons e es)
  obtain k v where e [simp]: "e = (k, v)" by (cases e)
  obtain s1 cf where vis: "vis s b k v = (s1, cf)" by fastforce
  define mark where "mark = (if cf_result cf = RemoveEntry then [k] else [])"
  define keep where "keep = (if cf_result cf = RemoveEntry then [] else [(b, k, v)])"
  have fresh: "k \<notin> fst ` set es" using Cons.prems(2) by simp
  then have other: "fst x \<notin> set mark" if "x \<in> set es" for x
    using that by (auto simp: mark_def rev_image_eqI)
  have get: "bt_get k im = Some v" using Cons.prems(1) by simp
  show ?case
  proof (cases "cf_stop cf")
    case True
    have "filter (\<lambda>x. fst x \<notin> set mark) es = es"
      using other by (intro filter_True) auto
    with True vis get Cons.prems(3) show ?thesis
      by (intro exI [of _ mark]) (auto simp: mark_def Let_def split: if_splits)
  next
    case False
    obtain rest where rest: "visit_entries vis (browser_entries b es) s1 = (s', rest, go)"
        "kept = keep @ rest"
      using False vis Cons.prems(3) by (auto simp: Let_def keep_def split: prod.splits if_splits)
    obtain rem where rem: "visit_keys vis b im (map fst es) s1 (removed @ mark)
          = Ret (s', (removed @ mark) @ rem, go)"
        "rest = browser_entries b (filter (\<lambda>e. fst e \<notin> set rem) es)" "set rem \<subseteq> fst ` set es"
      using Cons.IH [OF _ _ rest(1), of "removed @ mark"] Cons.prems(1,2) by auto
    have "filter (\<lambda>x. fst x \<notin> set (mark @ rem)) es = filter (\<lambda>x. fst x \<notin> set rem) es"
      using other by (intro filter_cong) auto
    moreover have "k \<notin> set rem" using fresh rem(3) by blast
    ultimately show ?thesis
      using False vis get rem rest
      by (intro exI [of _ "mark @ rem"]) (auto simp: mark_def keep_def Let_def split: if_splits)
  qed
qed

lemma visit_info_map:
  assumes "bt_wf im" "visit_entries vis (browser_entries b im) s = (s', kept, go)"
  shows "\<exists>rem. visit_keys vis b im (bt_keys im) s [] = Ret (s', rem, go)
           \<and> kept = browser_entries b (fold bt_remove rem im)"
proof -
  have "\<forall>e \<in> set im. bt_get (fst e) im = Some (snd e)"
    using assms(1) by (auto simp: bt_get_Some_iff)
  from visit_keys_spec [OF this bt_wf_distinct [OF assms(1)] assms(2), of "[]"]
  show ?thesis by (auto simp: bt_keys_def bt_fold_remove)
qed

text \<open>Replacing or removing the entry of one browser in the middle of the ordered list.\<close>

lemma bt_insert_mid: "bt_wf (pre @ (b, im) # suf) \<Longrightarrow> bt_insert b im' (pre @ (b, im) # suf) = pre @ (b, im') # suf"
  by (induction pre) (auto simp: bt_wf_def)

lemma bt_remove_mid: "bt_wf (pre @ (b, im) # suf) \<Longrightarrow> bt_remove b (pre @ (b, im) # suf) = pre @ suf"
  using bt_wf_distinct [of "pre @ (b, im) # suf"]
  by (auto simp: bt_remove_def image_iff intro!: arg_cong2 [where f = append] filter_True)

lemma bt_get_mid: "bt_wf (pre @ (b, im) # suf) \<Longrightarrow> bt_get b (pre @ (b, im) # suf) = Some im"
  by (simp add: bt_get_Some_iff)

abbreviation level_entries :: "(i32, ('k, 'v) btree) btree \<Rightarrow> (i32 \<times> 'k \<times> 'v) list" where
  "level_entries l \<equiv> concat (map (\<lambda>e. browser_entries (fst e) (snd e)) l)"

lemma put_info_map_mid:
  assumes "bim_inv m" "bim_map m = pre @ (b, im) # suf"
  shows "bim_map (put_info_map b im' m) = pre @ (if im' = [] then [] else [(b, im')]) @ suf"
  using assms bt_insert_mid [of pre b im suf im'] bt_remove_mid [of pre b im suf]
  by (auto simp: put_info_map_def bim_inv_def)

lemma find_all_loop_spec:
  assumes "bim_inv m" "bim_map m = pre @ suf"
    and "visit_entries vis (level_entries suf) s = (s', kept, go)"
  shows "\<exists>m'. find_all_loop vis (map fst suf) s m = Ret (s', m') \<and> bim_inv m'
           \<and> bim_entries m' = level_entries pre @ kept"
  using assms
proof (induction suf arbitrary: m pre s kept)
  case Nil
  then show ?case by (auto simp: bim_entries_def)
next
  case (Cons e suf)
  obtain b im where e: "e = (b, im)" by (cases e)
  have wf: "bt_wf (pre @ (b, im) # suf)" and im: "bt_wf im"
    using Cons.prems(1,2) e by (auto simp: bim_inv_def)
  obtain s1 kept1 go1 where v1: "visit_entries vis (browser_entries b im) s = (s1, kept1, go1)"
    using prod_cases3 by blast
  obtain rem where rem: "visit_keys vis b im (bt_keys im) s [] = Ret (s1, rem, go1)"
      "kept1 = browser_entries b (fold bt_remove rem im)"
    using visit_info_map [OF im v1] by blast
  define im' where "im' = fold bt_remove rem im"
  define m1 where "m1 = put_info_map b im' m"
  define pre1 where "pre1 = pre @ (if im' = [] then [] else [(b, im')])"
  have m1: "bim_inv m1" "bim_map m1 = pre1 @ suf"
    using Cons.prems(1,2) im put_info_map_mid [OF Cons.prems(1), of pre b im suf im'] e
    by (auto simp: m1_def pre1_def im'_def bt_fold_remove bt_wf_filter intro: bim_inv_put)
  have pre1: "level_entries pre1 = level_entries pre @ kept1"
    by (simp add: pre1_def rem(2) im'_def)
  have step: "find_all_loop vis (map fst (e # suf)) s m =
      (if go1 then find_all_loop vis (map fst suf) s1 m1 else Ret (s1, m1))"
    using rem(1) bt_get_mid [OF wf] Cons.prems(2) e by (simp add: m1_def im'_def Let_def)
  show ?case
  proof (cases go1)
    case True
    obtain kept2 where "visit_entries vis (level_entries suf) s1 = (s', kept2, go)"
        "kept = kept1 @ kept2"
      using Cons.prems(3) True v1 e
      by (auto simp: visit_entries_append Let_def split: prod.splits)
    with Cons.IH [OF m1] step True pre1 show ?thesis by auto
  next
    case False
    then have "s' = s1" "kept = kept1 @ level_entries suf"
      using Cons.prems(3) v1 e by (auto simp: visit_entries_append Let_def)
    with False step m1 pre1 show ?thesis by (auto simp: bim_entries_def)
  qed
qed

lemma find_all_refines:
  assumes "bim_inv m" "visit_entries vis (bim_entries m) s = (s', kept, go)"
  shows "\<exists>m'. bim_find_all vis s m = Ret (s', m') \<and> bim_inv m' \<and> bim_entries m' = kept"
  using find_all_loop_spec [OF assms(1), of "[]" "bim_map m"] assms(2)
  by (simp add: bim_find_all_def bim_entries_def bt_keys_def)

lemma find_browser_all_refines:
  assumes "bim_inv m" "visit_entries vis (browser_entries_of b m) s = (s', kept, go)"
  shows "\<exists>m'. bim_find_browser_all vis s b m = Ret (s', m') \<and> bim_inv m'
           \<and> browser_entries_of b m' = kept
           \<and> (\<forall>b' k. b' \<noteq> b \<longrightarrow> bim_lookup m' b' k = bim_lookup m b' k)"
proof (cases "bt_get b (bim_map m)")
  case None
  with assms show ?thesis by (auto simp: bim_find_browser_all_def browser_entries_of_def)
next
  case (Some im)
  then have im: "bt_wf im" using bim_inv_get [OF assms(1)] by simp
  obtain rem where rem: "visit_keys vis b im (bt_keys im) s [] = Ret (s', rem, go)"
      "kept = browser_entries b (fold bt_remove rem im)"
    using visit_info_map [OF im, of vis b s s' kept go] assms(2) Some
    by (auto simp: browser_entries_of_def)
  have "bim_map m \<noteq> []" using Some by (auto simp: bt_simps)
  moreover have "bim_inv (put_info_map b (fold bt_remove rem im) m)"
    using assms(1) im by (simp add: bim_inv_put bt_fold_remove bt_wf_filter)
  ultimately show ?thesis
    using rem Some by (auto simp: bim_find_browser_all_def browser_entries_of_def bt_get_put)
qed

text \<open>
  The visitors of the routers never stop early and decide by the entry alone:
  such a pass folds the effect over the entries and filters them.
\<close>

definition filter_visitor ::
  "('s \<Rightarrow> i32 \<Rightarrow> 'k \<Rightarrow> 'v \<Rightarrow> 's) \<Rightarrow> (i32 \<Rightarrow> 'k \<Rightarrow> 'v \<Rightarrow> bool) \<Rightarrow> ('s, 'k, 'v) visitor" where
  "filter_visitor eff rm s b k v = (eff s b k v, Continue (if rm b k v then RemoveEntry else KeepEntry))"

lemma visit_entries_filter:
  "visit_entries (filter_visitor eff rm) es s =
     (fold (\<lambda>(b, k, v) s. eff s b k v) es s, filter (\<lambda>(b, k, v). \<not> rm b k v) es, True)"
  by (induction es arbitrary: s) (auto simp: filter_visitor_def)

lemma fold_count:
  "fold (\<lambda>(b, k, v) n. if P b k v then n + 1 else n) es (n::nat) =
     n + length (filter (\<lambda>(b, k, v). P b k v) es)"
  by (induction es arbitrary: n) auto

section \<open>Counting\<close>

lemma bim_len_entries: "bim_len m = length (bim_entries m)"
  by (simp add: bim_len_def bim_entries_def length_concat comp_def)

lemma bim_browser_len_entries: "bim_browser_len b m = length (browser_entries_of b m)"
  by (simp add: bim_browser_len_def browser_entries_of_def split: option.splits)

lemma bim_is_empty_entries: "bim_inv m \<Longrightarrow> bim_is_empty m \<longleftrightarrow> bim_entries m = []"
  by (cases "bim_map m") (auto simp: bim_is_empty_def bim_entries_def bim_inv_def)

lemma mem_browser_entries: "(b', k, v) \<in> set (browser_entries b im) \<longleftrightarrow> b' = b \<and> (k, v) \<in> set im"
  by (force simp: browser_entries_def)

lemma mem_bim_entries:
  assumes "bim_inv m"
  shows "(b, k, v) \<in> set (bim_entries m) \<longleftrightarrow> bim_lookup m b k = Some v"
proof -
  have "(b, k, v) \<in> set (bim_entries m) \<longleftrightarrow> (\<exists>im. (b, im) \<in> set (bim_map m) \<and> (k, v) \<in> set im)"
    by (force simp: bim_entries_def mem_browser_entries)
  also have "\<dots> \<longleftrightarrow> (\<exists>im. bt_get b (bim_map m) = Some im \<and> (k, v) \<in> set im)"
    using assms by (simp add: bim_inv_def bt_get_Some_iff)
  also have "\<dots> \<longleftrightarrow> bim_lookup m b k = Some v"
    using bim_inv_get [OF assms, of b]
    by (auto simp: bim_lookup_def bind_eq_Some_conv bt_get_Some_iff)
  finally show ?thesis .
qed

lemma mem_browser_entries_of:
  assumes "bim_inv m"
  shows "(b', k, v) \<in> set (browser_entries_of b m) \<longleftrightarrow> b' = b \<and> bim_lookup m b k = Some v"
proof (cases "bt_get b (bim_map m)")
  case None
  then show ?thesis by (simp add: browser_entries_of_def bim_lookup_def)
next
  case (Some im)
  with bim_inv_get [OF assms Some] show ?thesis
    by (simp add: browser_entries_of_def bim_lookup_def mem_browser_entries bt_get_Some_iff)
qed

lemma distinct_browser_keys: "bt_wf im \<Longrightarrow> distinct (map (\<lambda>(b, k, v). (b, k)) (browser_entries b im))"
  by (induction im) (auto simp: bt_wf_def browser_entries_def)

lemma distinct_level_keys:
  "bt_wf l \<Longrightarrow> (\<forall>e \<in> set l. bt_wf (snd e)) \<Longrightarrow>
   distinct (map (\<lambda>(b, k, v). (b, k)) (level_entries l))"
proof (induction l)
  case (Cons e l)
  obtain b im where e: "e = (b, im)" by (cases e)
  have "b' \<noteq> b" if "(b', k, v) \<in> set (level_entries l)" for b' k v
    using that Cons.prems(1) e by (force simp: bt_wf_def mem_browser_entries)
  moreover have "bt_wf l" using Cons.prems(1) by (simp add: bt_wf_def)
  ultimately show ?case
    using Cons distinct_browser_keys [of im b] e by (force simp: mem_browser_entries)
qed simp

lemma distinct_bim_entries: "bim_inv m \<Longrightarrow> distinct (map (\<lambda>(b, k, v). (b, k)) (bim_entries m))"
  by (simp add: bim_entries_def bim_inv_def distinct_level_keys)

section \<open>The registry contract the routers rely on\<close>

text \<open>
  Both routers look a pending object up and, by a test on it, remove it in the
  same step: the visitor of \<^verbatim>\<open>get_query_info\<close> and of \<^verbatim>\<open>get_request_info\<close>.
\<close>

definition bim_take ::
  "('v \<Rightarrow> bool) \<Rightarrow> i32 \<Rightarrow> 'k \<Rightarrow> ('k, 'v) browser_info_map \<Rightarrow> 'v option \<times> ('k, 'v) browser_info_map" where
  "bim_take remove b k m =
     snd (bim_find (Some (\<lambda>s _ _ v. (s, Continue (if remove v then RemoveEntry else KeepEntry)))) () b k m)"

locale pending_registry =
  fixes lookup :: "'m \<Rightarrow> i32 \<Rightarrow> 'k \<Rightarrow> 'v option"
    and insert :: "i32 \<Rightarrow> 'k \<Rightarrow> 'v \<Rightarrow> 'm \<Rightarrow> 'm"
    and take :: "('v \<Rightarrow> bool) \<Rightarrow> i32 \<Rightarrow> 'k \<Rightarrow> 'm \<Rightarrow> 'v option \<times> 'm"
    and inv :: "'m \<Rightarrow> bool"
  assumes insert_inv: "inv m \<Longrightarrow> inv (insert b k v m)"
    and take_inv: "inv m \<Longrightarrow> inv (snd (take p b k m))"
    and lookup_insert: "lookup (insert b k v m) b' k' = (if b' = b \<and> k' = k then Some v else lookup m b' k')"
    and take_result: "fst (take p b k m) = lookup m b k"
    and lookup_take: "lookup (snd (take p b k m)) b' k' =
           (if b' = b \<and> k' = k \<and> (\<exists>v. lookup m b k = Some v \<and> p v) then None else lookup m b' k')"
begin

text \<open>A registered object that is removed when taken is handed out exactly once.\<close>

lemma taken_once:
  assumes "p v"
  shows "fst (take p b k (insert b k v m)) = Some v"
    and "fst (take q b k (snd (take p b k (insert b k v m)))) = None"
  using assms by (auto simp: take_result lookup_insert lookup_take)

text \<open>One that is kept (a persistent query) is handed out again and again.\<close>

lemma kept_stays:
  assumes "\<not> p v"
  shows "fst (take q b k (snd (take p b k (insert b k v m)))) = Some v"
  using assms by (auto simp: take_result lookup_insert lookup_take)

text \<open>Taking one object leaves every other object alone.\<close>

lemma take_other:
  "(b', k') \<noteq> (b, k) \<Longrightarrow> fst (take q b' k' (snd (take p b k m))) = fst (take q b' k' m)"
  by (auto simp: take_result lookup_take)

end

interpretation bim: pending_registry bim_lookup bim_insert bim_take bim_inv
proof
  fix m :: "('k::linorder, 'v) browser_info_map" and b b' k k' v p
  show "bim_inv m \<Longrightarrow> bim_inv (bim_insert b k v m)" by (rule bim_inv_insert)
  show "bim_inv m \<Longrightarrow> bim_inv (snd (bim_take p b k m))"
    by (simp add: bim_take_def bim_find_inv)
  show "bim_lookup (bim_insert b k v m) b' k' = (if b' = b \<and> k' = k then Some v else bim_lookup m b' k')"
    by (rule bim_lookup_insert)
  show "fst (bim_take p b k m) = bim_lookup m b k"
    by (simp add: bim_take_def bim_find_result)
  show "bim_lookup (snd (bim_take p b k m)) b' k' =
      (if b' = b \<and> k' = k \<and> (\<exists>v. bim_lookup m b k = Some v \<and> p v) then None else bim_lookup m b' k')"
    by (auto simp: bim_take_def bim_find_lookup)
qed

section \<open>Properties\<close>

text \<open>
  Property C10. Visiting all entries of the nested map is one pass over its entries in
  ascending order of browser id and key: the visitor is called on each entry once
  until it asks to stop, its state is threaded through, exactly the entries it
  marked are gone afterwards, an emptied browser disappears, and no \<^verbatim>\<open>expect\<close> fails.
\<close>

theorem find_all_single_pass:
  assumes "bim_inv m"
  shows "\<exists>s' m'. bim_find_all vis s m = Ret (s', m') \<and> bim_inv m'
    \<and> s' = fst (visit_entries vis (bim_entries m) s)
    \<and> bim_entries m' = fst (snd (visit_entries vis (bim_entries m) s))"
  using find_all_refines [OF assms, of vis s] by (metis fst_conv prod_cases3 snd_conv)

theorem find_all_single_pass_witness:
  "\<exists>s' m'. bim_find_all (filter_visitor (\<lambda>n _ _ _. Suc n) (\<lambda>_ _ v. v)) 0
            (bim_insert 2 (5::int) True (bim_insert 1 7 False bim_default)) = Ret (s', m')
     \<and> s' = 2 \<and> bim_entries m' = [(1, 7, False)]"
proof -
  have "bim_inv (bim_insert 2 (5::int) True (bim_insert 1 7 False bim_default))"
    by (simp add: bim_inv_insert)
  from find_all_single_pass [OF this, of "filter_visitor (\<lambda>n _ _ _. Suc n) (\<lambda>_ _ v. v)" 0]
  show ?thesis
    by (auto simp: filter_visitor_def bim_entries_def bim_insert_def bim_default_def bt_get_def)
qed

text \<open>
  Visiting the entries of one browser is one pass over that browser's
  entries in ascending key order, and no entry of any other browser changes.
\<close>

lemma find_browser_all_single_pass:
  assumes "bim_inv m"
  shows "\<exists>s' m'. bim_find_browser_all vis s b m = Ret (s', m') \<and> bim_inv m'
    \<and> s' = fst (visit_entries vis (browser_entries_of b m) s)
    \<and> browser_entries_of b m' = fst (snd (visit_entries vis (browser_entries_of b m) s))
    \<and> (\<forall>b' k. b' \<noteq> b \<longrightarrow> bim_lookup m' b' k = bim_lookup m b' k)"
  using find_browser_all_refines [OF assms, of vis b s] by (metis fst_conv prod_cases3 snd_conv)

text \<open>
  A pending object is handed out exactly once unless it is to be kept:
  after an insertion, looking the object up gives it; a second lookup finds nothing
  if the first removed it and the same object if the first kept it; no other object
  is affected, and the map's invariant (ordered keys, no empty inner map) is kept.
\<close>

lemma pending_object_lifecycle:
  "fst (bim_take p b k (bim_insert b k v m)) = Some v
   \<and> fst (bim_take q b k (snd (bim_take p b k (bim_insert b k v m)))) = (if p v then None else Some v)
   \<and> (\<forall>b' k'. (b', k') \<noteq> (b, k) \<longrightarrow>
        fst (bim_take q b' k' (snd (bim_take p b k (bim_insert b k v m)))) = bim_lookup m b' k')
   \<and> (bim_inv m \<longrightarrow> bim_inv (snd (bim_take p b k (bim_insert b k v m))))"
proof (intro conjI allI impI)
  show "fst (bim_take p b k (bim_insert b k v m)) = Some v"
    by (simp add: bim.take_result bim.lookup_insert)
  show "fst (bim_take q b k (snd (bim_take p b k (bim_insert b k v m)))) = (if p v then None else Some v)"
    by (cases "p v") (simp_all add: bim.taken_once(2) bim.kept_stays)
  show "fst (bim_take q b' k' (snd (bim_take p b k (bim_insert b k v m)))) = bim_lookup m b' k'"
    if "(b', k') \<noteq> (b, k)" for b' k'
    using that bim.take_other [OF that, of q p "bim_insert b k v m"]
    by (auto simp: bim.take_result bim.lookup_insert)
  show "bim_inv (snd (bim_take p b k (bim_insert b k v m)))" if "bim_inv m"
    using that by (intro bim.take_inv bim.insert_inv)
qed

text \<open>
  The counters count: \<open>len\<close> is the number of entries, \<open>browser_len\<close> the
  number of entries of the browser, and the map is empty exactly when it has none.
\<close>

lemma info_map_counts:
  assumes "bim_inv m"
  shows "bim_len m = card {(b, k). bim_lookup m b k \<noteq> None}
    \<and> bim_browser_len b m = card {k. bim_lookup m b k \<noteq> None}
    \<and> (bim_is_empty m \<longleftrightarrow> (\<forall>b k. bim_lookup m b k = None))"
proof -
  let ?key = "\<lambda>(b, k, v). (b, k)"
  have all: "{(b, k). bim_lookup m b k \<noteq> None} = set (map ?key (bim_entries m))"
    using mem_bim_entries [OF assms] by (force simp: image_iff)
  have len: "bim_len m = card {(b, k). bim_lookup m b k \<noteq> None}"
    unfolding all using distinct_card [OF distinct_bim_entries [OF assms]]
    by (simp add: bim_len_entries)
  have "bim_is_empty m \<longleftrightarrow> (\<forall>b k. bim_lookup m b k = None)"
    using mem_bim_entries [OF assms] bim_is_empty_entries [OF assms]
    by (metis (no_types, lifting) list.set_intros(1) neq_Nil_conv not_None_eq prod_cases3 list.set(1) empty_iff)
  moreover have "bim_browser_len b m = card {k. bim_lookup m b k \<noteq> None}"
  proof (cases "bt_get b (bim_map m)")
    case None
    then show ?thesis by (simp add: bim_browser_len_def bim_lookup_def)
  next
    case (Some im)
    then have "{k. bim_lookup m b k \<noteq> None} = set (map fst im)" "distinct (map fst im)"
      using bim_inv_get [OF assms Some] bt_get_None_iff [of _ im]
      by (auto simp: bim_lookup_def bt_keys_def bt_wf_distinct)
    with Some distinct_card [of "map fst im"] show ?thesis by (simp add: bim_browser_len_def)
  qed
  ultimately show ?thesis using len by blast
qed

end
