(* ===== verification/Router_Core.thy ===== *)
theory Router_Core
  imports Prelude
begin

text \<open>
  The parts of \<^verbatim>\<open>cef/src/wrapper/message_router.rs\<close> that both routers build on: the
  configuration and its constants, the id generator, and the deque of query
  handlers whose ids stay valid while handlers are added at either end and
  removed.
\<close>

section \<open>Configuration\<close>

record message_router_config =
  js_query_function :: string
  js_cancel_function :: string
  message_size_threshold :: usize

definition RESPONSE_SIZE_THRESHOLD :: usize where
  "RESPONSE_SIZE_THRESHOLD = 16 * 1024"

definition config_validate :: "message_router_config \<Rightarrow> bool" where
  "config_validate c \<longleftrightarrow> js_query_function c \<noteq> [] \<and> js_cancel_function c \<noteq> []"

definition config_default :: message_router_config where
  "config_default =
     \<lparr>js_query_function = ''cefQuery'', js_cancel_function = ''cefQueryCancel'',
      message_size_threshold = RESPONSE_SIZE_THRESHOLD\<rparr>"

definition RESERVED_ID :: i32 where
  "RESERVED_ID = 0"

definition MESSAGE_SUFFIX :: string where
  "MESSAGE_SUFFIX = ''Msg''"

definition CANCELED_CODE :: i32 where
  "CANCELED_CODE = -1"

definition CANCELED_MESSAGE :: string where
  "CANCELED_MESSAGE = ''The query has been canceled''"

definition query_message_name_of :: "message_router_config \<Rightarrow> string" where
  "query_message_name_of c = js_query_function c @ MESSAGE_SUFFIX"

definition cancel_message_name_of :: "message_router_config \<Rightarrow> string" where
  "cancel_message_name_of c = js_cancel_function c @ MESSAGE_SUFFIX"

lemma config_default_valid: "config_validate config_default"
  by (simp add: config_validate_def config_default_def)

lemma message_names_distinct:
  "query_message_name_of c = cancel_message_name_of c \<longleftrightarrow> js_query_function c = js_cancel_function c"
  by (simp add: query_message_name_of_def cancel_message_name_of_def)

section \<open>Id generator\<close>

record id_generator =
  ig_next_id :: int
  ig_start :: int
  ig_end :: int

definition ig_new :: "int \<Rightarrow> id_generator" where
  "ig_new mx = \<lparr>ig_next_id = RESERVED_ID, ig_start = RESERVED_ID, ig_end = mx\<rparr>"

definition ig_next :: "id_generator \<Rightarrow> int \<times> id_generator" where
  "ig_next g =
     (let cur = (if ig_end g \<le> ig_next_id g then ig_start g else ig_next_id g)
      in (cur + 1, g\<lparr>ig_next_id := cur + 1\<rparr>))"

text \<open>The ids of \<open>n\<close> calls of \<open>next\<close>.\<close>

fun ig_ids :: "nat \<Rightarrow> id_generator \<Rightarrow> int list" where
  "ig_ids 0 g = []"
| "ig_ids (Suc n) g = (let (i, g') = ig_next g in i # ig_ids n g')"

definition ig_inv :: "int \<Rightarrow> id_generator \<Rightarrow> bool" where
  "ig_inv mx g \<longleftrightarrow> ig_start g = RESERVED_ID \<and> ig_end g = mx \<and> 0 \<le> ig_next_id g \<and> ig_next_id g \<le> mx"

lemma ig_inv_new: "0 \<le> mx \<Longrightarrow> ig_inv mx (ig_new mx)"
  by (simp add: ig_inv_def ig_new_def RESERVED_ID_def)

lemma ig_next_inv:
  assumes "ig_inv mx g" "0 < mx"
  shows "ig_inv mx (snd (ig_next g))" "1 \<le> fst (ig_next g)" "fst (ig_next g) \<le> mx"
  using assms by (auto simp: ig_inv_def ig_next_def RESERVED_ID_def Let_def)

lemma ig_next_never_reserved:
  "ig_inv mx g \<Longrightarrow> 0 < mx \<Longrightarrow> fst (ig_next g) \<noteq> RESERVED_ID"
  using ig_next_inv(2) [of mx g] by (auto simp: RESERVED_ID_def)

lemma ig_next_mod:
  assumes "ig_inv mx g" "0 < mx"
  shows "fst (ig_next g) = ig_next_id g mod mx + 1"
  using assms by (auto simp: ig_inv_def ig_next_def RESERVED_ID_def Let_def)

lemma ig_ids_cyclic:
  assumes "ig_inv mx g" "0 < mx"
  shows "ig_ids n g = map (\<lambda>i. (ig_next_id g + int i) mod mx + 1) [0..<n]"
  using assms
proof (induction n arbitrary: g)
  case (Suc n)
  let ?g = "snd (ig_next g)"
  have inv: "ig_inv mx ?g" using Suc.prems by (rule ig_next_inv)
  have nxt: "ig_next_id ?g = ig_next_id g mod mx + 1"
    using ig_next_mod [OF Suc.prems] by (simp add: ig_next_def Let_def)
  have "ig_ids (Suc n) g = (ig_next_id g mod mx + 1) # ig_ids n ?g"
    using ig_next_mod [OF Suc.prems] by (simp add: case_prod_beta)
  also have "ig_ids n ?g = map (\<lambda>i. (ig_next_id g + int (Suc i)) mod mx + 1) [0..<n]"
    unfolding Suc.IH [OF inv Suc.prems(2)] nxt
    using mod_add_left_eq [of "ig_next_id g" mx "1 + int i" for i] by (simp add: add.assoc)
  finally show ?case
    by (simp add: upt_conv_Cons map_Suc_upt [symmetric] del: upt_Suc map_Suc_upt)
qed simp

lemma mod_inj_window:
  assumes "0 < (mx::int)" "i < n" "j < n" "int n \<le> mx"
    and "(a + int i) mod mx = (a + int j) mod mx"
  shows "i = j"
proof -
  have "mx dvd (a + int i) - (a + int j)"
    using assms(5) by (simp add: mod_eq_dvd_iff)
  then have "mx dvd \<bar>int i - int j\<bar>" by simp
  moreover have "\<bar>int i - int j\<bar> < mx" using assms(2-4) by linarith
  ultimately have "int i - int j = 0"
    using zdvd_imp_le [of mx "\<bar>int i - int j\<bar>"] by linarith
  then show ?thesis by simp
qed

lemma ig_ids_distinct:
  assumes "ig_inv mx g" "0 < mx" "int n \<le> mx"
  shows "distinct (ig_ids n g)"
  unfolding ig_ids_cyclic [OF assms(1,2)]
  using mod_inj_window [OF assms(2) _ _ assms(3)]
  by (auto simp: distinct_map inj_on_def)

section \<open>Handlers\<close>

text \<open>\<open>'h\<close> is the type of \<^verbatim>\<open>Arc<dyn BrowserSideHandler>\<close>; a removed handler leaves a hole.\<close>

type_synonym handler_id = i32

record 'h handlers_deque =
  hd_offset :: i32
  hd_handlers :: "'h option list"

definition hd_default :: "'h handlers_deque" where
  "hd_default = \<lparr>hd_offset = 0, hd_handlers = []\<rparr>"

definition hd_add :: "'h \<Rightarrow> bool \<Rightarrow> 'h handlers_deque \<Rightarrow> handler_id option \<times> 'h handlers_deque" where
  "hd_add h first d =
     (if first then
        let off = i32_wrap (hd_offset d + 1)
        in (Some (i32_wrap (- off)), d\<lparr>hd_offset := off, hd_handlers := Some h # hd_handlers d\<rparr>)
      else
        case i32_try_from_usize (length (hd_handlers d)) of
          None \<Rightarrow> (None, d)
        | Some n \<Rightarrow> (Some (i32_wrap (n - hd_offset d)), d\<lparr>hd_handlers := hd_handlers d @ [Some h]\<rparr>))"

definition hd_index :: "handler_id \<Rightarrow> 'h handlers_deque \<Rightarrow> usize option" where
  "hd_index i d = usize_try_from_i32 (i32_wrap (i + hd_offset d))"

definition hd_get :: "handler_id \<Rightarrow> 'h handlers_deque \<Rightarrow> 'h option" where
  "hd_get i d =
     (case hd_index i d of
        None \<Rightarrow> None
      | Some n \<Rightarrow> if n < length (hd_handlers d) then hd_handlers d ! n else None)"

fun pop_front_n :: "nat \<Rightarrow> 'h handlers_deque \<Rightarrow> 'h handlers_deque" where
  "pop_front_n 0 d = d"
| "pop_front_n (Suc n) d =
     pop_front_n n (d\<lparr>hd_offset := i32_wrap (hd_offset d - 1), hd_handlers := drop 1 (hd_handlers d)\<rparr>)"

fun pop_back_n :: "nat \<Rightarrow> 'h handlers_deque \<Rightarrow> 'h handlers_deque" where
  "pop_back_n 0 d = d"
| "pop_back_n (Suc n) d = pop_back_n n (d\<lparr>hd_handlers := butlast (hd_handlers d)\<rparr>)"

definition hd_trim :: "'h handlers_deque \<Rightarrow> 'h handlers_deque" where
  "hd_trim d =
     (let trim_start = length (takeWhile (\<lambda>e. e = None) (hd_handlers d));
          d1 = pop_front_n trim_start d;
          trim_end = length (takeWhile (\<lambda>e. e = None) (rev (hd_handlers d1)))
      in pop_back_n trim_end d1)"

text \<open>
  The deque part of \<^verbatim>\<open>remove_handler\<close>: the handler that was at the id, if any, and
  the deque after taking it out and trimming the holes at both ends.
\<close>

definition hd_remove :: "handler_id \<Rightarrow> 'h handlers_deque \<Rightarrow> 'h option \<times> 'h handlers_deque" where
  "hd_remove i d =
     (case hd_index i d of
        None \<Rightarrow> (None, d)
      | Some n \<Rightarrow>
          if n < length (hd_handlers d)
          then (hd_handlers d ! n, hd_trim (d\<lparr>hd_handlers := (hd_handlers d)[n := None]\<rparr>))
          else (None, d))"

text \<open>The handlers with their ids, in the order a query is offered to them.\<close>

definition hd_candidates :: "'h handlers_deque \<Rightarrow> (handler_id \<times> 'h) list" where
  "hd_candidates d =
     List.map_filter
       (\<lambda>(n, e). Option.bind (i32_try_from_usize n)
                   (\<lambda>k. map_option (Pair (i32_wrap (k - hd_offset d))) e))
       (enumerate 0 (hd_handlers d))"

section \<open>What the deque keeps\<close>

text \<open>
  The reference view: the occupied slots with their ids, where the first slot has
  id \<open>- offset\<close>. The bound keeps every id and every index computation away from
  the wrap-around of \<open>i32\<close>: about a thousand million handlers.
\<close>

fun slots :: "int \<Rightarrow> 'h option list \<Rightarrow> (int \<times> 'h) list" where
  "slots i [] = []"
| "slots i (None # es) = slots (i + 1) es"
| "slots i (Some h # es) = (i, h) # slots (i + 1) es"

definition hd_fits :: "'h handlers_deque \<Rightarrow> bool" where
  "hd_fits d \<longleftrightarrow> \<bar>hd_offset d\<bar> + int (length (hd_handlers d)) < 1073741824"

definition hd_room :: "'h handlers_deque \<Rightarrow> bool" where
  "hd_room d \<longleftrightarrow> \<bar>hd_offset d\<bar> + int (length (hd_handlers d)) + 2 < 1073741824"

abbreviation hd_view :: "'h handlers_deque \<Rightarrow> (handler_id \<times> 'h) list" where
  "hd_view d \<equiv> slots (- hd_offset d) (hd_handlers d)"

lemma slots_append: "slots i (xs @ ys) = slots i xs @ slots (i + int (length xs)) ys"
  by (induction i xs rule: slots.induct) (auto simp: algebra_simps)

lemma slots_None: "\<forall>e \<in> set es. e = None \<Longrightarrow> slots i es = []"
  by (induction i es rule: slots.induct) auto

lemma slots_ids: "(j, h) \<in> set (slots i es) \<Longrightarrow> i \<le> j \<and> j < i + int (length es)"
  by (induction i es rule: slots.induct) force+

lemma slots_distinct: "distinct (map fst (slots i es))"
  by (induction i es rule: slots.induct) (auto dest: slots_ids)

lemma slots_update_None:
  "n < length es \<Longrightarrow> slots i (es[n := None]) = filter (\<lambda>e. fst e \<noteq> i + int n) (slots i es)"
proof (induction i es arbitrary: n rule: slots.induct)
  case (1 i)
  then show ?case by simp
next
  case (2 i es)
  have "filter (\<lambda>e. fst e \<noteq> i) (slots (i + 1) es) = slots (i + 1) es"
    by (intro filter_True) (auto dest: slots_ids)
  with 2 show ?case by (cases n) (auto simp: algebra_simps)
next
  case (3 i h es)
  have "filter (\<lambda>e. fst e \<noteq> i) (slots (i + 1) es) = slots (i + 1) es"
    by (intro filter_True) (auto dest: slots_ids)
  with 3 show ?case by (cases n) (auto simp: algebra_simps)
qed

lemma map_of_slots:
  "map_of (slots i es) j = (if i \<le> j \<and> j < i + int (length es) then es ! nat (j - i) else None)"
proof (induction i es rule: slots.induct)
  case (2 i es)
  have "nat (j - i) = Suc (nat (j - (i + 1)))" if "i < j" using that by simp
  with 2 show ?case by (cases "i = j") auto
next
  case (3 i h es)
  have "nat (j - i) = Suc (nat (j - (i + 1)))" if "i < j" using that by simp
  with 3 show ?case by (cases "i = j") auto
qed auto

lemma map_filter_slots:
  assumes "0 \<le> n" "int n + int (length es) < 1073741824" "\<bar>off\<bar> < 1073741824"
  shows "List.map_filter
           (\<lambda>(n, e). Option.bind (i32_try_from_usize n) (\<lambda>k. map_option (Pair (i32_wrap (k - off))) e))
           (enumerate n es) = slots (int n - off) es"
  using assms
proof (induction es arbitrary: n)
  case (Cons e es)
  have "i32_wrap (int n - off) = int n - off"
    using Cons.prems by (intro i32_wrap_id) (auto simp: is_i32_def)
  moreover have "slots (int (Suc n) - off) es = slots (int n - off + 1) es"
    by (simp add: algebra_simps)
  ultimately show ?case
    using Cons.IH [of "Suc n"] Cons.prems
    by (cases e) (auto simp: List.map_filter_simps i32_try_from_usize_def simp del: of_nat_Suc)
qed (simp add: List.map_filter_simps)

lemma hd_candidates_view: "hd_fits d \<Longrightarrow> hd_candidates d = hd_view d"
  using map_filter_slots [of 0 "hd_handlers d" "hd_offset d"]
  by (simp add: hd_candidates_def hd_fits_def)

text \<open>An id outside the occupied range wraps to nothing.\<close>

lemma hd_index_spec:
  assumes "hd_fits d" "is_i32 i"
  shows "(case hd_index i d of None \<Rightarrow> None | Some n \<Rightarrow> if n < length (hd_handlers d) then Some n else None) =
     (if 0 \<le> i + hd_offset d \<and> i + hd_offset d < int (length (hd_handlers d))
      then Some (nat (i + hd_offset d)) else None)"
proof -
  let ?x = "i + hd_offset d" and ?n = "int (length (hd_handlers d))"
  consider "is_i32 ?x" | "?x > 2147483647" | "?x < - 2147483648"
    unfolding is_i32_def by linarith
  then show ?thesis
  proof cases
    case 1
    then show ?thesis by (auto simp: hd_index_def i32_wrap_id usize_try_from_i32_def)
  next
    case 2
    then have "i32_wrap ?x = ?x - 4294967296"
      using assms by (intro i32_wrap_over) (auto simp: is_i32_def hd_fits_def)
    with 2 assms show ?thesis
      by (auto simp: hd_index_def usize_try_from_i32_def is_i32_def hd_fits_def)
  next
    case 3
    then have "i32_wrap ?x = ?x + 4294967296"
      using assms by (intro i32_wrap_under) (auto simp: is_i32_def hd_fits_def)
    with 3 assms show ?thesis
      by (auto simp: hd_index_def usize_try_from_i32_def is_i32_def hd_fits_def)
  qed
qed

lemma hd_get_view: "hd_fits d \<Longrightarrow> is_i32 i \<Longrightarrow> hd_get i d = map_of (hd_view d) i"
  using hd_index_spec [of d i]
  by (auto simp: hd_get_def map_of_slots add.commute split: option.splits if_splits)

lemma pop_front_n_spec:
  assumes "hd_fits d" "n \<le> length (hd_handlers d)"
  shows "pop_front_n n d =
           d\<lparr>hd_offset := hd_offset d - int n, hd_handlers := drop n (hd_handlers d)\<rparr>"
  using assms
proof (induction n arbitrary: d)
  case (Suc n)
  let ?d = "d\<lparr>hd_offset := hd_offset d - 1, hd_handlers := drop 1 (hd_handlers d)\<rparr>"
  have "i32_wrap (hd_offset d - 1) = hd_offset d - 1"
    using Suc.prems by (intro i32_wrap_id) (auto simp: is_i32_def hd_fits_def)
  then have "pop_front_n (Suc n) d = pop_front_n n ?d" by simp
  also have "\<dots> = ?d\<lparr>hd_offset := hd_offset ?d - int n, hd_handlers := drop n (hd_handlers ?d)\<rparr>"
    using Suc.prems by (intro Suc.IH) (auto simp: hd_fits_def)
  finally show ?case by simp
qed simp

lemma pop_back_n_spec:
  "pop_back_n n d = d\<lparr>hd_handlers := take (length (hd_handlers d) - n) (hd_handlers d)\<rparr>"
  by (induction n arbitrary: d) (auto simp: butlast_conv_take min_def)

text \<open>Trimming drops holes only: the view is the same, and both ends are occupied.\<close>

lemma hd_trim_eq:
  assumes "hd_fits d"
  defines "es \<equiv> hd_handlers d"
  defines "mid \<equiv> dropWhile (\<lambda>e. e = None) es"
  shows "hd_trim d =
           d\<lparr>hd_offset := hd_offset d - int (length (takeWhile (\<lambda>e. e = None) es)),
             hd_handlers := rev (dropWhile (\<lambda>e. e = None) (rev mid))\<rparr>"
proof -
  let ?n = "length (takeWhile (\<lambda>e. e = None) es)"
  have n: "?n \<le> length (hd_handlers d)" by (simp add: es_def length_takeWhile_le)
  have d1: "pop_front_n ?n d = d\<lparr>hd_offset := hd_offset d - int ?n, hd_handlers := mid\<rparr>"
    using pop_front_n_spec [OF assms(1) n] by (simp add: mid_def es_def dropWhile_eq_drop)
  have "take (length mid - length (takeWhile (\<lambda>e. e = None) (rev mid))) mid
          = rev (dropWhile (\<lambda>e. e = None) (rev mid))"
    by (metis dropWhile_eq_drop rev_drop rev_rev_ident length_rev)
  with d1 show ?thesis by (simp add: hd_trim_def pop_back_n_spec Let_def es_def [symmetric])
qed

lemma slots_trim:
  "slots (i + int (length (takeWhile (\<lambda>e. e = None) es)))
     (rev (dropWhile (\<lambda>e. e = None) (rev (dropWhile (\<lambda>e. e = None) es)))) = slots i es"
proof -
  let ?N = "\<lambda>e. e = None" and ?mid = "dropWhile (\<lambda>e. e = None) es"
  have "slots i es = slots (i + int (length (takeWhile ?N es))) ?mid"
    using slots_append [of i "takeWhile ?N es" ?mid] slots_None [of "takeWhile ?N es" i]
    by (auto dest: set_takeWhileD)
  moreover have "slots j ?mid = slots j (rev (dropWhile ?N (rev ?mid)))" for j
  proof -
    have split: "?mid = rev (dropWhile ?N (rev ?mid)) @ rev (takeWhile ?N (rev ?mid))"
      by (metis rev_append rev_rev_ident takeWhile_dropWhile_id)
    have "slots k (rev (takeWhile ?N (rev ?mid))) = []" for k
      by (intro slots_None) (auto dest: set_takeWhileD)
    then show ?thesis by (subst split) (simp add: slots_append)
  qed
  ultimately show ?thesis by simp
qed

lemma hd_trim_view: "hd_fits d \<Longrightarrow> hd_view (hd_trim d) = hd_view d"
  using slots_trim [of "- hd_offset d" "hd_handlers d"] by (simp add: hd_trim_eq algebra_simps)

lemma hd_trim_fits:
  assumes "hd_fits d"
  shows "hd_fits (hd_trim d)"
proof -
  let ?N = "\<lambda>e. e = None" and ?es = "hd_handlers d"
  have "length (takeWhile ?N ?es) + length (dropWhile ?N ?es) = length ?es"
    by (metis length_append takeWhile_dropWhile_id)
  moreover have "length (dropWhile ?N (rev (dropWhile ?N ?es))) \<le> length (dropWhile ?N ?es)"
    by (metis length_dropWhile_le length_rev)
  ultimately show ?thesis
    using assms by (simp add: hd_trim_eq hd_fits_def)
qed

lemma hd_trim_ends:
  assumes "hd_fits d" "hd_handlers (hd_trim d) \<noteq> []"
  shows "last (hd_handlers (hd_trim d)) \<noteq> None" "hd (hd_handlers (hd_trim d)) \<noteq> None"
proof -
  let ?N = "\<lambda>e. e = None" and ?mid = "dropWhile (\<lambda>e. e = None) (hd_handlers d)"
  let ?r = "dropWhile ?N (rev ?mid)"
  have r: "?r \<noteq> []" "hd_handlers (hd_trim d) = rev ?r" using assms by (auto simp: hd_trim_eq)
  then show "last (hd_handlers (hd_trim d)) \<noteq> None"
    using hd_dropWhile [of ?N "rev ?mid"] by (simp add: last_rev)
  have mid: "?mid = rev ?r @ rev (takeWhile ?N (rev ?mid))"
    by (metis rev_append rev_rev_ident takeWhile_dropWhile_id)
  then have "?mid \<noteq> []" using r(1) by (metis append_is_Nil_conv rev_is_Nil_conv)
  then have "hd ?mid \<noteq> None" by (rule hd_dropWhile)
  then show "hd (hd_handlers (hd_trim d)) \<noteq> None"
    using r mid by (metis hd_append rev_is_Nil_conv)
qed

lemma hd_add_spec:
  assumes "hd_room d"
  shows "\<exists>i. fst (hd_add h first d) = Some i \<and> is_i32 i \<and> hd_fits (snd (hd_add h first d))
           \<and> i \<notin> fst ` set (hd_view d)
           \<and> hd_view (snd (hd_add h first d)) = (if first then (i, h) # hd_view d else hd_view d @ [(i, h)])"
proof (cases first)
  case True
  have "i32_wrap (hd_offset d + 1) = hd_offset d + 1" "i32_wrap (- (hd_offset d + 1)) = - (hd_offset d + 1)"
    using assms by (auto simp: is_i32_def hd_room_def intro!: i32_wrap_id)
  with True assms show ?thesis
    by (auto simp: hd_add_def Let_def hd_room_def hd_fits_def is_i32_def dest: slots_ids)
next
  case False
  let ?n = "int (length (hd_handlers d))"
  have "i32_wrap (?n - hd_offset d) = ?n - hd_offset d"
    using assms by (auto simp: is_i32_def hd_room_def intro!: i32_wrap_id)
  with False assms show ?thesis
    by (auto simp: hd_add_def i32_try_from_usize_def hd_room_def hd_fits_def is_i32_def
        slots_append algebra_simps dest: slots_ids)
qed

lemma hd_remove_spec:
  assumes "hd_fits d" "is_i32 i"
  shows "fst (hd_remove i d) = map_of (hd_view d) i"
    and "hd_view (snd (hd_remove i d)) = filter (\<lambda>e. fst e \<noteq> i) (hd_view d)"
    and "hd_fits (snd (hd_remove i d))"
proof -
  let ?x = "i + hd_offset d"
  have "fst (hd_remove i d) = map_of (hd_view d) i
      \<and> hd_view (snd (hd_remove i d)) = filter (\<lambda>e. fst e \<noteq> i) (hd_view d)
      \<and> hd_fits (snd (hd_remove i d))"
  proof (cases "0 \<le> ?x \<and> ?x < int (length (hd_handlers d))")
    case True
    let ?d = "d\<lparr>hd_handlers := (hd_handlers d)[nat ?x := None]\<rparr>"
    have idx: "hd_index i d = Some (nat ?x)" "nat ?x < length (hd_handlers d)"
      using hd_index_spec [OF assms] True by (auto split: option.splits if_splits)
    have fits: "hd_fits ?d" using assms(1) by (simp add: hd_fits_def)
    have "hd_view ?d = filter (\<lambda>e. fst e \<noteq> - hd_offset d + int (nat ?x)) (hd_view d)"
      using slots_update_None [OF idx(2), of "- hd_offset d"] by simp
    moreover have "- hd_offset d + int (nat ?x) = i" using True by simp
    ultimately have "hd_view (hd_trim ?d) = filter (\<lambda>e. fst e \<noteq> i) (hd_view d)"
      using hd_trim_view [OF fits] by simp
    with idx fits True show ?thesis
      by (simp add: hd_remove_def hd_trim_fits map_of_slots add.commute)
  next
    case False
    have "hd_remove i d = (None, d)"
      using hd_index_spec [OF assms] False by (auto simp: hd_remove_def split: option.splits if_splits)
    moreover have "filter (\<lambda>e. fst e \<noteq> i) (hd_view d) = hd_view d"
      using False by (intro filter_True) (force dest: slots_ids)
    ultimately show ?thesis using False assms(1) by (auto simp: map_of_slots)
  qed
  then show "fst (hd_remove i d) = map_of (hd_view d) i"
    and "hd_view (snd (hd_remove i d)) = filter (\<lambda>e. fst e \<noteq> i) (hd_view d)"
    and "hd_fits (snd (hd_remove i d))" by auto
qed

section \<open>The handler registry contract\<close>

text \<open>
  What the browser side promises about handler ids: an id is the handler's as
  long as it is registered, whatever is added or removed around it.
\<close>

locale handler_registry =
  fixes view :: "'d \<Rightarrow> (handler_id \<times> 'h) list"
    and add :: "'h \<Rightarrow> bool \<Rightarrow> 'd \<Rightarrow> handler_id option \<times> 'd"
    and remove :: "handler_id \<Rightarrow> 'd \<Rightarrow> 'h option \<times> 'd"
    and get :: "handler_id \<Rightarrow> 'd \<Rightarrow> 'h option"
    and inv room :: "'d \<Rightarrow> bool"
  assumes room_inv: "room d \<Longrightarrow> inv d"
    and ids_distinct: "distinct (map fst (view d))"
    and add_law: "room d \<Longrightarrow> \<exists>i. fst (add h first d) = Some i \<and> is_i32 i \<and> inv (snd (add h first d))
           \<and> i \<notin> fst ` set (view d)
           \<and> view (snd (add h first d)) = (if first then (i, h) # view d else view d @ [(i, h)])"
    and remove_law: "inv d \<Longrightarrow> is_i32 i \<Longrightarrow> fst (remove i d) = map_of (view d) i"
      "inv d \<Longrightarrow> is_i32 i \<Longrightarrow> view (snd (remove i d)) = filter (\<lambda>e. fst e \<noteq> i) (view d)"
      "inv d \<Longrightarrow> is_i32 i \<Longrightarrow> inv (snd (remove i d))"
    and get_law: "inv d \<Longrightarrow> is_i32 i \<Longrightarrow> get i d = map_of (view d) i"
begin

lemma get_added:
  assumes "room d" "add h first d = (Some i, d')"
  shows "get i d' = Some h"
    and "is_i32 j \<Longrightarrow> j \<noteq> i \<Longrightarrow> get j d' = get j d"
proof -
  have law: "is_i32 i" "inv d'" "i \<notin> fst ` set (view d)"
      "view d' = (if first then (i, h) # view d else view d @ [(i, h)])"
    using add_law [OF assms(1), of h first] assms(2) by auto
  show "get i d' = Some h"
    using law by (auto simp: get_law map_add_def map_of_eq_None_iff [THEN iffD2] split: option.splits)
  show "get j d' = get j d" if "is_i32 j" "j \<noteq> i"
    using law that room_inv [OF assms(1)] by (auto simp: get_law map_add_def split: option.splits)
qed

lemma add_remove_cancel:
  assumes "room d" "add h first d = (Some i, d')"
  shows "fst (remove i d') = Some h" "view (snd (remove i d')) = view d"
proof -
  have law: "is_i32 i" "inv d'" "i \<notin> fst ` set (view d)"
      "view d' = (if first then (i, h) # view d else view d @ [(i, h)])"
    using add_law [OF assms(1), of h first] assms(2) by auto
  have "filter (\<lambda>e. fst e \<noteq> i) (view d) = view d"
    using law(3) by (intro filter_True) (metis imageI)
  with law show "view (snd (remove i d')) = view d" by (simp add: remove_law)
  show "fst (remove i d') = Some h"
    using law get_added(1) [OF assms] by (simp add: remove_law get_law)
qed

lemma removed_gone:
  assumes "inv d" "is_i32 i"
  shows "get i (snd (remove i d)) = None"
    and "is_i32 j \<Longrightarrow> j \<noteq> i \<Longrightarrow> get j (snd (remove i d)) = get j d"
  using assms by (simp_all add: get_law remove_law map_of_filter_neq)

end

interpretation hdr: handler_registry
  "\<lambda>d. slots (- hd_offset d) (hd_handlers d)" hd_add hd_remove hd_get hd_fits hd_room
proof
  fix d :: "'h handlers_deque" and i h first
  show "hd_room d \<Longrightarrow> hd_fits d" by (simp add: hd_room_def hd_fits_def)
  show "distinct (map fst (hd_view d))" by (rule slots_distinct)
  show "hd_room d \<Longrightarrow> \<exists>i. fst (hd_add h first d) = Some i \<and> is_i32 i \<and> hd_fits (snd (hd_add h first d))
           \<and> i \<notin> fst ` set (hd_view d)
           \<and> hd_view (snd (hd_add h first d)) = (if first then (i, h) # hd_view d else hd_view d @ [(i, h)])"
    by (rule hd_add_spec)
qed (simp_all add: hd_remove_spec hd_get_view)

section \<open>Properties\<close>

text \<open>
  Property C18. The id generator hands out \<open>1, 2, \<dots>, max\<close> and then starts over: the
  ids of any \<open>n\<close> calls are all between \<open>1\<close> and \<open>max\<close> (never the reserved id, and
  within the integer type, so the increment never overflows), and any \<open>max\<close>
  consecutive ids are distinct.
\<close>

theorem id_generator_cycles:
  assumes "0 < mx"
  shows "ig_ids n (ig_new mx) = map (\<lambda>i. int i mod mx + 1) [0..<n]
    \<and> (\<forall>i \<in> set (ig_ids n (ig_new mx)). RESERVED_ID < i \<and> i \<le> mx)
    \<and> (int n \<le> mx \<longrightarrow> distinct (ig_ids n (ig_new mx)))"
proof -
  have inv: "ig_inv mx (ig_new mx)" using assms by (simp add: ig_inv_new)
  have eq: "ig_ids n (ig_new mx) = map (\<lambda>i. int i mod mx + 1) [0..<n]"
    using ig_ids_cyclic [OF inv assms] by (simp add: ig_new_def RESERVED_ID_def)
  moreover have "0 \<le> int i mod mx" "int i mod mx < mx" for i using assms by simp_all
  then have "\<forall>i \<in> set (ig_ids n (ig_new mx)). RESERVED_ID < i \<and> i \<le> mx"
    unfolding eq by (auto simp: RESERVED_ID_def add_pos_nonneg add1_zle_eq)
  ultimately show ?thesis using ig_ids_distinct [OF inv assms] by blast
qed

theorem id_generator_cycles_witness:
  "ig_ids 4 (ig_new 3) = [1, 2, 3, 1] \<and> distinct (ig_ids 3 (ig_new 3))"
  using id_generator_cycles [of 3 4] id_generator_cycles [of 3 3] by (simp add: upt_rec)

lemma hd_remove_any:
  assumes "hd_fits d" "is_i32 j"
  shows "fst (hd_remove j d) = hd_get j d"
    and "hd_candidates (snd (hd_remove j d)) = filter (\<lambda>e. fst e \<noteq> j) (hd_candidates d)"
    and "is_i32 k \<Longrightarrow> hd_get k (snd (hd_remove j d)) = (if k = j then None else hd_get k d)"
proof -
  have fits: "hd_fits (snd (hd_remove j d))" using assms by (simp add: hd_remove_spec)
  show "fst (hd_remove j d) = hd_get j d" using assms by (simp add: hd_remove_spec hd_get_view)
  show "hd_candidates (snd (hd_remove j d)) = filter (\<lambda>e. fst e \<noteq> j) (hd_candidates d)"
    using assms fits by (simp add: hd_remove_spec hd_candidates_view)
  have "map_of (filter (\<lambda>e. fst e \<noteq> j) xs) k = (if k = j then None else map_of xs k)" for xs :: "(handler_id \<times> 'a) list"
    by (induction xs) auto
  then show "hd_get k (snd (hd_remove j d)) = (if k = j then None else hd_get k d)" if "is_i32 k"
    using assms fits that by (simp add: hd_remove_spec hd_get_view)
qed

text \<open>
  Property C12. Registering a handler, at the front or at the back, returns an id
  that no registered handler has and puts it first or last in the order in which
  queries are offered, and every other id keeps naming the handler it named; removing
  that id gives the handler back and restores the order exactly. Removing any id,
  wherever its handler stands in the deque, gives its handler back if it has one, takes
  exactly that handler out of the order, and every other id keeps naming the handler it
  named. This holds in every deque that is not within two of a thousand million handlers.
\<close>

theorem handler_ids_stable:
  assumes "hd_room d" "hd_add h first d = (Some i, d')"
  shows "i \<notin> fst ` set (hd_candidates d)
    \<and> hd_candidates d' = (if first then (i, h) # hd_candidates d else hd_candidates d @ [(i, h)])
    \<and> hd_get i d' = Some h \<and> (\<forall>j. is_i32 j \<and> j \<noteq> i \<longrightarrow> hd_get j d' = hd_get j d)
    \<and> fst (hd_remove i d') = Some h \<and> hd_candidates (snd (hd_remove i d')) = hd_candidates d
    \<and> (\<forall>x \<in> {d, d'}. \<forall>j. is_i32 j \<longrightarrow> fst (hd_remove j x) = hd_get j x
         \<and> hd_candidates (snd (hd_remove j x)) = filter (\<lambda>e. fst e \<noteq> j) (hd_candidates x)
         \<and> (\<forall>k. is_i32 k \<longrightarrow> hd_get k (snd (hd_remove j x)) = (if k = j then None else hd_get k x)))"
proof -
  have fits: "hd_fits d" "hd_fits d'" "is_i32 i" "i \<notin> fst ` set (hd_view d)"
      "hd_view d' = (if first then (i, h) # hd_view d else hd_view d @ [(i, h)])"
    using hdr.add_law [OF assms(1), of h first] assms hdr.room_inv by auto
  have "hd_fits (snd (hd_remove i d'))" using fits by (simp add: hd_remove_spec)
  with fits hdr.get_added [OF assms] hdr.add_remove_cancel [OF assms]
  have "i \<notin> fst ` set (hd_candidates d)
    \<and> hd_candidates d' = (if first then (i, h) # hd_candidates d else hd_candidates d @ [(i, h)])
    \<and> hd_get i d' = Some h \<and> (\<forall>j. is_i32 j \<and> j \<noteq> i \<longrightarrow> hd_get j d' = hd_get j d)
    \<and> fst (hd_remove i d') = Some h \<and> hd_candidates (snd (hd_remove i d')) = hd_candidates d"
    by (simp add: hd_candidates_view)
  moreover have "\<forall>x \<in> {d, d'}. \<forall>j. is_i32 j \<longrightarrow> fst (hd_remove j x) = hd_get j x
         \<and> hd_candidates (snd (hd_remove j x)) = filter (\<lambda>e. fst e \<noteq> j) (hd_candidates x)
         \<and> (\<forall>k. is_i32 k \<longrightarrow> hd_get k (snd (hd_remove j x)) = (if k = j then None else hd_get k x))"
    using fits(1,2) by (simp add: hd_remove_any)
  ultimately show ?thesis by blast
qed

text \<open>Three handlers, of which the middle one is removed.\<close>

theorem handler_ids_stable_witness:
  "\<exists>d. hd_add (9::nat) False (snd (hd_add 7 True (snd (hd_add 5 False hd_default)))) = (Some 1, d)
     \<and> hd_candidates d = [(-1, 7), (0, 5), (1, 9)]
     \<and> hd_get 1 (snd (hd_remove 0 d)) = Some 9 \<and> hd_get (-1) (snd (hd_remove 0 d)) = Some 7"
proof -
  let ?d = "snd (hd_add (7::nat) True (snd (hd_add 5 False hd_default)))"
  have d: "hd_room ?d" "hd_add 9 False ?d = (Some 1, snd (hd_add 9 False ?d))"
    "hd_candidates ?d = [(-1, 7), (0, 5)]" "hd_get (-1) ?d = Some 7"
    by (simp_all add: hd_room_def hd_add_def hd_default_def i32_try_from_usize_def i32_wrap_def hd_candidates_def
        List.map_filter_simps hd_get_def hd_index_def usize_try_from_i32_def)
  from handler_ids_stable [OF d(1,2)] d show ?thesis
    by (intro exI [of _ "snd (hd_add 9 False ?d)"]) (simp add: is_i32_def)
qed

end
