(* ===== verification/Process_Messages.thy ===== *)
theory Process_Messages
  imports Prelude
begin

text \<open>
  The values the routers exchange with libcef, from \<^verbatim>\<open>libcef/common/values_impl.cc\<close>,
  \<^verbatim>\<open>process_message_impl.cc\<close> and \<^verbatim>\<open>process_message_smr_impl.cc\<close>: list values, process
  messages with an argument list or a shared memory region, and the JavaScript
  values a query is made of. What libcef does that the sources here do not show
  (allocating, converting between UTF-8 and UTF-16 by Chromium's base library) is
  the parameter \<open>cef_env\<close>.
\<close>

type_synonym u16 = "16 word"
type_synonym utf8 = "u8 list"
type_synonym utf16 = "u16 list"

text \<open>
  The environment: whether a process message can be created, whether a shared
  memory region of a size can be allocated and mapped, and the two conversions of
  non-empty text.
\<close>

record cef_env =
  env_create_ok :: bool
  env_shm_ok :: "usize \<Rightarrow> bool"
  env_to_utf16 :: "utf8 \<Rightarrow> utf16"
  env_to_utf8 :: "utf16 \<Rightarrow> utf8"

section \<open>UTF-8\<close>

text \<open>The well-formed byte sequences that \<^verbatim>\<open>String::from_utf8\<close> accepts.\<close>

definition utf8_cont :: "u8 \<Rightarrow> bool" where
  "utf8_cont b \<longleftrightarrow> 0x80 \<le> b \<and> b \<le> 0xBF"

fun utf8_valid :: "utf8 \<Rightarrow> bool" where
  "utf8_valid [] = True"
| "utf8_valid (b # bs) =
     (if b \<le> 0x7F then utf8_valid bs
      else if 0xC2 \<le> b \<and> b \<le> 0xDF then
        (case bs of c1 # rest \<Rightarrow> utf8_cont c1 \<and> utf8_valid rest | _ \<Rightarrow> False)
      else if 0xE0 \<le> b \<and> b \<le> 0xEF then
        (case bs of
           c1 # c2 # rest \<Rightarrow>
             utf8_cont c1 \<and> (b = 0xE0 \<longrightarrow> 0xA0 \<le> c1) \<and> (b = 0xED \<longrightarrow> c1 \<le> 0x9F) \<and>
             utf8_cont c2 \<and> utf8_valid rest
         | _ \<Rightarrow> False)
      else if 0xF0 \<le> b \<and> b \<le> 0xF4 then
        (case bs of
           c1 # c2 # c3 # rest \<Rightarrow>
             utf8_cont c1 \<and> (b = 0xF0 \<longrightarrow> 0x90 \<le> c1) \<and> (b = 0xF4 \<longrightarrow> c1 \<le> 0x8F) \<and>
             utf8_cont c2 \<and> utf8_cont c3 \<and> utf8_valid rest
         | _ \<Rightarrow> False)
      else False)"

text \<open>
  \<^verbatim>\<open>CefString::from(&CefStringUtf8)\<close> and \<^verbatim>\<open>CefStringUtf8::from(&CefString)\<close>: an empty or
  null string converts to a null string without a call of libcef.
\<close>

definition cef_string_from_utf8 :: "cef_env \<Rightarrow> utf8 \<Rightarrow> utf16" where
  "cef_string_from_utf8 env s = (if s = [] then [] else env_to_utf16 env s)"

definition utf8_from_cef_string :: "cef_env \<Rightarrow> utf16 \<Rightarrow> utf8" where
  "utf8_from_cef_string env w = (if w = [] then [] else env_to_utf8 env w)"

text \<open>
  What the wrapper relies on: converting well-formed text there and back gives the
  same text, and does not make it empty.
\<close>

definition env_text_ok :: "cef_env \<Rightarrow> bool" where
  "env_text_ok env \<longleftrightarrow>
     (\<forall>s. utf8_valid s \<and> s \<noteq> [] \<longrightarrow> env_to_utf16 env s \<noteq> [] \<and> env_to_utf8 env (env_to_utf16 env s) = s)"

lemma utf8_there_and_back:
  "env_text_ok env \<Longrightarrow> utf8_valid s \<Longrightarrow> utf8_from_cef_string env (cef_string_from_utf8 env s) = s"
  by (auto simp: env_text_ok_def cef_string_from_utf8_def utf8_from_cef_string_def)

section \<open>List values\<close>

datatype cef_value = VNull | VBool bool | VInt i32 | VString utf8 | VBinary "u8 list"

datatype value_type = VTYPE_INVALID | VTYPE_NULL | VTYPE_BOOL | VTYPE_INT | VTYPE_STRING | VTYPE_BINARY

type_synonym list_value = "cef_value list"

definition lv_set :: "usize \<Rightarrow> cef_value \<Rightarrow> list_value \<Rightarrow> list_value" where
  "lv_set i v l =
     (if i < length l then l[i := v]
      else (l @ replicate (Suc i - length l) VNull)[i := v])"

definition lv_get_type :: "usize \<Rightarrow> list_value \<Rightarrow> value_type" where
  "lv_get_type i l =
     (if i < length l then
        (case l ! i of
           VNull \<Rightarrow> VTYPE_NULL | VBool _ \<Rightarrow> VTYPE_BOOL | VInt _ \<Rightarrow> VTYPE_INT
         | VString _ \<Rightarrow> VTYPE_STRING | VBinary _ \<Rightarrow> VTYPE_BINARY)
      else VTYPE_INVALID)"

definition lv_int :: "usize \<Rightarrow> list_value \<Rightarrow> i32" where
  "lv_int i l = (if i < length l then (case l ! i of VInt x \<Rightarrow> x | _ \<Rightarrow> 0) else 0)"

definition lv_bool :: "usize \<Rightarrow> list_value \<Rightarrow> bool" where
  "lv_bool i l = (if i < length l then (case l ! i of VBool x \<Rightarrow> x | _ \<Rightarrow> False) else False)"

definition lv_string :: "cef_env \<Rightarrow> usize \<Rightarrow> list_value \<Rightarrow> utf16" where
  "lv_string env i l =
     (if i < length l
      then (case l ! i of VString s \<Rightarrow> cef_string_from_utf8 env s | _ \<Rightarrow> []) else [])"

definition lv_binary :: "usize \<Rightarrow> list_value \<Rightarrow> u8 list option" where
  "lv_binary i l = (if i < length l then (case l ! i of VBinary x \<Rightarrow> Some x | _ \<Rightarrow> None) else None)"

definition lv_set_string :: "cef_env \<Rightarrow> usize \<Rightarrow> utf16 \<Rightarrow> list_value \<Rightarrow> list_value" where
  "lv_set_string env i w l = lv_set i (VString (utf8_from_cef_string env w)) l"

text \<open>The C interface drops a null binary value without storing anything.\<close>

definition lv_set_binary :: "usize \<Rightarrow> u8 list option \<Rightarrow> list_value \<Rightarrow> list_value" where
  "lv_set_binary i b l = (case b of None \<Rightarrow> l | Some x \<Rightarrow> lv_set i (VBinary x) l)"

definition binary_value_create :: "u8 list \<Rightarrow> u8 list option" where
  "binary_value_create bs = (if bs = [] then None else Some bs)"

named_theorems lv_simps \<open>evaluation of list values\<close>

lemma lv_set_append [lv_simps]: "i = length l \<Longrightarrow> lv_set i v l = l @ [v]"
  by (simp add: lv_set_def)

lemmas lv_defs = lv_get_type_def lv_int_def lv_bool_def lv_string_def lv_binary_def
  lv_set_string_def lv_set_binary_def

section \<open>Process messages\<close>

text \<open>
  A message carries an argument list or a shared memory region, never both; a
  received region may fail to map.
\<close>

datatype process_message =
    ListMessage (pm_name: string) (pm_args: list_value)
  | SharedMessage (pm_name: string) (pm_region: "u8 list") (pm_region_valid: bool)

definition process_message_create :: "cef_env \<Rightarrow> string \<Rightarrow> process_message option" where
  "process_message_create env name = (if env_create_ok env then Some (ListMessage name []) else None)"

fun argument_list :: "process_message \<Rightarrow> list_value option" where
  "argument_list (ListMessage name args) = Some args"
| "argument_list (SharedMessage name region valid) = None"

text \<open>\<^verbatim>\<open>message.shared_memory_region().filter(|region| region.is_valid() != 0)\<close>\<close>

fun valid_region :: "process_message \<Rightarrow> u8 list option" where
  "valid_region (ListMessage name args) = None"
| "valid_region (SharedMessage name region valid) = (if valid then Some region else None)"

section \<open>JavaScript values\<close>

text \<open>
  As the V8 interface shows them: reading a property an object does not have gives
  \<open>undefined\<close>, and a property whose getter throws gives nothing.
\<close>

datatype v8_value =
    V8Undefined
  | V8Bool bool
  | V8Int i32
  | V8String utf16
  | V8ArrayBuffer "u8 list"
  | V8Function nat
  | V8Object "(string \<times> v8_value option) list"

fun v8_value_bykey :: "string \<Rightarrow> v8_value \<Rightarrow> v8_value option" where
  "v8_value_bykey key (V8Object props) =
     (case map_of props key of None \<Rightarrow> Some V8Undefined | Some p \<Rightarrow> p)"
| "v8_value_bykey key (V8ArrayBuffer bs) = Some V8Undefined"
| "v8_value_bykey key (V8Function f) = Some V8Undefined"
| "v8_value_bykey key _ = None"

fun v8_is_function :: "v8_value \<Rightarrow> bool" where
  "v8_is_function (V8Function f) = True"
| "v8_is_function _ = False"

fun v8_is_object :: "v8_value \<Rightarrow> bool" where
  "v8_is_object (V8Object ps) = True"
| "v8_is_object (V8ArrayBuffer bs) = True"
| "v8_is_object (V8Function f) = True"
| "v8_is_object _ = False"

end
