(* ===== verification/Message_Router_Utils.thy ===== *)
theory Message_Router_Utils
  imports Process_Messages
begin

text \<open>
  \<^verbatim>\<open>cef/src/wrapper/message_router_utils.rs\<close>: how a query and its response travel
  between the renderer and the browser process. A payload below the configured
  threshold goes into an argument list; a larger one goes into a shared memory
  region that starts with a fixed-size header. Both processes run on the same
  little-endian machine, so \<^verbatim>\<open>to_ne_bytes\<close> is little-endian.
\<close>

section \<open>Payloads\<close>

definition NO_ERROR :: i32 where "NO_ERROR = 0"

definition CONTEXT_ID :: usize where "CONTEXT_ID = 0"

definition REQUEST_ID :: usize where "REQUEST_ID = 1"

definition RENDERER_PAYLOAD :: usize where "RENDERER_PAYLOAD = 2"

definition IS_SUCCESS :: usize where "IS_SUCCESS = 2"

definition BROWSER_PAYLOAD :: usize where "BROWSER_PAYLOAD = 3"

definition IS_PERSISTENT :: usize where "IS_PERSISTENT = 3"

lemmas index_defs = CONTEXT_ID_def REQUEST_ID_def RENDERER_PAYLOAD_def IS_SUCCESS_def
  BROWSER_PAYLOAD_def IS_PERSISTENT_def

datatype message_payload = PEmpty | PString utf8 | PBinary "u8 list"

fun payload_size :: "message_payload \<Rightarrow> usize" where
  "payload_size PEmpty = 0"
| "payload_size (PString s) = length s"
| "payload_size (PBinary b) = length b"

definition read_string :: "u8 list \<Rightarrow> message_payload" where
  "read_string buffer = (if utf8_valid buffer then PString buffer else PEmpty)"

text \<open>What \<^verbatim>\<open>MessagePayload::write\<close> puts into the buffer.\<close>

fun payload_write :: "message_payload \<Rightarrow> u8 list" where
  "payload_write (PString s) = s"
| "payload_write (PBinary b) = b"
| "payload_write PEmpty = []"

definition payload_from_cef_string :: "cef_env \<Rightarrow> utf16 \<Rightarrow> message_payload" where
  "payload_from_cef_string env w = PString (utf8_from_cef_string env w)"

definition payload_from_str :: "utf8 \<Rightarrow> message_payload" where
  "payload_from_str s = PString s"

text \<open>\<^verbatim>\<open>From<Option<&V8Value>>\<close>: the data of an array buffer, unless it is null or empty.\<close>

fun payload_from_v8 :: "v8_value option \<Rightarrow> message_payload" where
  "payload_from_v8 (Some (V8ArrayBuffer data)) =
     (case (if data = [] then None else binary_value_create data) of
        None \<Rightarrow> PEmpty | Some b \<Rightarrow> PBinary b)"
| "payload_from_v8 _ = PEmpty"

definition payload_from_bytes :: "u8 list \<Rightarrow> message_payload" where
  "payload_from_bytes data =
     (if data = [] then PEmpty
      else PBinary (case binary_value_create data of None \<Rightarrow> [] | Some b \<Rightarrow> b))"

section \<open>Headers\<close>

definition i32_to_ne_bytes :: "i32 \<Rightarrow> u8 list" where
  "i32_to_ne_bytes x =
     [word_of_int x, word_of_int (x div 256), word_of_int (x div 65536), word_of_int (x div 16777216)]"

definition i32_from_ne_bytes :: "u8 \<Rightarrow> u8 \<Rightarrow> u8 \<Rightarrow> u8 \<Rightarrow> i32" where
  "i32_from_ne_bytes a b c d = i32_wrap (uint a + 256 * uint b + 65536 * uint c + 16777216 * uint d)"

text \<open>\<^verbatim>\<open>read_exact\<close> of an \<open>i32\<close> and of a flag byte; \<open>None\<close> is the I/O error at the end of the buffer.\<close>

fun read_i32 :: "u8 list \<Rightarrow> (i32 \<times> u8 list) option" where
  "read_i32 (a # b # c # d # rest) = Some (i32_from_ne_bytes a b c d, rest)"
| "read_i32 _ = None"

fun read_flag :: "u8 list \<Rightarrow> (bool \<times> u8 list) option" where
  "read_flag (a # rest) = Some (a \<noteq> 0, rest)"
| "read_flag [] = None"

definition write_flag :: "bool \<Rightarrow> u8 list" where
  "write_flag b = [if b then 1 else 0]"

record browser_message_header =
  bh_context_id :: i32
  bh_request_id :: i32
  bh_is_binary :: bool

definition BH_SIZE :: usize where
  "BH_SIZE = 4 * 2 + 1"

definition bh_new :: "i32 \<Rightarrow> i32 \<Rightarrow> bool \<Rightarrow> browser_message_header" where
  "bh_new context_id request_id is_binary =
     \<lparr>bh_context_id = context_id, bh_request_id = request_id, bh_is_binary = is_binary\<rparr>"

definition bh_default :: browser_message_header where
  "bh_default = bh_new 0 0 False"

definition bh_read :: "u8 list \<Rightarrow> (browser_message_header \<times> u8 list) option" where
  "bh_read f =
     Option.bind (read_i32 f) (\<lambda>(context_id, f).
     Option.bind (read_i32 f) (\<lambda>(request_id, f).
     Option.bind (read_flag f) (\<lambda>(is_binary, f).
       Some (\<lparr>bh_context_id = context_id, bh_request_id = request_id, bh_is_binary = is_binary\<rparr>, f))))"

definition bh_write :: "browser_message_header \<Rightarrow> u8 list" where
  "bh_write h =
     i32_to_ne_bytes (bh_context_id h) @ i32_to_ne_bytes (bh_request_id h) @ write_flag (bh_is_binary h)"

record renderer_message_header =
  rh_context_id :: i32
  rh_request_id :: i32
  rh_is_persistent :: bool
  rh_is_binary :: bool

definition RH_SIZE :: usize where
  "RH_SIZE = 4 * 2 + 2"

text \<open>The const generic \<^verbatim>\<open>DEFAULT_PERSISTENT\<close> is the first argument.\<close>

definition rh_new :: "bool \<Rightarrow> i32 \<Rightarrow> i32 \<Rightarrow> bool \<Rightarrow> renderer_message_header" where
  "rh_new default_persistent context_id request_id is_binary =
     \<lparr>rh_context_id = context_id, rh_request_id = request_id,
      rh_is_persistent = default_persistent, rh_is_binary = is_binary\<rparr>"

definition rh_default :: renderer_message_header where
  "rh_default = rh_new False 0 0 False"

definition rh_read :: "u8 list \<Rightarrow> (renderer_message_header \<times> u8 list) option" where
  "rh_read f =
     Option.bind (read_i32 f) (\<lambda>(context_id, f).
     Option.bind (read_i32 f) (\<lambda>(request_id, f).
     Option.bind (read_flag f) (\<lambda>(is_persistent, f).
     Option.bind (read_flag f) (\<lambda>(is_binary, f).
       Some (\<lparr>rh_context_id = context_id, rh_request_id = request_id,
              rh_is_persistent = is_persistent, rh_is_binary = is_binary\<rparr>, f)))))"

definition rh_write :: "renderer_message_header \<Rightarrow> u8 list" where
  "rh_write h =
     i32_to_ne_bytes (rh_context_id h) @ i32_to_ne_bytes (rh_request_id h) @
     write_flag (rh_is_persistent h) @ write_flag (rh_is_binary h)"

section \<open>Builders\<close>

definition build_browser_list_message ::
  "cef_env \<Rightarrow> string \<Rightarrow> i32 \<Rightarrow> i32 \<Rightarrow> message_payload \<Rightarrow> process_message option" where
  "build_browser_list_message env name context_id request_id payload =
     Option.bind (process_message_create env name) (\<lambda>message.
     Option.bind (argument_list message) (\<lambda>args.
       let args = lv_set CONTEXT_ID (VInt context_id) args;
           args = lv_set REQUEST_ID (VInt request_id) args;
           args = lv_set IS_SUCCESS (VBool True) args;
           args = (case payload of
                     PEmpty \<Rightarrow> lv_set BROWSER_PAYLOAD VNull args
                   | PString s \<Rightarrow> lv_set_string env BROWSER_PAYLOAD (cef_string_from_utf8 env s) args
                   | PBinary b \<Rightarrow> lv_set_binary BROWSER_PAYLOAD (binary_value_create b) args)
       in Some (ListMessage name args)))"

definition build_render_list_message ::
  "cef_env \<Rightarrow> string \<Rightarrow> i32 \<Rightarrow> i32 \<Rightarrow> message_payload \<Rightarrow> bool \<Rightarrow> process_message option" where
  "build_render_list_message env name context_id request_id payload is_persistent =
     Option.bind (process_message_create env name) (\<lambda>message.
     Option.bind (argument_list message) (\<lambda>args.
       let args = lv_set CONTEXT_ID (VInt context_id) args;
           args = lv_set REQUEST_ID (VInt request_id) args;
           args = (case payload of
                     PEmpty \<Rightarrow> lv_set RENDERER_PAYLOAD VNull args
                   | PString s \<Rightarrow> lv_set_string env RENDERER_PAYLOAD (cef_string_from_utf8 env s) args
                   | PBinary b \<Rightarrow> lv_set_binary RENDERER_PAYLOAD (binary_value_create b) args);
           args = lv_set IS_PERSISTENT (VBool is_persistent) args
       in Some (ListMessage name args)))"

text \<open>
  A builder is either the payload kept for a list message, or a mapped shared memory
  region, fresh (zeroed) but for the payload written behind the header.
\<close>

datatype message_builder =
    PayloadBuilder string message_payload
  | SharedMemoryBuilder string "u8 list" bool

text \<open>\<^verbatim>\<open>SharedProcessMessageRouter::new\<close>, for a header of the given size.\<close>

definition shared_router_new :: "cef_env \<Rightarrow> usize \<Rightarrow> string \<Rightarrow> message_payload \<Rightarrow> message_builder" where
  "shared_router_new env header_size name payload =
     (let message_size = header_size + payload_size payload
      in if env_shm_ok env message_size
         then SharedMemoryBuilder name (replicate header_size 0 @ payload_write payload)
                (case payload of PBinary _ \<Rightarrow> True | _ \<Rightarrow> False)
         else PayloadBuilder name payload)"

text \<open>
  \<^verbatim>\<open>build_browser_response\<close> and \<^verbatim>\<open>build_renderer_message\<close> of a builder, where
  \<open>mk_header\<close> is \<^verbatim>\<open>Header::new(..).write(..)\<close>: the header overwrites the first bytes of
  the region. A builder is used once, after which libcef owns the region.
\<close>

fun build_browser_response ::
  "cef_env \<Rightarrow> (i32 \<Rightarrow> i32 \<Rightarrow> bool \<Rightarrow> u8 list) \<Rightarrow> message_builder \<Rightarrow> i32 \<Rightarrow> i32 \<Rightarrow> process_message option" where
  "build_browser_response env mk_header (PayloadBuilder name payload) context_id request_id =
     build_browser_list_message env name context_id request_id payload"
| "build_browser_response env mk_header (SharedMemoryBuilder name region is_binary) context_id request_id =
     (let h = mk_header context_id request_id is_binary
      in Some (SharedMessage name (h @ drop (length h) region) True))"

fun builder_renderer_message ::
  "cef_env \<Rightarrow> (i32 \<Rightarrow> i32 \<Rightarrow> bool \<Rightarrow> u8 list) \<Rightarrow> message_builder \<Rightarrow> i32 \<Rightarrow> i32 \<Rightarrow> bool \<Rightarrow> process_message option" where
  "builder_renderer_message env mk_header (PayloadBuilder name payload) context_id request_id persistent =
     build_render_list_message env name context_id request_id payload persistent"
| "builder_renderer_message env mk_header (SharedMemoryBuilder name region is_binary) context_id request_id persistent =
     (let h = mk_header context_id request_id is_binary
      in Some (SharedMessage name (h @ drop (length h) region) True))"

definition create_browser_response_builder ::
  "cef_env \<Rightarrow> usize \<Rightarrow> string \<Rightarrow> message_payload \<Rightarrow> message_builder" where
  "create_browser_response_builder env threshold name payload =
     (if payload_size payload < threshold then PayloadBuilder name payload
      else shared_router_new env BH_SIZE name payload)"

text \<open>The response as the browser side sends it.\<close>

definition browser_response ::
  "cef_env \<Rightarrow> message_builder \<Rightarrow> i32 \<Rightarrow> i32 \<Rightarrow> process_message option" where
  "browser_response env = build_browser_response env (\<lambda>c r b. bh_write (bh_new c r b))"

definition build_renderer_message ::
  "cef_env \<Rightarrow> usize \<Rightarrow> string \<Rightarrow> i32 \<Rightarrow> i32 \<Rightarrow> v8_value option \<Rightarrow> bool \<Rightarrow> process_message option" where
  "build_renderer_message env threshold name context_id request_id request persistent =
     (let payload = (case request of
                       None \<Rightarrow> PEmpty
                     | Some (V8String w) \<Rightarrow> payload_from_cef_string env w
                     | Some v \<Rightarrow> payload_from_v8 (Some v));
          mk_header = (\<lambda>c r b. rh_write (rh_new persistent c r b));
          builder = (if payload_size payload < threshold then PayloadBuilder name payload
                     else shared_router_new env RH_SIZE name payload)
      in builder_renderer_message env mk_header builder context_id request_id persistent)"

section \<open>Parsing\<close>

record browser_message =
  bm_context_id :: i32
  bm_request_id :: i32
  bm_is_success :: bool
  bm_error_code :: i32
  bm_payload :: message_payload

definition bm_default :: browser_message where
  "bm_default = \<lparr>bm_context_id = 0, bm_request_id = 0, bm_is_success = False,
                 bm_error_code = 0, bm_payload = PEmpty\<rparr>"

definition bm_success :: "i32 \<Rightarrow> i32 \<Rightarrow> message_payload \<Rightarrow> browser_message" where
  "bm_success context_id request_id payload =
     \<lparr>bm_context_id = context_id, bm_request_id = request_id, bm_is_success = True,
      bm_error_code = NO_ERROR, bm_payload = payload\<rparr>"

definition bytes_or_empty :: "u8 list option \<Rightarrow> u8 list" where
  "bytes_or_empty b = (case b of None \<Rightarrow> [] | Some x \<Rightarrow> x)"

definition browser_message_from :: "cef_env \<Rightarrow> process_message option \<Rightarrow> browser_message outcome" where
  "browser_message_from env message =
     (case message of
        None \<Rightarrow> Ret bm_default
      | Some message \<Rightarrow>
          (case argument_list message of
             Some args \<Rightarrow>
               (let context_id = lv_int CONTEXT_ID args; request_id = lv_int REQUEST_ID args
                in if lv_bool IS_SUCCESS args then
                     (case lv_get_type BROWSER_PAYLOAD args of
                        VTYPE_STRING \<Rightarrow>
                          Ret (bm_success context_id request_id
                                (PString (utf8_from_cef_string env (lv_string env BROWSER_PAYLOAD args))))
                      | VTYPE_BINARY \<Rightarrow>
                          Ret (bm_success context_id request_id
                                (PBinary (bytes_or_empty (lv_binary BROWSER_PAYLOAD args))))
                      | payload_type \<Rightarrow>
                          if payload_type = VTYPE_NULL
                          then Ret (bm_success context_id request_id (PBinary []))
                          else Panic)
                   else
                     Ret \<lparr>bm_context_id = context_id, bm_request_id = request_id, bm_is_success = False,
                          bm_error_code = lv_int 3 args,
                          bm_payload = PString (utf8_from_cef_string env (lv_string env 4 args))\<rparr>)
           | None \<Rightarrow>
               (case valid_region message of
                  Some buffer \<Rightarrow>
                    if length buffer < BH_SIZE then Panic
                    else
                      let header = (case bh_read (take BH_SIZE buffer) of Some (h, _) \<Rightarrow> h | None \<Rightarrow> bh_default);
                          body = drop BH_SIZE buffer
                      in Ret (bm_success (bh_context_id header) (bh_request_id header)
                               (if bh_is_binary header then PBinary body else read_string body))
                | None \<Rightarrow> Ret bm_default)))"

record render_message =
  rm_context_id :: i32
  rm_request_id :: i32
  rm_is_persistent :: bool
  rm_payload :: message_payload

definition rm_default :: render_message where
  "rm_default = \<lparr>rm_context_id = 0, rm_request_id = 0, rm_is_persistent = False, rm_payload = PEmpty\<rparr>"

definition render_message_from :: "cef_env \<Rightarrow> process_message option \<Rightarrow> render_message outcome" where
  "render_message_from env message =
     (case message of
        None \<Rightarrow> Ret rm_default
      | Some message \<Rightarrow>
          (case argument_list message of
             Some args \<Rightarrow>
               Ret \<lparr>rm_context_id = lv_int CONTEXT_ID args, rm_request_id = lv_int REQUEST_ID args,
                    rm_is_persistent = lv_bool IS_PERSISTENT args,
                    rm_payload =
                      (case lv_get_type RENDERER_PAYLOAD args of
                         VTYPE_STRING \<Rightarrow> PString (utf8_from_cef_string env (lv_string env RENDERER_PAYLOAD args))
                       | VTYPE_BINARY \<Rightarrow> PBinary (bytes_or_empty (lv_binary RENDERER_PAYLOAD args))
                       | _ \<Rightarrow> PBinary [])\<rparr>
           | None \<Rightarrow>
               (case valid_region message of
                  Some buffer \<Rightarrow>
                    if length buffer < RH_SIZE then Panic
                    else
                      let header = (case rh_read (take RH_SIZE buffer) of Some (h, _) \<Rightarrow> h | None \<Rightarrow> rh_default);
                          body = drop RH_SIZE buffer
                      in Ret \<lparr>rm_context_id = rh_context_id header, rm_request_id = rh_request_id header,
                             rm_is_persistent = rh_is_persistent header,
                             rm_payload = (if rh_is_binary header then PBinary body else read_string body)\<rparr>
                | None \<Rightarrow> Ret rm_default)))"

section \<open>Wire codecs\<close>

text \<open>
  A value of fixed width on the wire: reading what was written gives the value back
  and leaves what follows it.
\<close>

locale wire_codec =
  fixes put :: "'a \<Rightarrow> u8 list"
    and get :: "u8 list \<Rightarrow> ('a \<times> u8 list) option"
    and width :: usize
    and valid :: "'a \<Rightarrow> bool"
  assumes get_put: "valid x \<Longrightarrow> get (put x @ rest) = Some (x, rest)"
    and put_width: "length (put x) = width"
begin

lemma put_inj: "valid x \<Longrightarrow> valid y \<Longrightarrow> put x = put y \<Longrightarrow> x = y"
  using get_put [of x "[]"] get_put [of y "[]"] by simp

text \<open>A region that starts with the written value: its prefix decodes, the rest is the body.\<close>

lemma get_alone: "valid x \<Longrightarrow> get (put x) = Some (x, [])"
  using get_put [of x "[]"] by simp

lemma region_prefix: "valid x \<Longrightarrow> get (take width (put x @ body)) = Some (x, [])"
  by (simp add: put_width get_alone)

lemma region_body: "drop width (put x @ body) = body"
  by (simp add: put_width)

lemma region_overlay: "put x @ drop (length (put x)) (replicate width 0 @ body) = put x @ body"
  by (simp add: put_width)

end

lemma uint_byte: "uint (word_of_int x :: u8) = x mod 256"
  by (simp add: uint_word_of_int)

lemma bytes_value:
  "(x::int) mod 256 + 256 * (x div 256 mod 256) + 65536 * (x div 65536 mod 256)
     + 16777216 * (x div 16777216 mod 256) = x mod 4294967296"
proof -
  have step: "x mod (b * 256) = b * (x div b mod 256) + x mod b" for b
    by (rule zmod_zmult2_eq) simp
  have n: "(4294967296::int) = 16777216 * 256" "(16777216::int) = 65536 * 256" "(65536::int) = 256 * 256"
    by simp_all
  have "x mod 4294967296 = 16777216 * (x div 16777216 mod 256) + x mod 16777216"
    unfolding n(1) by (rule step)
  moreover have "x mod 16777216 = 65536 * (x div 65536 mod 256) + x mod 65536"
    using step [of 65536] n(2) by metis
  moreover have "x mod 65536 = 256 * (x div 256 mod 256) + x mod 256"
    using step [of 256] n(3) by metis
  ultimately show ?thesis by linarith
qed

lemma i32_wrap_mod: "i32_wrap (x mod 4294967296) = i32_wrap x"
  by (simp add: i32_wrap_def mod_add_left_eq)

lemma i32_bytes_roundtrip:
  "is_i32 x \<Longrightarrow>
   i32_from_ne_bytes (word_of_int x) (word_of_int (x div 256)) (word_of_int (x div 65536))
     (word_of_int (x div 16777216)) = x"
  by (simp only: i32_from_ne_bytes_def uint_byte bytes_value i32_wrap_mod i32_wrap_id)

interpretation i32_wire: wire_codec i32_to_ne_bytes read_i32 4 is_i32
  by unfold_locales (simp_all add: i32_to_ne_bytes_def i32_bytes_roundtrip)

interpretation flag_wire: wire_codec write_flag read_flag 1 "\<lambda>_. True"
  by unfold_locales (simp_all add: write_flag_def)

definition bh_ok :: "browser_message_header \<Rightarrow> bool" where
  "bh_ok h \<longleftrightarrow> is_i32 (bh_context_id h) \<and> is_i32 (bh_request_id h)"

definition rh_ok :: "renderer_message_header \<Rightarrow> bool" where
  "rh_ok h \<longleftrightarrow> is_i32 (rh_context_id h) \<and> is_i32 (rh_request_id h)"

interpretation bh_wire: wire_codec bh_write bh_read BH_SIZE bh_ok
  by unfold_locales
    (simp_all add: bh_read_def bh_write_def bh_ok_def BH_SIZE_def i32_wire.get_put flag_wire.get_put
      i32_wire.put_width flag_wire.put_width)

interpretation rh_wire: wire_codec rh_write rh_read RH_SIZE rh_ok
  by unfold_locales
    (simp_all add: rh_read_def rh_write_def rh_ok_def RH_SIZE_def i32_wire.get_put flag_wire.get_put
      i32_wire.put_width flag_wire.put_width)

section \<open>Messages arrive as they were sent\<close>

text \<open>
  An empty payload arrives as an empty binary buffer; every other payload as it is.
  The payloads the wrapper makes are valid: text is UTF-8, binary data is not empty.
\<close>

fun payload_arrives :: "message_payload \<Rightarrow> message_payload" where
  "payload_arrives PEmpty = PBinary []"
| "payload_arrives p = p"

fun payload_ok :: "message_payload \<Rightarrow> bool" where
  "payload_ok PEmpty = True"
| "payload_ok (PString s) = utf8_valid s"
| "payload_ok (PBinary b) = (b \<noteq> [])"

lemma length_payload_write: "length (payload_write p) = payload_size p"
  by (cases p) auto

lemma payload_from_bytes_ok: "payload_ok (payload_from_bytes data)"
  by (simp add: payload_from_bytes_def binary_value_create_def)

lemma payload_from_v8_ok: "payload_ok (payload_from_v8 v)"
  by (induction v rule: payload_from_v8.induct) (auto simp: binary_value_create_def)

lemmas list_message_defs = build_browser_list_message_def build_render_list_message_def
  process_message_create_def lv_defs index_defs binary_value_create_def bytes_or_empty_def

lemma browser_list_roundtrip:
  assumes "env_create_ok env" "env_text_ok env" "payload_ok p"
  shows "browser_message_from env (build_browser_list_message env name c r p) = Ret (bm_success c r (payload_arrives p))"
  using assms
  by (cases p) (simp_all add: browser_message_from_def list_message_defs lv_set_append utf8_there_and_back)

lemma render_list_roundtrip:
  assumes "env_create_ok env" "env_text_ok env" "payload_ok p"
  shows "render_message_from env (build_render_list_message env name c r p persistent) =
     Ret \<lparr>rm_context_id = c, rm_request_id = r, rm_is_persistent = persistent, rm_payload = payload_arrives p\<rparr>"
  using assms
  by (cases p) (simp_all add: render_message_from_def list_message_defs lv_set_append utf8_there_and_back)

lemma browser_message_from_region:
  "bh_ok h \<Longrightarrow> browser_message_from env (Some (SharedMessage name (bh_write h @ body) True)) =
     Ret (bm_success (bh_context_id h) (bh_request_id h)
           (if bh_is_binary h then PBinary body else read_string body))"
  by (simp add: browser_message_from_def Let_def bh_wire.put_width bh_wire.get_alone)

lemma render_message_from_region:
  "rh_ok h \<Longrightarrow> render_message_from env (Some (SharedMessage name (rh_write h @ body) True)) =
     Ret \<lparr>rm_context_id = rh_context_id h, rm_request_id = rh_request_id h,
          rm_is_persistent = rh_is_persistent h,
          rm_payload = (if rh_is_binary h then PBinary body else read_string body)\<rparr>"
  by (simp add: render_message_from_def Let_def rh_wire.put_width rh_wire.get_alone)

lemma shared_router_new_SharedMemory:
  "shared_router_new env n name p = SharedMemoryBuilder name region b \<Longrightarrow>
   region = replicate n 0 @ payload_write p \<and> b = (case p of PBinary _ \<Rightarrow> True | _ \<Rightarrow> False)"
  by (auto simp: shared_router_new_def Let_def split: if_splits)

lemma shared_body:
  "payload_ok p \<Longrightarrow> p \<noteq> PEmpty \<Longrightarrow>
   (if (case p of PBinary _ \<Rightarrow> True | _ \<Rightarrow> False) then PBinary (payload_write p) else read_string (payload_write p)) = p"
  by (cases p) (auto simp: read_string_def)

lemma browser_shared_roundtrip:
  assumes "is_i32 c" "is_i32 r" "payload_ok p" "p \<noteq> PEmpty"
    "shared_router_new env BH_SIZE name p = SharedMemoryBuilder name region b"
  shows "browser_message_from env (browser_response env (SharedMemoryBuilder name region b) c r)
           = Ret (bm_success c r p)"
proof -
  let ?h = "bh_new c r b"
  have ok: "bh_ok ?h" using assms(1,2) by (simp add: bh_ok_def bh_new_def)
  have "browser_response env (SharedMemoryBuilder name region b) c r
          = Some (SharedMessage name (bh_write ?h @ payload_write p) True)"
    using shared_router_new_SharedMemory [OF assms(5)] bh_wire.region_overlay
    by (simp only: browser_response_def build_browser_response.simps Let_def)
  then show ?thesis
    using browser_message_from_region [OF ok] shared_body [OF assms(3,4)]
      shared_router_new_SharedMemory [OF assms(5)]
    by (simp add: bh_new_def)
qed

lemma render_shared_roundtrip:
  assumes "is_i32 c" "is_i32 r" "payload_ok p" "p \<noteq> PEmpty"
    "shared_router_new env RH_SIZE name p = SharedMemoryBuilder name region b"
  shows "render_message_from env (builder_renderer_message env (\<lambda>c r b. rh_write (rh_new persistent c r b))
             (SharedMemoryBuilder name region b) c r persistent)
     = Ret \<lparr>rm_context_id = c, rm_request_id = r, rm_is_persistent = persistent, rm_payload = p\<rparr>"
proof -
  let ?h = "rh_new persistent c r b"
  have ok: "rh_ok ?h" using assms(1,2) by (simp add: rh_ok_def rh_new_def)
  have "builder_renderer_message env (\<lambda>c r b. rh_write (rh_new persistent c r b))
          (SharedMemoryBuilder name region b) c r persistent
          = Some (SharedMessage name (rh_write ?h @ payload_write p) True)"
    using shared_router_new_SharedMemory [OF assms(5)] rh_wire.region_overlay
    by (simp only: builder_renderer_message.simps Let_def)
  then show ?thesis
    using render_message_from_region [OF ok] shared_body [OF assms(3,4)]
      shared_router_new_SharedMemory [OF assms(5)]
    by (simp add: rh_new_def)
qed

lemma response_arrives:
  assumes "env_text_ok env" "env_create_ok env" "is_i32 c" "is_i32 r" "payload_ok p"
    and "p = PEmpty \<longrightarrow> 0 < threshold"
  shows "browser_message_from env
           (browser_response env (create_browser_response_builder env threshold name p) c r)
         = Ret (bm_success c r (payload_arrives p))"
proof (cases "create_browser_response_builder env threshold name p")
  case (PayloadBuilder n q)
  then have "n = name" "q = p"
    by (auto simp: create_browser_response_builder_def shared_router_new_def Let_def split: if_splits)
  with PayloadBuilder browser_list_roundtrip [OF assms(2,1,5)] show ?thesis
    by (simp add: browser_response_def)
next
  case (SharedMemoryBuilder n region b)
  then have sh: "shared_router_new env BH_SIZE name p = SharedMemoryBuilder name region b" "n = name"
    "threshold \<le> payload_size p"
    by (auto simp: create_browser_response_builder_def shared_router_new_def Let_def split: if_splits)
  then have ne: "p \<noteq> PEmpty" using assms(6) by auto
  then have "payload_arrives p = p" by (cases p) auto
  with browser_shared_roundtrip [OF assms(3,4,5) ne sh(1)] SharedMemoryBuilder sh(2) show ?thesis by simp
qed

fun request_payload :: "cef_env \<Rightarrow> v8_value \<Rightarrow> message_payload" where
  "request_payload env (V8String w) = PString (utf8_from_cef_string env w)"
| "request_payload env v = payload_from_v8 (Some v)"

lemma query_arrives:
  assumes "env_text_ok env" "env_create_ok env" "is_i32 c" "is_i32 r"
    and "payload_ok (request_payload env v)"
    and "request_payload env v = PEmpty \<longrightarrow> 0 < threshold"
  shows "render_message_from env (build_renderer_message env threshold name c r (Some v) persistent)
         = Ret \<lparr>rm_context_id = c, rm_request_id = r, rm_is_persistent = persistent,
                rm_payload = payload_arrives (request_payload env v)\<rparr>"
proof -
  let ?p = "request_payload env v" and ?mk = "\<lambda>c r b. rh_write (rh_new persistent c r b)"
  let ?builder = "if payload_size ?p < threshold then PayloadBuilder name ?p else shared_router_new env RH_SIZE name ?p"
  have eq: "build_renderer_message env threshold name c r (Some v) persistent
      = builder_renderer_message env ?mk ?builder c r persistent"
    by (cases v) (simp_all add: build_renderer_message_def payload_from_cef_string_def Let_def)
  show ?thesis
  proof (cases ?builder)
    case (PayloadBuilder n q)
    then have "n = name" "q = ?p" by (auto simp: shared_router_new_def Let_def split: if_splits)
    with PayloadBuilder eq render_list_roundtrip [OF assms(2,1,5)] show ?thesis by simp
  next
    case (SharedMemoryBuilder n region b)
    then have sh: "shared_router_new env RH_SIZE name ?p = SharedMemoryBuilder name region b" "n = name"
      "threshold \<le> payload_size ?p"
      by (auto simp: shared_router_new_def Let_def split: if_splits)
    then have ne: "?p \<noteq> PEmpty" using assms(6) by auto
    then have "payload_arrives ?p = ?p" by (cases ?p) auto
    with render_shared_roundtrip [OF assms(3,4,5) ne sh(1)] SharedMemoryBuilder sh(2) eq show ?thesis by simp
  qed
qed

lemma response_message_built:
  assumes "env_create_ok env"
  shows "\<exists>m. browser_response env (create_browser_response_builder env threshold name p) c r = Some m \<and> pm_name m = name"
  using assms
  by (auto simp: create_browser_response_builder_def shared_router_new_def browser_response_def Let_def
      build_browser_list_message_def process_message_create_def)

lemma query_message_built:
  assumes "env_create_ok env"
  shows "\<exists>m. build_renderer_message env threshold name c r (Some v) persistent = Some m \<and> pm_name m = name"
  using assms
  by (cases v) (auto simp: build_renderer_message_def shared_router_new_def Let_def
      build_render_list_message_def process_message_create_def)

section \<open>Properties\<close>

text \<open>An environment in which text is ASCII, for closed instances.\<close>

definition ascii_env :: "bool \<Rightarrow> cef_env" where
  "ascii_env shm = \<lparr>env_create_ok = True, env_shm_ok = (\<lambda>_. shm),
                   env_to_utf16 = map ucast, env_to_utf8 = map ucast\<rparr>"

lemma ucast_8_16_8: "ucast (ucast (b :: u8) :: u16) = b"
  by (simp add: ucast_down_ucast_id is_down)

lemma ascii_env_ok: "env_text_ok (ascii_env shm)" "env_create_ok (ascii_env shm)"
  by (simp_all add: env_text_ok_def ascii_env_def ucast_8_16_8 comp_def)

text \<open>
  Property C11. A response arrives in the renderer as it was built in the browser: for
  every threshold, and whether the message is a list or a shared memory region or
  falls back to a list because no region could be allocated, parsing the message
  gives the context id, the request id, success and the payload (an empty payload
  as an empty binary buffer), and parsing never panics.
\<close>

theorem response_roundtrip:
  assumes "env_text_ok env" "env_create_ok env" "is_i32 c" "is_i32 r" "payload_ok p"
    and "p = PEmpty \<longrightarrow> 0 < threshold"
  shows "browser_message_from env
           (browser_response env (create_browser_response_builder env threshold name p) c r)
         = Ret (bm_success c r (payload_arrives p))"
  using assms by (rule response_arrives)

theorem response_roundtrip_witness:
  "browser_message_from (ascii_env True)
     (browser_response (ascii_env True)
        (create_browser_response_builder (ascii_env True) 2 ''q'' (PString [72, 105])) 3 (-4))
   = Ret (bm_success 3 (-4) (PString [72, 105]))"
  using response_roundtrip [OF ascii_env_ok [of True], where p = "PString [72, 105]" and c = 3 and r = "-4"
      and threshold = 2 and name = "''q''"]
  by (simp add: is_i32_def)

text \<open>
  A query arrives in the browser as it was made in the renderer: the
  context id, the request id, the persistence flag and the request's text or
  bytes, through a list or through shared memory.
\<close>

lemma query_roundtrip:
  assumes "env_text_ok env" "env_create_ok env" "is_i32 c" "is_i32 r"
    and "payload_ok (request_payload env v)"
    and "request_payload env v = PEmpty \<longrightarrow> 0 < threshold"
  shows "render_message_from env (build_renderer_message env threshold name c r (Some v) persistent)
         = Ret \<lparr>rm_context_id = c, rm_request_id = r, rm_is_persistent = persistent,
                rm_payload = payload_arrives (request_payload env v)\<rparr>"
  using assms by (rule query_arrives)

text \<open>
  The threshold decides the transport: a response travels in shared
  memory exactly when its payload has at least \<open>threshold\<close> bytes and a region of
  header plus payload can be allocated, and the region then has exactly that size.
\<close>

lemma response_transport:
  assumes "env_create_ok env"
  shows "\<exists>m. browser_response env (create_browser_response_builder env threshold name p) c r = Some m
    \<and> (argument_list m = None \<longleftrightarrow> threshold \<le> payload_size p \<and> env_shm_ok env (BH_SIZE + payload_size p))
    \<and> (\<forall>region. valid_region m = Some region \<longrightarrow> length region = BH_SIZE + payload_size p)"
proof (cases "payload_size p < threshold \<or> \<not> env_shm_ok env (BH_SIZE + payload_size p)")
  case True
  then have "create_browser_response_builder env threshold name p = PayloadBuilder name p"
    by (auto simp: create_browser_response_builder_def shared_router_new_def)
  with True assms show ?thesis
    by (auto simp: browser_response_def build_browser_list_message_def process_message_create_def Let_def)
next
  case False
  then have "create_browser_response_builder env threshold name p =
      SharedMemoryBuilder name (replicate BH_SIZE 0 @ payload_write p) (case p of PBinary _ \<Rightarrow> True | _ \<Rightarrow> False)"
    by (simp add: create_browser_response_builder_def shared_router_new_def)
  with False show ?thesis
    by (simp add: browser_response_def Let_def bh_wire.put_width length_payload_write)
qed

end
