(* ===== verification/Browser_Side_Router.thy ===== *)
theory Browser_Side_Router
  imports Browser_Info_Map Router_Core Message_Router_Utils
begin

text \<open>
  The browser side of \<^verbatim>\<open>cef/src/wrapper/message_router.rs\<close>: the router with its three
  mutexes, the callback objects its handlers hold, and the queue of tasks posted
  to the UI thread. Callback objects are shared (\<^verbatim>\<open>Arc<Mutex<..>>\<close>), so they live in a
  store and are named by their address. The query handlers are the application's:
  what they answer when a query is offered to them is the parameter \<open>'h handler_env\<close>,
  and what they do to the router before they return the parameter \<open>'h reentry\<close>.
\<close>

section \<open>State\<close>

record browser_ref =
  brw_identifier :: i32

record frame_ref =
  fr_identifier :: nat
  fr_is_main :: bool

type_synonym callback_addr = nat

text \<open>\<open>cb_router\<close> tells whether \<^verbatim>\<open>router\<close> is \<open>Some\<close>: a detached callback has lost it.\<close>

record router_callback =
  cb_router :: bool
  cb_browser_id :: i32
  cb_query_id :: i64
  cb_persistent :: bool
  cb_threshold :: usize
  cb_message_name :: string

record 'h query_info =
  qi_browser :: "browser_ref option"
  qi_frame :: "frame_ref option"
  qi_context_id :: i32
  qi_request_id :: i32
  qi_is_persistent :: bool
  qi_callback :: "callback_addr option"
  qi_handler :: "(handler_id \<times> 'h) option"

type_synonym 'h query_map = "(i64, 'h query_info) browser_info_map"

record 'h browser_side_router =
  br_config :: message_router_config
  br_query_message_name :: string
  br_cancel_message_name :: string
  br_query_id_generator :: "id_generator mutex"
  br_handlers :: "'h handlers_deque mutex"
  br_query_info_map :: "'h query_map mutex"

text \<open>
  Tasks of the UI thread: \<^verbatim>\<open>BrowserSideRouterCallbackSuccess\<close>,
  \<^verbatim>\<open>BrowserSideRouterCallbackFailure\<close> and \<^verbatim>\<open>BrowserSideRouterCancelPendingFor\<close>.
\<close>

datatype 'h ui_task =
    CallbackSuccess callback_addr message_builder
  | CallbackFailure callback_addr i32 utf8
  | CancelPendingFor "browser_ref option" "(handler_id \<times> 'h) option" bool

datatype query_arg = QueryStr utf8 | QueryBinary "u8 list"

text \<open>What the router does to the world outside: messages to renderers and calls of handlers.\<close>

datatype 'h browser_event =
    SendToRenderer frame_ref process_message
  | OnQuery 'h "browser_ref option" "frame_ref option" i64 query_arg bool callback_addr
  | OnQueryCanceled 'h "browser_ref option" "frame_ref option" i64

text \<open>
  The browser process: the router and whether anything but its callbacks keeps it
  alive, the callback store, which callbacks the application still holds, the task
  queue (first in, first out) and the log of events.
\<close>

record 'h browser_process =
  bp_router :: "'h browser_side_router"
  bp_alive :: bool
  bp_callbacks :: "router_callback mutex list"
  bp_held :: "callback_addr set"
  bp_tasks :: "'h ui_task list"
  bp_events :: "'h browser_event list"

text \<open>
  A handler answers whether it takes the query, which callback methods it executes
  before it returns, and whether it keeps the callback. Its answer may depend on
  everything that happened before.
\<close>

datatype callback_call = SuccessStr utf8 | SuccessBinary "u8 list" | Failure i32 utf8

type_synonym 'h handler_env =
  "'h browser_event list \<Rightarrow> 'h \<Rightarrow> browser_ref option \<Rightarrow> frame_ref option \<Rightarrow> i64 \<Rightarrow> query_arg \<Rightarrow> bool \<Rightarrow>
   bool \<times> callback_call list \<times> bool"

text \<open>
  A handler is called in the middle of an operation, with the query map locked, and may
  call the router itself: \<open>'h reentry\<close> is what it does to the process, which it sees with
  its own call as the last event. Every operation that calls handlers has it as its first
  argument; without \<open>_with\<close> in the name it is the operation with handlers that do not call
  the router.
\<close>

type_synonym 'h reentry = "'h browser_process \<Rightarrow> 'h browser_process outcome"

definition ascii_bytes :: "string \<Rightarrow> utf8" where
  "ascii_bytes s = map of_char s"

definition I64_MAX :: i64 where
  "I64_MAX = 9223372036854775807"

definition log_event :: "'h browser_event \<Rightarrow> 'h browser_process \<Rightarrow> 'h browser_process" where
  "log_event e bp = bp\<lparr>bp_events := bp_events bp @ [e]\<rparr>"

definition post_task :: "'h ui_task \<Rightarrow> 'h browser_process \<Rightarrow> 'h browser_process" where
  "post_task t bp = bp\<lparr>bp_tasks := bp_tasks bp @ [t]\<rparr>"

abbreviation query_map_mutex :: "'h browser_process \<Rightarrow> 'h query_map mutex" where
  "query_map_mutex bp \<equiv> br_query_info_map (bp_router bp)"

definition set_query_map :: "'h query_map mutex \<Rightarrow> 'h browser_process \<Rightarrow> 'h browser_process" where
  "set_query_map m bp = bp\<lparr>bp_router := (bp_router bp)\<lparr>br_query_info_map := m\<rparr>\<rparr>"

definition set_handlers :: "'h handlers_deque mutex \<Rightarrow> 'h browser_process \<Rightarrow> 'h browser_process" where
  "set_handlers m bp = bp\<lparr>bp_router := (bp_router bp)\<lparr>br_handlers := m\<rparr>\<rparr>"

definition set_generator :: "id_generator mutex \<Rightarrow> 'h browser_process \<Rightarrow> 'h browser_process" where
  "set_generator m bp = bp\<lparr>bp_router := (bp_router bp)\<lparr>br_query_id_generator := m\<rparr>\<rparr>"

definition set_callback :: "callback_addr \<Rightarrow> router_callback mutex \<Rightarrow> 'h browser_process \<Rightarrow> 'h browser_process" where
  "set_callback a c bp = bp\<lparr>bp_callbacks := (bp_callbacks bp)[a := c]\<rparr>"

section \<open>Callbacks\<close>

definition callback_new ::
  "i32 \<Rightarrow> i64 \<Rightarrow> bool \<Rightarrow> usize \<Rightarrow> string \<Rightarrow> 'h browser_process \<Rightarrow> callback_addr \<times> 'h browser_process" where
  "callback_new browser_id query_id persistent threshold name bp =
     (let c = \<lparr>cb_router = True, cb_browser_id = browser_id, cb_query_id = query_id,
               cb_persistent = persistent, cb_threshold = threshold, cb_message_name = name\<rparr>
      in (length (bp_callbacks bp), bp\<lparr>bp_callbacks := bp_callbacks bp @ [mutex_new c]\<rparr>))"

definition detach :: "router_callback \<Rightarrow> router_callback" where
  "detach c = c\<lparr>cb_router := False\<rparr>"

text \<open>\<^verbatim>\<open>if let Ok(mut callback) = callback.lock() { callback.detach(); }\<close>\<close>

definition detach_locked :: "callback_addr \<Rightarrow> 'h browser_process \<Rightarrow> 'h browser_process outcome" where
  "detach_locked a bp =
     (let m = bp_callbacks bp ! a
      in with_lock m (\<lambda>c. Ret (set_callback a (m\<lparr>m_data := detach c\<rparr>) bp)) (Ret bp))"

definition success_str :: "cef_env \<Rightarrow> callback_addr \<Rightarrow> utf8 \<Rightarrow> 'h browser_process \<Rightarrow> 'h browser_process" where
  "success_str env a response bp =
     (let c = m_data (bp_callbacks bp ! a);
          builder = create_browser_response_builder env (cb_threshold c) (cb_message_name c)
                      (payload_from_str response)
      in post_task (CallbackSuccess a builder) bp)"

definition success_binary :: "cef_env \<Rightarrow> callback_addr \<Rightarrow> u8 list \<Rightarrow> 'h browser_process \<Rightarrow> 'h browser_process" where
  "success_binary env a data bp =
     (let c = m_data (bp_callbacks bp ! a);
          builder = create_browser_response_builder env (cb_threshold c) (cb_message_name c)
                      (payload_from_bytes data)
      in post_task (CallbackSuccess a builder) bp)"

definition failure :: "callback_addr \<Rightarrow> i32 \<Rightarrow> utf8 \<Rightarrow> 'h browser_process \<Rightarrow> 'h browser_process" where
  "failure a error_code error_message bp = post_task (CallbackFailure a error_code error_message) bp"

fun callback_method :: "cef_env \<Rightarrow> callback_addr \<Rightarrow> callback_call \<Rightarrow> 'h browser_process \<Rightarrow> 'h browser_process" where
  "callback_method env a (SuccessStr response) bp = success_str env a response bp"
| "callback_method env a (SuccessBinary data) bp = success_binary env a data bp"
| "callback_method env a (Failure code msg) bp = failure a code msg bp"

text \<open>
  \<^verbatim>\<open>Weak::upgrade\<close> of a callback: it is alive while the application or a pending query
  holds it.
\<close>

definition callback_alive :: "callback_addr \<Rightarrow> 'h browser_process \<Rightarrow> bool" where
  "callback_alive a bp \<longleftrightarrow>
     a \<in> bp_held bp \<or>
     list_ex (\<lambda>(b, k, v). qi_callback v = Some a) (bim_entries (m_data (query_map_mutex bp)))"

section \<open>Responses\<close>

definition get_query_info ::
  "i32 \<Rightarrow> i64 \<Rightarrow> bool \<Rightarrow> 'h browser_process \<Rightarrow> ('h query_info option \<times> 'h browser_process) outcome" where
  "get_query_info browser_id query_id always_remove bp =
     with_lock (query_map_mutex bp)
       (\<lambda>m. let visitor = (\<lambda>s _ _ value.
                 (s, Continue (if always_remove \<or> \<not> qi_is_persistent value then RemoveEntry else KeepEntry)));
                (_, info, m') = bim_find (Some visitor) () browser_id query_id m
            in Ret (info, set_query_map ((query_map_mutex bp)\<lparr>m_data := m'\<rparr>) bp))
       (Ret (None, bp))"

definition send_query_success ::
  "cef_env \<Rightarrow> frame_ref option \<Rightarrow> i32 \<Rightarrow> i32 \<Rightarrow> message_builder \<Rightarrow> 'h browser_process \<Rightarrow> 'h browser_process" where
  "send_query_success env frame context_id request_id builder bp =
     (case (frame, browser_response env builder context_id request_id) of
        (Some frame, Some message) \<Rightarrow> log_event (SendToRenderer frame message) bp
      | _ \<Rightarrow> bp)"

definition send_query_failure ::
  "cef_env \<Rightarrow> frame_ref option \<Rightarrow> i32 \<Rightarrow> i32 \<Rightarrow> i32 \<Rightarrow> utf8 \<Rightarrow> 'h browser_process \<Rightarrow> 'h browser_process" where
  "send_query_failure env frame context_id request_id error_code error_message bp =
     (case (frame, process_message_create env (br_query_message_name (bp_router bp))) of
        (Some frame, Some message) \<Rightarrow>
          (case argument_list message of
             None \<Rightarrow> bp
           | Some args \<Rightarrow>
               let args = lv_set 0 (VInt context_id) args;
                   args = lv_set 1 (VInt request_id) args;
                   args = lv_set 2 (VBool False) args;
                   args = lv_set 3 (VInt error_code) args;
                   args = lv_set_string env 4 (cef_string_from_utf8 env error_message) args
               in log_event (SendToRenderer frame (ListMessage (pm_name message) args)) bp)
      | _ \<Rightarrow> bp)"

definition on_callback_success ::
  "cef_env \<Rightarrow> i32 \<Rightarrow> i64 \<Rightarrow> message_builder \<Rightarrow> 'h browser_process \<Rightarrow> 'h browser_process outcome" where
  "on_callback_success env browser_id query_id builder bp =
     bind_outcome (get_query_info browser_id query_id False bp)
       (\<lambda>(info, bp'). Ret (case info of
          None \<Rightarrow> bp'
        | Some info \<Rightarrow>
            send_query_success env (qi_frame info) (qi_context_id info) (qi_request_id info) builder bp'))"

definition on_callback_failure ::
  "cef_env \<Rightarrow> i32 \<Rightarrow> i64 \<Rightarrow> i32 \<Rightarrow> utf8 \<Rightarrow> 'h browser_process \<Rightarrow> 'h browser_process outcome" where
  "on_callback_failure env browser_id query_id error_code error_message bp =
     bind_outcome (get_query_info browser_id query_id False bp)
       (\<lambda>(info, bp'). Ret (case info of
          None \<Rightarrow> bp'
        | Some info \<Rightarrow>
            send_query_failure env (qi_frame info) (qi_context_id info) (qi_request_id info)
              error_code error_message bp'))"

section \<open>Cancellation\<close>

definition cancel_unhandled_query ::
  "cef_env \<Rightarrow> frame_ref option \<Rightarrow> i32 \<Rightarrow> i32 \<Rightarrow> 'h browser_process \<Rightarrow> 'h browser_process" where
  "cancel_unhandled_query env frame context_id request_id =
     send_query_failure env frame context_id request_id CANCELED_CODE (ascii_bytes CANCELED_MESSAGE)"

definition cancel_query_with ::
  "'h reentry \<Rightarrow> cef_env \<Rightarrow> i64 \<Rightarrow> 'h query_info \<Rightarrow> bool \<Rightarrow> 'h browser_process \<Rightarrow> 'h browser_process outcome" where
  "cancel_query_with re env query_id info notify_renderer bp =
     (let bp1 = (if notify_renderer
                 then send_query_failure env (qi_frame info) (qi_context_id info) (qi_request_id info)
                        CANCELED_CODE (ascii_bytes CANCELED_MESSAGE) bp
                 else bp);
          called = (case qi_handler info of
                      None \<Rightarrow> Ret bp1
                    | Some (_, h) \<Rightarrow>
                        re (log_event (OnQueryCanceled h (qi_browser info) (qi_frame info) query_id) bp1))
      in bind_outcome called
           (\<lambda>bp2. case qi_callback info of None \<Rightarrow> Ret bp2 | Some a \<Rightarrow> detach_locked a bp2))"

abbreviation cancel_query where
  "cancel_query \<equiv> cancel_query_with Ret"

text \<open>
  The visitor of \<^verbatim>\<open>cancel_pending_for\<close>. Its state is the process, or the fact that a
  cancellation blocked.
\<close>

definition cancel_for_visitor_with ::
  "'h reentry \<Rightarrow> cef_env \<Rightarrow> handler_id option \<Rightarrow> bool \<Rightarrow> ('h browser_process outcome, i64, 'h query_info) visitor" where
  "cancel_for_visitor_with re env handler_id notify_renderer s b key value =
     (case (handler_id, qi_handler value) of
        (Some i, Some entry) \<Rightarrow>
          if i \<noteq> fst entry then (s, Continue KeepEntry)
          else (bind_outcome s (cancel_query_with re env key value notify_renderer), Continue RemoveEntry)
      | _ \<Rightarrow> (bind_outcome s (cancel_query_with re env key value notify_renderer), Continue RemoveEntry))"

abbreviation cancel_for_visitor where
  "cancel_for_visitor \<equiv> cancel_for_visitor_with Ret"

text \<open>
  The traversals run with the map's lock held; their result is written back when
  the guard is dropped.
\<close>

definition traverse_query_map ::
  "('h query_map \<Rightarrow> 'h browser_process outcome \<Rightarrow> ('h browser_process outcome \<times> 'h query_map) outcome) \<Rightarrow>
   'h browser_process \<Rightarrow> 'h browser_process outcome" where
  "traverse_query_map f bp =
     with_lock (query_map_mutex bp)
       (\<lambda>m. bind_outcome (f m (Ret (set_query_map (acquire (query_map_mutex bp)) bp)))
              (\<lambda>(s, m'). bind_outcome s
                 (\<lambda>bp'. Ret (set_query_map (release m' (query_map_mutex bp')) bp'))))
       (Ret bp)"

text \<open>The \<^verbatim>\<open>find_all\<close> or \<^verbatim>\<open>find_browser_all\<close> that ends \<^verbatim>\<open>cancel_pending_for\<close>.\<close>

definition cancel_all_matching_with ::
  "'h reentry \<Rightarrow> cef_env \<Rightarrow> browser_ref option \<Rightarrow> handler_id option \<Rightarrow> bool \<Rightarrow> 'h query_map \<Rightarrow>
   'h browser_process outcome \<Rightarrow> ('h browser_process outcome \<times> 'h query_map) outcome" where
  "cancel_all_matching_with re env browser handler_id notify_renderer m s =
     (if bim_is_empty m then Ret (s, m)
      else let visitor = cancel_for_visitor_with re env handler_id notify_renderer
           in case browser of
                Some b \<Rightarrow> bim_find_browser_all visitor s (brw_identifier b) m
              | None \<Rightarrow> bim_find_all visitor s m)"

abbreviation cancel_all_matching where
  "cancel_all_matching \<equiv> cancel_all_matching_with Ret"

definition cancel_pending_for_with ::
  "'h reentry \<Rightarrow> cef_env \<Rightarrow> bool \<Rightarrow> browser_ref option \<Rightarrow> (handler_id \<times> 'h) option \<Rightarrow> bool \<Rightarrow>
   'h browser_process \<Rightarrow> 'h browser_process outcome" where
  "cancel_pending_for_with re env on_ui browser handler notify_renderer bp =
     (if \<not> on_ui then Ret (post_task (CancelPendingFor browser handler notify_renderer) bp)
      else traverse_query_map
             (cancel_all_matching_with re env browser (map_option fst handler) notify_renderer) bp)"

abbreviation cancel_pending_for where
  "cancel_pending_for \<equiv> cancel_pending_for_with Ret"

definition cancel_request_visitor_with ::
  "'h reentry \<Rightarrow> cef_env \<Rightarrow> i32 \<Rightarrow> i32 \<Rightarrow> ('h browser_process outcome, i64, 'h query_info) visitor" where
  "cancel_request_visitor_with re env context_id request_id s b key value =
     (if qi_context_id value = context_id \<and> request_id = RESERVED_ID \<or> qi_request_id value = request_id
      then (bind_outcome s (cancel_query_with re env key value False),
            if request_id = RESERVED_ID then Continue RemoveEntry else Break RemoveEntry)
      else (s, Continue KeepEntry))"

abbreviation cancel_request_visitor where
  "cancel_request_visitor \<equiv> cancel_request_visitor_with Ret"

definition cancel_pending_request_with ::
  "'h reentry \<Rightarrow> cef_env \<Rightarrow> i32 \<Rightarrow> i32 \<Rightarrow> i32 \<Rightarrow> 'h browser_process \<Rightarrow> 'h browser_process outcome" where
  "cancel_pending_request_with re env browser_id context_id request_id bp =
     traverse_query_map
       (\<lambda>m s. bim_find_browser_all (cancel_request_visitor_with re env context_id request_id) s browser_id m) bp"

abbreviation cancel_pending_request where
  "cancel_pending_request \<equiv> cancel_pending_request_with Ret"

section \<open>The tasks\<close>

text \<open>
  \<^verbatim>\<open>Task::execute\<close>. The callback's lock is held while the router is called; a
  callback that is used up has lost its router.
\<close>

definition execute_success ::
  "cef_env \<Rightarrow> callback_addr \<Rightarrow> message_builder \<Rightarrow> 'h browser_process \<Rightarrow> 'h browser_process outcome" where
  "execute_success env a builder bp =
     (if \<not> callback_alive a bp then Ret bp
      else let m = bp_callbacks bp ! a
           in with_lock m
                (\<lambda>c. let c' = (if cb_persistent c then c else c\<lparr>cb_router := False\<rparr>);
                         bp1 = set_callback a (acquire m) bp
                     in if cb_router c
                        then bind_outcome (on_callback_success env (cb_browser_id c) (cb_query_id c) builder bp1)
                               (\<lambda>bp2. Ret (set_callback a (release c' m) bp2))
                        else Ret (set_callback a (release c' m) bp1))
                (Ret bp))"

definition execute_failure ::
  "cef_env \<Rightarrow> callback_addr \<Rightarrow> i32 \<Rightarrow> utf8 \<Rightarrow> 'h browser_process \<Rightarrow> 'h browser_process outcome" where
  "execute_failure env a error_code error_message bp =
     (if \<not> callback_alive a bp then Ret bp
      else let m = bp_callbacks bp ! a
           in with_lock m
                (\<lambda>c. let c' = c\<lparr>cb_router := False\<rparr>;
                         bp1 = set_callback a (acquire m) bp
                     in if cb_router c
                        then bind_outcome (on_callback_failure env (cb_browser_id c) (cb_query_id c)
                                             error_code error_message bp1)
                               (\<lambda>bp2. Ret (set_callback a (release c' m) bp2))
                        else Ret (set_callback a (release c' m) bp1))
                (Ret bp))"

text \<open>\<^verbatim>\<open>BrowserSideRouterCancelPendingFor\<close> upgrades its weak reference to the router: it is
  alive while the application, or a callback that is alive and attached, holds it.\<close>

definition router_alive :: "'h browser_process \<Rightarrow> bool" where
  "router_alive bp \<longleftrightarrow>
     bp_alive bp \<or>
     list_ex (\<lambda>a. callback_alive a bp \<and> cb_router (m_data (bp_callbacks bp ! a))) [0..<length (bp_callbacks bp)]"

fun task_execute_with :: "'h reentry \<Rightarrow> cef_env \<Rightarrow> 'h ui_task \<Rightarrow> 'h browser_process \<Rightarrow> 'h browser_process outcome" where
  "task_execute_with re env (CallbackSuccess a builder) bp = execute_success env a builder bp"
| "task_execute_with re env (CallbackFailure a code msg) bp = execute_failure env a code msg bp"
| "task_execute_with re env (CancelPendingFor browser handler notify) bp =
     (if router_alive bp then cancel_pending_for_with re env True browser handler notify bp else Ret bp)"

abbreviation task_execute where
  "task_execute \<equiv> task_execute_with Ret"

text \<open>The UI thread runs the oldest task.\<close>

definition run_task_with :: "'h reentry \<Rightarrow> cef_env \<Rightarrow> 'h browser_process \<Rightarrow> 'h browser_process outcome" where
  "run_task_with re env bp =
     (case bp_tasks bp of
        [] \<Rightarrow> Ret bp
      | t # ts \<Rightarrow> task_execute_with re env t (bp\<lparr>bp_tasks := ts\<rparr>))"

abbreviation run_task where
  "run_task \<equiv> run_task_with Ret"

section \<open>The router's interface\<close>

definition router_new :: "message_router_config \<Rightarrow> 'h browser_side_router" where
  "router_new config =
     \<lparr>br_config = config, br_query_message_name = query_message_name_of config,
      br_cancel_message_name = cancel_message_name_of config,
      br_query_id_generator = mutex_new (ig_new I64_MAX),
      br_handlers = mutex_new hd_default, br_query_info_map = mutex_new bim_default\<rparr>"

definition browser_process_new :: "message_router_config \<Rightarrow> 'h browser_process" where
  "browser_process_new config =
     \<lparr>bp_router = router_new config, bp_alive = True, bp_callbacks = [], bp_held = {},
      bp_tasks = [], bp_events = []\<rparr>"

definition add_handler ::
  "'h \<Rightarrow> bool \<Rightarrow> 'h browser_process \<Rightarrow> (handler_id option \<times> 'h browser_process) outcome" where
  "add_handler h first bp =
     (let m = br_handlers (bp_router bp)
      in with_lock m (\<lambda>d. let (i, d') = hd_add h first d in Ret (i, set_handlers (m\<lparr>m_data := d'\<rparr>) bp))
           (Ret (None, bp)))"

text \<open>The guard of \<^verbatim>\<open>handlers\<close> lives until \<^verbatim>\<open>remove_handler\<close> returns.\<close>

definition remove_handler_with ::
  "'h reentry \<Rightarrow> cef_env \<Rightarrow> bool \<Rightarrow> handler_id \<Rightarrow> 'h browser_process \<Rightarrow> (bool \<times> 'h browser_process) outcome" where
  "remove_handler_with re env on_ui i bp =
     (let m = br_handlers (bp_router bp)
      in with_lock m
           (\<lambda>d. let (handler, d') = hd_remove i d;
                    bp1 = set_handlers (acquire m) bp
                in case handler of
                     None \<Rightarrow> Ret (False, set_handlers (release d' m) bp1)
                   | Some h \<Rightarrow>
                       bind_outcome (cancel_pending_for_with re env on_ui None (Some (i, h)) True bp1)
                         (\<lambda>bp2. Ret (True, set_handlers (release d' m) bp2)))
           (Ret (False, bp)))"

abbreviation remove_handler where
  "remove_handler \<equiv> remove_handler_with Ret"

text \<open>\<^verbatim>\<open>handler_id.and_then(..)\<close>: the handler of an id, looked up under the lock.\<close>

definition find_handler ::
  "handler_id option \<Rightarrow> 'h browser_process \<Rightarrow> (handler_id \<times> 'h) option outcome" where
  "find_handler handler_id bp =
     (case handler_id of
        None \<Rightarrow> Ret None
      | Some i \<Rightarrow>
          with_lock (br_handlers (bp_router bp))
            (\<lambda>d. Ret (map_option (Pair i) (hd_get i d))) (Ret None))"

definition cancel_pending_with ::
  "'h reentry \<Rightarrow> cef_env \<Rightarrow> bool \<Rightarrow> browser_ref option \<Rightarrow> handler_id option \<Rightarrow> 'h browser_process \<Rightarrow>
   'h browser_process outcome" where
  "cancel_pending_with re env on_ui browser handler_id bp =
     bind_outcome (find_handler handler_id bp)
       (\<lambda>handler. cancel_pending_for_with re env on_ui browser handler True bp)"

abbreviation cancel_pending where
  "cancel_pending \<equiv> cancel_pending_with Ret"

definition count_visitor :: "handler_id \<Rightarrow> (usize, i64, 'h query_info) visitor" where
  "count_visitor i count b key value =
     (if (case qi_handler value of None \<Rightarrow> False | Some handler \<Rightarrow> fst handler = i)
      then (count + 1, Continue KeepEntry) else (count, Continue KeepEntry))"

definition pending_count ::
  "browser_ref option \<Rightarrow> handler_id option \<Rightarrow> 'h browser_process \<Rightarrow> usize outcome" where
  "pending_count browser handler_id bp =
     with_lock (query_map_mutex bp)
       (\<lambda>m. if bim_is_empty m then Ret 0
            else bind_outcome (find_handler handler_id bp)
              (\<lambda>handler. case map_option fst handler of
                 Some i \<Rightarrow>
                   bind_outcome (case browser of
                       Some b \<Rightarrow> bim_find_browser_all (count_visitor i) 0 (brw_identifier b) m
                     | None \<Rightarrow> bim_find_all (count_visitor i) 0 m)
                     (\<lambda>(count, _). Ret count)
               | None \<Rightarrow>
                   (case browser of
                      Some b \<Rightarrow> Ret (bim_browser_len (brw_identifier b) m)
                    | None \<Rightarrow> Ret (bim_len m))))
       (Ret 0)"

definition on_before_close_with ::
  "'h reentry \<Rightarrow> cef_env \<Rightarrow> bool \<Rightarrow> browser_ref option \<Rightarrow> 'h browser_process \<Rightarrow> 'h browser_process outcome" where
  "on_before_close_with re env on_ui browser = cancel_pending_for_with re env on_ui browser None False"

abbreviation on_before_close where
  "on_before_close \<equiv> on_before_close_with Ret"

definition on_render_process_terminated_with ::
  "'h reentry \<Rightarrow> cef_env \<Rightarrow> bool \<Rightarrow> browser_ref option \<Rightarrow> 'h browser_process \<Rightarrow> 'h browser_process outcome" where
  "on_render_process_terminated_with re env on_ui browser = cancel_pending_for_with re env on_ui browser None False"

abbreviation on_render_process_terminated where
  "on_render_process_terminated \<equiv> on_render_process_terminated_with Ret"

definition on_before_browse_with ::
  "'h reentry \<Rightarrow> cef_env \<Rightarrow> bool \<Rightarrow> browser_ref option \<Rightarrow> frame_ref option \<Rightarrow> 'h browser_process \<Rightarrow>
   'h browser_process outcome" where
  "on_before_browse_with re env on_ui browser frame bp =
     (if (case frame of None \<Rightarrow> False | Some f \<Rightarrow> fr_is_main f)
      then cancel_pending_for_with re env on_ui browser None False bp else Ret bp)"

abbreviation on_before_browse where
  "on_before_browse \<equiv> on_before_browse_with Ret"

section \<open>Incoming messages\<close>

fun query_arg_of :: "message_payload \<Rightarrow> query_arg" where
  "query_arg_of PEmpty = QueryBinary []"
| "query_arg_of (PString s) = QueryStr s"
| "query_arg_of (PBinary b) = QueryBinary b"

text \<open>\<^verbatim>\<open>find_map\<close> over the handlers: the first one that takes the query.\<close>

fun offer_query_with ::
  "'h reentry \<Rightarrow> cef_env \<Rightarrow> 'h handler_env \<Rightarrow> browser_ref option \<Rightarrow> frame_ref option \<Rightarrow> i64 \<Rightarrow> query_arg \<Rightarrow>
   bool \<Rightarrow> callback_addr \<Rightarrow> (handler_id \<times> 'h) list \<Rightarrow> 'h browser_process \<Rightarrow>
   ((handler_id \<times> 'h) option \<times> 'h browser_process) outcome" where
  "offer_query_with re env hs browser frame query_id arg persistent a [] bp = Ret (None, bp)"
| "offer_query_with re env hs browser frame query_id arg persistent a ((i, h) # cs) bp =
     (let (taken, calls, keeps) = hs (bp_events bp) h browser frame query_id arg persistent
      in bind_outcome (re (log_event (OnQuery h browser frame query_id arg persistent a) bp))
           (\<lambda>bp1. let bp2 = fold (callback_method env a) calls bp1;
                      bp3 = (if keeps then bp2\<lparr>bp_held := insert a (bp_held bp2)\<rparr> else bp2)
                  in if taken then Ret (Some (i, h), bp3)
                     else offer_query_with re env hs browser frame query_id arg persistent a cs bp3))"

abbreviation offer_query where
  "offer_query \<equiv> offer_query_with Ret"

definition receive_query_with ::
  "'h reentry \<Rightarrow> cef_env \<Rightarrow> 'h handler_env \<Rightarrow> browser_ref option \<Rightarrow> frame_ref option \<Rightarrow> string \<Rightarrow> render_message \<Rightarrow>
   'h browser_process \<Rightarrow> 'h browser_process outcome" where
  "receive_query_with re env hs browser frame name content bp =
     (let r = bp_router bp in
      bind_outcome (lock_result (br_query_id_generator r)) (\<lambda>generator.
      bind_outcome (lock_result (br_handlers r)) (\<lambda>handlers.
      bind_outcome (lock_result (br_query_info_map r)) (\<lambda>info_map.
        case (browser, generator, handlers, info_map) of
          (Some b, Some g, Some d, Some m) \<Rightarrow>
            if hd_handlers d = []
            then Ret (cancel_unhandled_query env frame (rm_context_id content) (rm_request_id content) bp)
            else
              let browser_id = brw_identifier b;
                  (query_id, g') = ig_next g;
                  bp1 = set_generator ((br_query_id_generator r)\<lparr>m_data := g'\<rparr>) bp;
                  (a, bp2) = callback_new browser_id query_id (rm_is_persistent content)
                               (message_size_threshold (br_config r)) name bp1
              in bind_outcome
                   (offer_query_with re env hs browser frame query_id
                      (query_arg_of (rm_payload content)) (rm_is_persistent content) a
                      (hd_candidates d) (set_query_map (acquire (query_map_mutex bp2)) bp2))
                   (\<lambda>(handler, bp3). case handler of
                      Some h \<Rightarrow>
                        let info = \<lparr>qi_browser = browser, qi_frame = frame,
                                    qi_context_id = rm_context_id content, qi_request_id = rm_request_id content,
                                    qi_is_persistent = rm_is_persistent content,
                                    qi_callback = Some a, qi_handler = Some h\<rparr>
                        in Ret (set_query_map (release (bim_insert browser_id query_id info m)
                                                 (query_map_mutex bp3)) bp3)
                    | None \<Rightarrow>
                        bind_outcome (detach_locked a bp3) (\<lambda>bp4.
                          Ret (set_query_map (release m (query_map_mutex bp4))
                                 (cancel_unhandled_query env frame (rm_context_id content)
                                    (rm_request_id content) bp4))))
        | _ \<Rightarrow>
            Ret (cancel_unhandled_query env frame (rm_context_id content) (rm_request_id content) bp)))))"

abbreviation receive_query where
  "receive_query \<equiv> receive_query_with Ret"

definition on_process_message_received_with ::
  "'h reentry \<Rightarrow> cef_env \<Rightarrow> 'h handler_env \<Rightarrow> browser_ref option \<Rightarrow> frame_ref option \<Rightarrow> process_message option \<Rightarrow>
   'h browser_process \<Rightarrow> (bool \<times> 'h browser_process) outcome" where
  "on_process_message_received_with re env hs browser frame message bp =
     (case message of
        None \<Rightarrow> Ret (True, bp)
      | Some message \<Rightarrow>
          let name = pm_name message in
          if name = br_query_message_name (bp_router bp) then
            bind_outcome (render_message_from env (Some message)) (\<lambda>content.
            bind_outcome (receive_query_with re env hs browser frame name content bp) (\<lambda>bp'.
              Ret (True, bp')))
          else if name = br_cancel_message_name (bp_router bp) then
            (case (browser, argument_list message) of
               (Some b, Some args) \<Rightarrow>
                 bind_outcome
                   (cancel_pending_request_with re env (brw_identifier b) (lv_int 0 args) (lv_int 1 args) bp)
                   (\<lambda>bp'. Ret (True, bp'))
             | _ \<Rightarrow> Ret (True, bp))
          else Ret (False, bp))"

abbreviation on_process_message_received where
  "on_process_message_received \<equiv> on_process_message_received_with Ret"

section \<open>Effects\<close>

named_theorems bp_simps \<open>projections of the process after an update\<close>

text \<open>The message a failure sends, as the list of the events it causes.\<close>

definition failure_args :: "cef_env \<Rightarrow> i32 \<Rightarrow> i32 \<Rightarrow> i32 \<Rightarrow> utf8 \<Rightarrow> list_value" where
  "failure_args env context_id request_id code msg =
     [VInt context_id, VInt request_id, VBool False, VInt code,
      VString (utf8_from_cef_string env (cef_string_from_utf8 env msg))]"

definition failure_events ::
  "cef_env \<Rightarrow> string \<Rightarrow> frame_ref option \<Rightarrow> i32 \<Rightarrow> i32 \<Rightarrow> i32 \<Rightarrow> utf8 \<Rightarrow> 'h browser_event list" where
  "failure_events env name frame context_id request_id code msg =
     (case frame of
        Some f \<Rightarrow> if env_create_ok env
                  then [SendToRenderer f (ListMessage name (failure_args env context_id request_id code msg))]
                  else []
      | None \<Rightarrow> [])"

definition success_events ::
  "cef_env \<Rightarrow> frame_ref option \<Rightarrow> i32 \<Rightarrow> i32 \<Rightarrow> message_builder \<Rightarrow> 'h browser_event list" where
  "success_events env frame context_id request_id builder =
     (case (frame, browser_response env builder context_id request_id) of
        (Some f, Some m) \<Rightarrow> [SendToRenderer f m] | _ \<Rightarrow> [])"

definition log_events :: "'h browser_event list \<Rightarrow> 'h browser_process \<Rightarrow> 'h browser_process" where
  "log_events es bp = bp\<lparr>bp_events := bp_events bp @ es\<rparr>"

lemma log_events_simps [simp]:
  "log_events [] bp = bp"
  "log_events fs (log_events es bp) = log_events (es @ fs) bp"
  "log_event e bp = log_events [e] bp"
  by (simp_all add: log_events_def log_event_def)

lemma send_query_failure_eq:
  "send_query_failure env frame c r code msg bp =
     log_events (failure_events env (br_query_message_name (bp_router bp)) frame c r code msg) bp"
  by (simp add: send_query_failure_def failure_events_def failure_args_def process_message_create_def
      Let_def lv_set_string_def lv_simps split: option.splits)

lemma send_query_success_eq:
  "send_query_success env frame c r builder bp = log_events (success_events env frame c r builder) bp"
  by (simp add: send_query_success_def success_events_def split: option.splits)

lemma process_updates [bp_simps]:
  "bp_router (log_events es bp) = bp_router bp" "bp_alive (log_events es bp) = bp_alive bp"
  "bp_callbacks (log_events es bp) = bp_callbacks bp" "bp_held (log_events es bp) = bp_held bp"
  "bp_tasks (log_events es bp) = bp_tasks bp" "bp_events (log_events es bp) = bp_events bp @ es"
  "bp_router (set_query_map m bp) = (bp_router bp)\<lparr>br_query_info_map := m\<rparr>"
  "bp_alive (set_query_map m bp) = bp_alive bp"
  "bp_callbacks (set_query_map m bp) = bp_callbacks bp" "bp_held (set_query_map m bp) = bp_held bp"
  "bp_tasks (set_query_map m bp) = bp_tasks bp" "bp_events (set_query_map m bp) = bp_events bp"
  "bp_router (set_callback a c bp) = bp_router bp" "bp_alive (set_callback a c bp) = bp_alive bp"
  "bp_callbacks (set_callback a c bp) = (bp_callbacks bp)[a := c]"
  "bp_held (set_callback a c bp) = bp_held bp"
  "bp_tasks (set_callback a c bp) = bp_tasks bp" "bp_events (set_callback a c bp) = bp_events bp"
  "bp_router (post_task t bp) = bp_router bp" "bp_alive (post_task t bp) = bp_alive bp"
  "bp_callbacks (post_task t bp) = bp_callbacks bp" "bp_held (post_task t bp) = bp_held bp"
  "bp_tasks (post_task t bp) = bp_tasks bp @ [t]" "bp_events (post_task t bp) = bp_events bp"
  by (simp_all add: log_events_def set_query_map_def set_callback_def post_task_def)

text \<open>Detaching a set of callbacks.\<close>

definition detach_at :: "callback_addr set \<Rightarrow> router_callback mutex list \<Rightarrow> router_callback mutex list" where
  "detach_at A cbs = map (\<lambda>(i, m). if i \<in> A then m\<lparr>m_data := detach (m_data m)\<rparr> else m) (enumerate 0 cbs)"

lemma detach_at_length [simp]: "length (detach_at A cbs) = length cbs"
  by (simp add: detach_at_def)

lemma detach_at_nth:
  "i < length cbs \<Longrightarrow>
   detach_at A cbs ! i = (if i \<in> A then (cbs ! i)\<lparr>m_data := detach (m_data (cbs ! i))\<rparr> else cbs ! i)"
  by (simp add: detach_at_def nth_enumerate_eq)

lemma detach_at_empty [simp]: "detach_at {} cbs = cbs"
  by (rule nth_equalityI) (auto simp: detach_at_nth)

lemma detach_at_single:
  "a < length cbs \<Longrightarrow> cbs[a := (cbs ! a)\<lparr>m_data := detach (m_data (cbs ! a))\<rparr>] = detach_at {a} cbs"
  by (rule nth_equalityI) (auto simp: detach_at_nth nth_list_update)

lemma detach_detach [simp]: "detach (detach c) = detach c"
  by (simp add: detach_def)

lemma detach_at_Un [simp]: "detach_at B (detach_at A cbs) = detach_at (A \<union> B) cbs"
  by (rule nth_equalityI) (auto simp: detach_at_nth)

text \<open>What cancelling a list of queries does.\<close>

definition cancel_events ::
  "cef_env \<Rightarrow> string \<Rightarrow> bool \<Rightarrow> i64 \<Rightarrow> 'h query_info \<Rightarrow> 'h browser_event list" where
  "cancel_events env name notify k v =
     (if notify
      then failure_events env name (qi_frame v) (qi_context_id v) (qi_request_id v)
             CANCELED_CODE (ascii_bytes CANCELED_MESSAGE)
      else []) @
     (case qi_handler v of None \<Rightarrow> [] | Some (_, h) \<Rightarrow> [OnQueryCanceled h (qi_browser v) (qi_frame v) k])"

definition entry_callbacks :: "(i32 \<times> i64 \<times> 'h query_info) list \<Rightarrow> callback_addr set" where
  "entry_callbacks es = {a. \<exists>(b, k, v) \<in> set es. qi_callback v = Some a}"

definition cancel_entries ::
  "cef_env \<Rightarrow> bool \<Rightarrow> (i32 \<times> i64 \<times> 'h query_info) list \<Rightarrow> 'h browser_process \<Rightarrow> 'h browser_process" where
  "cancel_entries env notify es bp =
     bp\<lparr>bp_events := bp_events bp @
          concat (map (\<lambda>(b, k, v). cancel_events env (br_query_message_name (bp_router bp)) notify k v) es),
        bp_callbacks := detach_at (entry_callbacks es) (bp_callbacks bp)\<rparr>"

definition callbacks_ok :: "'h browser_process \<Rightarrow> (i32 \<times> i64 \<times> 'h query_info) list \<Rightarrow> bool" where
  "callbacks_ok bp es \<longleftrightarrow>
     (\<forall>a \<in> entry_callbacks es. a < length (bp_callbacks bp)) \<and> (\<forall>m \<in> set (bp_callbacks bp). lock_ok m)"

lemma entry_callbacks_simps [simp]:
  "entry_callbacks [] = {}"
  "entry_callbacks ((b, k, v) # es) = set_option (qi_callback v) \<union> entry_callbacks es"
  by (auto simp: entry_callbacks_def)

lemma detach_locked_eq:
  "a < length (bp_callbacks bp) \<Longrightarrow> \<forall>m \<in> set (bp_callbacks bp). lock_ok m \<Longrightarrow>
   detach_locked a bp = Ret (bp\<lparr>bp_callbacks := detach_at {a} (bp_callbacks bp)\<rparr>)"
  by (simp add: detach_locked_def outcome_simps set_callback_def detach_at_single)

text \<open>
  Handlers that call the router back. \<open>C evs\<close> tells whether the handler whose call is
  the last event of \<open>evs\<close> does so; one that is called with the query map locked then
  blocks. \<open>calls_back C evs es\<close> tells whether this happens in the events \<open>es\<close> after \<open>evs\<close>.
\<close>

fun calls_handler :: "'h browser_event \<Rightarrow> bool" where
  "calls_handler (SendToRenderer f m) = False"
| "calls_handler (OnQuery h b f q arg persistent a) = True"
| "calls_handler (OnQueryCanceled h b f q) = True"

fun calls_back :: "('h browser_event list \<Rightarrow> bool) \<Rightarrow> 'h browser_event list \<Rightarrow> 'h browser_event list \<Rightarrow> bool" where
  "calls_back C evs [] = False"
| "calls_back C evs (e # es) = (calls_handler e \<and> C (evs @ [e]) \<or> calls_back C (evs @ [e]) es)"

definition refuses :: "('h browser_event list \<Rightarrow> bool) \<Rightarrow> 'h reentry \<Rightarrow> bool" where
  "refuses C re \<longleftrightarrow>
     (\<forall>bp. m_held (query_map_mutex bp) \<longrightarrow> re bp = (if C (bp_events bp) then Blocked else Ret bp))"

lemma refuses_Ret: "refuses (\<lambda>_. False) Ret"
  by (simp add: refuses_def)

lemma calls_back_never [simp]: "\<not> calls_back (\<lambda>_. False) evs es"
  by (induction es arbitrary: evs) simp_all

lemma calls_back_append [simp]:
  "calls_back C evs (xs @ ys) \<longleftrightarrow> calls_back C evs xs \<or> calls_back C (evs @ xs) ys"
  by (induction xs arbitrary: evs) simp_all

lemma calls_back_iff:
  "calls_back C evs es \<longleftrightarrow> (\<exists>p e q. es = p @ e # q \<and> calls_handler e \<and> C (evs @ p @ [e]))"
proof (induction es arbitrary: evs)
  case (Cons e es)
  show ?case
    unfolding calls_back.simps Cons.IH by (auto simp: Cons_eq_append_conv) (metis append_Cons append_assoc append_Nil)+
qed simp

lemma calls_back_silent [simp]:
  "\<not> calls_back C evs (failure_events env name frame c r code msg)"
  "\<not> calls_back C evs (success_events env frame c r builder)"
  by (simp_all add: failure_events_def success_events_def split: option.splits)

abbreviation all_cancel_events ::
  "cef_env \<Rightarrow> bool \<Rightarrow> (i32 \<times> i64 \<times> 'h query_info) list \<Rightarrow> 'h browser_process \<Rightarrow> 'h browser_event list" where
  "all_cancel_events env notify es bp \<equiv>
     concat (map (\<lambda>(b, k, v). cancel_events env (br_query_message_name (bp_router bp)) notify k v) es)"

abbreviation unless_called_back ::
  "('h browser_event list \<Rightarrow> bool) \<Rightarrow> 'h browser_process \<Rightarrow> 'h browser_event list \<Rightarrow> 'a \<Rightarrow> 'a outcome" where
  "unless_called_back C bp es x \<equiv> (if calls_back C (bp_events bp) es then Blocked else Ret x)"

lemma cancel_query_eq:
  assumes "refuses C re" "m_held (query_map_mutex bp)" "callbacks_ok bp [(b, k, v)]"
  shows "cancel_query_with re env k v notify bp =
    unless_called_back C bp (all_cancel_events env notify [(b, k, v)] bp) (cancel_entries env notify [(b, k, v)] bp)"
  using assms
  by (auto simp: cancel_query_with_def cancel_entries_def callbacks_ok_def cancel_events_def Let_def refuses_def
      send_query_failure_eq detach_locked_eq bp_simps log_events_def split: option.splits)

lemma cancel_entries_simps [bp_simps]:
  "bp_router (cancel_entries env notify es bp) = bp_router bp"
  "bp_alive (cancel_entries env notify es bp) = bp_alive bp"
  "bp_callbacks (cancel_entries env notify es bp) = detach_at (entry_callbacks es) (bp_callbacks bp)"
  "bp_held (cancel_entries env notify es bp) = bp_held bp"
  "bp_tasks (cancel_entries env notify es bp) = bp_tasks bp"
  by (simp_all add: cancel_entries_def)

lemma cancel_entries_append:
  "cancel_entries env notify ys (cancel_entries env notify xs bp) = cancel_entries env notify (xs @ ys) bp"
  by (simp add: cancel_entries_def entry_callbacks_def bex_Un Collect_disj_eq)

lemma lock_ok_detach_at:
  "\<forall>m \<in> set cbs. lock_ok m \<Longrightarrow> \<forall>m \<in> set (detach_at A cbs). lock_ok m"
  by (auto simp: set_conv_nth detach_at_nth)

lemma cancel_fold_Blocked:
  "fold (\<lambda>(b, k, v) s. if P b k v then bind_outcome s (f k v) else s) es Blocked = Blocked"
  by (induction es) auto

lemma cancel_fold:
  assumes re: "refuses C re" and "m_held (query_map_mutex bp)" "callbacks_ok bp (filter (\<lambda>(b, k, v). P b k v) es)"
  shows "fold (\<lambda>(b, k, v) s. if P b k v then bind_outcome s (cancel_query_with re env k v notify) else s) es (Ret bp)
    = unless_called_back C bp (all_cancel_events env notify (filter (\<lambda>(b, k, v). P b k v) es) bp)
        (cancel_entries env notify (filter (\<lambda>(b, k, v). P b k v) es) bp)"
  using assms(2,3)
proof (induction es arbitrary: bp)
  case Nil
  then show ?case by (simp add: cancel_entries_def)
next
  case (Cons e es)
  obtain b k v where e: "e = (b, k, v)" by (cases e)
  show ?case
  proof (cases "P b k v")
    case True
    let ?bp = "cancel_entries env notify [e] bp"
    have ok: "callbacks_ok bp [e]" "callbacks_ok ?bp (filter (\<lambda>(b, k, v). P b k v) es)"
      using Cons.prems True e lock_ok_detach_at [of "bp_callbacks bp"]
      by (auto simp: callbacks_ok_def bp_simps)
    have held: "m_held (query_map_mutex ?bp)" using Cons.prems(1) by (simp add: bp_simps)
    have evs: "bp_events ?bp = bp_events bp @ all_cancel_events env notify [e] bp"
      by (simp add: cancel_entries_def)
    show ?thesis
      using Cons.IH [OF held ok(2)] cancel_query_eq [OF re Cons.prems(1), of b k v env notify] ok(1) True e evs
      by (simp add: cancel_entries_append cancel_fold_Blocked bp_simps)
  next
    case False
    with Cons e show ?thesis by simp
  qed
qed

section \<open>Cancelling traversals\<close>

text \<open>
  Which queries a call cancels: \<open>query_scope\<close> is what the traversal visits,
  \<open>handler_matches\<close> and \<open>request_matches\<close> the tests of the two visitors.
\<close>

definition query_scope :: "browser_ref option \<Rightarrow> 'h query_map \<Rightarrow> (i32 \<times> i64 \<times> 'h query_info) list" where
  "query_scope browser m =
     (case browser of None \<Rightarrow> bim_entries m | Some b \<Rightarrow> browser_entries_of (brw_identifier b) m)"

definition handler_matches :: "handler_id option \<Rightarrow> 'h query_info \<Rightarrow> bool" where
  "handler_matches handler_id v \<longleftrightarrow>
     (case (handler_id, qi_handler v) of (Some i, Some e) \<Rightarrow> i = fst e | _ \<Rightarrow> True)"

definition request_matches :: "i32 \<Rightarrow> i32 \<Rightarrow> 'h query_info \<Rightarrow> bool" where
  "request_matches context_id request_id v \<longleftrightarrow>
     qi_context_id v = context_id \<and> request_id = RESERVED_ID \<or> qi_request_id v = request_id"

definition cancelled_for ::
  "browser_ref option \<Rightarrow> handler_id option \<Rightarrow> 'h query_map \<Rightarrow> (i32 \<times> i64 \<times> 'h query_info) list" where
  "cancelled_for browser handler_id m = filter (\<lambda>(b, k, v). handler_matches handler_id v) (query_scope browser m)"

definition cancelled_request ::
  "i32 \<Rightarrow> i32 \<Rightarrow> i32 \<Rightarrow> 'h query_map \<Rightarrow> (i32 \<times> i64 \<times> 'h query_info) list" where
  "cancelled_request browser_id context_id request_id m =
     (let es = filter (\<lambda>(b, k, v). request_matches context_id request_id v) (browser_entries_of browser_id m)
      in if request_id = RESERVED_ID then es else take 1 es)"

text \<open>The map after the entries \<open>es\<close> have been removed from it.\<close>

definition removed_from ::
  "(i32 \<times> i64 \<times> 'h query_info) list \<Rightarrow> 'h query_map \<Rightarrow> 'h query_map \<Rightarrow> bool" where
  "removed_from es m m' \<longleftrightarrow> bim_inv m' \<and>
     (\<forall>b k. bim_lookup m' b k = (if \<exists>v. (b, k, v) \<in> set es then None else bim_lookup m b k))"

lemma removed_from_unique: "removed_from es m m1 \<Longrightarrow> removed_from es m m2 \<Longrightarrow> m1 = m2"
  using bim_eqI [of m1 m2] by (simp add: removed_from_def)

definition drop_queries ::
  "cef_env \<Rightarrow> bool \<Rightarrow> (i32 \<times> i64 \<times> 'h query_info) list \<Rightarrow> 'h query_map \<Rightarrow> 'h browser_process \<Rightarrow>
   'h browser_process" where
  "drop_queries env notify es m' bp =
     set_query_map ((query_map_mutex bp)\<lparr>m_data := m'\<rparr>) (cancel_entries env notify es bp)"

lemma set_query_map_same [simp]: "set_query_map (query_map_mutex bp) bp = bp"
  by (simp add: set_query_map_def)

lemma set_query_map_twice [simp]: "set_query_map m (set_query_map m' bp) = set_query_map m bp"
  by (simp add: set_query_map_def)

lemma cancel_entries_set_query_map:
  "cancel_entries env notify es (set_query_map m bp) = set_query_map m (cancel_entries env notify es bp)"
  by (simp add: cancel_entries_def set_query_map_def)

lemma callbacks_ok_set_query_map [simp]: "callbacks_ok (set_query_map m bp) es = callbacks_ok bp es"
  by (simp add: callbacks_ok_def bp_simps)

lemma traverse_eq:
  assumes "lock_ok (query_map_mutex bp)"
    and "f (m_data (query_map_mutex bp)) (Ret (set_query_map (acquire (query_map_mutex bp)) bp)) =
           Ret (if blocked then Blocked
                else Ret (cancel_entries env notify es (set_query_map (acquire (query_map_mutex bp)) bp)), m')"
  shows "traverse_query_map f bp = (if blocked then Blocked else Ret (drop_queries env notify es m' bp))"
  using assms
  by (simp add: traverse_query_map_def outcome_simps drop_queries_def cancel_entries_set_query_map
      bp_simps release_lock_ok)

lemma cancel_for_visitor_filter:
  "cancel_for_visitor_with re env hid notify =
     filter_visitor (\<lambda>s b k v. if handler_matches hid v then bind_outcome s (cancel_query_with re env k v notify) else s)
       (\<lambda>b k v. handler_matches hid v)"
  by (intro ext) (auto simp: cancel_for_visitor_with_def filter_visitor_def handler_matches_def split: option.splits)

lemma cancel_request_visitor_filter:
  "cancel_request_visitor_with re env c RESERVED_ID =
     filter_visitor (\<lambda>s b k v. if request_matches c RESERVED_ID v
                               then bind_outcome s (cancel_query_with re env k v False) else s)
       (\<lambda>b k v. request_matches c RESERVED_ID v)"
  by (intro ext) (auto simp: cancel_request_visitor_with_def filter_visitor_def request_matches_def)

lemma cancel_request_visitor_first:
  assumes "r \<noteq> RESERVED_ID"
  shows "\<exists>go. visit_entries (cancel_request_visitor_with re env c r) es s =
    (case filter (\<lambda>(b, k, v). request_matches c r v) es of
       [] \<Rightarrow> (s, es, go)
     | (b, k, v) # _ \<Rightarrow> (bind_outcome s (cancel_query_with re env k v False), remove1 (b, k, v) es, go))"
proof (induction es)
  case Nil
  show ?case by (intro exI [of _ True]) simp
next
  case (Cons e es)
  obtain b k v where e: "e = (b, k, v)" by (cases e)
  show ?case
  proof (cases "request_matches c r v")
    case True
    with assms show ?thesis
      unfolding e by (intro exI [of _ False]) (simp add: cancel_request_visitor_with_def request_matches_def)
  next
    case False
    from False have vis: "cancel_request_visitor_with re env c r s b k v = (s, Continue KeepEntry)"
      by (simp add: cancel_request_visitor_with_def request_matches_def)
    obtain go where go: "visit_entries (cancel_request_visitor_with re env c r) es s =
      (case filter (\<lambda>(b, k, v). request_matches c r v) es of
         [] \<Rightarrow> (s, es, go)
       | (b, k, v) # _ \<Rightarrow> (bind_outcome s (cancel_query_with re env k v False), remove1 (b, k, v) es, go))"
      using Cons.IH by blast
    show ?thesis
    proof (cases "filter (\<lambda>(b, k, v). request_matches c r v) es")
      case Nil
      with go vis False show ?thesis unfolding e by simp
    next
      case (Cons x xs)
      obtain b' k' v' where x: "x = (b', k', v')" by (cases x)
      have "request_matches c r v'"
        using Cons x by (auto simp: filter_eq_Cons_iff)
      then have "(b, k, v) \<noteq> (b', k', v')" using False by auto
      with go vis False Cons x show ?thesis unfolding e by auto
    qed
  qed
qed

text \<open>What is left after removing entries, from the traversals' description of it.\<close>

lemma removed_from_all:
  assumes "bim_inv m" "bim_inv m'" "bim_entries m' = filter (\<lambda>(b, k, v). \<not> P b k v) (bim_entries m)"
  shows "removed_from (filter (\<lambda>(b, k, v). P b k v) (bim_entries m)) m m'"
  unfolding removed_from_def
proof (intro conjI allI)
  fix b k
  have mem: "bim_lookup m' b k = Some v \<longleftrightarrow> bim_lookup m b k = Some v \<and> \<not> P b k v" for v
    using mem_bim_entries [OF assms(1), of b k v] mem_bim_entries [OF assms(2), of b k v] assms(3) by auto
  show "bim_lookup m' b k =
    (if \<exists>v. (b, k, v) \<in> set (filter (\<lambda>(b, k, v). P b k v) (bim_entries m)) then None else bim_lookup m b k)"
    using option_filter_eqI [OF mem] mem_bim_entries [OF assms(1), of b k] by simp
qed (rule assms(2))

lemma removed_from_browser:
  assumes "bim_inv m" "bim_inv m'" "set es \<subseteq> set (browser_entries_of b m)"
    and "set (browser_entries_of b m') = set (browser_entries_of b m) - set es"
    and "\<And>b' k. b' \<noteq> b \<Longrightarrow> bim_lookup m' b' k = bim_lookup m b' k"
  shows "removed_from es m m'"
  unfolding removed_from_def
proof (intro conjI allI)
  fix b' k
  show "bim_lookup m' b' k = (if \<exists>v. (b', k, v) \<in> set es then None else bim_lookup m b' k)"
  proof (cases "b' = b")
    case True
    have mem: "bim_lookup m' b k = Some v \<longleftrightarrow> bim_lookup m b k = Some v \<and> (b, k, v) \<notin> set es" for v
      using mem_browser_entries_of [OF assms(1), of b k v b] mem_browser_entries_of [OF assms(2), of b k v b]
        assms(4) by auto
    have "(b, k, v) \<in> set es \<longleftrightarrow> bim_lookup m b k = Some v \<and> (b, k, v) \<in> set es" for v
      using assms(3) mem_browser_entries_of [OF assms(1), of b k v b] by auto
    with option_filter_eqI [of "bim_lookup m' b k" "bim_lookup m b k" "\<lambda>v. (b, k, v) \<in> set es"] mem True
    show ?thesis by simp
  next
    case False
    then have "(b', k, v) \<notin> set es" for v
      using assms(3) mem_browser_entries_of [OF assms(1), of b' k v b] by auto
    with False assms(5) show ?thesis by simp
  qed
qed (rule assms(2))

text \<open>What the two cancelling calls need of the process, and what they do to it.\<close>

definition bp_cancellable :: "'h browser_process \<Rightarrow> bool" where
  "bp_cancellable bp \<longleftrightarrow>
     lock_ok (query_map_mutex bp) \<and> bim_inv (m_data (query_map_mutex bp)) \<and>
     callbacks_ok bp (bim_entries (m_data (query_map_mutex bp)))"

lemma callbacks_ok_subset: "callbacks_ok bp es \<Longrightarrow> set fs \<subseteq> set es \<Longrightarrow> callbacks_ok bp fs"
  unfolding callbacks_ok_def entry_callbacks_def by blast

lemma browser_entries_subset: "bim_inv m \<Longrightarrow> set (browser_entries_of b m) \<subseteq> set (bim_entries m)"
  using mem_bim_entries [of m] mem_browser_entries_of [of m] by auto

lemma callbacks_ok_browser:
  "bp_cancellable bp \<Longrightarrow> set fs \<subseteq> set (browser_entries_of b (m_data (query_map_mutex bp))) \<Longrightarrow> callbacks_ok bp fs"
  using browser_entries_subset callbacks_ok_subset by (meson bp_cancellable_def subset_trans)

lemma cancel_pending_for_with_spec:
  assumes "bp_cancellable bp" and re: "refuses C re"
  defines "m \<equiv> m_data (query_map_mutex bp)"
  shows "\<exists>m'. cancel_pending_for_with re env True browser handler notify bp =
                unless_called_back C bp
                  (all_cancel_events env notify (cancelled_for browser (map_option fst handler) m) bp)
                  (drop_queries env notify (cancelled_for browser (map_option fst handler) m) m' bp)
            \<and> removed_from (cancelled_for browser (map_option fst handler) m) m m'"
proof -
  let ?hid = "map_option fst handler"
  let ?P = "\<lambda>b k v. handler_matches ?hid v"
  let ?bp = "set_query_map (acquire (query_map_mutex bp)) bp"
  let ?es = "cancelled_for browser ?hid m"
  let ?S = "unless_called_back C bp (all_cancel_events env notify ?es bp) (cancel_entries env notify ?es ?bp)"
  have inv: "bim_inv m" and lock: "lock_ok (query_map_mutex bp)"
    using assms by (simp_all add: bp_cancellable_def)
  have held: "m_held (query_map_mutex ?bp)" by (simp add: bp_simps acquire_def)
  have sub: "set (query_scope browser m) \<subseteq> set (bim_entries m)"
    using browser_entries_subset [OF inv] by (auto simp: query_scope_def split: option.splits)
  then have ok: "callbacks_ok ?bp ?es"
    using assms callbacks_ok_subset [of bp "bim_entries m" ?es]
    by (auto simp: bp_cancellable_def cancelled_for_def)
  have visit: "visit_entries (cancel_for_visitor_with re env ?hid notify) (query_scope browser m) (Ret ?bp) =
      (?S, filter (\<lambda>(b, k, v). \<not> ?P b k v) (query_scope browser m), True)"
    using cancel_fold [OF re held, of ?P "query_scope browser m" env notify] ok
    by (simp add: cancel_for_visitor_filter visit_entries_filter cancelled_for_def bp_simps)
  have "\<exists>m'. cancel_all_matching_with re env browser ?hid notify m (Ret ?bp) = Ret (?S, m')
          \<and> removed_from ?es m m'"
  proof (cases "bim_is_empty m")
    case True
    then have "query_scope browser m = []"
      using sub bim_is_empty_entries [OF inv] by simp
    with True inv show ?thesis
      by (simp add: cancel_all_matching_with_def cancelled_for_def cancel_entries_def removed_from_def)
  next
    case ne: False
    show ?thesis
    proof (cases browser)
      case None
      from find_all_refines [OF inv visit [unfolded query_scope_def None, simplified]] ne None
      show ?thesis
        using removed_from_all [OF inv, of _ ?P]
        by (auto simp: cancel_all_matching_with_def cancelled_for_def query_scope_def)
    next
      case (Some b)
      let ?b = "brw_identifier b"
      obtain m' where m': "bim_find_browser_all (cancel_for_visitor_with re env ?hid notify) (Ret ?bp) ?b m =
            Ret (?S, m')" "bim_inv m'"
          "browser_entries_of ?b m' = filter (\<lambda>(b, k, v). \<not> ?P b k v) (browser_entries_of ?b m)"
          "\<forall>b' k. b' \<noteq> ?b \<longrightarrow> bim_lookup m' b' k = bim_lookup m b' k"
        using find_browser_all_refines [OF inv visit [unfolded query_scope_def Some option.case]]
          Some by (auto simp: query_scope_def)
      have "removed_from ?es m m'"
      proof (rule removed_from_browser [OF inv m'(2), of _ ?b])
        show "set (browser_entries_of ?b m') = set (browser_entries_of ?b m) - set ?es"
          using m'(3) Some by (auto simp: cancelled_for_def query_scope_def)
      qed (use m'(4) Some in \<open>auto simp: cancelled_for_def query_scope_def\<close>)
      with m'(1) ne Some show ?thesis by (auto simp: cancel_all_matching_with_def)
    qed
  qed
  then obtain m' where "cancel_all_matching_with re env browser ?hid notify m (Ret ?bp) =
      Ret (?S, m')" "removed_from ?es m m'" by blast
  then show ?thesis
    using traverse_eq [OF lock, of "cancel_all_matching_with re env browser ?hid notify" _ env notify ?es m']
    by (auto simp: cancel_pending_for_with_def m_def)
qed

lemma cancel_pending_request_with_spec:
  assumes "bp_cancellable bp" and re: "refuses C re"
  defines "m \<equiv> m_data (query_map_mutex bp)"
  shows "\<exists>m'. cancel_pending_request_with re env browser_id c r bp =
                unless_called_back C bp (all_cancel_events env False (cancelled_request browser_id c r m) bp)
                  (drop_queries env False (cancelled_request browser_id c r m) m' bp)
            \<and> removed_from (cancelled_request browser_id c r m) m m'"
proof -
  let ?P = "\<lambda>b k v. request_matches c r v"
  let ?vis = "cancel_request_visitor_with re env c r"
  let ?bp = "set_query_map (acquire (query_map_mutex bp)) bp"
  let ?bs = "browser_entries_of browser_id m" and ?es = "cancelled_request browser_id c r m"
  let ?S = "unless_called_back C bp (all_cancel_events env False ?es bp) (cancel_entries env False ?es ?bp)"
  have inv: "bim_inv m" and lock: "lock_ok (query_map_mutex bp)"
    using assms by (simp_all add: bp_cancellable_def)
  have held: "m_held (query_map_mutex ?bp)" by (simp add: bp_simps acquire_def)
  have sub: "set ?es \<subseteq> set ?bs"
    by (auto simp: cancelled_request_def Let_def dest: in_set_takeD split: if_splits)
  then have ok: "callbacks_ok ?bp ?es"
    using callbacks_ok_browser [OF assms(1)] by (simp add: m_def)
  have dist: "distinct ?bs"
    using inv distinct_browser_keys bim_inv_get [OF inv]
    by (auto simp: browser_entries_of_def dest: distinct_map [THEN iffD1] split: option.splits)
  have "\<exists>kept go. visit_entries ?vis ?bs (Ret ?bp) = (?S, kept, go)
      \<and> set kept = set ?bs - set ?es"
  proof (cases "r = RESERVED_ID")
    case True
    then show ?thesis
      using cancel_fold [OF re held, of ?P ?bs env False] ok
      by (auto simp: cancel_request_visitor_filter visit_entries_filter cancelled_request_def bp_simps)
  next
    case False
    obtain go where go: "visit_entries ?vis ?bs (Ret ?bp) =
      (case filter (\<lambda>(b, k, v). request_matches c r v) ?bs of
         [] \<Rightarrow> (Ret ?bp, ?bs, go)
       | (b, k, v) # _ \<Rightarrow> (bind_outcome (Ret ?bp) (cancel_query_with re env k v False), remove1 (b, k, v) ?bs, go))"
      using cancel_request_visitor_first [OF False] by blast
    show ?thesis
    proof (cases "filter (\<lambda>(b, k, v). request_matches c r v) ?bs")
      case Nil
      with False go show ?thesis by (simp add: cancelled_request_def cancel_entries_def)
    next
      case (Cons e xs)
      obtain b k v where e: "e = (b, k, v)" by (cases e)
      have es: "?es = [(b, k, v)]" using False Cons e by (simp add: cancelled_request_def)
      with ok have "cancel_query_with re env k v False ?bp = ?S"
        using cancel_query_eq [OF re held, of b k v env False] by (simp add: bp_simps)
      with go Cons e es dist show ?thesis by simp
    qed
  qed
  then obtain kept go where v: "visit_entries ?vis ?bs (Ret ?bp) = (?S, kept, go)"
      "set kept = set ?bs - set ?es" by blast
  from find_browser_all_refines [OF inv v(1)] obtain m' where
    m': "bim_find_browser_all ?vis (Ret ?bp) browser_id m = Ret (?S, m')"
    "bim_inv m'" "browser_entries_of browser_id m' = kept"
    "\<forall>b' k. b' \<noteq> browser_id \<longrightarrow> bim_lookup m' b' k = bim_lookup m b' k" by blast
  have "removed_from ?es m m'"
    using removed_from_browser [OF inv m'(2) sub] m'(3,4) v(2) by auto
  with m'(1) show ?thesis
    using traverse_eq [OF lock, of "\<lambda>m s. bim_find_browser_all ?vis s browser_id m" _ env False ?es m']
    by (auto simp: cancel_pending_request_with_def m_def)
qed

text \<open>The same for handlers that do not call the router.\<close>

lemmas cancel_pending_for_spec = cancel_pending_for_with_spec [OF _ refuses_Ret, unfolded if_not_P [OF calls_back_never]]
lemmas cancel_pending_request_spec = cancel_pending_request_with_spec [OF _ refuses_Ret, unfolded if_not_P [OF calls_back_never]]

section \<open>The invariant\<close>

abbreviation callback_of :: "'h browser_process \<Rightarrow> callback_addr \<Rightarrow> router_callback" where
  "callback_of bp a \<equiv> m_data (bp_callbacks bp ! a)"

abbreviation pending :: "'h browser_process \<Rightarrow> i32 \<Rightarrow> i64 \<Rightarrow> 'h query_info option" where
  "pending bp b k \<equiv> bim_lookup (m_data (query_map_mutex bp)) b k"

definition bp_locks :: "'h browser_process \<Rightarrow> bool" where
  "bp_locks bp \<longleftrightarrow>
     lock_ok (br_query_id_generator (bp_router bp)) \<and> lock_ok (br_handlers (bp_router bp)) \<and>
     lock_ok (query_map_mutex bp) \<and> (\<forall>m \<in> set (bp_callbacks bp). lock_ok m)"

text \<open>A pending query names the callback that was made for it.\<close>

definition entry_ok :: "router_callback mutex list \<Rightarrow> i32 \<Rightarrow> i64 \<Rightarrow> 'h query_info \<Rightarrow> bool" where
  "entry_ok cbs b k v \<longleftrightarrow>
     qi_handler v \<noteq> None \<and> map_option brw_identifier (qi_browser v) = Some b \<and>
     (\<exists>a < length cbs. qi_callback v = Some a \<and> cb_browser_id (m_data (cbs ! a)) = b \<and>
        cb_query_id (m_data (cbs ! a)) = k \<and> cb_persistent (m_data (cbs ! a)) = qi_is_persistent v)"

fun task_ok :: "nat \<Rightarrow> 'h ui_task \<Rightarrow> bool" where
  "task_ok n (CallbackSuccess a builder) = (a < n)"
| "task_ok n (CallbackFailure a code msg) = (a < n)"
| "task_ok n (CancelPendingFor browser handler notify) = True"

definition bp_wf :: "'h browser_process \<Rightarrow> bool" where
  "bp_wf bp \<longleftrightarrow>
     bp_locks bp \<and> bim_inv (m_data (query_map_mutex bp)) \<and>
     (\<forall>b k v. pending bp b k = Some v \<longrightarrow> entry_ok (bp_callbacks bp) b k v) \<and>
     (\<forall>t \<in> set (bp_tasks bp). task_ok (length (bp_callbacks bp)) t) \<and>
     bp_held bp \<subseteq> {..<length (bp_callbacks bp)}"

text \<open>
  One query id is drawn for each callback. Until the generator wraps around at
  \<^verbatim>\<open>i64::MAX\<close> the ids are \<open>1, 2, ..\<close>, an attached callback has its query pending, and
  the callback of a pending query that is not persistent is attached.
\<close>

definition bp_numbered :: "'h browser_process \<Rightarrow> bool" where
  "bp_numbered bp \<longleftrightarrow> (int (length (bp_callbacks bp)) \<le> I64_MAX \<longrightarrow>
     ig_inv I64_MAX (m_data (br_query_id_generator (bp_router bp))) \<and>
     ig_next_id (m_data (br_query_id_generator (bp_router bp))) = int (length (bp_callbacks bp)) \<and>
     (\<forall>a < length (bp_callbacks bp).
        cb_query_id (callback_of bp a) = int a + 1 \<and>
        (cb_router (callback_of bp a) \<longrightarrow>
           pending bp (cb_browser_id (callback_of bp a)) (cb_query_id (callback_of bp a)) \<noteq> None)) \<and>
     (\<forall>b k v a. pending bp b k = Some v \<and> \<not> qi_is_persistent v \<and> qi_callback v = Some a \<longrightarrow>
        cb_router (callback_of bp a)))"

definition bp_inv :: "'h browser_process \<Rightarrow> bool" where
  "bp_inv bp \<longleftrightarrow> bp_wf bp \<and> bp_numbered bp"

lemma bp_inv_new: "bp_inv (browser_process_new config)"
  by (simp add: bp_inv_def bp_wf_def bp_locks_def bp_numbered_def browser_process_new_def router_new_def
      ig_inv_new I64_MAX_def) (simp add: ig_new_def RESERVED_ID_def)

lemma entry_ok_detach_at: "entry_ok cbs b k v \<Longrightarrow> entry_ok (detach_at A cbs) b k v"
  by (auto simp: entry_ok_def detach_at_nth detach_def)

lemma bp_wf_cancellable: "bp_wf bp \<Longrightarrow> bp_cancellable bp"
  unfolding bp_cancellable_def bp_wf_def bp_locks_def callbacks_ok_def entry_callbacks_def entry_ok_def
  using mem_bim_entries [of "m_data (query_map_mutex bp)"] by fastforce

lemma bp_inv_entry:
  assumes "bp_inv bp" "pending bp b k = Some v"
  obtains a h where "entry_ok (bp_callbacks bp) b k v" "a < length (bp_callbacks bp)"
    "qi_callback v = Some a" "qi_handler v = Some h" "cb_browser_id (callback_of bp a) = b"
    "cb_query_id (callback_of bp a) = k" "cb_persistent (callback_of bp a) = qi_is_persistent v"
proof -
  have ok: "entry_ok (bp_callbacks bp) b k v"
    using assms unfolding bp_inv_def bp_wf_def by blast
  then show thesis using that [OF ok] by (auto simp: entry_ok_def)
qed

text \<open>In a numbered process a query id belongs to one callback.\<close>

lemma callback_of_entry:
  assumes "bp_inv bp" "int (length (bp_callbacks bp)) \<le> I64_MAX" "a < length (bp_callbacks bp)"
    and "pending bp b (cb_query_id (callback_of bp a)) = Some v"
  shows "qi_callback v = Some a \<and> cb_persistent (callback_of bp a) = qi_is_persistent v
    \<and> cb_browser_id (callback_of bp a) = b"
proof -
  obtain a' where "a' < length (bp_callbacks bp)" "qi_callback v = Some a'"
      "cb_query_id (callback_of bp a') = cb_query_id (callback_of bp a)"
      "cb_persistent (callback_of bp a') = qi_is_persistent v" "cb_browser_id (callback_of bp a') = b"
    using bp_inv_entry [OF assms(1,4)] by metis
  moreover from this assms have "a' = a" by (auto simp: bp_inv_def bp_numbered_def)
  ultimately show ?thesis by simp
qed

text \<open>
  The shape of every step that answers or cancels queries: the entries at the keys
  \<open>S\<close> go and the callbacks \<open>A\<close> are detached.
\<close>

definition settles ::
  "(i32 \<times> i64) set \<Rightarrow> callback_addr set \<Rightarrow> 'h browser_process \<Rightarrow> 'h browser_process \<Rightarrow> bool" where
  "settles S A bp bp' \<longleftrightarrow>
     bp_callbacks bp' = detach_at A (bp_callbacks bp) \<and>
     br_query_id_generator (bp_router bp') = br_query_id_generator (bp_router bp) \<and>
     lock_ok (br_handlers (bp_router bp')) \<and> lock_ok (query_map_mutex bp') \<and>
     bim_inv (m_data (query_map_mutex bp')) \<and>
     (\<forall>b k. pending bp' b k = (if (b, k) \<in> S then None else pending bp b k)) \<and>
     (\<forall>t \<in> set (bp_tasks bp'). task_ok (length (bp_callbacks bp)) t) \<and>
     bp_held bp' \<subseteq> {..<length (bp_callbacks bp)}"

lemma bp_inv_settles:
  assumes inv: "bp_inv bp" and st: "settles S A bp bp'"
    and gone: "\<And>b k v a. int (length (bp_callbacks bp)) \<le> I64_MAX \<Longrightarrow> (b, k) \<in> S \<Longrightarrow>
                 pending bp b k = Some v \<Longrightarrow> qi_callback v = Some a \<Longrightarrow> a \<in> A"
    and kept: "\<And>b k v a. int (length (bp_callbacks bp)) \<le> I64_MAX \<Longrightarrow> (b, k) \<notin> S \<Longrightarrow>
                 pending bp b k = Some v \<Longrightarrow> qi_callback v = Some a \<Longrightarrow> a \<in> A \<Longrightarrow> qi_is_persistent v"
  shows "bp_inv bp'"
proof -
  have cbs: "bp_callbacks bp' = detach_at A (bp_callbacks bp)"
    and look: "\<And>b k. pending bp' b k = (if (b, k) \<in> S then None else pending bp b k)"
    using st by (simp_all add: settles_def)
  have "bp_wf bp'"
    unfolding bp_wf_def
  proof (intro conjI allI impI)
    show "bp_locks bp'"
      using inv st lock_ok_detach_at [of "bp_callbacks bp" A]
      by (simp add: bp_inv_def bp_wf_def bp_locks_def settles_def)
    show "entry_ok (bp_callbacks bp') b k v" if "pending bp' b k = Some v" for b k v
      using that bp_inv_entry [OF inv] entry_ok_detach_at unfolding cbs look by (metis option.distinct(1))
  qed (use st in \<open>simp_all add: settles_def\<close>)
  moreover have "bp_numbered bp'"
  proof (cases "int (length (bp_callbacks bp)) \<le> I64_MAX")
    case True
    have 1: "cb_query_id (callback_of bp' a) = int a + 1 \<and>
        (cb_router (callback_of bp' a) \<longrightarrow>
           pending bp' (cb_browser_id (callback_of bp' a)) (cb_query_id (callback_of bp' a)) \<noteq> None)"
      if a: "a < length (bp_callbacks bp)" for a
    proof -
      have id: "cb_query_id (callback_of bp a) = int a + 1"
        and att: "cb_router (callback_of bp a) \<Longrightarrow>
           pending bp (cb_browser_id (callback_of bp a)) (cb_query_id (callback_of bp a)) \<noteq> None"
        using inv True a by (auto simp: bp_inv_def bp_numbered_def)
      have same: "callback_of bp' a = (if a \<in> A then detach (callback_of bp a) else callback_of bp a)"
        using a by (simp add: cbs detach_at_nth)
      show ?thesis
      proof (cases "a \<in> A")
        case True
        with same id show ?thesis by (simp add: detach_def)
      next
        case False
        let ?b = "cb_browser_id (callback_of bp a)" and ?k = "cb_query_id (callback_of bp a)"
        have "(?b, ?k) \<notin> S" if r: "cb_router (callback_of bp a)"
        proof
          assume S: "(?b, ?k) \<in> S"
          obtain v where v: "pending bp ?b ?k = Some v" using att [OF r] by blast
          have "qi_callback v = Some a" using callback_of_entry [OF inv True a v] by blast
          from gone [OF True S v this] False show False by contradiction
        qed
        with False same id att show ?thesis by (simp add: look)
      qed
    qed
    have 2: "cb_router (callback_of bp' a)"
      if "pending bp' b k = Some v" "\<not> qi_is_persistent v" "qi_callback v = Some a" for b k v a
    proof -
      from that(1) have p: "pending bp b k = Some v" "(b, k) \<notin> S" by (auto simp: look split: if_splits)
      then have "a < length (bp_callbacks bp)"
        using bp_inv_entry [OF inv p(1)] that(3) by (metis option.inject)
      moreover have "a \<notin> A" using kept [OF True p(2,1) that(3)] that(2) by blast
      moreover have "cb_router (callback_of bp a)"
        using inv True p(1) that(2,3) by (auto simp: bp_inv_def bp_numbered_def)
      ultimately show ?thesis by (simp add: cbs detach_at_nth)
    qed
    have len: "length (bp_callbacks bp') = length (bp_callbacks bp)" by (simp add: cbs)
    have gen: "br_query_id_generator (bp_router bp') = br_query_id_generator (bp_router bp)"
      using st by (simp add: settles_def)
    have "ig_inv I64_MAX (m_data (br_query_id_generator (bp_router bp)))"
        "ig_next_id (m_data (br_query_id_generator (bp_router bp))) = int (length (bp_callbacks bp))"
      using inv True by (simp_all add: bp_inv_def bp_numbered_def)
    with 1 2 show ?thesis unfolding bp_numbered_def len gen by blast
  qed (simp add: bp_numbered_def cbs)
  ultimately show ?thesis by (simp add: bp_inv_def)
qed

text \<open>Callbacks are only added, and a detached one is never attached again.\<close>

definition cbs_le :: "router_callback mutex list \<Rightarrow> router_callback mutex list \<Rightarrow> bool" where
  "cbs_le cbs cbs' \<longleftrightarrow> length cbs \<le> length cbs' \<and>
     (\<forall>a < length cbs. \<not> cb_router (m_data (cbs ! a)) \<longrightarrow> \<not> cb_router (m_data (cbs' ! a)))"

lemma cbs_le_simps [simp]: "cbs_le cbs cbs" "cbs_le cbs (detach_at A cbs)" "cbs_le cbs (cbs @ cs)"
  by (auto simp: cbs_le_def detach_at_nth detach_def nth_append)

text \<open>Cancelling pending queries keeps the invariant.\<close>

lemma cancelled_subset:
  assumes "bim_inv m"
  shows "set (cancelled_for browser hid m) \<subseteq> set (bim_entries m)"
    and "set (cancelled_request b c r m) \<subseteq> set (bim_entries m)"
proof -
  show "set (cancelled_for browser hid m) \<subseteq> set (bim_entries m)"
    using browser_entries_subset [OF assms]
    by (auto simp: cancelled_for_def query_scope_def split: option.splits)
  have "set (cancelled_request b c r m) \<subseteq> set (browser_entries_of b m)"
    by (auto simp: cancelled_request_def Let_def dest: in_set_takeD split: if_splits)
  then show "set (cancelled_request b c r m) \<subseteq> set (bim_entries m)"
    using browser_entries_subset [OF assms] by blast
qed

lemma bp_inv_locks:
  "bp_inv bp \<Longrightarrow> bp_locks bp" "bp_inv bp \<Longrightarrow> lock_ok (query_map_mutex bp)"
  "bp_inv bp \<Longrightarrow> lock_ok (br_handlers (bp_router bp))"
  "bp_inv bp \<Longrightarrow> lock_ok (br_query_id_generator (bp_router bp))"
  "bp_inv bp \<Longrightarrow> a < length (bp_callbacks bp) \<Longrightarrow> lock_ok (bp_callbacks bp ! a)"
  "bp_inv bp \<Longrightarrow> bim_inv (m_data (query_map_mutex bp))"
  by (auto simp: bp_inv_def bp_wf_def bp_locks_def)

lemma drop_queries_settles:
  assumes "bp_inv bp" "removed_from es (m_data (query_map_mutex bp)) m'"
  shows "settles {(b, k). \<exists>v. (b, k, v) \<in> set es} (entry_callbacks es) bp (drop_queries env notify es m' bp)"
  using assms
  by (simp add: settles_def drop_queries_def bp_simps removed_from_def bp_inv_def bp_wf_def bp_locks_def)

lemma drop_queries_inv:
  assumes inv: "bp_inv bp" and rem: "removed_from es (m_data (query_map_mutex bp)) m'"
    and sub: "set es \<subseteq> set (bim_entries (m_data (query_map_mutex bp)))"
  shows "bp_inv (drop_queries env notify es m' bp)"
proof (rule bp_inv_settles [OF inv drop_queries_settles [OF inv rem]])
  have look: "pending bp b k = Some v" if "(b, k, v) \<in> set es" for b k v
    using that sub mem_bim_entries [OF bp_inv_locks(6) [OF inv]] by blast
  fix b k v a
  assume v: "pending bp b k = Some v" "qi_callback v = Some a"
  show "a \<in> entry_callbacks es" if "(b, k) \<in> {(b, k). \<exists>v. (b, k, v) \<in> set es}"
    using that v look by (fastforce simp: entry_callbacks_def)
  show "qi_is_persistent v"
    if "(b, k) \<notin> {(b, k). \<exists>v. (b, k, v) \<in> set es}" "a \<in> entry_callbacks es"
  proof -
    from that(2) obtain b' k' v' where e: "(b', k', v') \<in> set es" "qi_callback v' = Some a"
      by (auto simp: entry_callbacks_def)
    have "b' = b \<and> k' = k"
      using bp_inv_entry [OF inv look [OF e(1)]] bp_inv_entry [OF inv v(1)] e(2) v(2)
      by (metis option.inject)
    with that(1) e(1) show ?thesis by auto
  qed
qed

lemma cancel_pending_for_inv:
  assumes "bp_inv bp"
  shows "\<exists>bp'. cancel_pending_for env on_ui browser handler notify bp = Ret bp' \<and> bp_inv bp'
      \<and> bp_tasks bp' = bp_tasks bp @ (if on_ui then [] else [CancelPendingFor browser handler notify])
      \<and> br_handlers (bp_router bp') = br_handlers (bp_router bp)
      \<and> cbs_le (bp_callbacks bp) (bp_callbacks bp')"
proof (cases on_ui)
  case True
  have wf: "bp_wf bp" using assms by (simp add: bp_inv_def)
  from cancel_pending_for_spec [OF bp_wf_cancellable [OF wf], of env browser handler notify]
  show ?thesis
    using True drop_queries_inv [OF assms _ cancelled_subset(1) [OF bp_inv_locks(6) [OF assms]]]
    by (auto simp: drop_queries_def bp_simps)
next
  case False
  moreover have "settles {} {} bp (post_task (CancelPendingFor browser handler notify) bp)"
    using assms by (simp add: settles_def bp_simps bp_inv_def bp_wf_def bp_locks_def)
  then have "bp_inv (post_task (CancelPendingFor browser handler notify) bp)"
    using bp_inv_settles [OF assms] by blast
  ultimately show ?thesis by (simp add: cancel_pending_for_with_def bp_simps)
qed

lemma cancel_pending_request_inv:
  assumes "bp_inv bp"
  shows "\<exists>bp'. cancel_pending_request env b c r bp = Ret bp' \<and> bp_inv bp'
      \<and> cbs_le (bp_callbacks bp) (bp_callbacks bp')"
proof -
  have wf: "bp_wf bp" using assms by (simp add: bp_inv_def)
  from cancel_pending_request_spec [OF bp_wf_cancellable [OF wf], of env b c r]
  show ?thesis
    using drop_queries_inv [OF assms _ cancelled_subset(2) [OF bp_inv_locks(6) [OF assms]]]
    by (auto simp: drop_queries_def bp_simps)
qed

section \<open>Answers\<close>

text \<open>What a task does that finds its callback attached.\<close>

definition settle_query ::
  "bool \<Rightarrow> callback_addr \<Rightarrow> 'h browser_event list \<Rightarrow> 'h query_map \<Rightarrow> 'h browser_process \<Rightarrow> 'h browser_process" where
  "settle_query used a evs m' bp =
     log_events evs (set_query_map ((query_map_mutex bp)\<lparr>m_data := m'\<rparr>)
       (bp\<lparr>bp_callbacks := detach_at (if used then {a} else {}) (bp_callbacks bp)\<rparr>))"

lemma settle_query_simps [bp_simps]:
  "bp_router (settle_query used a evs m' bp) =
     (bp_router bp)\<lparr>br_query_info_map := (query_map_mutex bp)\<lparr>m_data := m'\<rparr>\<rparr>"
  "bp_alive (settle_query used a evs m' bp) = bp_alive bp"
  "bp_callbacks (settle_query used a evs m' bp) = detach_at (if used then {a} else {}) (bp_callbacks bp)"
  "bp_held (settle_query used a evs m' bp) = bp_held bp"
  "bp_tasks (settle_query used a evs m' bp) = bp_tasks bp"
  "bp_events (settle_query used a evs m' bp) = bp_events bp @ evs"
  by (simp_all add: settle_query_def log_events_def set_query_map_def)

definition take_query :: "i32 \<Rightarrow> i64 \<Rightarrow> 'h query_map \<Rightarrow> 'h query_map" where
  "take_query b k m = snd (bim_take (\<lambda>v. \<not> qi_is_persistent v) b k m)"

lemma take_query_lookup:
  "bim_lookup (take_query b k m) b' k' =
     (if b' = b \<and> k' = k \<and> (\<exists>v. bim_lookup m b k = Some v \<and> \<not> qi_is_persistent v) then None
      else bim_lookup m b' k')"
  by (simp add: take_query_def bim.lookup_take)

lemma get_query_info_eq:
  assumes "lock_ok (query_map_mutex bp)"
  shows "get_query_info b k False bp =
    Ret (pending bp b k,
         set_query_map ((query_map_mutex bp)\<lparr>m_data := take_query b k (m_data (query_map_mutex bp))\<rparr>) bp)"
proof -
  let ?r = "bim_take (\<lambda>v. \<not> qi_is_persistent v) b k (m_data (query_map_mutex bp))"
  have "get_query_info b k False bp =
      Ret (fst ?r, set_query_map ((query_map_mutex bp)\<lparr>m_data := snd ?r\<rparr>) bp)"
    using assms
    by (simp add: get_query_info_def outcome_simps bim_take_def Let_def case_prod_beta)
  then show ?thesis by (simp add: bim.take_result take_query_def)
qed

lemma release_used:
  assumes "a < length cbs" "lock_ok (cbs ! a)"
  shows "cbs[a := release ((m_data (cbs ! a))\<lparr>cb_router := False\<rparr>) (cbs ! a)] = detach_at {a} cbs"
  using detach_at_single [OF assms(1)] assms(2) by (simp add: release_lock_ok detach_def)

lemma detach_at_idle:
  assumes "a < length cbs" "\<not> cb_router (m_data (cbs ! a))"
  shows "detach_at {a} cbs = cbs"
proof (rule nth_equalityI)
  fix i assume "i < length (detach_at {a} cbs)"
  with assms show "detach_at {a} cbs ! i = cbs ! i"
    by (cases "i = a") (simp_all add: detach_at_nth detach_def)
qed simp

lemma execute_success_eq:
  assumes "bp_locks bp" "a < length (bp_callbacks bp)" "callback_alive a bp"
  defines "c \<equiv> callback_of bp a"
  shows "execute_success env a builder bp =
    (if cb_router c
     then Ret (settle_query (\<not> cb_persistent c) a
            (case pending bp (cb_browser_id c) (cb_query_id c) of
               None \<Rightarrow> []
             | Some v \<Rightarrow> success_events env (qi_frame v) (qi_context_id v) (qi_request_id v) builder)
            (take_query (cb_browser_id c) (cb_query_id c) (m_data (query_map_mutex bp))) bp)
     else Ret bp)"
proof -
  have lock: "lock_ok (bp_callbacks bp ! a)" "lock_ok (query_map_mutex bp)"
    using assms by (auto simp: bp_locks_def)
  have same: "release c (bp_callbacks bp ! a) = bp_callbacks bp ! a"
      "\<not> cb_router c \<Longrightarrow> detach_at {a} (bp_callbacks bp) = bp_callbacks bp"
    using lock(1) assms(2) by (simp_all add: c_def release_same detach_at_idle)
  show ?thesis
    using assms(2,3) lock same release_used [OF assms(2) lock(1)]
    by (auto simp: execute_success_def outcome_simps on_callback_success_def get_query_info_eq
        bp_simps send_query_success_eq settle_query_def log_events_def set_query_map_def set_callback_def
        Let_def c_def [symmetric] split: option.splits)
qed

lemma execute_failure_eq:
  assumes "bp_locks bp" "a < length (bp_callbacks bp)" "callback_alive a bp"
  defines "c \<equiv> callback_of bp a"
  shows "execute_failure env a code msg bp =
    (if cb_router c
     then Ret (settle_query True a
            (case pending bp (cb_browser_id c) (cb_query_id c) of
               None \<Rightarrow> []
             | Some v \<Rightarrow> failure_events env (br_query_message_name (bp_router bp)) (qi_frame v)
                           (qi_context_id v) (qi_request_id v) code msg)
            (take_query (cb_browser_id c) (cb_query_id c) (m_data (query_map_mutex bp))) bp)
     else Ret bp)"
proof -
  have lock: "lock_ok (bp_callbacks bp ! a)" "lock_ok (query_map_mutex bp)"
    using assms by (auto simp: bp_locks_def)
  have same: "release c (bp_callbacks bp ! a) = bp_callbacks bp ! a"
      "\<not> cb_router c \<Longrightarrow> detach_at {a} (bp_callbacks bp) = bp_callbacks bp"
    using lock(1) assms(2) by (simp_all add: c_def release_same detach_at_idle)
  show ?thesis
    using assms(2,3) lock same release_used [OF assms(2) lock(1)]
    by (auto simp: execute_failure_def outcome_simps on_callback_failure_def get_query_info_eq
        bp_simps send_query_failure_eq settle_query_def log_events_def set_query_map_def set_callback_def
        Let_def c_def [symmetric] split: option.splits)
qed

lemma settle_query_inv:
  assumes inv: "bp_inv bp" and a: "a < length (bp_callbacks bp)"
    and used: "\<not> cb_persistent (callback_of bp a) \<Longrightarrow> used"
  shows "bp_inv (settle_query used a evs
           (take_query (cb_browser_id (callback_of bp a)) (cb_query_id (callback_of bp a))
              (m_data (query_map_mutex bp))) bp)"
proof -
  let ?c = "callback_of bp a" and ?A = "if used then {a} else {}"
  let ?b = "cb_browser_id ?c" and ?k = "cb_query_id ?c"
  let ?m = "take_query ?b ?k (m_data (query_map_mutex bp))"
  define S where "S = {(b, k). b = ?b \<and> k = ?k \<and> (\<exists>v. pending bp ?b ?k = Some v \<and> \<not> qi_is_persistent v)}"
  have "bim_inv ?m"
    using bp_inv_locks(6) [OF inv] by (simp add: take_query_def bim.take_inv)
  then have st: "settles S ?A bp (settle_query used a evs ?m bp)"
    using inv by (auto simp: settles_def bp_simps take_query_lookup S_def bp_inv_def bp_wf_def bp_locks_def)
  show ?thesis
  proof (rule bp_inv_settles [OF inv st])
    fix b k v a'
    assume max: "int (length (bp_callbacks bp)) \<le> I64_MAX"
      and v: "pending bp b k = Some v" "qi_callback v = Some a'"
    show "a' \<in> ?A" if "(b, k) \<in> S"
    proof -
      have "pending bp ?b ?k = Some v" "\<not> qi_is_persistent v" using that v(1) by (auto simp: S_def)
      with callback_of_entry [OF inv max a this(1)] used v(2) show ?thesis by simp
    qed
    show "qi_is_persistent v" if "(b, k) \<notin> S" "a' \<in> ?A"
    proof -
      have "a' = a" using that(2) by (auto split: if_splits)
      then have "b = ?b" "k = ?k" using bp_inv_entry [OF inv v(1)] v(2) by (metis option.inject)+
      with that(1) v(1) show ?thesis by (auto simp: S_def)
    qed
  qed
qed

lemma bp_inv_tasks:
  assumes "bp_inv bp" "\<And>t. t \<in> set ts \<Longrightarrow> task_ok (length (bp_callbacks bp)) t"
  shows "bp_inv (bp\<lparr>bp_tasks := ts\<rparr>)"
proof -
  have "settles {} {} bp (bp\<lparr>bp_tasks := ts\<rparr>)"
    using assms by (auto simp: settles_def bp_inv_def bp_wf_def bp_locks_def)
  from bp_inv_settles [OF assms(1) this] show ?thesis by blast
qed

lemma task_execute_inv:
  assumes "bp_inv bp" "task_ok (length (bp_callbacks bp)) t"
  shows "\<exists>bp'. task_execute env t bp = Ret bp' \<and> bp_inv bp' \<and> cbs_le (bp_callbacks bp) (bp_callbacks bp')"
proof (cases t)
  case (CallbackSuccess a builder)
  show ?thesis
  proof (cases "callback_alive a bp")
    case True
    then show ?thesis
      using assms CallbackSuccess settle_query_inv [of bp a "\<not> cb_persistent (callback_of bp a)"]
      by (simp add: execute_success_eq bp_inv_locks(1) bp_simps)
  qed (use assms CallbackSuccess in \<open>simp add: execute_success_def\<close>)
next
  case (CallbackFailure a code msg)
  show ?thesis
  proof (cases "callback_alive a bp")
    case True
    then show ?thesis
      using assms CallbackFailure settle_query_inv [of bp a True]
      by (simp add: execute_failure_eq bp_inv_locks(1) bp_simps)
  qed (use assms CallbackFailure in \<open>simp add: execute_failure_def\<close>)
next
  case (CancelPendingFor browser handler notify)
  then show ?thesis
    using cancel_pending_for_inv [OF assms(1), of env True browser handler notify] assms(1) by auto
qed

lemma run_task_inv:
  assumes "bp_inv bp"
  shows "\<exists>bp'. run_task env bp = Ret bp' \<and> bp_inv bp' \<and> cbs_le (bp_callbacks bp) (bp_callbacks bp')"
proof (cases "bp_tasks bp")
  case (Cons t ts)
  have ok: "task_ok (length (bp_callbacks bp)) t'" if "t' \<in> set (bp_tasks bp)" for t'
    using assms that by (simp add: bp_inv_def bp_wf_def)
  have "bp_inv (bp\<lparr>bp_tasks := ts\<rparr>)" using ok Cons by (intro bp_inv_tasks [OF assms]) auto
  then show ?thesis
    using task_execute_inv [of "bp\<lparr>bp_tasks := ts\<rparr>" t] ok Cons by (auto simp: run_task_with_def)
qed (use assms in \<open>simp add: run_task_with_def\<close>)

section \<open>Offering a query\<close>

fun call_task :: "cef_env \<Rightarrow> router_callback \<Rightarrow> callback_addr \<Rightarrow> callback_call \<Rightarrow> 'h ui_task" where
  "call_task env c a (SuccessStr response) =
     CallbackSuccess a (create_browser_response_builder env (cb_threshold c) (cb_message_name c)
                          (payload_from_str response))"
| "call_task env c a (SuccessBinary data) =
     CallbackSuccess a (create_browser_response_builder env (cb_threshold c) (cb_message_name c)
                          (payload_from_bytes data))"
| "call_task env c a (Failure code msg) = CallbackFailure a code msg"

lemma callback_method_eq: "callback_method env a call bp = post_task (call_task env (callback_of bp a) a call) bp"
  by (cases call) (simp_all add: success_str_def success_binary_def failure_def Let_def)

lemma task_ok_call [simp]: "task_ok n (call_task env c a call) \<longleftrightarrow> a < n"
  by (cases call) simp_all

lemma fold_callback_method:
  "fold (callback_method env a) calls bp =
     bp\<lparr>bp_tasks := bp_tasks bp @ map (call_task env (callback_of bp a) a) calls\<rparr>"
  by (induction calls arbitrary: bp) (simp_all add: callback_method_eq post_task_def)

text \<open>
  Offering changes only the task queue, the log and what the application holds. The
  handlers asked are a prefix of the candidates, which ends with the one that takes
  the query.
\<close>

definition first_taker ::
  "'h handler_env \<Rightarrow> browser_ref option \<Rightarrow> frame_ref option \<Rightarrow> i64 \<Rightarrow> query_arg \<Rightarrow> bool \<Rightarrow> callback_addr \<Rightarrow>
   'h browser_event list \<Rightarrow> (handler_id \<times> 'h) list \<Rightarrow> bool \<Rightarrow> bool" where
  "first_taker hs browser frame q arg persistent a evs asked taken \<longleftrightarrow>
     (\<forall>n < length asked.
        fst (hs (evs @ map (\<lambda>(i, h). OnQuery h browser frame q arg persistent a) (take n asked))
               (snd (asked ! n)) browser frame q arg persistent) \<longleftrightarrow> taken \<and> Suc n = length asked)"

lemma all_less_Suc_split: "(\<forall>n < Suc k. P n) \<longleftrightarrow> P 0 \<and> (\<forall>n < k. P (Suc n))"
  by (auto simp: less_Suc_eq_0_disj)

lemma first_taker_Cons:
  "first_taker hs browser frame q arg persistent a evs ((i, h) # asked) taken \<longleftrightarrow>
     (fst (hs evs h browser frame q arg persistent) \<longleftrightarrow> taken \<and> asked = []) \<and>
     first_taker hs browser frame q arg persistent a (evs @ [OnQuery h browser frame q arg persistent a]) asked taken"
  unfolding first_taker_def by (simp add: all_less_Suc_split)

lemma offer_query_Ret: "\<exists>res bp'. offer_query env hs browser frame q arg persistent a cs bp = Ret (res, bp')"
  by (induction cs arbitrary: bp) (auto simp: Let_def split: prod.splits)

lemma offer_query_frame:
  assumes "offer_query env hs browser frame q arg persistent a cs bp = Ret (res, bp')"
  shows "\<exists>ts asked H. bp' = bp\<lparr>bp_tasks := bp_tasks bp @ ts,
                 bp_events := bp_events bp @ map (\<lambda>(i, h). OnQuery h browser frame q arg persistent a) asked,
                 bp_held := H\<rparr>
      \<and> (\<forall>t \<in> set ts. \<exists>call. t = call_task env (callback_of bp a) a call) \<and> H \<subseteq> insert a (bp_held bp)
      \<and> (case res of None \<Rightarrow> asked = cs | Some x \<Rightarrow> \<exists>post. cs = asked @ post \<and> asked \<noteq> [] \<and> last asked = x)
      \<and> first_taker hs browser frame q arg persistent a (bp_events bp) asked (res \<noteq> None)"
  using assms
proof (induction cs arbitrary: bp)
  case Nil
  then show ?case by (auto simp: first_taker_def intro!: exI [of _ "[]"] exI [of _ "bp_held bp"])
next
  case (Cons ih cs)
  obtain i h where ih: "ih = (i, h)" by (cases ih)
  obtain taken calls keeps where ans: "hs (bp_events bp) h browser frame q arg persistent = (taken, calls, keeps)"
    by (cases "hs (bp_events bp) h browser frame q arg persistent") auto
  let ?ts = "map (call_task env (callback_of bp a) a) calls"
  let ?H = "if keeps then insert a (bp_held bp) else bp_held bp"
  let ?bp = "bp\<lparr>bp_tasks := bp_tasks bp @ ?ts,
                bp_events := bp_events bp @ [OnQuery h browser frame q arg persistent a], bp_held := ?H\<rparr>"
  let ?X = "fold (callback_method env a) calls (log_event (OnQuery h browser frame q arg persistent a) bp)"
  have bp3: "(if keeps then ?X\<lparr>bp_held := insert a (bp_held ?X)\<rparr> else ?X) = ?bp"
    by (rule browser_process.equality) (simp_all add: fold_callback_method bp_simps)
  have step: "offer_query env hs browser frame q arg persistent a (ih # cs) bp =
      (if taken then Ret (Some (i, h), ?bp) else offer_query env hs browser frame q arg persistent a cs ?bp)"
    by (simp only: ih offer_query_with.simps ans Let_def prod.case bind_outcome.simps bp3)
  show ?case
  proof (cases taken)
    case True
    with step Cons.prems ih ans show ?thesis
      by (intro exI [of _ ?ts] exI [of _ "[ih]"] exI [of _ ?H]) (auto simp: first_taker_Cons first_taker_def)
  next
    case False
    with step Cons.prems have "offer_query env hs browser frame q arg persistent a cs ?bp = Ret (res, bp')" by simp
    from Cons.IH [OF this] obtain ts asked H where
      IH: "bp' = ?bp\<lparr>bp_tasks := bp_tasks ?bp @ ts,
             bp_events := bp_events ?bp @ map (\<lambda>(i, h). OnQuery h browser frame q arg persistent a) asked,
             bp_held := H\<rparr>"
        "\<forall>t \<in> set ts. \<exists>call. t = call_task env (callback_of ?bp a) a call" "H \<subseteq> insert a (bp_held ?bp)"
        "case res of None \<Rightarrow> asked = cs | Some x \<Rightarrow> \<exists>post. cs = asked @ post \<and> asked \<noteq> [] \<and> last asked = x"
        "first_taker hs browser frame q arg persistent a (bp_events ?bp) asked (res \<noteq> None)"
      by blast
    have "first_taker hs browser frame q arg persistent a (bp_events bp) (ih # asked) (res \<noteq> None)"
      using IH(4,5) False ans by (auto simp: ih first_taker_Cons split: option.splits)
    with IH(1-4) show ?thesis
      by (intro exI [of _ "?ts @ ts"] exI [of _ "ih # asked"] exI [of _ H])
        (auto simp: ih split: option.splits if_splits)
  qed
qed

section \<open>Receiving a query\<close>

lemma receive_query_rejected:
  assumes "bp_inv bp" "browser = None \<or> hd_handlers (m_data (br_handlers (bp_router bp))) = []"
  shows "receive_query env hs browser frame name content bp =
    Ret (cancel_unhandled_query env frame (rm_context_id content) (rm_request_id content) bp)"
  using assms by (auto simp: receive_query_with_def outcome_simps bp_inv_locks Let_def split: option.splits)

text \<open>The callback and the entry made for a query, and the process once it has been offered.\<close>

definition query_callback ::
  "message_router_config \<Rightarrow> string \<Rightarrow> i32 \<Rightarrow> i64 \<Rightarrow> bool \<Rightarrow> bool \<Rightarrow> router_callback" where
  "query_callback config name b q persistent attached =
     \<lparr>cb_router = attached, cb_browser_id = b, cb_query_id = q, cb_persistent = persistent,
      cb_threshold = message_size_threshold config, cb_message_name = name\<rparr>"

definition query_entry ::
  "browser_ref option \<Rightarrow> frame_ref option \<Rightarrow> render_message \<Rightarrow> callback_addr \<Rightarrow> handler_id \<times> 'h \<Rightarrow> 'h query_info" where
  "query_entry browser frame content a h =
     \<lparr>qi_browser = browser, qi_frame = frame, qi_context_id = rm_context_id content,
      qi_request_id = rm_request_id content, qi_is_persistent = rm_is_persistent content,
      qi_callback = Some a, qi_handler = Some h\<rparr>"

definition next_query_id :: "'h browser_process \<Rightarrow> i64" where
  "next_query_id bp = fst (ig_next (m_data (br_query_id_generator (bp_router bp))))"

definition registered ::
  "browser_ref \<Rightarrow> frame_ref option \<Rightarrow> string \<Rightarrow> render_message \<Rightarrow> (handler_id \<times> 'h) option \<Rightarrow>
   'h browser_process \<Rightarrow> 'h browser_process" where
  "registered b frame name content res bp =
     (let r = bp_router bp; q = next_query_id bp; a = length (bp_callbacks bp); m = query_map_mutex bp
      in bp\<lparr>bp_router := r\<lparr>
              br_query_id_generator := (br_query_id_generator r)\<lparr>m_data := snd (ig_next (m_data (br_query_id_generator r)))\<rparr>,
              br_query_info_map := m\<lparr>m_data :=
                (case res of None \<Rightarrow> m_data m
                 | Some h \<Rightarrow> bim_insert (brw_identifier b) q (query_entry (Some b) frame content a h) (m_data m))\<rparr>\<rparr>,
            bp_callbacks := bp_callbacks bp @
              [mutex_new (query_callback (br_config r) name (brw_identifier b) q (rm_is_persistent content) (res \<noteq> None))]\<rparr>)"

lemma registered_simps [bp_simps]:
  "bp_alive (registered b frame name content res bp) = bp_alive bp"
  "bp_held (registered b frame name content res bp) = bp_held bp"
  "bp_tasks (registered b frame name content res bp) = bp_tasks bp"
  "bp_events (registered b frame name content res bp) = bp_events bp"
  "br_handlers (bp_router (registered b frame name content res bp)) = br_handlers (bp_router bp)"
  "br_query_message_name (bp_router (registered b frame name content res bp)) = br_query_message_name (bp_router bp)"
  "bp_callbacks (registered b frame name content res bp) = bp_callbacks bp @
     [mutex_new (query_callback (br_config (bp_router bp)) name (brw_identifier b) (next_query_id bp)
        (rm_is_persistent content) (res \<noteq> None))]"
  by (simp_all add: registered_def Let_def)

text \<open>The process while the query is offered: a new id and callback, and the map locked.\<close>

definition offering :: "browser_ref \<Rightarrow> string \<Rightarrow> render_message \<Rightarrow> 'h browser_process \<Rightarrow> 'h browser_process" where
  "offering b name content bp =
     (let r = bp_router bp; gm = br_query_id_generator r
      in bp\<lparr>bp_router := r\<lparr>br_query_id_generator := gm\<lparr>m_data := snd (ig_next (m_data gm))\<rparr>,
                           br_query_info_map := acquire (br_query_info_map r)\<rparr>,
            bp_callbacks := bp_callbacks bp @
              [mutex_new (query_callback (br_config r) name (brw_identifier b) (next_query_id bp)
                 (rm_is_persistent content) True)]\<rparr>)"

lemma receive_query_with_eq:
  assumes inv: "bp_inv bp" and ne: "hd_handlers (m_data (br_handlers (bp_router bp))) \<noteq> []"
  defines "a \<equiv> length (bp_callbacks bp)" and "q \<equiv> next_query_id bp"
  shows "receive_query_with re env hs (Some b) frame name content bp =
     bind_outcome
       (offer_query_with re env hs (Some b) frame q (query_arg_of (rm_payload content)) (rm_is_persistent content) a
          (hd_candidates (m_data (br_handlers (bp_router bp)))) (offering b name content bp))
       (\<lambda>(res, bp3). case res of
          Some h \<Rightarrow> Ret (set_query_map (release (bim_insert (brw_identifier b) q
                      (query_entry (Some b) frame content a h) (m_data (query_map_mutex bp))) (query_map_mutex bp3)) bp3)
        | None \<Rightarrow> bind_outcome (detach_locked a bp3) (\<lambda>bp4.
                    Ret (set_query_map (release (m_data (query_map_mutex bp)) (query_map_mutex bp4))
                      (cancel_unhandled_query env frame (rm_context_id content) (rm_request_id content) bp4))))"
proof -
  let ?r = "bp_router bp" and ?mx = "query_map_mutex bp" and ?gm = "br_query_id_generator (bp_router bp)"
  let ?p = "rm_is_persistent content"
  let ?cb = "query_callback (br_config ?r) name (brw_identifier b) q ?p True"
  let ?bp1 = "set_generator (?gm\<lparr>m_data := snd (ig_next (m_data ?gm))\<rparr>) bp"
  let ?bp2 = "?bp1\<lparr>bp_callbacks := bp_callbacks bp @ [mutex_new ?cb]\<rparr>"
  have gen: "ig_next (m_data ?gm) = (q, snd (ig_next (m_data ?gm)))" by (simp add: q_def next_query_id_def)
  have new: "callback_new (brw_identifier b) q ?p (message_size_threshold (br_config ?r)) name ?bp1 = (a, ?bp2)"
    by (simp add: callback_new_def set_generator_def a_def query_callback_def)
  have acq: "set_query_map (acquire (query_map_mutex ?bp2)) ?bp2 = offering b name content bp"
    by (simp add: set_query_map_def set_generator_def offering_def Let_def q_def)
  have locks: "lock_result ?gm = Ret (Some (m_data ?gm))" "lock_result ?mx = Ret (Some (m_data ?mx))"
    "lock_result (br_handlers ?r) = Ret (Some (m_data (br_handlers ?r)))"
    using bp_inv_locks [OF inv] by (simp_all add: lock_result_ok)
  show ?thesis
    unfolding receive_query_with_def Let_def locks bind_outcome.simps prod.case option.case if_not_P [OF ne]
    by (subst gen, unfold prod.case new acq) (simp add: query_entry_def cong: option.case_cong)
qed

lemma receive_query_offered:
  assumes inv: "bp_inv bp" and ne: "hd_handlers (m_data (br_handlers (bp_router bp))) \<noteq> []"
  defines "a \<equiv> length (bp_callbacks bp)" and "q \<equiv> next_query_id bp"
  shows "\<exists>res ts asked H.
     receive_query env hs (Some b) frame name content bp =
       Ret ((registered b frame name content res bp)\<lparr>
              bp_tasks := bp_tasks bp @ ts,
              bp_events := bp_events bp @
                map (\<lambda>(i, h). OnQuery h (Some b) frame q (query_arg_of (rm_payload content))
                                (rm_is_persistent content) a) asked @
                (if res = None then failure_events env (br_query_message_name (bp_router bp)) frame
                   (rm_context_id content) (rm_request_id content) CANCELED_CODE (ascii_bytes CANCELED_MESSAGE)
                 else []),
              bp_held := H\<rparr>)
     \<and> (\<forall>t \<in> set ts. \<exists>call. t = call_task env (query_callback (br_config (bp_router bp)) name (brw_identifier b) q
                                (rm_is_persistent content) True) a call)
     \<and> H \<subseteq> insert a (bp_held bp)
     \<and> (case res of
          None \<Rightarrow> asked = hd_candidates (m_data (br_handlers (bp_router bp)))
        | Some x \<Rightarrow> \<exists>post. hd_candidates (m_data (br_handlers (bp_router bp))) = asked @ post
                        \<and> asked \<noteq> [] \<and> last asked = x)
     \<and> first_taker hs (Some b) frame q (query_arg_of (rm_payload content)) (rm_is_persistent content) a
          (bp_events bp) asked (res \<noteq> None)"
proof -
  let ?r = "bp_router bp" and ?mx = "query_map_mutex bp" and ?gm = "br_query_id_generator (bp_router bp)"
  let ?arg = "query_arg_of (rm_payload content)" and ?p = "rm_is_persistent content"
  let ?cs = "hd_candidates (m_data (br_handlers ?r))"
  let ?cb = "query_callback (br_config ?r) name (brw_identifier b) q ?p True"
  let ?bp = "bp\<lparr>bp_router := ?r\<lparr>br_query_id_generator := ?gm\<lparr>m_data := snd (ig_next (m_data ?gm))\<rparr>,
                br_query_info_map := acquire ?mx\<rparr>,
                bp_callbacks := bp_callbacks bp @ [mutex_new ?cb]\<rparr>"
  have bp_offering: "offering b name content bp = ?bp" by (simp add: offering_def Let_def q_def)
  obtain res bp3 where offer: "offer_query env hs (Some b) frame q ?arg ?p a ?cs ?bp = Ret (res, bp3)" using offer_query_Ret by blast
  from offer_query_frame [OF this] obtain ts asked H where
    bp3: "bp3 = ?bp\<lparr>bp_tasks := bp_tasks bp @ ts,
         bp_events := bp_events bp @ map (\<lambda>(i, h). OnQuery h (Some b) frame q ?arg ?p a) asked, bp_held := H\<rparr>"
    and ts: "\<forall>t \<in> set ts. \<exists>call. t = call_task env ?cb a call" and H: "H \<subseteq> insert a (bp_held bp)"
    and asked: "case res of None \<Rightarrow> asked = ?cs
                | Some x \<Rightarrow> \<exists>post. ?cs = asked @ post \<and> asked \<noteq> [] \<and> last asked = x"
    and first: "first_taker hs (Some b) frame q ?arg ?p a (bp_events bp) asked (res \<noteq> None)"
    by (auto simp: a_def)
  have detached: "detach_locked a bp3 = Ret (bp3\<lparr>bp_callbacks := bp_callbacks bp @ [mutex_new (detach ?cb)]\<rparr>)"
  proof -
    have cbs: "bp_callbacks bp3 = bp_callbacks bp @ [mutex_new ?cb]" by (simp add: bp3)
    then have "detach_locked a bp3 = Ret (set_callback a ((mutex_new ?cb)\<lparr>m_data := detach ?cb\<rparr>) bp3)"
      by (simp add: detach_locked_def a_def outcome_simps)
    then show ?thesis by (simp add: set_callback_def cbs a_def) (simp add: mutex_new_def)
  qed
  have step: "receive_query env hs (Some b) frame name content bp =
     (case res of
        Some h \<Rightarrow> Ret (set_query_map (release (bim_insert (brw_identifier b) q
                    (query_entry (Some b) frame content a h) (m_data ?mx)) (query_map_mutex bp3)) bp3)
      | None \<Rightarrow> bind_outcome (detach_locked a bp3) (\<lambda>bp4.
                  Ret (set_query_map (release (m_data ?mx) (query_map_mutex bp4))
                    (cancel_unhandled_query env frame (rm_context_id content) (rm_request_id content) bp4))))"
    using offer unfolding receive_query_with_eq [OF inv ne] bp_offering a_def q_def by simp
  have "receive_query env hs (Some b) frame name content bp =
       Ret ((registered b frame name content res bp)\<lparr>
              bp_tasks := bp_tasks bp @ ts,
              bp_events := bp_events bp @ map (\<lambda>(i, h). OnQuery h (Some b) frame q ?arg ?p a) asked @
                (if res = None then failure_events env (br_query_message_name ?r) frame
                   (rm_context_id content) (rm_request_id content) CANCELED_CODE (ascii_bytes CANCELED_MESSAGE)
                 else []),
              bp_held := H\<rparr>)"
    unfolding step detached
    by (cases res; rule ssubst [OF bp3])
      (simp_all add: cancel_unhandled_query_def send_query_failure_eq log_events_def set_query_map_def
        registered_def Let_def release_lock_ok bp_inv_locks [OF inv] a_def q_def query_callback_def detach_def)
  with ts H asked first show ?thesis by blast
qed

lemma registered_pending [bp_simps]:
  "pending (registered b frame name content res bp) b' k =
     (case res of
        Some h \<Rightarrow> if b' = brw_identifier b \<and> k = next_query_id bp
                  then Some (query_entry (Some b) frame content (length (bp_callbacks bp)) h)
                  else pending bp b' k
      | None \<Rightarrow> pending bp b' k)"
  by (simp add: registered_def Let_def bim_lookup_insert split: option.splits)

lemma entry_ok_append: "entry_ok cbs b k v \<Longrightarrow> entry_ok (cbs @ [c]) b k v"
  by (auto simp: entry_ok_def nth_append)

lemma task_ok_mono: "task_ok n t \<Longrightarrow> n \<le> n' \<Longrightarrow> task_ok n' t"
  by (cases t) auto

lemma next_query_id_fresh:
  assumes "bp_inv bp" "int (length (bp_callbacks bp)) < I64_MAX"
  shows "next_query_id bp = int (length (bp_callbacks bp)) + 1"
    and "ig_inv I64_MAX (snd (ig_next (m_data (br_query_id_generator (bp_router bp)))))"
    and "ig_next_id (snd (ig_next (m_data (br_query_id_generator (bp_router bp))))) = int (length (bp_callbacks bp)) + 1"
proof -
  let ?g = "m_data (br_query_id_generator (bp_router bp))"
  have g: "ig_inv I64_MAX ?g" "ig_next_id ?g = int (length (bp_callbacks bp))"
    using assms by (simp_all add: bp_inv_def bp_numbered_def)
  show "ig_inv I64_MAX (snd (ig_next ?g))"
    using g(1) by (rule ig_next_inv) (simp add: I64_MAX_def)
  show "next_query_id bp = int (length (bp_callbacks bp)) + 1"
    "ig_next_id (snd (ig_next ?g)) = int (length (bp_callbacks bp)) + 1"
    using g assms(2) by (simp_all add: next_query_id_def ig_next_def ig_inv_def Let_def)
qed

lemma registered_inv:
  assumes inv: "bp_inv bp" and H: "H \<subseteq> insert (length (bp_callbacks bp)) (bp_held bp)"
    and ts: "\<forall>t \<in> set ts. task_ok (Suc (length (bp_callbacks bp))) t"
  shows "bp_inv ((registered b frame name content res bp)\<lparr>bp_tasks := bp_tasks bp @ ts, bp_events := evs, bp_held := H\<rparr>)"
    (is "bp_inv ?bp'")
proof -
  let ?n = "length (bp_callbacks bp)"
  let ?c = "query_callback (br_config (bp_router bp)) name (brw_identifier b) (next_query_id bp)
              (rm_is_persistent content) (res \<noteq> None)"
  have cbs: "bp_callbacks ?bp' = bp_callbacks bp @ [mutex_new ?c]" by (simp add: bp_simps)
  have look: "pending ?bp' b' k = (if (\<exists>h. res = Some h) \<and> b' = brw_identifier b \<and> k = next_query_id bp
      then Some (query_entry (Some b) frame content ?n (the res)) else pending bp b' k)" for b' k
    by (simp add: bp_simps split: option.splits)
  have ok: "entry_ok (bp_callbacks ?bp') b' k v" if p: "pending ?bp' b' k = Some v" for b' k v
  proof (cases "res \<noteq> None \<and> b' = brw_identifier b \<and> k = next_query_id bp")
    case True
    then have "v = query_entry (Some b) frame content ?n (the res)" using p unfolding look by auto
    with True show ?thesis by (auto simp: cbs entry_ok_def query_entry_def query_callback_def nth_append)
  next
    case False
    then have "pending bp b' k = Some v" using p unfolding look by (auto split: if_splits)
    then show ?thesis using bp_inv_entry [OF inv] entry_ok_append unfolding cbs by metis
  qed
  have m: "m_data (query_map_mutex ?bp') = (case res of None \<Rightarrow> m_data (query_map_mutex bp)
      | Some h \<Rightarrow> bim_insert (brw_identifier b) (next_query_id bp) (query_entry (Some b) frame content ?n h)
                   (m_data (query_map_mutex bp)))"
    by (simp add: registered_def Let_def)
  have "bp_wf ?bp'"
    unfolding bp_wf_def
  proof (intro conjI allI impI)
    show "bp_locks ?bp'"
      using inv by (auto simp: bp_inv_def bp_wf_def bp_locks_def registered_def Let_def)
    show "bim_inv (m_data (query_map_mutex ?bp'))"
      unfolding m using bp_inv_locks(6) [OF inv] by (auto simp: bim_inv_insert split: option.splits)
    show "\<forall>t \<in> set (bp_tasks ?bp'). task_ok (length (bp_callbacks ?bp')) t"
      using inv ts unfolding bp_inv_def bp_wf_def cbs by (auto intro: task_ok_mono)
    show "bp_held ?bp' \<subseteq> {..<length (bp_callbacks ?bp')}"
      using H inv by (auto simp: cbs bp_inv_def bp_wf_def)
  qed (rule ok)
  moreover have "bp_numbered ?bp'"
  proof (cases "int ?n < I64_MAX")
    case True
    note fresh = next_query_id_fresh [OF inv True]
    have old: "\<And>a. a < ?n \<Longrightarrow> cb_query_id (callback_of bp a) = int a + 1 \<and>
        (cb_router (callback_of bp a) \<longrightarrow>
           pending bp (cb_browser_id (callback_of bp a)) (cb_query_id (callback_of bp a)) \<noteq> None)"
      "\<And>b k v a. pending bp b k = Some v \<Longrightarrow> \<not> qi_is_persistent v \<Longrightarrow> qi_callback v = Some a \<Longrightarrow>
         cb_router (callback_of bp a)"
      using inv True unfolding bp_inv_def bp_numbered_def by auto
    have 1: "cb_query_id (callback_of ?bp' a) = int a + 1 \<and>
        (cb_router (callback_of ?bp' a) \<longrightarrow>
           pending ?bp' (cb_browser_id (callback_of ?bp' a)) (cb_query_id (callback_of ?bp' a)) \<noteq> None)"
      if "a < Suc ?n" for a
    proof (cases "a = ?n")
      case True
      then have "callback_of ?bp' a = ?c" by (simp add: cbs nth_append)
      then show ?thesis using True fresh(1) unfolding look by (auto simp: query_callback_def)
    next
      case False
      with that have "callback_of ?bp' a = callback_of bp a" "a < ?n" by (simp_all add: cbs nth_append)
      then show ?thesis using old(1) [of a] unfolding look by auto
    qed
    have 2: "cb_router (callback_of ?bp' a)"
      if "pending ?bp' b' k = Some v" "\<not> qi_is_persistent v" "qi_callback v = Some a" for b' k v a
    proof (cases "(\<exists>h. res = Some h) \<and> b' = brw_identifier b \<and> k = next_query_id bp")
      case True
      then have "a = ?n" using that unfolding look by (auto simp: query_entry_def)
      then show ?thesis using True by (auto simp: cbs nth_append query_callback_def)
    next
      case False
      then have p: "pending bp b' k = Some v" using that(1) unfolding look by (auto split: if_splits)
      then have "a < ?n" using bp_inv_entry [OF inv p] that(3) by (metis option.inject)
      then show ?thesis using old(2) [OF p that(2,3)] by (simp add: cbs nth_append)
    qed
    have gen: "m_data (br_query_id_generator (bp_router ?bp')) = snd (ig_next (m_data (br_query_id_generator (bp_router bp))))"
      by (simp add: registered_def Let_def)
    have len: "length (bp_callbacks ?bp') = Suc ?n" by (simp add: cbs)
    show ?thesis
      unfolding bp_numbered_def gen len using 1 2 fresh(2,3) by fastforce
  next
    case False
    then have "\<not> int (length (bp_callbacks ?bp')) \<le> I64_MAX" by (simp add: cbs)
    then show ?thesis unfolding bp_numbered_def by blast
  qed
  ultimately show ?thesis by (simp add: bp_inv_def)
qed

section \<open>The browser side as a state machine\<close>

text \<open>
  Everything that can happen to the browser side: calls of its interface, a task of
  the UI thread running, the application executing a callback it holds, dropping one,
  or dropping the router.
\<close>

datatype 'h browser_op =
    AddHandler 'h bool
  | RemoveHandler bool handler_id
  | CancelPending bool "browser_ref option" "handler_id option"
  | PendingCount "browser_ref option" "handler_id option"
  | BeforeClose bool "browser_ref option"
  | RenderProcessTerminated bool "browser_ref option"
  | BeforeBrowse bool "browser_ref option" "frame_ref option"
  | MessageReceived "browser_ref option" "frame_ref option" "process_message option"
  | RunTask
  | ExecuteCallback callback_addr callback_call
  | DropCallback callback_addr
  | DropRouter

fun browser_step_with :: "'h reentry \<Rightarrow> cef_env \<Rightarrow> 'h handler_env \<Rightarrow> 'h browser_op \<Rightarrow> 'h browser_process \<Rightarrow> 'h browser_process outcome" where
  "browser_step_with re env hs (AddHandler h first) bp = bind_outcome (add_handler h first bp) (\<lambda>(_, bp'). Ret bp')"
| "browser_step_with re env hs (RemoveHandler on_ui i) bp = bind_outcome (remove_handler_with re env on_ui i bp) (\<lambda>(_, bp'). Ret bp')"
| "browser_step_with re env hs (CancelPending on_ui browser i) bp = cancel_pending_with re env on_ui browser i bp"
| "browser_step_with re env hs (PendingCount browser i) bp =
     bind_outcome (pending_count browser i bp) (\<lambda>_. Ret bp)"
| "browser_step_with re env hs (BeforeClose on_ui browser) bp = on_before_close_with re env on_ui browser bp"
| "browser_step_with re env hs (RenderProcessTerminated on_ui browser) bp = on_render_process_terminated_with re env on_ui browser bp"
| "browser_step_with re env hs (BeforeBrowse on_ui browser frame) bp = on_before_browse_with re env on_ui browser frame bp"
| "browser_step_with re env hs (MessageReceived browser frame message) bp =
     bind_outcome (on_process_message_received_with re env hs browser frame message bp) (\<lambda>(_, bp'). Ret bp')"
| "browser_step_with re env hs RunTask bp = run_task_with re env bp"
| "browser_step_with re env hs (ExecuteCallback a call) bp =
     Ret (if a \<in> bp_held bp then callback_method env a call bp else bp)"
| "browser_step_with re env hs (DropCallback a) bp = Ret (bp\<lparr>bp_held := bp_held bp - {a}\<rparr>)"
| "browser_step_with re env hs DropRouter bp = Ret (bp\<lparr>bp_alive := False\<rparr>)"

abbreviation browser_step where
  "browser_step \<equiv> browser_step_with Ret"

lemma bp_inv_same:
  assumes "bp_inv bp" "bp_callbacks bp' = bp_callbacks bp"
    "br_query_id_generator (bp_router bp') = br_query_id_generator (bp_router bp)"
    "query_map_mutex bp' = query_map_mutex bp" "lock_ok (br_handlers (bp_router bp'))"
    "\<And>t. t \<in> set (bp_tasks bp') \<Longrightarrow> task_ok (length (bp_callbacks bp)) t"
    "bp_held bp' \<subseteq> {..<length (bp_callbacks bp)}"
  shows "bp_inv bp'"
proof -
  have "settles {} {} bp bp'"
    using assms bp_inv_locks [OF assms(1)] by (simp add: settles_def)
  from bp_inv_settles [OF assms(1) this] show ?thesis by blast
qed

lemma bp_inv_bounds:
  assumes "bp_inv bp"
  shows "t \<in> set (bp_tasks bp) \<Longrightarrow> task_ok (length (bp_callbacks bp)) t"
    "bp_held bp \<subseteq> {..<length (bp_callbacks bp)}"
  using assms by (simp_all add: bp_inv_def bp_wf_def)

lemma log_events_inv: "bp_inv bp \<Longrightarrow> bp_inv (log_events es bp)"
  by (rule bp_inv_same [of bp]) (simp_all add: bp_simps bp_inv_locks bp_inv_bounds)

lemma set_handlers_inv: "bp_inv bp \<Longrightarrow> lock_ok m \<Longrightarrow> bp_inv (set_handlers m bp)"
  by (rule bp_inv_same [of bp]) (simp_all add: set_handlers_def bp_inv_bounds)

lemma add_handler_inv:
  assumes "bp_inv bp"
  shows "\<exists>i bp'. add_handler h first bp = Ret (i, bp') \<and> bp_inv bp' \<and> bp_callbacks bp' = bp_callbacks bp"
  using assms set_handlers_inv [OF assms]
  by (simp add: add_handler_def outcome_simps bp_inv_locks Let_def case_prod_beta) (simp add: set_handlers_def)

text \<open>\<^verbatim>\<open>remove_handler\<close> calls \<^verbatim>\<open>cancel_pending_for\<close> with the handlers locked, which does not use them.\<close>

lemma cancel_pending_for_handlers:
  "bp_inv bp \<Longrightarrow>
   cancel_pending_for env on_ui browser handler notify (set_handlers hm bp) =
     bind_outcome (cancel_pending_for env on_ui browser handler notify bp) (\<lambda>bp'. Ret (set_handlers hm bp'))"
proof (cases on_ui)
  case True
  assume inv: "bp_inv bp"
  then have can: "bp_cancellable bp" by (simp add: bp_wf_cancellable bp_inv_def)
  then have can': "bp_cancellable (set_handlers hm bp)"
    by (simp add: bp_cancellable_def set_handlers_def callbacks_ok_def)
  let ?m = "m_data (query_map_mutex bp)"
  have m: "query_map_mutex (set_handlers hm bp) = query_map_mutex bp" by (simp add: set_handlers_def)
  obtain m1 where m1: "cancel_pending_for env True browser handler notify bp =
      Ret (drop_queries env notify (cancelled_for browser (map_option fst handler) ?m) m1 bp)"
    "removed_from (cancelled_for browser (map_option fst handler) ?m) ?m m1"
    using cancel_pending_for_spec [OF can] by blast
  obtain m2 where m2: "cancel_pending_for env True browser handler notify (set_handlers hm bp) =
      Ret (drop_queries env notify (cancelled_for browser (map_option fst handler) ?m) m2 (set_handlers hm bp))"
    "removed_from (cancelled_for browser (map_option fst handler) ?m) ?m m2"
    using cancel_pending_for_spec [OF can', unfolded m] by blast
  have "m2 = m1" by (rule removed_from_unique [OF m2(2) m1(2)])
  with m1(1) m2(1) True show ?thesis
    by (simp add: drop_queries_def set_handlers_def cancel_entries_def set_query_map_def)
qed (simp add: cancel_pending_for_with_def post_task_def set_handlers_def)

lemma remove_handler_eq:
  assumes "bp_inv bp"
  shows "remove_handler env on_ui i bp =
    (let hm = br_handlers (bp_router bp); (handler, d) = hd_remove i (m_data hm)
     in case handler of
          None \<Rightarrow> Ret (False, set_handlers (hm\<lparr>m_data := d\<rparr>) bp)
        | Some h \<Rightarrow> bind_outcome (cancel_pending_for env on_ui None (Some (i, h)) True bp)
                      (\<lambda>bp'. Ret (True, set_handlers (hm\<lparr>m_data := d\<rparr>) bp')))"
proof -
  have twice: "set_handlers a (set_handlers b x) = set_handlers a x" for a b and x :: "'a browser_process"
    by (simp add: set_handlers_def)
  have lock: "lock_ok (br_handlers (bp_router bp))" by (rule bp_inv_locks [OF assms])
  obtain handler d where rem: "hd_remove i (m_data (br_handlers (bp_router bp))) = (handler, d)" by fastforce
  show ?thesis
  proof (cases handler)
    case None
    then show ?thesis
      by (simp add: remove_handler_with_def outcome_simps lock rem release_lock_ok twice)
  next
    case (Some h)
    obtain bp' where "cancel_pending_for env on_ui None (Some (i, h)) True bp = Ret bp'"
      using cancel_pending_for_inv [OF assms] by blast
    with Some show ?thesis
      by (simp add: remove_handler_with_def outcome_simps lock rem release_lock_ok twice
          cancel_pending_for_handlers [OF assms])
  qed
qed

lemma remove_handler_inv:
  assumes "bp_inv bp"
  shows "\<exists>r bp'. remove_handler env on_ui i bp = Ret (r, bp') \<and> bp_inv bp'
      \<and> cbs_le (bp_callbacks bp) (bp_callbacks bp')"
proof -
  obtain handler d where rem: "hd_remove i (m_data (br_handlers (bp_router bp))) = (handler, d)" by fastforce
  have keep: "bp_inv (set_handlers ((br_handlers (bp_router bp))\<lparr>m_data := d\<rparr>) bp')" if "bp_inv bp'" for bp'
    using that bp_inv_locks(3) [OF assms] by (intro set_handlers_inv) simp_all
  have cbs: "bp_callbacks (set_handlers hm bp') = bp_callbacks bp'" for hm and bp' :: "'a browser_process"
    by (simp add: set_handlers_def)
  show ?thesis
  proof (cases handler)
    case None
    with keep assms show ?thesis by (simp add: remove_handler_eq [OF assms] rem cbs ex_bool_eq)
  next
    case (Some h)
    obtain bp' where "cancel_pending_for env on_ui None (Some (i, h)) True bp = Ret bp'" "bp_inv bp'"
        "cbs_le (bp_callbacks bp) (bp_callbacks bp')"
      using cancel_pending_for_inv [OF assms] by blast
    with Some keep show ?thesis by (simp add: remove_handler_eq [OF assms] rem cbs ex_bool_eq)
  qed
qed

lemma find_handler_ok: "bp_inv bp \<Longrightarrow> \<exists>h. find_handler i bp = Ret h"
  by (simp add: find_handler_def outcome_simps bp_inv_locks split: option.splits)

lemma find_handler_id:
  assumes "bp_inv bp"
  obtains handler where "find_handler i bp = Ret handler"
    "map_option fst handler =
       Option.bind i (\<lambda>i. map_option (\<lambda>_. i) (hd_get i (m_data (br_handlers (bp_router bp)))))"
proof -
  obtain handler where h: "find_handler i bp = Ret handler" using find_handler_ok [OF assms] by blast
  moreover from h have "map_option fst handler =
       Option.bind i (\<lambda>i. map_option (\<lambda>_. i) (hd_get i (m_data (br_handlers (bp_router bp)))))"
    using bp_inv_locks(3) [OF assms]
    by (auto simp: find_handler_def outcome_simps map_option_case split: option.splits)
  ultimately show thesis by (rule that)
qed

text \<open>
  \<open>pending_count\<close> counts: the number of pending queries of the browser and
  of the handler it is given; an unknown handler id counts as none given.
\<close>

lemma pending_count_counts:
  fixes bp :: "'h browser_process" and i :: "handler_id option"
  assumes inv: "bp_inv bp"
  defines "hid \<equiv> Option.bind i (\<lambda>i. map_option (\<lambda>_. i) (hd_get i (m_data (br_handlers (bp_router bp)))))"
  shows "pending_count browser i bp =
    Ret (length (filter (\<lambda>(b, k, v). (\<forall>br. browser = Some br \<longrightarrow> brw_identifier br = b) \<and>
                              (\<forall>j. hid = Some j \<longrightarrow> map_option fst (qi_handler v) = Some j))
                   (bim_entries (m_data (query_map_mutex bp)))))"
proof -
  let ?m = "m_data (query_map_mutex bp)"
  have m: "bim_inv ?m" by (rule bp_inv_locks(6) [OF inv])
  have scope: "length (filter (\<lambda>(b, k, v). P b k v) (browser_entries_of b ?m)) =
      length (filter (\<lambda>(b', k, v). b = b' \<and> P b' k v) (bim_entries ?m))" for b P
  proof -
    have d: "distinct (bim_entries ?m)" "distinct (browser_entries_of b ?m)"
      using distinct_bim_entries [OF m] distinct_browser_keys bim_inv_get [OF m]
      by (auto simp: browser_entries_of_def dest: distinct_map [THEN iffD1] split: option.splits)
    have "set (filter (\<lambda>(b, k, v). P b k v) (browser_entries_of b ?m)) =
        set (filter (\<lambda>(b', k, v). b = b' \<and> P b' k v) (bim_entries ?m))"
    proof (rule set_eqI)
      fix e
      show "e \<in> set (filter (\<lambda>(b, k, v). P b k v) (browser_entries_of b ?m)) \<longleftrightarrow>
          e \<in> set (filter (\<lambda>(b', k, v). b = b' \<and> P b' k v) (bim_entries ?m))"
        by (cases e) (auto simp: mem_bim_entries [OF m] mem_browser_entries_of [OF m])
    qed
    then show ?thesis
      unfolding distinct_card [OF distinct_filter [OF d(1)], symmetric]
        distinct_card [OF distinct_filter [OF d(2)], symmetric] by (rule arg_cong)
  qed
  have count: "count_visitor j = filter_visitor (\<lambda>n b k v. if map_option fst (qi_handler v) = Some j then n + 1 else n)
      (\<lambda>_ _ _. False)" for j
    by (intro ext) (auto simp: count_visitor_def filter_visitor_def split: option.splits)
  obtain handler where h: "find_handler i bp = Ret handler" "map_option fst handler = hid"
    unfolding hid_def by (rule find_handler_id [OF inv])
  show ?thesis
  proof (cases "bim_is_empty ?m")
    case True
    then show ?thesis
      using bim_is_empty_entries [OF m] bp_inv_locks(2) [OF inv] by (simp add: pending_count_def outcome_simps)
  next
    case ne: False
    have visit: "\<exists>m'. (case browser of Some b \<Rightarrow> bim_find_browser_all (count_visitor j) 0 (brw_identifier b) ?m
            | None \<Rightarrow> bim_find_all (count_visitor j) 0 ?m) =
        Ret (length (filter (\<lambda>(b, k, v). map_option fst (qi_handler v) = Some j) (query_scope browser ?m)), m')" for j
    proof -
      let ?P = "\<lambda>b k v. map_option fst (qi_handler v) = Some j"
      have v: "visit_entries (count_visitor j) es 0 = (length (filter (\<lambda>(b, k, v). ?P b k v) es), es, True)" for es
        using fold_count [of ?P es 0] by (simp add: count visit_entries_filter)
      show ?thesis
      proof (cases browser)
        case None
        with find_all_refines [OF m v] show ?thesis by (auto simp: query_scope_def)
      next
        case (Some b)
        with find_browser_all_refines [OF m v, of "brw_identifier b"] show ?thesis by (auto simp: query_scope_def)
      qed
    qed
    have lock: "lock_ok (query_map_mutex bp)" by (rule bp_inv_locks(2) [OF inv])
    show ?thesis
    proof (cases hid)
      case None
      have "pending_count browser i bp =
          (case browser of Some b \<Rightarrow> Ret (bim_browser_len (brw_identifier b) ?m) | None \<Rightarrow> Ret (bim_len ?m))"
        using ne h lock None by (simp add: pending_count_def outcome_simps)
      then show ?thesis
        using None scope [of "\<lambda>_ _ _. True"]
        by (cases browser) (simp_all add: bim_len_entries bim_browser_len_entries)
    next
      case (Some j)
      have "pending_count browser i bp =
          Ret (length (filter (\<lambda>(b, k, v). map_option fst (qi_handler v) = Some j) (query_scope browser ?m)))"
      proof -
        obtain m' where eq: "(case browser of Some b \<Rightarrow> bim_find_browser_all (count_visitor j) 0 (brw_identifier b) ?m
            | None \<Rightarrow> bim_find_all (count_visitor j) 0 ?m) =
          Ret (length (filter (\<lambda>(b, k, v). map_option fst (qi_handler v) = Some j) (query_scope browser ?m)), m')"
          using visit by blast
        show ?thesis
          unfolding pending_count_def with_lock_ok [OF lock] h(1) bind_outcome.simps h(2) Some option.case
            if_not_P [OF ne] eq by simp
      qed
      then show ?thesis
        using Some scope [of "\<lambda>_ _ v. map_option fst (qi_handler v) = Some j"]
        by (cases browser) (simp_all add: query_scope_def)
    qed
  qed
qed

lemma receive_query_inv:
  assumes "bp_inv bp"
  shows "\<exists>bp'. receive_query env hs browser frame name content bp = Ret bp' \<and> bp_inv bp'
      \<and> cbs_le (bp_callbacks bp) (bp_callbacks bp')"
proof (cases "browser = None \<or> hd_handlers (m_data (br_handlers (bp_router bp))) = []")
  case True
  then show ?thesis
    using assms by (simp add: receive_query_rejected cancel_unhandled_query_def send_query_failure_eq
        log_events_inv bp_simps)
next
  case False
  then obtain b where b: "browser = Some b" by auto
  with False have ne: "hd_handlers (m_data (br_handlers (bp_router bp))) \<noteq> []" by simp
  from receive_query_offered [OF assms ne, of env hs b frame name content]
  obtain res ts evs H where r: "receive_query env hs browser frame name content bp =
      Ret ((registered b frame name content res bp)\<lparr>bp_tasks := bp_tasks bp @ ts, bp_events := evs, bp_held := H\<rparr>)"
    and ts: "\<forall>t \<in> set ts. \<exists>call c. t = call_task env c (length (bp_callbacks bp)) call"
    and H: "H \<subseteq> insert (length (bp_callbacks bp)) (bp_held bp)"
    unfolding b by blast
  have "\<forall>t \<in> set ts. task_ok (Suc (length (bp_callbacks bp))) t" using ts by fastforce
  from r registered_inv [OF assms H this] show ?thesis by (simp add: bp_simps)
qed

text \<open>The one way to make the browser side panic: a query region shorter than its header.\<close>

definition truncated_query :: "'h browser_process \<Rightarrow> 'h browser_op \<Rightarrow> bool" where
  "truncated_query bp op \<longleftrightarrow>
     (\<exists>browser frame region. op = MessageReceived browser frame
        (Some (SharedMessage (br_query_message_name (bp_router bp)) region True)) \<and> length region < RH_SIZE)"

lemma render_message_from_Ret:
  "(\<exists>c. render_message_from env (Some msg) = Ret c) \<or>
   (render_message_from env (Some msg) = Panic \<and>
     (\<exists>name region. msg = SharedMessage name region True \<and> length region < RH_SIZE))"
  by (cases msg) (auto simp: render_message_from_def Let_def split: option.splits)

lemma on_process_message_received_inv:
  assumes "bp_inv bp"
  shows "(\<exists>r bp'. on_process_message_received env hs browser frame message bp = Ret (r, bp') \<and> bp_inv bp'
      \<and> cbs_le (bp_callbacks bp) (bp_callbacks bp'))
    \<or> (on_process_message_received env hs browser frame message bp = Panic
        \<and> truncated_query bp (MessageReceived browser frame message))"
proof (cases message)
  case None
  with assms show ?thesis by (simp add: on_process_message_received_with_def ex_bool_eq)
next
  case (Some msg)
  consider "pm_name msg = br_query_message_name (bp_router bp)"
    | "pm_name msg \<noteq> br_query_message_name (bp_router bp)" "pm_name msg = br_cancel_message_name (bp_router bp)"
    | "pm_name msg \<noteq> br_query_message_name (bp_router bp)" "pm_name msg \<noteq> br_cancel_message_name (bp_router bp)"
    by blast
  then show ?thesis
  proof cases
    case 1
    consider c where "render_message_from env (Some msg) = Ret c"
      | name region where "render_message_from env (Some msg) = Panic"
          "msg = SharedMessage name region True" "length region < RH_SIZE"
      using render_message_from_Ret [of env msg] by blast
    then show ?thesis
    proof cases
      case (1 c)
      obtain bp' where "receive_query env hs browser frame (pm_name msg) c bp = Ret bp'" "bp_inv bp'"
          "cbs_le (bp_callbacks bp) (bp_callbacks bp')"
        using receive_query_inv [OF assms] by blast
      with 1 \<open>pm_name msg = br_query_message_name (bp_router bp)\<close> Some show ?thesis
        by (simp add: on_process_message_received_with_def ex_bool_eq)
    next
      case (2 name region)
      with \<open>pm_name msg = br_query_message_name (bp_router bp)\<close> Some show ?thesis
        by (auto simp: on_process_message_received_with_def truncated_query_def)
    qed
  next
    case 2
    then show ?thesis
      using Some assms cancel_pending_request_inv [OF assms]
      by (auto simp: on_process_message_received_with_def split: option.splits) (metis bind_outcome.simps(1))+
  next
    case 3
    with Some assms show ?thesis by (simp add: on_process_message_received_with_def ex_bool_eq)
  qed
qed

lemma browser_step_inv:
  assumes "bp_inv bp"
  shows "(\<exists>bp'. browser_step env hs op bp = Ret bp' \<and> bp_inv bp' \<and> cbs_le (bp_callbacks bp) (bp_callbacks bp'))
    \<or> (browser_step env hs op bp = Panic \<and> truncated_query bp op)"
proof (cases op)
  case (AddHandler h first)
  then show ?thesis using add_handler_inv [OF assms, of h first] by auto
next
  case (RemoveHandler on_ui i)
  then show ?thesis using remove_handler_inv [OF assms, of env on_ui i] by auto
next
  case (CancelPending on_ui browser i)
  obtain h where "find_handler i bp = Ret h" using find_handler_ok [OF assms] by blast
  then show ?thesis
    using CancelPending cancel_pending_for_inv [OF assms, of env on_ui browser h True]
    by (auto simp: cancel_pending_with_def)
next
  case (PendingCount browser i)
  then show ?thesis using assms pending_count_counts [OF assms, of browser i] by simp
next
  case (BeforeClose on_ui browser)
  then show ?thesis
    using cancel_pending_for_inv [OF assms, of env on_ui browser None False] by (auto simp: on_before_close_with_def)
next
  case (RenderProcessTerminated on_ui browser)
  then show ?thesis
    using cancel_pending_for_inv [OF assms, of env on_ui browser None False]
    by (auto simp: on_render_process_terminated_with_def)
next
  case (BeforeBrowse on_ui browser frame)
  then show ?thesis
    using assms cancel_pending_for_inv [OF assms, of env on_ui browser None False]
    by (auto simp: on_before_browse_with_def)
next
  case (MessageReceived browser frame message)
  then show ?thesis
    using on_process_message_received_inv [OF assms, of env hs browser frame message] by auto
next
  case RunTask
  then show ?thesis using run_task_inv [OF assms, of env] by auto
next
  case (ExecuteCallback a call)
  have "bp_inv (callback_method env a call bp)" if "a \<in> bp_held bp"
    using that bp_inv_bounds [OF assms] bp_inv_locks [OF assms]
    by (intro bp_inv_same [OF assms]) (auto simp: callback_method_eq bp_simps)
  with ExecuteCallback assms show ?thesis by (simp add: callback_method_eq bp_simps)
next
  case (DropCallback a)
  have "bp_inv (bp\<lparr>bp_held := bp_held bp - {a}\<rparr>)"
    using bp_inv_bounds [OF assms] bp_inv_locks [OF assms] by (intro bp_inv_same [OF assms]) auto
  with DropCallback show ?thesis by simp
next
  case DropRouter
  have "bp_inv (bp\<lparr>bp_alive := False\<rparr>)"
    using bp_inv_bounds [OF assms] bp_inv_locks [OF assms] by (intro bp_inv_same [OF assms]) auto
  with DropRouter show ?thesis by simp
qed

interpretation browser_machine: live_machine "browser_step env hs" bp_inv for env :: cef_env and hs :: "'h handler_env"
proof
  fix bp :: "'h browser_process" and bp' op
  assume inv: "bp_inv bp"
  from browser_step_inv [OF inv, of env hs op]
  show "browser_step env hs op bp \<noteq> Blocked" by auto
  from browser_step_inv [OF inv, of env hs op]
  show "bp_inv bp'" if "browser_step env hs op bp = Ret bp'" using that by auto
qed

text \<open>A callback that is detached stays so, whatever happens.\<close>

definition detached :: "callback_addr \<Rightarrow> 'h browser_process \<Rightarrow> bool" where
  "detached a bp \<longleftrightarrow> a < length (bp_callbacks bp) \<and> \<not> cb_router (callback_of bp a)"

interpretation detached_machine:
  invariant_machine "browser_step env hs" "\<lambda>bp. bp_inv bp \<and> detached a bp"
  for env :: cef_env and hs :: "'h handler_env" and a
proof
  fix bp bp' :: "'h browser_process" and op
  assume inv: "bp_inv bp \<and> detached a bp" and st: "browser_step env hs op bp = Ret bp'"
  then have "bp_inv bp'" "cbs_le (bp_callbacks bp) (bp_callbacks bp')"
    using browser_step_inv [of bp env hs op] by auto
  with inv show "bp_inv bp' \<and> detached a bp'" by (auto simp: detached_def cbs_le_def)
qed

end
