(* ===== verification/Browser_Side_Reentry.thy ===== *)
theory Browser_Side_Reentry
  imports Browser_Side_Router
begin

text \<open>
  Query handlers that call the router back. The router calls \<^verbatim>\<open>on_query_*\<close> and
  \<^verbatim>\<open>on_query_canceled\<close> with its query map locked (and \<^verbatim>\<open>remove_handler\<close> with its handlers
  locked too), on the thread the handler runs on, and the standard library's mutex is
  not re-entrant. The lemmas compare a run with handlers that only return with the run
  in which they also call the router: the two agree up to the first such call, where
  the second blocks.
\<close>

section \<open>Calls of a handler\<close>

text \<open>The operations that lock the query map on the UI thread, where the handlers run.\<close>

fun locks_map :: "'h browser_op \<Rightarrow> bool" where
  "locks_map (PendingCount browser i) = True"
| "locks_map (CancelPending on_ui browser i) = on_ui"
| "locks_map (BeforeClose on_ui browser) = on_ui"
| "locks_map (RenderProcessTerminated on_ui browser) = on_ui"
| "locks_map (BeforeBrowse on_ui browser frame) =
     (on_ui \<and> (case frame of None \<Rightarrow> False | Some f \<Rightarrow> fr_is_main f))"
| "locks_map _ = False"

text \<open>
  \<open>calls evs\<close> are the operations a handler performs on the router when its call is
  the last event of \<open>evs\<close>. A handler they would call is never reached.
\<close>

definition reenter ::
  "cef_env \<Rightarrow> 'h handler_env \<Rightarrow> ('h browser_event list \<Rightarrow> 'h browser_op list) \<Rightarrow> 'h reentry" where
  "reenter env hs calls bp = run_ops (browser_step env hs) (calls (bp_events bp)) bp"

lemma locks_map_blocks:
  assumes "locks_map op" "m_held (query_map_mutex bp)"
  shows "browser_step_with re env hs op bp = Blocked"
proof -
  have cancel: "cancel_pending_for_with re env True browser handler notify bp = Blocked" for browser handler notify
    using assms(2) by (simp add: cancel_pending_for_with_def traverse_query_map_def outcome_simps)
  show ?thesis
    using assms cancel
    by (cases op) (auto simp: pending_count_def cancel_pending_with_def on_before_close_with_def
        on_render_process_terminated_with_def on_before_browse_with_def find_handler_def with_lock_def
        split: option.splits)
qed

lemma reenter_refuses:
  assumes "\<And>evs. calls evs \<noteq> [] \<Longrightarrow> locks_map (hd (calls evs))"
  shows "refuses (\<lambda>evs. calls evs \<noteq> []) (reenter env hs calls)"
  unfolding refuses_def reenter_def
proof (intro allI impI)
  fix bp :: "'a browser_process"
  assume held: "m_held (query_map_mutex bp)"
  show "run_ops (browser_step env hs) (calls (bp_events bp)) bp =
      (if calls (bp_events bp) \<noteq> [] then Blocked else Ret bp)"
  proof (cases "calls (bp_events bp)")
    case (Cons op ops)
    then have "locks_map op" using assms [of "bp_events bp"] by simp
    from locks_map_blocks [OF this held] Cons show ?thesis by simp
  qed simp
qed

section \<open>Comparing the runs\<close>

text \<open>
  The outcome \<open>x\<close> of an operation whose handlers only return, and its outcome \<open>y\<close> with
  handlers that call back.
\<close>

definition mirrors ::
  "('h browser_event list \<Rightarrow> bool) \<Rightarrow> 'h browser_process \<Rightarrow> ('a \<Rightarrow> 'h browser_process) \<Rightarrow> 'a outcome \<Rightarrow> 'a outcome \<Rightarrow> bool" where
  "mirrors C bp state x y \<longleftrightarrow>
     (\<forall>r. x = Ret r \<longrightarrow> (\<exists>es. bp_events (state r) = bp_events bp @ es \<and> y = unless_called_back C bp es r))"

lemma mirrorsI:
  "x = Ret r \<Longrightarrow> bp_events (state r) = bp_events bp @ es \<Longrightarrow> y = unless_called_back C bp es r \<Longrightarrow>
   mirrors C bp state x y"
  by (auto simp: mirrors_def)

lemma mirrors_silent:
  "x = Ret r \<Longrightarrow> bp_events (state r) = bp_events bp @ es \<Longrightarrow> (\<And>evs. \<not> calls_back C evs es) \<Longrightarrow>
   mirrors C bp state x x"
  by (auto simp: mirrors_def)

lemma mirrors_Ret: "bp_events (state r) = bp_events bp \<Longrightarrow> mirrors C bp state (Ret r) (Ret r)"
  by (rule mirrors_silent [OF refl, where es = "[]"]) simp_all

text \<open>A step that calls no handler may follow.\<close>

lemma mirrors_bind:
  assumes "mirrors C bp state x y"
    and "\<And>r r'. x = Ret r \<Longrightarrow> f r = Ret r' \<Longrightarrow>
           \<exists>es. bp_events (state' r') = bp_events (state r) @ es \<and> (\<forall>evs. \<not> calls_back C evs es)"
  shows "mirrors C bp state' (bind_outcome x f) (bind_outcome y f)"
  unfolding mirrors_def
proof (intro allI impI)
  fix r'
  assume "bind_outcome x f = Ret r'"
  then obtain r where r: "x = Ret r" "f r = Ret r'" by (auto simp: bind_outcome_Ret_iff)
  obtain es where es: "bp_events (state r) = bp_events bp @ es" "y = unless_called_back C bp es r"
    using assms(1) r(1) by (auto simp: mirrors_def)
  obtain fs where "bp_events (state' r') = bp_events (state r) @ fs" "\<forall>evs. \<not> calls_back C evs fs"
    using assms(2) [OF r] by blast
  with r es show "\<exists>es. bp_events (state' r') = bp_events bp @ es
      \<and> bind_outcome y f = unless_called_back C bp es r'"
    by (intro exI [of _ "es @ fs"]) simp
qed

lemma drop_queries_events:
  "bp_events (drop_queries env notify es m' bp) = bp_events bp @ all_cancel_events env notify es bp"
  by (simp add: drop_queries_def bp_simps cancel_entries_def)

lemma cancel_pending_for_mirrors:
  assumes "bp_cancellable bp" "refuses C re"
  shows "mirrors C bp id (cancel_pending_for env on_ui browser handler notify bp)
    (cancel_pending_for_with re env on_ui browser handler notify bp)"
proof (cases on_ui)
  case True
  let ?es = "cancelled_for browser (map_option fst handler) (m_data (query_map_mutex bp))"
  obtain m1 where m1: "cancel_pending_for env True browser handler notify bp = Ret (drop_queries env notify ?es m1 bp)"
      "removed_from ?es (m_data (query_map_mutex bp)) m1"
    using cancel_pending_for_spec [OF assms(1)] by blast
  obtain m2 where m2: "cancel_pending_for_with re env True browser handler notify bp =
      unless_called_back C bp (all_cancel_events env notify ?es bp) (drop_queries env notify ?es m2 bp)"
      "removed_from ?es (m_data (query_map_mutex bp)) m2"
    using cancel_pending_for_with_spec [OF assms] by blast
  have "m1 = m2" by (rule removed_from_unique [OF m1(2) m2(2)])
  with m1(1) m2(1) True show ?thesis
    by (intro mirrorsI [where es = "all_cancel_events env notify ?es bp"]) (simp_all add: drop_queries_events)
qed (simp add: cancel_pending_for_with_def mirrors_Ret bp_simps)

lemma cancel_pending_request_mirrors:
  assumes "bp_cancellable bp" "refuses C re"
  shows "mirrors C bp id (cancel_pending_request env b c r bp) (cancel_pending_request_with re env b c r bp)"
proof -
  let ?es = "cancelled_request b c r (m_data (query_map_mutex bp))"
  obtain m1 where m1: "cancel_pending_request env b c r bp = Ret (drop_queries env False ?es m1 bp)"
      "removed_from ?es (m_data (query_map_mutex bp)) m1"
    using cancel_pending_request_spec [OF assms(1)] by blast
  obtain m2 where m2: "cancel_pending_request_with re env b c r bp =
      unless_called_back C bp (all_cancel_events env False ?es bp) (drop_queries env False ?es m2 bp)"
      "removed_from ?es (m_data (query_map_mutex bp)) m2"
    using cancel_pending_request_with_spec [OF assms] by blast
  have "m1 = m2" by (rule removed_from_unique [OF m1(2) m2(2)])
  with m1(1) m2(1) show ?thesis
    by (intro mirrorsI [where es = "all_cancel_events env False ?es bp"]) (simp_all add: drop_queries_events)
qed

lemma remove_handler_mirrors:
  assumes "bp_inv bp" "refuses C re"
  shows "mirrors C bp snd (remove_handler env on_ui i bp) (remove_handler_with re env on_ui i bp)"
proof -
  let ?hm = "br_handlers (bp_router bp)"
  let ?bp = "set_handlers (acquire ?hm) bp"
  have lock: "lock_ok ?hm" by (rule bp_inv_locks [OF assms(1)])
  have ev: "bp_events (set_handlers hm x) = bp_events x" for hm and x :: "'a browser_process"
    by (simp add: set_handlers_def)
  obtain handler d where rem: "hd_remove i (m_data ?hm) = (handler, d)" by fastforce
  show ?thesis
  proof (cases handler)
    case None
    then show ?thesis
      by (simp add: remove_handler_with_def outcome_simps lock rem ev mirrors_Ret Let_def)
  next
    case (Some h)
    have "bp_cancellable bp" using assms(1) by (simp add: bp_inv_def bp_wf_cancellable)
    then have "bp_cancellable ?bp" by (simp add: bp_cancellable_def set_handlers_def callbacks_ok_def)
    from cancel_pending_for_mirrors [OF this assms(2), of env on_ui None "Some (i, h)" True]
    have "mirrors C bp id (cancel_pending_for env on_ui None (Some (i, h)) True ?bp)
        (cancel_pending_for_with re env on_ui None (Some (i, h)) True ?bp)"
      by (simp add: mirrors_def ev)
    from mirrors_bind [OF this, of "\<lambda>bp2. Ret (True, set_handlers (release d ?hm) bp2)" snd]
    show ?thesis using Some by (auto simp: remove_handler_with_def outcome_simps lock rem ev Let_def intro!: exI [of _ "[]"])
  qed
qed

section \<open>Tasks and messages\<close>

lemma execute_mirrors:
  assumes "bp_inv bp" "a < length (bp_callbacks bp)"
  shows "mirrors C bp id (execute_success env a builder bp) (execute_success env a builder bp)"
    and "mirrors C bp id (execute_failure env a code msg bp) (execute_failure env a code msg bp)"
proof -
  let ?c = "callback_of bp a"
  let ?v = "pending bp (cb_browser_id ?c) (cb_query_id ?c)"
  note eqs = execute_success_eq [OF bp_inv_locks(1) [OF assms(1)] assms(2)]
    execute_failure_eq [OF bp_inv_locks(1) [OF assms(1)] assms(2)]
  show "mirrors C bp id (execute_success env a builder bp) (execute_success env a builder bp)"
  proof (cases "callback_alive a bp \<and> cb_router ?c")
    case True
    have "\<not> calls_back C evs (case ?v of None \<Rightarrow> []
          | Some v \<Rightarrow> success_events env (qi_frame v) (qi_context_id v) (qi_request_id v) builder)" for evs
      by (simp split: option.splits)
    with True show ?thesis
      by (intro mirrors_silent [rotated 2]) (assumption, simp add: eqs, simp add: bp_simps)
  next
    case False
    then have "execute_success env a builder bp = Ret bp" using eqs(1) by (auto simp: execute_success_def)
    then show ?thesis by (simp add: mirrors_Ret)
  qed
  show "mirrors C bp id (execute_failure env a code msg bp) (execute_failure env a code msg bp)"
  proof (cases "callback_alive a bp \<and> cb_router ?c")
    case True
    have "\<not> calls_back C evs (case ?v of None \<Rightarrow> []
          | Some v \<Rightarrow> failure_events env (br_query_message_name (bp_router bp)) (qi_frame v)
                        (qi_context_id v) (qi_request_id v) code msg)" for evs
      by (simp split: option.splits)
    with True show ?thesis
      by (intro mirrors_silent [rotated 2]) (assumption, simp add: eqs, simp add: bp_simps)
  next
    case False
    then have "execute_failure env a code msg bp = Ret bp" using eqs(2) by (auto simp: execute_failure_def)
    then show ?thesis by (simp add: mirrors_Ret)
  qed
qed

lemma run_task_mirrors:
  assumes inv: "bp_inv bp" and re: "refuses C re"
  shows "mirrors C bp id (run_task env bp) (run_task_with re env bp)"
proof (cases "bp_tasks bp")
  case Nil
  then show ?thesis by (simp add: run_task_with_def mirrors_Ret)
next
  case (Cons t ts)
  let ?bp = "bp\<lparr>bp_tasks := ts\<rparr>"
  have "bp_inv ?bp" using bp_inv_bounds(1) [OF inv] Cons by (intro bp_inv_tasks [OF inv]) auto
  moreover have "task_ok (length (bp_callbacks ?bp)) t" using bp_inv_bounds(1) [OF inv] Cons by simp
  moreover have "bp_cancellable ?bp" using \<open>bp_inv ?bp\<close> by (simp add: bp_inv_def bp_wf_cancellable)
  ultimately have "mirrors C ?bp id (task_execute env t ?bp) (task_execute_with re env t ?bp)"
    using execute_mirrors [of ?bp] cancel_pending_for_mirrors [of ?bp, OF _ re] mirrors_Ret [of id ?bp ?bp]
    by (cases t) auto
  then show ?thesis using Cons by (simp add: run_task_with_def mirrors_def)
qed

lemma offer_query_mirrors:
  assumes re: "refuses C re" and "m_held (query_map_mutex bp)"
  shows "mirrors C bp snd (offer_query env hs browser frame q arg persistent a cs bp)
    (offer_query_with re env hs browser frame q arg persistent a cs bp)"
  using assms(2)
proof (induction cs arbitrary: bp)
  case Nil
  show ?case by (simp add: mirrors_Ret)
next
  case (Cons ih cs)
  obtain i h where ih: "ih = (i, h)" by (cases ih)
  obtain taken calls keeps where ans: "hs (bp_events bp) h browser frame q arg persistent = (taken, calls, keeps)"
    by (cases "hs (bp_events bp) h browser frame q arg persistent") auto
  let ?e = "OnQuery h browser frame q arg persistent a"
  let ?bp = "fold (callback_method env a) calls (log_event ?e bp)"
  define bp3 where "bp3 = (if keeps then ?bp\<lparr>bp_held := insert a (bp_held ?bp)\<rparr> else ?bp)"
  have ev: "bp_events bp3 = bp_events bp @ [?e]" "m_held (query_map_mutex bp3)"
    using Cons.prems by (simp_all add: bp3_def fold_callback_method bp_simps)
  have log: "re (log_event ?e bp) = (if C (bp_events bp @ [?e]) then Blocked else Ret (log_event ?e bp))"
    using re Cons.prems unfolding refuses_def by (simp add: bp_simps)
  have plain: "offer_query env hs browser frame q arg persistent a (ih # cs) bp =
      (if taken then Ret (Some (i, h), bp3) else offer_query env hs browser frame q arg persistent a cs bp3)"
    by (simp only: ih offer_query_with.simps ans Let_def prod.case bind_outcome.simps bp3_def)
  have called: "offer_query_with re env hs browser frame q arg persistent a (ih # cs) bp =
      (if C (bp_events bp @ [?e]) then Blocked
       else if taken then Ret (Some (i, h), bp3) else offer_query_with re env hs browser frame q arg persistent a cs bp3)"
    by (simp only: ih offer_query_with.simps ans Let_def prod.case log bind_outcome.simps bp3_def split: if_split) simp
  show ?case
  proof (cases taken)
    case True
    then show ?thesis
      by (intro mirrorsI [where es = "[?e]" and r = "(Some (i, h), bp3)"]) (simp_all add: plain called ev)
  next
    case False
    obtain res bp' where r: "offer_query env hs browser frame q arg persistent a cs bp3 = Ret (res, bp')"
      using offer_query_Ret by blast
    with Cons.IH [OF ev(2)] obtain es where "bp_events bp' = bp_events bp3 @ es"
        "offer_query_with re env hs browser frame q arg persistent a cs bp3 = unless_called_back C bp3 es (res, bp')"
      by (auto simp: mirrors_def)
    with r False show ?thesis
      by (intro mirrorsI [where es = "?e # es" and r = "(res, bp')"]) (simp_all add: plain called ev)
  qed
qed

lemma detach_locked_events: "detach_locked a bp = Ret bp' \<Longrightarrow> bp_events bp' = bp_events bp"
  by (auto simp: detach_locked_def with_lock_def Let_def bp_simps split: if_splits)

lemma receive_query_mirrors:
  assumes inv: "bp_inv bp" and re: "refuses C re"
  shows "mirrors C bp id (receive_query env hs browser frame name content bp)
    (receive_query_with re env hs browser frame name content bp)"
proof (cases "browser = None \<or> hd_handlers (m_data (br_handlers (bp_router bp))) = []")
  case True
  let ?bp' = "cancel_unhandled_query env frame (rm_context_id content) (rm_request_id content) bp"
  from True have rej: "receive_query_with r env hs browser frame name content bp = Ret ?bp'" for r
    using inv by (auto simp: receive_query_with_def outcome_simps bp_inv_locks Let_def split: option.splits)
  show ?thesis
    unfolding rej cancel_unhandled_query_def send_query_failure_eq
    by (rule mirrors_silent [OF refl _ calls_back_silent(1)]) (simp add: bp_simps)
next
  case False
  then obtain b where b: "browser = Some b" and ne: "hd_handlers (m_data (br_handlers (bp_router bp))) \<noteq> []" by auto
  let ?bp = "offering b name content bp"
  have off: "bp_events ?bp = bp_events bp" "m_held (query_map_mutex ?bp)"
    by (simp_all add: offering_def Let_def acquire_def)
  have offer: "mirrors C bp snd (offer_query env hs browser frame q arg p a cs ?bp)
      (offer_query_with re env hs browser frame q arg p a cs ?bp)" for q arg p a cs
    using offer_query_mirrors [OF re off(2), of env hs browser frame q arg p a cs] by (simp add: mirrors_def off(1))
  show ?thesis
    unfolding b receive_query_with_eq [OF inv ne]
  proof (rule mirrors_bind [OF offer [unfolded b]])
    fix r r'
    assume "(case r of (res, bp3) \<Rightarrow> case res of
          Some h \<Rightarrow> Ret (set_query_map (release (bim_insert (brw_identifier b) (next_query_id bp)
                      (query_entry (Some b) frame content (length (bp_callbacks bp)) h) (m_data (query_map_mutex bp)))
                      (query_map_mutex bp3)) bp3)
        | None \<Rightarrow> bind_outcome (detach_locked (length (bp_callbacks bp)) bp3) (\<lambda>bp4.
                    Ret (set_query_map (release (m_data (query_map_mutex bp)) (query_map_mutex bp4))
                      (cancel_unhandled_query env frame (rm_context_id content) (rm_request_id content) bp4)))) = Ret r'"
    then have "(\<exists>fs. bp_events r' = bp_events (snd r) @ fs \<and> (fs = [] \<or>
        fs = failure_events env (br_query_message_name (bp_router r')) frame (rm_context_id content)
          (rm_request_id content) CANCELED_CODE (ascii_bytes CANCELED_MESSAGE)))"
      by (cases r) (auto simp: bind_outcome_Ret_iff cancel_unhandled_query_def send_query_failure_eq bp_simps
          dest!: detach_locked_events split: option.splits)
    then show "\<exists>es. bp_events (id r') = bp_events (snd r) @ es \<and> (\<forall>evs. \<not> calls_back C evs es)" by auto
  qed
qed

lemma on_process_message_received_mirrors:
  assumes inv: "bp_inv bp" and re: "refuses C re"
  shows "mirrors C bp snd (on_process_message_received env hs browser frame message bp)
    (on_process_message_received_with re env hs browser frame message bp)"
proof -
  have can: "bp_cancellable bp" using inv by (simp add: bp_inv_def bp_wf_cancellable)
  have pair: "mirrors C bp snd (bind_outcome x (\<lambda>bp'. Ret (True, bp'))) (bind_outcome y (\<lambda>bp'. Ret (True, bp')))"
    if "mirrors C bp id x y" for x y
    by (rule mirrors_bind [OF that]) (auto intro!: exI [of _ "[]"])
  have idle: "mirrors C bp snd (Ret (r, bp)) (Ret (r, bp))" for r
    by (simp add: mirrors_Ret)
  show ?thesis
  proof (cases message)
    case None
    with idle show ?thesis by (simp add: on_process_message_received_with_def)
  next
    case (Some msg)
    consider (query) "pm_name msg = br_query_message_name (bp_router bp)"
      | (cancel) b args where "pm_name msg \<noteq> br_query_message_name (bp_router bp)"
          "pm_name msg = br_cancel_message_name (bp_router bp)" "browser = Some b" "argument_list msg = Some args"
      | (other) r where "on_process_message_received_with re env hs browser frame message bp = Ret (r, bp)"
          "on_process_message_received env hs browser frame message bp = Ret (r, bp)"
      unfolding Some on_process_message_received_with_def option.case Let_def
      by (cases "pm_name msg = br_query_message_name (bp_router bp)";
          cases "pm_name msg = br_cancel_message_name (bp_router bp)"; cases browser; cases "argument_list msg") auto
    then show ?thesis
    proof cases
      case query
      with Some pair [OF receive_query_mirrors [OF inv re]] show ?thesis
        by (cases "render_message_from env (Some msg)") (simp_all add: on_process_message_received_with_def mirrors_def)
    next
      case cancel
      with Some pair [OF cancel_pending_request_mirrors [OF can re]] show ?thesis
        by (simp add: on_process_message_received_with_def)
    next
      case other
      with idle show ?thesis by simp
    qed
  qed
qed

section \<open>Steps and runs\<close>

lemma browser_step_mirrors:
  assumes inv: "bp_inv bp" and re: "refuses C re"
  shows "mirrors C bp id (browser_step env hs op bp) (browser_step_with re env hs op bp)"
proof -
  have can: "bp_cancellable bp" using inv by (simp add: bp_inv_def bp_wf_cancellable)
  note cancel = cancel_pending_for_mirrors [OF can re]
  have drop: "mirrors C bp id (bind_outcome x (\<lambda>(_, bp'). Ret bp')) (bind_outcome y (\<lambda>(_, bp'). Ret bp'))"
    if "mirrors C bp snd x y" for x y :: "(bool \<times> 'a browser_process) outcome"
    by (rule mirrors_bind [OF that]) (auto intro!: exI [of _ "[]"])
  have same: "mirrors C bp id (Ret bp') (Ret bp')" if "bp_events bp' = bp_events bp" for bp'
    using that by (simp add: mirrors_Ret)
  show ?thesis
  proof (cases op)
    case (AddHandler h first)
    obtain i bp' where "add_handler h first bp = Ret (i, bp')" using add_handler_inv [OF inv] by blast
    moreover from this have "bp_events bp' = bp_events bp"
      using bp_inv_locks(3) [OF inv]
      by (auto simp: add_handler_def outcome_simps Let_def set_handlers_def split: prod.splits)
    ultimately show ?thesis using AddHandler same by simp
  next
    case (RemoveHandler on_ui i)
    then show ?thesis using drop [OF remove_handler_mirrors [OF inv re]] by simp
  next
    case (CancelPending on_ui browser i)
    obtain h where "find_handler i bp = Ret h" using find_handler_ok [OF inv] by blast
    with CancelPending cancel show ?thesis by (simp add: cancel_pending_with_def)
  next
    case (PendingCount browser i)
    then show ?thesis using pending_count_counts [OF inv, of browser i] same by simp
  next
    case (BeforeBrowse on_ui browser frame)
    then show ?thesis using cancel same by (simp add: on_before_browse_with_def)
  next
    case (MessageReceived browser frame message)
    then show ?thesis using drop [OF on_process_message_received_mirrors [OF inv re]] by simp
  next
    case RunTask
    then show ?thesis using run_task_mirrors [OF inv re] by simp
  qed (use cancel same in \<open>simp_all add: on_before_close_with_def on_render_process_terminated_with_def
      callback_method_eq bp_simps\<close>)
qed

lemma run_mirrors:
  assumes "bp_inv bp" "refuses C re" "run_ops (browser_step env hs) ops bp = Ret bp'"
  shows "\<exists>es. bp_events bp' = bp_events bp @ es
    \<and> run_ops (browser_step_with re env hs) ops bp = unless_called_back C bp es bp'"
  using assms(1,3)
proof (induction ops arbitrary: bp)
  case (Cons op ops)
  obtain bp1 where bp1: "browser_step env hs op bp = Ret bp1" "run_ops (browser_step env hs) ops bp1 = Ret bp'"
    using Cons.prems(2) by (auto simp: bind_outcome_Ret_iff)
  have "bp_inv bp1" using browser_machine.step_inv [OF Cons.prems(1) bp1(1)] .
  from Cons.IH [OF this bp1(2)] obtain fs where fs: "bp_events bp' = bp_events bp1 @ fs"
      "run_ops (browser_step_with re env hs) ops bp1 = unless_called_back C bp1 fs bp'" by blast
  obtain es where "bp_events bp1 = bp_events bp @ es"
      "browser_step_with re env hs op bp = unless_called_back C bp es bp1"
    using browser_step_mirrors [OF Cons.prems(1) assms(2), of env hs op] bp1(1) by (auto simp: mirrors_def)
  with fs show ?case by (intro exI [of _ "es @ fs"]) simp
qed simp

end
