(* ===== verification/Browser_Side_Properties.thy ===== *)
theory Browser_Side_Properties
  imports Browser_Side_Reentry
begin

text \<open>
  What the browser side of the message router promises: it deadlocks only when a
  handler calls it back, each query is offered to the handlers in order and registered for the one that takes
  it, a query is answered once (or, if persistent, as often as the handler likes),
  cancellation removes exactly the queries it is meant for and silences their
  callbacks. The theorems that end in \<open>_flaw\<close> state where the code departs from its
  documentation.
\<close>

section \<open>Lemmas\<close>

text \<open>A task that finds its callback detached, or gone, does nothing.\<close>

lemma detached_silent:
  assumes "bp_inv bp" "detached a bp"
  shows "execute_success env a builder bp = Ret bp" "execute_failure env a code msg bp = Ret bp"
proof -
  have a: "a < length (bp_callbacks bp)" "\<not> cb_router (callback_of bp a)" using assms(2) by (auto simp: detached_def)
  show "execute_success env a builder bp = Ret bp"
  proof (cases "callback_alive a bp")
    case True
    with a show ?thesis by (simp add: execute_success_eq bp_inv_locks(1) [OF assms(1)])
  qed (simp add: execute_success_def)
  show "execute_failure env a code msg bp = Ret bp"
  proof (cases "callback_alive a bp")
    case True
    with a show ?thesis by (simp add: execute_failure_eq bp_inv_locks(1) [OF assms(1)])
  qed (simp add: execute_failure_def)
qed

lemma silent_forever:
  assumes "bp_inv bp" "detached a bp" "run_ops (browser_step env hs) ops bp = Ret bp'"
  shows "execute_success env a builder bp' = Ret bp' \<and> execute_failure env a code msg bp' = Ret bp'"
  using detached_machine.run_inv [of bp a env hs ops bp'] assms detached_silent by blast

lemma entry_alive:
  assumes "bp_inv bp" "pending bp b k = Some v" "qi_callback v = Some a"
  shows "callback_alive a bp"
  using assms mem_bim_entries [OF bp_inv_locks(6) [OF assms(1)], of b k v]
  by (force simp: callback_alive_def list_ex_iff)

text \<open>A live callback: attached, made for the pending query \<open>v\<close>.\<close>

definition answers :: "'h browser_process \<Rightarrow> callback_addr \<Rightarrow> i32 \<Rightarrow> i64 \<Rightarrow> 'h query_info \<Rightarrow> bool" where
  "answers bp a b k v \<longleftrightarrow>
     pending bp b k = Some v \<and> qi_callback v = Some a \<and> cb_router (callback_of bp a)"

lemma answersD:
  assumes "bp_inv bp" "answers bp a b k v"
  shows "a < length (bp_callbacks bp)" "callback_alive a bp" "cb_browser_id (callback_of bp a) = b"
    "cb_query_id (callback_of bp a) = k" "cb_persistent (callback_of bp a) = qi_is_persistent v"
    "cb_router (callback_of bp a)" "pending bp b k = Some v"
proof -
  have v: "pending bp b k = Some v" "qi_callback v = Some a" using assms(2) by (auto simp: answers_def)
  show "a < length (bp_callbacks bp)" "cb_browser_id (callback_of bp a) = b"
    "cb_query_id (callback_of bp a) = k" "cb_persistent (callback_of bp a) = qi_is_persistent v"
    using bp_inv_entry [OF assms(1) v(1)] v(2) by (metis option.inject)+
  show "callback_alive a bp" by (rule entry_alive [OF assms(1) v])
  show "cb_router (callback_of bp a)" "pending bp b k = Some v" using assms(2) by (auto simp: answers_def)
qed

lemma cancelled_for_mem:
  assumes "bim_inv m"
  shows "(b, k, v) \<in> set (cancelled_for browser hid m) \<longleftrightarrow>
    bim_lookup m b k = Some v \<and> (\<forall>br. browser = Some br \<longrightarrow> brw_identifier br = b) \<and> handler_matches hid v"
  using mem_bim_entries [OF assms] mem_browser_entries_of [OF assms]
  by (auto simp: cancelled_for_def query_scope_def split: option.splits)

lemma cancelled_callbacks_detached:
  assumes "bp_inv bp" "set es \<subseteq> set (bim_entries (m_data (query_map_mutex bp)))"
    and "(b, k, v) \<in> set es" "qi_callback v = Some a"
  shows "detached a (drop_queries env notify es m' bp)"
proof -
  have "pending bp b k = Some v"
    using assms(2,3) mem_bim_entries [OF bp_inv_locks(6) [OF assms(1)]] by blast
  then have "a < length (bp_callbacks bp)"
    using bp_inv_entry [OF assms(1)] assms(4) by (metis option.inject)
  moreover have "a \<in> entry_callbacks es" using assms(3,4) by (force simp: entry_callbacks_def)
  ultimately show ?thesis by (simp add: detached_def drop_queries_def bp_simps detach_at_nth detach_def)
qed

text \<open>Everything there is to say about \<^verbatim>\<open>cancel_pending_for\<close> on the UI thread.\<close>

lemma cancel_pending_for_effect:
  assumes inv: "bp_inv bp"
  obtains bp' where "cancel_pending_for env True browser handler notify bp = Ret bp'" "bp_inv bp'"
    "\<And>b k. pending bp' b k =
       (case pending bp b k of
          None \<Rightarrow> None
        | Some v \<Rightarrow> if (\<forall>br. browser = Some br \<longrightarrow> brw_identifier br = b) \<and> handler_matches (map_option fst handler) v
                    then None else Some v)"
    "bp_events bp' = bp_events bp @
       concat (map (\<lambda>(b, k, v). cancel_events env (br_query_message_name (bp_router bp)) notify k v)
         (cancelled_for browser (map_option fst handler) (m_data (query_map_mutex bp))))"
    "\<And>b k v a. pending bp b k = Some v \<Longrightarrow> pending bp' b k = None \<Longrightarrow> qi_callback v = Some a \<Longrightarrow> detached a bp'"
    "br_handlers (bp_router bp') = br_handlers (bp_router bp)"
proof -
  let ?m = "m_data (query_map_mutex bp)"
  let ?es = "cancelled_for browser (map_option fst handler) ?m"
  have m: "bim_inv ?m" by (rule bp_inv_locks(6) [OF inv])
  have "bp_cancellable bp" using inv by (simp add: bp_wf_cancellable bp_inv_def)
  from cancel_pending_for_spec [OF this, of env browser handler notify]
  obtain m' where c: "cancel_pending_for env True browser handler notify bp = Ret (drop_queries env notify ?es m' bp)"
    and rem: "removed_from ?es ?m m'" by blast
  let ?bp' = "drop_queries env notify ?es m' bp"
  have look: "pending ?bp' b k = (case pending bp b k of None \<Rightarrow> None
      | Some v \<Rightarrow> if (\<forall>br. browser = Some br \<longrightarrow> brw_identifier br = b) \<and> handler_matches (map_option fst handler) v
                  then None else Some v)" for b k
    using rem cancelled_for_mem [OF m]
    by (auto simp: drop_queries_def bp_simps removed_from_def split: option.splits)
  show thesis
  proof (rule that [OF c _ look])
    show "bp_inv ?bp'" by (rule drop_queries_inv [OF inv rem cancelled_subset(1) [OF m]])
    show "bp_events ?bp' = bp_events bp @
       concat (map (\<lambda>(b, k, v). cancel_events env (br_query_message_name (bp_router bp)) notify k v) ?es)"
      by (simp add: drop_queries_def bp_simps cancel_entries_def)
    show "br_handlers (bp_router ?bp') = br_handlers (bp_router bp)"
      by (simp add: drop_queries_def bp_simps)
    fix b k v a
    assume v: "pending bp b k = Some v" "pending ?bp' b k = None" "qi_callback v = Some a"
    then have "(b, k, v) \<in> set ?es"
      using look [of b k] cancelled_for_mem [OF m, of b k v] by (auto split: if_splits)
    from cancelled_callbacks_detached [OF inv cancelled_subset(1) [OF m] this v(3)]
    show "detached a ?bp'" .
  qed
qed

section \<open>A sample process\<close>

text \<open>
  Two handlers, of which the second has taken two queries of browser 5 and keeps their
  callbacks: one from context 10, request 20, and a persistent one from context 11,
  request 21.
\<close>

definition demo_env :: cef_env where
  "demo_env = ascii_env False"

definition demo_browser :: browser_ref where
  "demo_browser = \<lparr>brw_identifier = 5\<rparr>"

definition demo_frame :: frame_ref where
  "demo_frame = \<lparr>fr_identifier = 3, fr_is_main = True\<rparr>"

definition demo_info :: "i32 \<Rightarrow> i32 \<Rightarrow> bool \<Rightarrow> callback_addr \<Rightarrow> nat query_info" where
  "demo_info c r p a =
     \<lparr>qi_browser = Some demo_browser, qi_frame = Some demo_frame, qi_context_id = c, qi_request_id = r,
      qi_is_persistent = p, qi_callback = Some a, qi_handler = Some (1, 1)\<rparr>"

definition demo_map :: "nat query_map" where
  "demo_map = \<lparr>bim_map = [(5, [(1, demo_info 10 20 False 0), (2, demo_info 11 21 True 1)])]\<rparr>"

definition demo_callback :: "i64 \<Rightarrow> bool \<Rightarrow> router_callback" where
  "demo_callback q p = query_callback config_default ''cefQueryMsg'' 5 q p True"

definition demo_bp :: "nat browser_process" where
  "demo_bp =
     \<lparr>bp_router =
        \<lparr>br_config = config_default, br_query_message_name = ''cefQueryMsg'',
         br_cancel_message_name = ''cefQueryCancelMsg'',
         br_query_id_generator = mutex_new ((ig_new I64_MAX)\<lparr>ig_next_id := 2\<rparr>),
         br_handlers = mutex_new \<lparr>hd_offset = 0, hd_handlers = [Some 0, Some 1]\<rparr>,
         br_query_info_map = mutex_new demo_map\<rparr>,
      bp_alive = True,
      bp_callbacks = [mutex_new (demo_callback 1 False), mutex_new (demo_callback 2 True)],
      bp_held = {0, 1}, bp_tasks = [], bp_events = []\<rparr>"

lemma demo_lookup:
  "bim_lookup demo_map b k = (if b = 5 \<and> k = 1 then Some (demo_info 10 20 False 0)
     else if b = 5 \<and> k = 2 then Some (demo_info 11 21 True 1) else None)"
  by (simp add: demo_map_def bim_lookup_def bt_get_def)

lemma demo_inv: "bp_inv demo_bp"
proof -
  have "bim_inv demo_map" by (simp add: bim_inv_def demo_map_def bt_wf_def)
  then have "bp_wf demo_bp"
    by (auto simp: bp_wf_def bp_locks_def demo_bp_def demo_lookup entry_ok_def demo_info_def demo_browser_def
        demo_callback_def query_callback_def split: if_splits)
  moreover have "bp_numbered demo_bp"
    by (auto simp: bp_numbered_def demo_bp_def demo_lookup demo_info_def demo_callback_def query_callback_def
        ig_new_def ig_inv_def I64_MAX_def less_Suc_eq nth_Cons' RESERVED_ID_def split: if_splits)
  ultimately show ?thesis by (simp add: bp_inv_def)
qed

lemma demo_answers: "answers demo_bp 0 5 1 (demo_info 10 20 False 0)" "answers demo_bp 1 5 2 (demo_info 11 21 True 1)"
  by (simp_all add: answers_def demo_bp_def demo_lookup) (simp_all add: demo_info_def demo_callback_def query_callback_def)

text \<open>A run: a handler is added, and takes a query.\<close>

abbreviation taker :: "nat handler_env" where
  "taker \<equiv> \<lambda>_ _ _ _ _ _ _. (True, [], True)"

definition demo_query :: process_message where
  "demo_query = ListMessage ''cefQueryMsg'' [VInt 10, VInt 20, VNull, VBool False]"

definition demo_ops :: "nat browser_op list" where
  "demo_ops = [AddHandler 7 False, MessageReceived (Some demo_browser) (Some demo_frame) (Some demo_query)]"

lemma demo_run:
  "\<exists>bp v. run_ops (browser_step demo_env taker) demo_ops (browser_process_new config_default) = Ret bp
     \<and> length (bp_callbacks bp) = 1 \<and> pending bp 5 1 = Some v \<and> \<not> qi_is_persistent v
     \<and> (\<exists>e. bp_events bp = [e] \<and> calls_handler e)"
proof -
  let ?bp0 = "browser_process_new config_default :: nat browser_process"
  obtain bp1 where bp1: "add_handler 7 False ?bp0 = Ret (Some 0, bp1)" "bp_inv bp1" "bp_callbacks bp1 = []"
      "m_data (br_handlers (bp_router bp1)) = \<lparr>hd_offset = 0, hd_handlers = [Some 7]\<rparr>"
      "br_query_message_name (bp_router bp1) = ''cefQueryMsg''" "next_query_id bp1 = 1" "bp_events bp1 = []"
    using add_handler_inv [OF bp_inv_new, of 7 False config_default]
    by (auto simp: add_handler_def browser_process_new_def router_new_def outcome_simps hd_add_def hd_default_def
        i32_try_from_usize_def i32_wrap_def set_handlers_def query_message_name_of_def config_default_def
        MESSAGE_SUFFIX_def next_query_id_def ig_next_def ig_new_def RESERVED_ID_def I64_MAX_def)
  let ?content = "\<lparr>rm_context_id = 10, rm_request_id = 20, rm_is_persistent = False, rm_payload = PBinary []\<rparr>"
  have content: "render_message_from demo_env (Some demo_query) = Ret ?content" "pm_name demo_query = ''cefQueryMsg''"
    by (simp_all add: render_message_from_def lv_defs index_defs demo_query_def)
  have cs: "hd_candidates (m_data (br_handlers (bp_router bp1))) = [(0, 7)]"
    by (simp add: bp1(4) hd_candidates_def List.map_filter_simps i32_try_from_usize_def i32_wrap_def)
  have ne: "hd_handlers (m_data (br_handlers (bp_router bp1))) \<noteq> []" by (simp add: bp1(4))
  from receive_query_offered [OF bp1(2) ne, of demo_env taker demo_browser "Some demo_frame" "''cefQueryMsg''" ?content, unfolded cs]
  obtain res ts asked H evs where
    recv: "receive_query demo_env taker (Some demo_browser) (Some demo_frame) ''cefQueryMsg'' ?content bp1 =
       Ret ((registered demo_browser (Some demo_frame) ''cefQueryMsg'' ?content res bp1)\<lparr>
              bp_tasks := bp_tasks bp1 @ ts,
              bp_events := bp_events bp1 @ map (\<lambda>(i, h). OnQuery h (Some demo_browser) (Some demo_frame)
                  (next_query_id bp1) (query_arg_of (rm_payload ?content)) (rm_is_persistent ?content)
                  (length (bp_callbacks bp1))) asked @
                (if res = None then evs else []),
              bp_held := H\<rparr>)" (is "_ = Ret ?bp2")
    and asked: "case res of None \<Rightarrow> asked = [(0, 7)] | Some x \<Rightarrow> \<exists>post. [(0, 7)] = asked @ post \<and> asked \<noteq> [] \<and> last asked = x"
    and first: "\<exists>arg p a. first_taker taker (Some demo_browser) (Some demo_frame) (next_query_id bp1) arg p a (bp_events bp1) asked (res \<noteq> None)"
    by blast
  have asked1: "asked = [(0, 7)]" using asked by (cases asked) (auto split: option.splits)
  with first obtain h where "res = Some h" by (auto simp: first_taker_Cons)
  then have "\<exists>e. bp_events ?bp2 = [e] \<and> calls_handler e" using asked1 bp1(7) by simp
  moreover from \<open>res = Some h\<close> have "pending ?bp2 5 1 = Some (query_entry (Some demo_browser) (Some demo_frame) ?content 0 h)"
    using bp1(3,6) by (simp add: bp_simps demo_browser_def)
  moreover have "run_ops (browser_step demo_env taker) demo_ops ?bp0 = Ret ?bp2"
    using bp1(1,5) content recv by (simp add: demo_ops_def on_process_message_received_with_def)
  ultimately show ?thesis using bp1(3) by (intro exI [of _ ?bp2]) (simp add: bp_simps query_entry_def)
qed

text \<open>Handlers that count the pending queries whenever they are called.\<close>

abbreviation counting :: "nat browser_event list \<Rightarrow> nat browser_op list" where
  "counting \<equiv> \<lambda>_. [PendingCount None None]"

section \<open>Properties\<close>

lemma panics_on_truncated_query:
  assumes "run_ops (browser_step env hs) ops (browser_process_new config) = Panic"
  shows "\<exists>pre op post bp. ops = pre @ op # post \<and> truncated_query bp op
      \<and> run_ops (browser_step env hs) pre (browser_process_new config) = Ret bp"
  using assms
proof (induction ops rule: rev_induct)
  case (snoc op ops)
  show ?case
  proof (cases "run_ops (browser_step env hs) ops (browser_process_new config)")
    case (Ret bp)
    then have "bp_inv bp" using browser_machine.run_inv [OF bp_inv_new] by blast
    moreover have "browser_step env hs op bp = Panic"
      using snoc.prems Ret by (cases "browser_step env hs op bp") (simp_all add: browser_machine.run_append)
    ultimately have "truncated_query bp op" using browser_step_inv [of bp env hs op] by auto
    with Ret show ?thesis by blast
  next
    case Blocked
    with snoc.prems show ?thesis by (simp add: browser_machine.run_append)
  next
    case Panic
    from snoc.IH [OF this] show ?thesis by (metis append_Cons append_assoc)
  qed
qed simp

text \<open>
  Property C5. When the browser side deadlocks. The router calls its handlers with the
  query map locked. As long as they do not call it back, no sequence of calls, incoming
  messages, tasks and callback executions makes a thread take a lock it already has, and
  the only way to make the router panic is a query message whose shared memory region is
  shorter than the header. Handlers that do call it back (\<open>calls\<close> gives their calls, of
  which the first is \<open>pending_count\<close>, or \<open>cancel_pending\<close>, \<open>on_before_close\<close>,
  \<open>on_render_process_terminated\<close> or a main frame's \<open>on_before_browse\<close> on the UI thread)
  block the UI thread for ever at the first such call: with them the run blocks if one of
  the handler calls it makes would be answered by a call of the router, and is the same
  run otherwise.
\<close>

theorem deadlock_iff_called_back:
  assumes "\<forall>evs. calls evs \<noteq> [] \<longrightarrow> locks_map (hd (calls evs))"
  shows "run_ops (browser_step env hs) ops (browser_process_new config) \<noteq> Blocked
   \<and> (run_ops (browser_step env hs) ops (browser_process_new config) = Panic \<longrightarrow>
        (\<exists>pre op post bp. ops = pre @ op # post \<and> truncated_query bp op
           \<and> run_ops (browser_step env hs) pre (browser_process_new config) = Ret bp))
   \<and> (\<forall>bp. run_ops (browser_step env hs) ops (browser_process_new config) = Ret bp \<longrightarrow>
        run_ops (browser_step_with (reenter env hs calls) env hs) ops (browser_process_new config) =
          (if \<exists>p e q. bp_events bp = p @ e # q \<and> calls_handler e \<and> calls (p @ [e]) \<noteq> []
           then Blocked else Ret bp))"
proof (intro conjI allI impI)
  show "run_ops (browser_step env hs) ops (browser_process_new config) \<noteq> Blocked"
    by (rule browser_machine.run_live [OF bp_inv_new])
next
  fix bp
  assume run: "run_ops (browser_step env hs) ops (browser_process_new config) = Ret bp"
  have re: "refuses (\<lambda>evs. calls evs \<noteq> []) (reenter env hs calls)" using assms by (intro reenter_refuses) blast
  have "bp_events (browser_process_new config :: 'a browser_process) = []" by (simp add: browser_process_new_def)
  with run_mirrors [OF bp_inv_new re run]
  show "run_ops (browser_step_with (reenter env hs calls) env hs) ops (browser_process_new config) =
      (if \<exists>p e q. bp_events bp = p @ e # q \<and> calls_handler e \<and> calls (p @ [e]) \<noteq> [] then Blocked else Ret bp)"
    by (simp add: calls_back_iff)
qed (rule panics_on_truncated_query)

theorem deadlock_iff_called_back_witness:
  "run_ops (browser_step_with (reenter demo_env taker counting) demo_env taker) demo_ops
     (browser_process_new config_default) = Blocked
   \<and> run_ops (browser_step demo_env taker) demo_ops (browser_process_new config_default) \<noteq> Blocked"
proof -
  obtain bp e where run: "run_ops (browser_step demo_env taker) demo_ops (browser_process_new config_default) = Ret bp"
      "bp_events bp = [e]" "calls_handler e"
    using demo_run by blast
  then have "\<exists>p e q. bp_events bp = p @ e # q \<and> calls_handler e \<and> counting (p @ [e]) \<noteq> []"
    by (intro exI [of _ "[]"] exI [of _ e]) simp
  with deadlock_iff_called_back [of counting demo_env taker demo_ops config_default] run(1) show ?thesis by simp
qed

text \<open>
  Property C6. In every state the router can reach, before its ids wrap around after
  \<^verbatim>\<open>i64::MAX\<close> queries, the callback of a pending query that is not persistent still has
  its router, and a callback that has its router belongs to a pending query: such a
  query can be answered, and only such a query can.
\<close>

theorem callback_attached_iff_pending:
  assumes "run_ops (browser_step env hs) ops (browser_process_new config) = Ret bp"
    and "int (length (bp_callbacks bp)) \<le> I64_MAX"
  shows "(\<forall>b k v. pending bp b k = Some v \<and> \<not> qi_is_persistent v \<longrightarrow> (\<exists>a. answers bp a b k v))
    \<and> (\<forall>a < length (bp_callbacks bp). cb_router (callback_of bp a) \<longrightarrow>
         (\<exists>v. answers bp a (cb_browser_id (callback_of bp a)) (cb_query_id (callback_of bp a)) v))"
proof -
  have inv: "bp_inv bp" by (rule browser_machine.run_inv [OF bp_inv_new assms(1)])
  have "\<exists>a. answers bp a b k v" if "pending bp b k = Some v" "\<not> qi_is_persistent v" for b k v
    using bp_inv_entry [OF inv that(1)] inv assms(2) that
    unfolding answers_def bp_inv_def bp_numbered_def by metis
  moreover have "\<exists>v. answers bp a (cb_browser_id (callback_of bp a)) (cb_query_id (callback_of bp a)) v"
    if a: "a < length (bp_callbacks bp)" and r: "cb_router (callback_of bp a)" for a
  proof -
    obtain v where v: "pending bp (cb_browser_id (callback_of bp a)) (cb_query_id (callback_of bp a)) = Some v"
      using inv assms(2) a r unfolding bp_inv_def bp_numbered_def by blast
    with callback_of_entry [OF inv assms(2) a v] r show ?thesis by (auto simp: answers_def)
  qed
  ultimately show ?thesis by blast
qed

theorem callback_attached_iff_pending_witness:
  "\<exists>bp a v. run_ops (browser_step demo_env taker) demo_ops (browser_process_new config_default) = Ret bp \<and> answers bp a 5 1 v"
proof -
  obtain bp v where run: "run_ops (browser_step demo_env taker) demo_ops (browser_process_new config_default) = Ret bp"
    "length (bp_callbacks bp) = 1" "pending bp 5 1 = Some v" "\<not> qi_is_persistent v"
    using demo_run by blast
  have "int (length (bp_callbacks bp)) \<le> I64_MAX" using run(2) by (simp add: I64_MAX_def)
  from callback_attached_iff_pending [OF run(1) this] run show ?thesis by blast
qed

text \<open>
  Property C4. Answering a query that is not persistent sends exactly one message, the
  response made for the query's own frame, context and request; the query is gone
  while every other one is untouched; and from then on, whatever happens, no task of
  this callback has any effect: the query is answered at most once.
\<close>

theorem query_answered_once:
  assumes inv: "bp_inv bp" and ans: "answers bp a b k v" and np: "\<not> qi_is_persistent v"
  shows "\<exists>bp'. execute_success env a builder bp = Ret bp'
    \<and> bp_events bp' = bp_events bp @
        success_events env (qi_frame v) (qi_context_id v) (qi_request_id v) builder
    \<and> (\<forall>b' k'. pending bp' b' k' = (if b' = b \<and> k' = k then None else pending bp b' k'))
    \<and> (\<forall>hs ops bp'' builder' code msg. run_ops (browser_step env hs) ops bp' = Ret bp'' \<longrightarrow>
         execute_success env a builder' bp'' = Ret bp'' \<and> execute_failure env a code msg bp'' = Ret bp'')"
proof -
  note a = answersD [OF inv ans]
  let ?m = "take_query b k (m_data (query_map_mutex bp))"
  let ?bp' = "settle_query True a (success_events env (qi_frame v) (qi_context_id v) (qi_request_id v) builder) ?m bp"
  have ex: "execute_success env a builder bp = Ret ?bp'"
    using a np by (simp add: execute_success_eq [OF bp_inv_locks(1) [OF inv] a(1,2)])
  have inv': "bp_inv ?bp'" using settle_query_inv [OF inv a(1), of True] a(3,4) by simp
  have det: "detached a ?bp'" using a(1) by (simp add: detached_def bp_simps detach_at_nth detach_def)
  show ?thesis
  proof (intro exI conjI allI impI)
    show "execute_success env a builder bp = Ret ?bp'" by (rule ex)
    show "bp_events ?bp' = bp_events bp @ success_events env (qi_frame v) (qi_context_id v) (qi_request_id v) builder"
      by (simp add: bp_simps)
    show "pending ?bp' b' k' = (if b' = b \<and> k' = k then None else pending bp b' k')" for b' k'
      using a(7) np by (auto simp: bp_simps take_query_lookup)
  qed (use silent_forever [OF inv' det] in \<open>simp_all\<close>)
qed

theorem query_answered_once_witness:
  "\<exists>bp'. execute_success demo_env 0 (PayloadBuilder ''cefQueryMsg'' PEmpty) demo_bp = Ret bp'
     \<and> pending bp' 5 1 = None \<and> pending bp' 5 2 = Some (demo_info 11 21 True 1)"
proof -
  have "\<not> qi_is_persistent (demo_info 10 20 False 0)" by (simp add: demo_info_def)
  from query_answered_once [OF demo_inv demo_answers(1) this, of demo_env "PayloadBuilder ''cefQueryMsg'' PEmpty"]
  show ?thesis using demo_answers(2) by (auto simp: answers_def)
qed

text \<open>
  Answering a persistent query sends its response in the same way and
  leaves the query pending with its callback usable, so that it can be answered again.
\<close>

lemma persistent_query_answered_again:
  assumes inv: "bp_inv bp" and ans: "answers bp a b k v" and p: "qi_is_persistent v"
  shows "\<exists>bp'. execute_success env a builder bp = Ret bp' \<and> bp_inv bp' \<and> answers bp' a b k v
    \<and> bp_events bp' = bp_events bp @
        success_events env (qi_frame v) (qi_context_id v) (qi_request_id v) builder
    \<and> (\<forall>b' k'. pending bp' b' k' = pending bp b' k')"
proof -
  note a = answersD [OF inv ans]
  let ?m = "take_query b k (m_data (query_map_mutex bp))"
  let ?bp' = "settle_query False a (success_events env (qi_frame v) (qi_context_id v) (qi_request_id v) builder) ?m bp"
  have ex: "execute_success env a builder bp = Ret ?bp'"
    using a p by (simp add: execute_success_eq [OF bp_inv_locks(1) [OF inv] a(1,2)])
  have "bp_inv ?bp'" using settle_query_inv [OF inv a(1), of False] a(3,4,5) p by simp
  moreover have same: "pending ?bp' b' k' = pending bp b' k'" for b' k'
    using a(7) p by (auto simp: bp_simps take_query_lookup)
  moreover have "answers ?bp' a b k v" using ans same by (simp add: answers_def bp_simps)
  ultimately show ?thesis using ex by (intro exI [of _ ?bp']) (simp add: bp_simps)
qed

text \<open>
  A failure of a persistent query is delivered, but the query stays
  registered although its callback has lost the router: the query is counted as
  pending and can never be answered again.
\<close>

lemma persistent_failure_flaw:
  assumes inv: "bp_inv bp" and ans: "answers bp a b k v" and p: "qi_is_persistent v"
  shows "\<exists>bp'. execute_failure env a code msg bp = Ret bp'
    \<and> bp_events bp' = bp_events bp @
        failure_events env (br_query_message_name (bp_router bp)) (qi_frame v) (qi_context_id v) (qi_request_id v) code msg
    \<and> pending bp' b k = Some v
    \<and> (\<forall>hs ops bp'' builder code msg. run_ops (browser_step env hs) ops bp' = Ret bp'' \<longrightarrow>
         execute_success env a builder bp'' = Ret bp'' \<and> execute_failure env a code msg bp'' = Ret bp'')"
proof -
  note a = answersD [OF inv ans]
  let ?evs = "failure_events env (br_query_message_name (bp_router bp)) (qi_frame v) (qi_context_id v) (qi_request_id v) code msg"
  let ?bp' = "settle_query True a ?evs (take_query b k (m_data (query_map_mutex bp))) bp"
  have ex: "execute_failure env a code msg bp = Ret ?bp'"
    using a by (simp add: execute_failure_eq [OF bp_inv_locks(1) [OF inv] a(1,2)])
  have inv': "bp_inv ?bp'" using settle_query_inv [OF inv a(1), of True] a(3,4) by simp
  have det: "detached a ?bp'" using a(1) by (simp add: detached_def bp_simps detach_at_nth detach_def)
  show ?thesis
  proof (intro exI conjI allI impI)
    show "execute_failure env a code msg bp = Ret ?bp'" by (rule ex)
    show "bp_events ?bp' = bp_events bp @ ?evs" by (simp add: bp_simps)
    show "pending ?bp' b k = Some v" using a(7) p by (simp add: bp_simps take_query_lookup)
  qed (use silent_forever [OF inv' det] in \<open>simp_all\<close>)
qed

text \<open>
  Property C7. A query message is offered to the handlers in their order until one
  takes it (\<open>first_taker\<close>: every handler asked declined, except the last if the query
  is taken). If one does, the query becomes pending under a new id for exactly that
  handler, with the frame, context, request and persistence of the message, its
  callback is attached, and nothing is sent to the renderer; if none does, nothing
  becomes pending, the callback is detached, and the frame gets one failure message
  with code -1. No other query is touched.
\<close>

theorem query_reception:
  assumes inv: "bp_inv bp" and name: "pm_name msg = br_query_message_name (bp_router bp)"
    and content: "render_message_from env (Some msg) = Ret content"
    and ne: "hd_handlers (m_data (br_handlers (bp_router bp))) \<noteq> []"
  defines "cs \<equiv> hd_candidates (m_data (br_handlers (bp_router bp)))"
    and "q \<equiv> next_query_id bp" and "a \<equiv> length (bp_callbacks bp)"
  shows "\<exists>bp' asked post.
     on_process_message_received env hs (Some b) frame (Some msg) bp = Ret (True, bp') \<and> bp_inv bp'
     \<and> cs = asked @ post \<and> length (bp_callbacks bp') = Suc a
     \<and> (let offers = map (\<lambda>(i, h). OnQuery h (Some b) frame q (query_arg_of (rm_payload content))
                                    (rm_is_persistent content) a) asked
        in (\<exists>h. asked \<noteq> [] \<and> h = last asked
              \<and> first_taker hs (Some b) frame q (query_arg_of (rm_payload content)) (rm_is_persistent content) a
                   (bp_events bp) asked True
              \<and> answers bp' a (brw_identifier b) q (query_entry (Some b) frame content a h)
              \<and> (\<forall>b' k. (b', k) \<noteq> (brw_identifier b, q) \<longrightarrow> pending bp' b' k = pending bp b' k)
              \<and> bp_events bp' = bp_events bp @ offers)
           \<or> (post = []
              \<and> first_taker hs (Some b) frame q (query_arg_of (rm_payload content)) (rm_is_persistent content) a
                   (bp_events bp) asked False
              \<and> detached a bp' \<and> (\<forall>b' k. pending bp' b' k = pending bp b' k)
              \<and> bp_events bp' = bp_events bp @ offers @
                  failure_events env (br_query_message_name (bp_router bp)) frame (rm_context_id content)
                    (rm_request_id content) CANCELED_CODE (ascii_bytes CANCELED_MESSAGE)))"
proof -
  from receive_query_offered [OF inv ne, of env hs b frame "pm_name msg" content]
  obtain res ts asked H where
    r: "receive_query env hs (Some b) frame (pm_name msg) content bp =
         Ret ((registered b frame (pm_name msg) content res bp)\<lparr>
              bp_tasks := bp_tasks bp @ ts,
              bp_events := bp_events bp @
                map (\<lambda>(i, h). OnQuery h (Some b) frame q (query_arg_of (rm_payload content))
                                (rm_is_persistent content) a) asked @
                (if res = None then failure_events env (br_query_message_name (bp_router bp)) frame
                   (rm_context_id content) (rm_request_id content) CANCELED_CODE (ascii_bytes CANCELED_MESSAGE)
                 else []),
              bp_held := H\<rparr>)" (is "_ = Ret ?bp'")
    and asked: "case res of None \<Rightarrow> asked = cs | Some x \<Rightarrow> \<exists>post. cs = asked @ post \<and> asked \<noteq> [] \<and> last asked = x"
    and first: "first_taker hs (Some b) frame q (query_arg_of (rm_payload content)) (rm_is_persistent content) a
                  (bp_events bp) asked (res \<noteq> None)"
    unfolding a_def q_def cs_def by blast
  have recv: "on_process_message_received env hs (Some b) frame (Some msg) bp = Ret (True, ?bp')"
    using name content r by (simp add: on_process_message_received_with_def Let_def)
  have inv': "bp_inv ?bp'" using receive_query_inv [OF inv] r by (metis outcome.inject)
  show ?thesis
  proof (cases res)
    case None
    then have "detached a ?bp'" "\<And>b' k. pending ?bp' b' k = pending bp b' k"
      by (auto simp: bp_simps detached_def a_def nth_append query_callback_def)
    with None asked first recv inv' show ?thesis
      by (intro exI [of _ ?bp'] exI [of _ asked] exI [of _ "[]"]) (simp add: bp_simps a_def)
  next
    case (Some h)
    obtain post where post: "cs = asked @ post" "asked \<noteq> []" "last asked = h"
      using asked Some by auto
    have "answers ?bp' a (brw_identifier b) q (query_entry (Some b) frame content a h)"
      using Some by (auto simp: answers_def bp_simps a_def q_def nth_append query_callback_def query_entry_def)
    moreover have "\<forall>b' k. (b', k) \<noteq> (brw_identifier b, q) \<longrightarrow> pending ?bp' b' k = pending bp b' k"
      using Some by (auto simp: bp_simps q_def)
    ultimately show ?thesis
      using Some post first recv inv'
      by (intro exI [of _ ?bp'] exI [of _ asked] exI [of _ post]) (simp add: bp_simps a_def)
  qed
qed

theorem query_reception_witness:
  "\<exists>bp'. on_process_message_received demo_env (\<lambda>_ h _ _ _ _ _. (h = 1, [], True)) (Some demo_browser) (Some demo_frame)
            (Some (ListMessage ''cefQueryMsg'' [VInt 10, VInt 22, VNull, VBool False])) demo_bp = Ret (True, bp')
     \<and> length (bp_callbacks bp') = 3"
proof -
  let ?msg = "ListMessage ''cefQueryMsg'' [VInt 10, VInt 22, VNull, VBool False]"
  have "pm_name ?msg = br_query_message_name (bp_router demo_bp)"
    "hd_handlers (m_data (br_handlers (bp_router demo_bp))) \<noteq> []"
    by (simp_all add: demo_bp_def)
  moreover have "render_message_from demo_env (Some ?msg) =
      Ret \<lparr>rm_context_id = 10, rm_request_id = 22, rm_is_persistent = False, rm_payload = PBinary []\<rparr>"
    by (simp add: render_message_from_def lv_defs index_defs)
  ultimately show ?thesis
    using query_reception [OF demo_inv, of ?msg demo_env _ "\<lambda>_ h _ _ _ _ _. (h = 1, [], True)" demo_browser "Some demo_frame"]
    by (fastforce simp: demo_bp_def)
qed

text \<open>
  Property C9. Which queries \<open>cancel_pending\<close> cancels. Given the id of a registered
  handler, exactly the queries that handler has taken, of the given browser or, without
  one, of any; given no id, all queries of the browser (of all browsers without one).
  An id that has no handler (any more) does not cancel nothing: the look-up turns it into
  no id at all, and the queries of every other handler are cancelled, as if it had not
  been given. Each cancelled query sends its frame a failure with code -1 and then
  notifies its handler, in ascending order of browser and query id, and the callbacks of
  the cancelled queries have no effect ever after.
\<close>

theorem cancel_pending_exact:
  fixes bp :: "'h browser_process" and i :: "handler_id option"
  assumes inv: "bp_inv bp"
  defines "registered_id \<equiv> (\<lambda>j. hd_get j (m_data (br_handlers (bp_router bp))) \<noteq> None)"
  shows "\<exists>bp'. cancel_pending env True browser i bp = Ret bp' \<and> bp_inv bp'
    \<and> (\<forall>b k. pending bp' b k =
         (case pending bp b k of
            None \<Rightarrow> None
          | Some v \<Rightarrow>
              if (\<forall>br. browser = Some br \<longrightarrow> brw_identifier br = b)
                 \<and> (\<forall>j. i = Some j \<and> registered_id j \<longrightarrow> map_option fst (qi_handler v) = Some j)
              then None else Some v))
    \<and> (\<forall>j. i = Some j \<and> \<not> registered_id j \<longrightarrow> cancel_pending env True browser None bp = Ret bp')
    \<and> bp_events bp' = bp_events bp @
         concat (map (\<lambda>(b, k, v). cancel_events env (br_query_message_name (bp_router bp)) True k v)
           (filter (\<lambda>(b, k, v). \<forall>j. i = Some j \<and> registered_id j \<longrightarrow> map_option fst (qi_handler v) = Some j)
             (query_scope browser (m_data (query_map_mutex bp)))))
    \<and> (\<forall>b k v a hs ops bp'' builder code msg.
         pending bp b k = Some v \<and> pending bp' b k = None \<and> qi_callback v = Some a
         \<and> run_ops (browser_step env hs) ops bp' = Ret bp'' \<longrightarrow>
           execute_success env a builder bp'' = Ret bp'' \<and> execute_failure env a code msg bp'' = Ret bp'')"
proof -
  let ?m = "m_data (query_map_mutex bp)"
  define hid where "hid = Option.bind i (\<lambda>i. map_option (\<lambda>_. i) (hd_get i (m_data (br_handlers (bp_router bp)))))"
  obtain handler where h: "find_handler i bp = Ret handler" and hid: "map_option fst handler = hid"
    unfolding hid_def by (rule find_handler_id [OF inv])
  have matches: "handler_matches hid v \<longleftrightarrow>
      (\<forall>j. i = Some j \<and> registered_id j \<longrightarrow> map_option fst (qi_handler v) = Some j)"
    if p: "pending bp b k = Some v" for b k v
  proof -
    obtain x where "qi_handler v = Some x" using bp_inv_entry [OF inv p] by metis
    then show ?thesis by (cases i) (auto simp: handler_matches_def hid_def registered_id_def split: option.splits)
  qed
  have scope: "pending bp b k = Some v" if "(b, k, v) \<in> set (query_scope browser ?m)" for b k v
    using that cancelled_for_mem [OF bp_inv_locks(6) [OF inv], of b k v browser None]
    by (simp add: cancelled_for_def handler_matches_def)
  have es: "cancelled_for browser hid ?m =
      filter (\<lambda>(b, k, v). \<forall>j. i = Some j \<and> registered_id j \<longrightarrow> map_option fst (qi_handler v) = Some j)
        (query_scope browser ?m)"
    unfolding cancelled_for_def by (rule filter_cong [OF refl]) (use matches [OF scope] in auto)
  obtain bp' where bp': "cancel_pending_for env True browser handler True bp = Ret bp'" "bp_inv bp'"
    "\<And>b k. pending bp' b k = (case pending bp b k of None \<Rightarrow> None
        | Some v \<Rightarrow> if (\<forall>br. browser = Some br \<longrightarrow> brw_identifier br = b) \<and> handler_matches hid v
                    then None else Some v)"
    "bp_events bp' = bp_events bp @
       concat (map (\<lambda>(b, k, v). cancel_events env (br_query_message_name (bp_router bp)) True k v)
         (cancelled_for browser hid ?m))"
    "\<And>b k v a. pending bp b k = Some v \<Longrightarrow> pending bp' b k = None \<Longrightarrow> qi_callback v = Some a \<Longrightarrow> detached a bp'"
    by (rule cancel_pending_for_effect [OF inv, of env browser handler True, unfolded hid]) (rule that)
  have run: "cancel_pending env True browser i bp = Ret bp'" using h bp'(1) by (simp add: cancel_pending_with_def)
  moreover have "cancel_pending env True browser None bp = Ret bp'" if "i = Some j" "\<not> registered_id j" for j
    using that hid bp'(1) by (auto simp: hid_def registered_id_def cancel_pending_with_def find_handler_def)
  moreover have "execute_success env a builder bp'' = Ret bp'' \<and> execute_failure env a code msg bp'' = Ret bp''"
    if "pending bp b k = Some v \<and> pending bp' b k = None \<and> qi_callback v = Some a
        \<and> run_ops (browser_step env hs) ops bp' = Ret bp''" for b k v a hs ops bp'' builder code msg
    using that bp'(5) silent_forever [OF bp'(2)] by blast
  moreover have "pending bp' b k = (case pending bp b k of None \<Rightarrow> None
        | Some v \<Rightarrow> if (\<forall>br. browser = Some br \<longrightarrow> brw_identifier br = b)
                 \<and> (\<forall>j. i = Some j \<and> registered_id j \<longrightarrow> map_option fst (qi_handler v) = Some j)
              then None else Some v)" for b k
    using bp'(3) [of b k] matches [of b k] by (simp split: option.splits)
  ultimately show ?thesis using bp'(2,4) unfolding es by blast
qed

text \<open>Handler 1 has taken both queries of the sample; handler 7 does not exist.\<close>

theorem cancel_pending_exact_witness:
  "\<exists>bp'. cancel_pending demo_env True (Some demo_browser) (Some 0) demo_bp = Ret bp'
     \<and> pending bp' 5 1 \<noteq> None \<and> pending bp' 5 2 \<noteq> None
   \<and> (\<exists>bp''. cancel_pending demo_env True (Some demo_browser) (Some 7) demo_bp = Ret bp''
     \<and> pending bp'' 5 1 = None \<and> pending bp'' 5 2 = None)"
proof -
  have "hd_get 0 (m_data (br_handlers (bp_router demo_bp))) = Some 0"
    "hd_get 7 (m_data (br_handlers (bp_router demo_bp))) = None"
    by (simp_all add: demo_bp_def hd_get_def hd_index_def i32_wrap_def usize_try_from_i32_def)
  then show ?thesis
    using cancel_pending_exact [OF demo_inv, of demo_env "Some demo_browser" "Some 0"]
      cancel_pending_exact [OF demo_inv, of demo_env "Some demo_browser" "Some 7"] demo_answers
    by (auto simp: answers_def demo_info_def demo_browser_def)
qed

text \<open>
  Closing a browser, losing its renderer process or navigating its main
  frame cancels all queries of the browser and tells their handlers, and sends no
  message to any renderer; a navigation of another frame changes nothing.
\<close>

lemma context_loss_is_silent:
  assumes inv: "bp_inv bp"
  shows "\<exists>bp'. on_before_close env True (Some br) bp = Ret bp'
    \<and> on_render_process_terminated env True (Some br) bp = Ret bp'
    \<and> on_before_browse env True (Some br) (Some f) bp = Ret (if fr_is_main f then bp' else bp)
    \<and> (\<forall>b k. pending bp' b k = (if b = brw_identifier br then None else pending bp b k))
    \<and> (\<exists>evs. bp_events bp' = bp_events bp @ evs
         \<and> (\<forall>e \<in> set evs. \<exists>h k v. pending bp (brw_identifier br) k = Some v
               \<and> e = OnQueryCanceled h (qi_browser v) (qi_frame v) k))"
proof -
  let ?es = "cancelled_for (Some br) None (m_data (query_map_mutex bp))"
  obtain bp' where bp': "cancel_pending_for env True (Some br) None False bp = Ret bp'"
    "\<And>b k. pending bp' b k = (case pending bp b k of None \<Rightarrow> None
        | Some v \<Rightarrow> if (\<forall>r. Some br = Some r \<longrightarrow> brw_identifier r = b) \<and> handler_matches None v
                    then None else Some v)"
    "bp_events bp' = bp_events bp @
       concat (map (\<lambda>(b, k, v). cancel_events env (br_query_message_name (bp_router bp)) False k v)
         (cancelled_for (Some br) None (m_data (query_map_mutex bp))))"
    by (rule cancel_pending_for_effect [OF inv, of env "Some br" None False, unfolded option.map]) (rule that)
  have look: "\<forall>b k. pending bp' b k = (if b = brw_identifier br then None else pending bp b k)"
    using bp'(2) by (auto simp: handler_matches_def split: option.splits)
  have evs: "\<exists>h k' v'. pending bp (brw_identifier br) k' = Some v' \<and> e = OnQueryCanceled h (qi_browser v') (qi_frame v') k'"
    if "(b, k, v) \<in> set ?es" "e \<in> set (cancel_events env name False k v)" for b k v e name
    using that cancelled_for_mem [OF bp_inv_locks(6) [OF inv], of b k v "Some br" None]
    by (auto simp: cancel_events_def split: option.splits)
  show ?thesis
  proof (intro exI conjI)
    show "bp_events bp' = bp_events bp @
       concat (map (\<lambda>(b, k, v). cancel_events env (br_query_message_name (bp_router bp)) False k v) ?es)"
      using bp'(3) by simp
  qed (use bp'(1) look evs in \<open>auto simp: on_before_close_with_def on_render_process_terminated_with_def on_before_browse_with_def\<close>)
qed

text \<open>
  Property C16. Removing a handler takes it out of the handlers, cancels exactly the queries it
  had taken (every pending query has a handler), and leaves the other handlers their
  ids, their order and their queries; an id that has no handler is refused and changes no
  query.
\<close>

theorem remove_handler_cancels_its_queries:
  fixes bp :: "'h browser_process"
  assumes inv: "bp_inv bp" and fits: "hd_fits (m_data (br_handlers (bp_router bp)))" and i: "is_i32 i"
  shows "\<exists>bp'. remove_handler env True i bp =
            Ret (hd_get i (m_data (br_handlers (bp_router bp))) \<noteq> None, bp') \<and> bp_inv bp'
    \<and> hd_view (m_data (br_handlers (bp_router bp'))) =
        filter (\<lambda>e. fst e \<noteq> i) (hd_view (m_data (br_handlers (bp_router bp))))
    \<and> (\<forall>b k. pending bp' b k =
         (case pending bp b k of
            None \<Rightarrow> None
          | Some v \<Rightarrow> if hd_get i (m_data (br_handlers (bp_router bp))) \<noteq> None \<and> map_option fst (qi_handler v) = Some i
                      then None else Some v))"
proof -
  let ?hm = "br_handlers (bp_router bp)"
  obtain handler d where rem: "hd_remove i (m_data ?hm) = (handler, d)" by fastforce
  have spec: "handler = hd_get i (m_data ?hm)" "hd_view d = filter (\<lambda>e. fst e \<noteq> i) (hd_view (m_data ?hm))"
    using hd_remove_spec [OF fits i] hd_get_view [OF fits i] rem by auto
  have look: "pending (set_handlers hm bp') = pending bp'" for hm and bp' :: "'h browser_process"
    by (simp add: set_handlers_def)
  have handlers: "br_handlers (bp_router (set_handlers hm bp')) = hm" for hm and bp' :: "'h browser_process"
    by (simp add: set_handlers_def)
  have keep: "bp_inv (set_handlers (?hm\<lparr>m_data := d\<rparr>) bp')" if "bp_inv bp'" for bp'
    using that bp_inv_locks(3) [OF inv] by (intro set_handlers_inv) simp_all
  show ?thesis
  proof (cases handler)
    case None
    then show ?thesis
      using spec keep [OF inv] rem
      by (intro exI [of _ "set_handlers (?hm\<lparr>m_data := d\<rparr>) bp"])
        (simp add: remove_handler_eq [OF inv] look handlers split: option.splits)
  next
    case (Some h)
    obtain bp' where bp': "cancel_pending_for env True None (Some (i, h)) True bp = Ret bp'" "bp_inv bp'"
      "\<And>b k. pending bp' b k = (case pending bp b k of None \<Rightarrow> None
        | Some v \<Rightarrow> if (\<forall>r::browser_ref. None = Some r \<longrightarrow> brw_identifier r = b) \<and> handler_matches (map_option fst (Some (i, h))) v
                    then None else Some v)"
      by (rule cancel_pending_for_effect [OF inv, of env None "Some (i, h)" True]) (rule that)
    have "pending bp' b k = (case pending bp b k of None \<Rightarrow> None
          | Some v \<Rightarrow> if hd_get i (m_data ?hm) \<noteq> None \<and> map_option fst (qi_handler v) = Some i
                      then None else Some v)" for b k
    proof (cases "pending bp b k")
      case v: (Some v)
      obtain x where "qi_handler v = Some x" using bp_inv_entry [OF inv v] by metis
      then show ?thesis using bp'(3) [of b k] v Some spec(1) by (auto simp: handler_matches_def)
    qed (simp add: bp'(3))
    moreover have "hd_get i (m_data ?hm) = Some h" "hd_remove i (m_data ?hm) = (Some h, d)"
      using spec(1) rem Some by simp_all
    ultimately show ?thesis
      using spec(2) keep [OF bp'(2)] bp'(1)
      by (intro exI [of _ "set_handlers (?hm\<lparr>m_data := d\<rparr>) bp'"])
        (simp add: remove_handler_eq [OF inv] look handlers Let_def)
  qed
qed

text \<open>Handler 1 has taken both queries of the sample, handler 0 none.\<close>

theorem remove_handler_cancels_its_queries_witness:
  "(\<exists>bp'. remove_handler demo_env True 1 demo_bp = Ret (True, bp') \<and> pending bp' 5 1 = None \<and> pending bp' 5 2 = None)
   \<and> (\<exists>bp'. remove_handler demo_env True 0 demo_bp = Ret (True, bp')
        \<and> pending bp' 5 1 = Some (demo_info 10 20 False 0) \<and> pending bp' 5 2 = Some (demo_info 11 21 True 1))"
proof -
  have h: "hd_fits (m_data (br_handlers (bp_router demo_bp)))"
    "hd_get 1 (m_data (br_handlers (bp_router demo_bp))) = Some 1" "hd_get 0 (m_data (br_handlers (bp_router demo_bp))) = Some 0"
    by (simp_all add: demo_bp_def hd_fits_def hd_get_def hd_index_def i32_wrap_def usize_try_from_i32_def)
  have q: "pending demo_bp 5 1 = Some (demo_info 10 20 False 0)" "pending demo_bp 5 2 = Some (demo_info 11 21 True 1)"
    "\<And>c r p a. qi_handler (demo_info c r p a) = Some (1, 1)"
    using demo_answers by (simp_all add: answers_def) (simp add: demo_info_def)
  show ?thesis
  proof (intro conjI)
    from remove_handler_cancels_its_queries [OF demo_inv h(1), of 1 demo_env]
    show "\<exists>bp'. remove_handler demo_env True 1 demo_bp = Ret (True, bp') \<and> pending bp' 5 1 = None \<and> pending bp' 5 2 = None"
      using h q by (auto simp: is_i32_def)
    from remove_handler_cancels_its_queries [OF demo_inv h(1), of 0 demo_env]
    show "\<exists>bp'. remove_handler demo_env True 0 demo_bp = Ret (True, bp')
        \<and> pending bp' 5 1 = Some (demo_info 10 20 False 0) \<and> pending bp' 5 2 = Some (demo_info 11 21 True 1)"
      using h q by (auto simp: is_i32_def)
  qed
qed

text \<open>
  Property C17. A cancel message from a renderer cancels, without any message back,
  either all queries of the context (when the request id is the reserved one) or the
  first query of the browser with that request id, and no query of another browser.
\<close>

theorem renderer_cancel_effect:
  fixes bp :: "'h browser_process" and br :: browser_ref
  assumes inv: "bp_inv bp" and name: "pm_name msg = br_cancel_message_name (bp_router bp)"
    and other: "br_cancel_message_name (bp_router bp) \<noteq> br_query_message_name (bp_router bp)"
    and args: "argument_list msg = Some args"
  defines "es \<equiv> cancelled_request (brw_identifier br) (lv_int 0 args) (lv_int 1 args) (m_data (query_map_mutex bp))"
  shows "\<exists>bp'. on_process_message_received env hs (Some br) frame (Some msg) bp = Ret (True, bp') \<and> bp_inv bp'
    \<and> (\<forall>b k. pending bp' b k = (if \<exists>v. (b, k, v) \<in> set es then None else pending bp b k))
    \<and> bp_events bp' = bp_events bp @ concat (map (\<lambda>(b, k, v). cancel_events env (br_query_message_name (bp_router bp)) False k v) es)
    \<and> (\<forall>b k v. (b, k, v) \<in> set es \<longrightarrow> b = brw_identifier br \<and> pending bp b k = Some v
         \<and> (if lv_int 1 args = RESERVED_ID then qi_context_id v = lv_int 0 args \<or> qi_request_id v = RESERVED_ID
            else qi_request_id v = lv_int 1 args))
    \<and> (lv_int 1 args \<noteq> RESERVED_ID \<longrightarrow> length es \<le> 1)"
proof -
  let ?m = "m_data (query_map_mutex bp)"
  have m: "bim_inv ?m" by (rule bp_inv_locks(6) [OF inv])
  have "bp_cancellable bp" using inv by (simp add: bp_wf_cancellable bp_inv_def)
  from cancel_pending_request_spec [OF this, of env "brw_identifier br" "lv_int 0 args" "lv_int 1 args"]
  obtain m' where c: "cancel_pending_request env (brw_identifier br) (lv_int 0 args) (lv_int 1 args) bp =
      Ret (drop_queries env False es m' bp)" and rem: "removed_from es ?m m'"
    unfolding es_def by blast
  let ?bp' = "drop_queries env False es m' bp"
  have recv: "on_process_message_received env hs (Some br) frame (Some msg) bp = Ret (True, ?bp')"
    using name other args c by (simp add: on_process_message_received_with_def)
  have sub: "(b, k, v) \<in> set (browser_entries_of (brw_identifier br) ?m) \<and>
      request_matches (lv_int 0 args) (lv_int 1 args) v" if "(b, k, v) \<in> set es" for b k v
    using that by (auto simp: es_def cancelled_request_def Let_def dest: in_set_takeD split: if_splits)
  have "bp_inv ?bp'"
    using drop_queries_inv [OF inv rem] cancelled_subset(2) [OF m] by (simp add: es_def)
  moreover have "\<forall>b k v. (b, k, v) \<in> set es \<longrightarrow> b = brw_identifier br \<and> pending bp b k = Some v
         \<and> (if lv_int 1 args = RESERVED_ID then qi_context_id v = lv_int 0 args \<or> qi_request_id v = RESERVED_ID
            else qi_request_id v = lv_int 1 args)"
    using sub mem_browser_entries_of [OF m] by (fastforce simp: request_matches_def)
  moreover have "lv_int 1 args \<noteq> RESERVED_ID \<longrightarrow> length es \<le> 1"
    by (simp add: es_def cancelled_request_def Let_def)
  moreover have "\<forall>b k. pending ?bp' b k = (if \<exists>v. (b, k, v) \<in> set es then None else pending bp b k)"
    using rem by (simp add: drop_queries_def bp_simps removed_from_def)
  moreover have "bp_events ?bp' = bp_events bp @ concat (map (\<lambda>(b, k, v). cancel_events env (br_query_message_name (bp_router bp)) False k v) es)"
    by (simp add: drop_queries_def bp_simps cancel_entries_def)
  ultimately show ?thesis using recv by blast
qed

theorem renderer_cancel_effect_witness:
  "\<exists>bp'. on_process_message_received demo_env (\<lambda>_ _ _ _ _ _ _. (False, [], False)) (Some demo_browser) None
            (Some (ListMessage ''cefQueryCancelMsg'' [VInt 10, VInt 0])) demo_bp = Ret (True, bp')
     \<and> pending bp' 5 1 = None \<and> pending bp' 5 2 = Some (demo_info 11 21 True 1)"
proof -
  let ?msg = "ListMessage ''cefQueryCancelMsg'' [VInt 10, VInt 0]"
  have es: "cancelled_request (brw_identifier demo_browser) 10 0 (m_data (query_map_mutex demo_bp)) =
      [(5, 1, demo_info 10 20 False 0)]"
    by (simp add: cancelled_request_def RESERVED_ID_def request_matches_def demo_bp_def demo_browser_def
        browser_entries_of_def demo_map_def bt_get_def) (simp add: demo_info_def)
  have "pm_name ?msg = br_cancel_message_name (bp_router demo_bp)"
    "br_cancel_message_name (bp_router demo_bp) \<noteq> br_query_message_name (bp_router demo_bp)"
    by (simp_all add: demo_bp_def)
  from renderer_cancel_effect [OF demo_inv this argument_list.simps(1), where br = demo_browser and env = demo_env
      and hs = "\<lambda>_ _ _ _ _ _ _. (False, [], False)" and frame = None]
  show ?thesis using demo_answers(2) by (auto simp: lv_defs es answers_def)
qed

text \<open>
  The context id of a cancel message is ignored when it names a single
  request: a message for a context of the page cancels the query of another context
  that happens to have the same request id.
\<close>

lemma cancel_ignores_context_flaw:
  assumes inv: "bp_inv bp" and r: "r \<noteq> RESERVED_ID" and v: "pending bp b k = Some v"
    and match: "qi_request_id v = r" and ctx: "qi_context_id v \<noteq> c"
    and only: "\<And>k' v'. pending bp b k' = Some v' \<Longrightarrow> qi_request_id v' = r \<Longrightarrow> k' = k"
  shows "\<exists>bp'. cancel_pending_request env b c r bp = Ret bp' \<and> pending bp' b k = None"
proof -
  let ?m = "m_data (query_map_mutex bp)"
  have m: "bim_inv ?m" by (rule bp_inv_locks(6) [OF inv])
  let ?f = "filter (\<lambda>(b, k, v). request_matches c r v) (browser_entries_of b ?m)"
  have "(b, k, v) \<in> set ?f"
    using v match mem_browser_entries_of [OF m, of b k v b] by (auto simp: request_matches_def)
  moreover have "e = (b, k, v)" if "e \<in> set ?f" for e
  proof -
    obtain b1 k1 v1 where e: "e = (b1, k1, v1)" by (cases e)
    with that have "b1 = b" "pending bp b k1 = Some v1" "request_matches c r v1"
      using mem_browser_entries_of [OF m, of b1 k1 v1 b] by auto
    then have "b1 = b" "pending bp b k1 = Some v1" "k1 = k"
      using r only [of k1 v1] by (auto simp: request_matches_def)
    with v e show ?thesis by simp
  qed
  ultimately obtain es where "?f = (b, k, v) # es" by (cases ?f) auto
  then have mem: "(b, k, v) \<in> set (cancelled_request b c r ?m)" using r by (simp add: cancelled_request_def)
  have "bp_cancellable bp" using inv by (simp add: bp_wf_cancellable bp_inv_def)
  from cancel_pending_request_spec [OF this, of env b c r] mem
  show ?thesis by (auto simp: drop_queries_def bp_simps removed_from_def)
qed

end
