(* ===== verification/Renderer_Side_Router.thy ===== *)
theory Renderer_Side_Router
  imports Browser_Info_Map Router_Core Message_Router_Utils
begin

text \<open>
  The renderer side of \<^verbatim>\<open>cef/src/wrapper/message_router.rs\<close>: the router with its four
  mutexes, and the JavaScript function handlers it installs in each context. A
  handler remembers the id of its context once it has been given one
  (\<^verbatim>\<open>OnceLock\<close>); handlers are named by their position in \<open>rp_handlers\<close>. What the router
  does to the outside is the log \<open>rp_events\<close>: messages to the browser process,
  JavaScript functions called and functions installed.
\<close>

section \<open>State\<close>

text \<open>
  A V8 context as libcef shows it: two handles are \<^verbatim>\<open>is_same\<close> when they have the same
  identity.
\<close>

record v8_context =
  ctx_identity :: nat
  ctx_browser :: "i32 option"
  ctx_frame :: "nat option"
  ctx_has_global :: bool
  ctx_can_enter :: bool

definition is_same :: "v8_context \<Rightarrow> v8_context \<Rightarrow> bool" where
  "is_same c d \<longleftrightarrow> ctx_identity c = ctx_identity d"

record request_info =
  ri_is_persistent :: bool
  ri_success_callback :: "v8_value option"
  ri_failure_callback :: "v8_value option"

type_synonym request_map = "(i32 \<times> i32, request_info) browser_info_map"

record renderer_side_router =
  rr_config :: message_router_config
  rr_query_message_name :: string
  rr_cancel_message_name :: string
  rr_context_id_generator :: "id_generator mutex"
  rr_request_id_generator :: "id_generator mutex"
  rr_request_info_map :: "request_map mutex"
  rr_context_map :: "(i32, v8_context option) btree mutex"

datatype renderer_event =
    SendToBrowser nat process_message
  | CallFunction v8_value v8_context "v8_value list"
  | InstallFunction v8_context string nat

record renderer_process =
  rp_router :: renderer_side_router
  rp_alive :: bool
  rp_handlers :: "i32 option list"
  rp_events :: "renderer_event list"

definition I32_MAX :: i32 where
  "I32_MAX = 2147483647"

definition rp_log :: "renderer_event \<Rightarrow> renderer_process \<Rightarrow> renderer_process" where
  "rp_log e rp = rp\<lparr>rp_events := rp_events rp @ [e]\<rparr>"

definition set_request_map :: "request_map mutex \<Rightarrow> renderer_process \<Rightarrow> renderer_process" where
  "set_request_map m rp = rp\<lparr>rp_router := (rp_router rp)\<lparr>rr_request_info_map := m\<rparr>\<rparr>"

definition set_context_map :: "(i32, v8_context option) btree mutex \<Rightarrow> renderer_process \<Rightarrow> renderer_process" where
  "set_context_map m rp = rp\<lparr>rp_router := (rp_router rp)\<lparr>rr_context_map := m\<rparr>\<rparr>"

definition set_request_ids :: "id_generator mutex \<Rightarrow> renderer_process \<Rightarrow> renderer_process" where
  "set_request_ids m rp = rp\<lparr>rp_router := (rp_router rp)\<lparr>rr_request_id_generator := m\<rparr>\<rparr>"

definition set_context_ids :: "id_generator mutex \<Rightarrow> renderer_process \<Rightarrow> renderer_process" where
  "set_context_ids m rp = rp\<lparr>rp_router := (rp_router rp)\<lparr>rr_context_id_generator := m\<rparr>\<rparr>"

abbreviation request_mutex :: "renderer_process \<Rightarrow> request_map mutex" where
  "request_mutex rp \<equiv> rr_request_info_map (rp_router rp)"

abbreviation context_mutex :: "renderer_process \<Rightarrow> (i32, v8_context option) btree mutex" where
  "context_mutex rp \<equiv> rr_context_map (rp_router rp)"

section \<open>Requests\<close>

definition get_request_info ::
  "i32 \<Rightarrow> i32 \<Rightarrow> i32 \<Rightarrow> bool \<Rightarrow> renderer_process \<Rightarrow> (request_info option \<times> renderer_process) outcome" where
  "get_request_info browser_id context_id request_id always_remove rp =
     with_lock (request_mutex rp)
       (\<lambda>m. let visitor = (\<lambda>s _ _ value.
                 (s, Continue (if always_remove \<or> \<not> ri_is_persistent value then RemoveEntry else KeepEntry)));
                (_, info, m') = bim_find (Some visitor) () browser_id (context_id, request_id) m
            in Ret (info, set_request_map ((request_mutex rp)\<lparr>m_data := m'\<rparr>) rp))
       (Ret (None, rp))"

text \<open>libcef ignores a null message.\<close>

definition send_to_browser :: "nat \<Rightarrow> process_message option \<Rightarrow> renderer_process \<Rightarrow> renderer_process" where
  "send_to_browser frame message rp =
     (case message of None \<Rightarrow> rp | Some m \<Rightarrow> rp_log (SendToBrowser frame m) rp)"

definition send_query ::
  "cef_env \<Rightarrow> i32 option \<Rightarrow> nat option \<Rightarrow> i32 \<Rightarrow> v8_value \<Rightarrow> request_info \<Rightarrow> renderer_process \<Rightarrow>
   (i32 \<times> renderer_process) outcome" where
  "send_query env browser frame context_id request request_info rp =
     (let r = rp_router rp in
      bind_outcome (lock_result (rr_request_id_generator r)) (\<lambda>generator.
      bind_outcome (lock_result (rr_request_info_map r)) (\<lambda>info_map.
        case (browser, frame, generator, info_map) of
          (Some browser, Some frame, Some g, Some m) \<Rightarrow>
            let (request_id, g') = ig_next g;
                rp1 = set_request_ids ((rr_request_id_generator r)\<lparr>m_data := g'\<rparr>) rp;
                persistent = ri_is_persistent request_info;
                m' = bim_insert browser (context_id, request_id) request_info m;
                rp2 = set_request_map ((rr_request_info_map r)\<lparr>m_data := m'\<rparr>) rp1;
                message = build_renderer_message env (message_size_threshold (rr_config r))
                            (rr_query_message_name r) context_id request_id (Some request) persistent
            in Ret (request_id, send_to_browser frame message rp2)
        | _ \<Rightarrow> Ret (RESERVED_ID, rp))))"

definition cancel_count_visitor :: "i32 \<Rightarrow> (usize, i32 \<times> i32, request_info) visitor" where
  "cancel_count_visitor context_id count b key value =
     (if context_id = fst key then (count + 1, Continue RemoveEntry) else (count, Continue KeepEntry))"

text \<open>
  The guard of the request map lives through the whole function: for a single request
  \<^verbatim>\<open>get_request_info\<close> locks the map again.
\<close>

definition send_cancel ::
  "cef_env \<Rightarrow> i32 option \<Rightarrow> nat option \<Rightarrow> i32 \<Rightarrow> i32 \<Rightarrow> renderer_process \<Rightarrow> (bool \<times> renderer_process) outcome" where
  "send_cancel env browser frame context_id request_id rp =
     bind_outcome (lock_result (request_mutex rp)) (\<lambda>info_map.
       case (browser, frame, info_map) of
         (Some browser_id, Some frame, Some m) \<Rightarrow>
           let rp1 = set_request_map (acquire (request_mutex rp)) rp
           in bind_outcome
                (if request_id \<noteq> RESERVED_ID then
                   bind_outcome (get_request_info browser_id context_id request_id True rp1)
                     (\<lambda>(info, rp2). Ret (if info \<noteq> None then 1 else 0, m, rp2))
                 else
                   bind_outcome (bim_find_browser_all (cancel_count_visitor context_id) 0 browser_id m)
                     (\<lambda>(count, m'). Ret (count, m', rp1)))
                (\<lambda>(cancel_count, m', rp2).
                   let rp3 = (if cancel_count > (0::usize) then
                                (case process_message_create env (rr_cancel_message_name (rp_router rp)) of
                                   None \<Rightarrow> rp2
                                 | Some message \<Rightarrow>
                                     (case argument_list message of
                                        None \<Rightarrow> rp2
                                      | Some args \<Rightarrow>
                                          let args = lv_set 0 (VInt context_id) args;
                                              args = lv_set 1 (VInt request_id) args
                                          in send_to_browser frame (Some (ListMessage (pm_name message) args)) rp2))
                              else rp2)
                   in Ret (cancel_count > 0, set_request_map (release m' (request_mutex rp3)) rp3))
       | _ \<Rightarrow> Ret (False, rp))"

section \<open>Contexts\<close>

definition create_id_for_context :: "v8_context \<Rightarrow> renderer_process \<Rightarrow> (i32 \<times> renderer_process) outcome" where
  "create_id_for_context context rp =
     (let r = rp_router rp in
      bind_outcome (lock_result (rr_context_id_generator r)) (\<lambda>generator.
      bind_outcome (lock_result (rr_context_map r)) (\<lambda>context_map.
        case (generator, context_map) of
          (Some g, Some m) \<Rightarrow>
            let (context_id, g') = ig_next g;
                rp1 = set_context_ids ((rr_context_id_generator r)\<lparr>m_data := g'\<rparr>) rp
            in Ret (context_id, set_context_map ((rr_context_map r)\<lparr>m_data := bt_insert context_id (Some context) m\<rparr>) rp1)
        | _ \<Rightarrow> Ret (RESERVED_ID, rp))))"

definition find_context :: "v8_context \<Rightarrow> (i32, v8_context option) btree \<Rightarrow> i32 option" where
  "find_context context m =
     map_option fst (List.find (\<lambda>(_, entry). case entry of None \<Rightarrow> False | Some c \<Rightarrow> is_same c context) m)"

definition get_id_for_context :: "v8_context \<Rightarrow> bool \<Rightarrow> renderer_process \<Rightarrow> (i32 \<times> renderer_process) outcome" where
  "get_id_for_context context remove rp =
     with_lock (context_mutex rp)
       (\<lambda>m. case find_context context m of
              Some context_id \<Rightarrow>
                Ret (context_id,
                     if remove then set_context_map ((context_mutex rp)\<lparr>m_data := bt_remove context_id m\<rparr>) rp else rp)
            | None \<Rightarrow> Ret (RESERVED_ID, rp))
       (Ret (RESERVED_ID, rp))"

definition get_context_by_id :: "i32 \<Rightarrow> renderer_process \<Rightarrow> v8_context option outcome" where
  "get_context_by_id context_id rp =
     with_lock (context_mutex rp)
       (\<lambda>m. Ret (case bt_get context_id m of None \<Rightarrow> None | Some c \<Rightarrow> c)) (Ret None)"

section \<open>Running the JavaScript callbacks\<close>

definition execute_success_callback ::
  "cef_env \<Rightarrow> i32 \<Rightarrow> i32 \<Rightarrow> i32 \<Rightarrow> message_payload \<Rightarrow> renderer_process \<Rightarrow> renderer_process outcome" where
  "execute_success_callback env browser_id context_id request_id response rp =
     bind_outcome (get_request_info browser_id context_id request_id False rp) (\<lambda>(info, rp1).
       case Option.bind info ri_success_callback of
         None \<Rightarrow> Ret rp1
       | Some success_callback \<Rightarrow>
           bind_outcome (get_context_by_id context_id rp1) (\<lambda>context.
             case context of
               None \<Rightarrow> Ret rp1
             | Some context \<Rightarrow>
                 (case response of
                    PString s \<Rightarrow>
                      Ret (rp_log (CallFunction success_callback context [V8String (cef_string_from_utf8 env s)]) rp1)
                  | _ \<Rightarrow>
                      let data = (case response of PBinary b \<Rightarrow> b | _ \<Rightarrow> [])
                      in if \<not> ctx_can_enter context then Ret rp1
                         else Ret (rp_log (CallFunction success_callback context [V8ArrayBuffer data]) rp1))))"

definition execute_failure_callback ::
  "cef_env \<Rightarrow> i32 \<Rightarrow> i32 \<Rightarrow> i32 \<Rightarrow> i32 \<Rightarrow> utf8 \<Rightarrow> renderer_process \<Rightarrow> renderer_process outcome" where
  "execute_failure_callback env browser_id context_id request_id error_code error_message rp =
     bind_outcome (get_request_info browser_id context_id request_id True rp) (\<lambda>(info, rp1).
       case Option.bind info ri_failure_callback of
         None \<Rightarrow> Ret rp1
       | Some failure_callback \<Rightarrow>
           bind_outcome (get_context_by_id context_id rp1) (\<lambda>context.
             case context of
               None \<Rightarrow> Ret rp1
             | Some context \<Rightarrow>
                 Ret (rp_log (CallFunction failure_callback context
                        [V8Int error_code, V8String (cef_string_from_utf8 env error_message)]) rp1)))"

section \<open>The router's interface\<close>

definition renderer_router_new :: "message_router_config \<Rightarrow> renderer_side_router" where
  "renderer_router_new config =
     \<lparr>rr_config = config, rr_query_message_name = query_message_name_of config,
      rr_cancel_message_name = cancel_message_name_of config,
      rr_context_id_generator = mutex_new (ig_new I32_MAX),
      rr_request_id_generator = mutex_new (ig_new I32_MAX),
      rr_request_info_map = mutex_new bim_default, rr_context_map = mutex_new []\<rparr>"

definition renderer_process_new :: "message_router_config \<Rightarrow> renderer_process" where
  "renderer_process_new config =
     \<lparr>rp_router = renderer_router_new config, rp_alive = True, rp_handlers = [], rp_events = []\<rparr>"

definition context_count_visitor :: "i32 \<Rightarrow> (usize, i32 \<times> i32, request_info) visitor" where
  "context_count_visitor context_id count b key value =
     (if fst key = context_id then (count + 1, Continue KeepEntry) else (count, Continue KeepEntry))"

definition renderer_pending_count ::
  "i32 option \<Rightarrow> v8_context option \<Rightarrow> renderer_process \<Rightarrow> usize outcome" where
  "renderer_pending_count browser context rp =
     with_lock (request_mutex rp)
       (\<lambda>m. if bim_is_empty m then Ret 0
            else (case context of
                    Some context \<Rightarrow>
                      bind_outcome (get_id_for_context context False rp) (\<lambda>(context_id, _).
                        if context_id = RESERVED_ID then Ret 0
                        else bind_outcome (case browser of
                                 Some b \<Rightarrow> bim_find_browser_all (context_count_visitor context_id) 0 b m
                               | None \<Rightarrow> bim_find_all (context_count_visitor context_id) 0 m)
                               (\<lambda>(count, _). Ret count))
                  | None \<Rightarrow>
                      (case browser of Some b \<Rightarrow> Ret (bim_browser_len b m) | None \<Rightarrow> Ret (bim_len m))))
       (Ret 0)"

text \<open>One handler object serves both functions of a context.\<close>

definition on_context_created :: "v8_context option \<Rightarrow> renderer_process \<Rightarrow> renderer_process" where
  "on_context_created context rp =
     (case context of
        None \<Rightarrow> rp
      | Some c \<Rightarrow>
          if \<not> ctx_has_global c then rp
          else let h = length (rp_handlers rp);
                   rp1 = rp\<lparr>rp_handlers := rp_handlers rp @ [None]\<rparr>;
                   rp2 = rp_log (InstallFunction c (js_query_function (rr_config (rp_router rp))) h) rp1
               in rp_log (InstallFunction c (js_cancel_function (rr_config (rp_router rp))) h) rp2)"

definition on_context_released ::
  "cef_env \<Rightarrow> i32 option \<Rightarrow> nat option \<Rightarrow> v8_context option \<Rightarrow> renderer_process \<Rightarrow> renderer_process outcome" where
  "on_context_released env browser frame context rp =
     bind_outcome (case context of
         Some c \<Rightarrow> get_id_for_context c True rp
       | None \<Rightarrow> Ret (RESERVED_ID, rp))
       (\<lambda>(context_id, rp1).
          if context_id \<noteq> RESERVED_ID
          then bind_outcome (send_cancel env browser frame context_id RESERVED_ID rp1) (\<lambda>(_, rp2). Ret rp2)
          else Ret rp1)"

definition renderer_message_received ::
  "cef_env \<Rightarrow> i32 option \<Rightarrow> process_message option \<Rightarrow> renderer_process \<Rightarrow> (bool \<times> renderer_process) outcome" where
  "renderer_message_received env browser message rp =
     (case (browser, message) of
        (Some browser, Some message) \<Rightarrow>
          if pm_name message \<noteq> rr_query_message_name (rp_router rp) then Ret (False, rp)
          else bind_outcome (browser_message_from env (Some message)) (\<lambda>content.
                 bind_outcome
                   (if bm_is_success content
                    then execute_success_callback env browser (bm_context_id content) (bm_request_id content)
                           (bm_payload content) rp
                    else let error_message = (case bm_payload content of PString s \<Rightarrow> s | _ \<Rightarrow> [])
                         in execute_failure_callback env browser (bm_context_id content) (bm_request_id content)
                              (bm_error_code content) error_message rp)
                   (\<lambda>rp'. Ret (True, rp')))
      | _ \<Rightarrow> Ret (True, rp))"

section \<open>The JavaScript functions\<close>

text \<open>
  What \<^verbatim>\<open>execute\<close> gives back: the returned integer (0 is "not handled"), the value put
  into \<^verbatim>\<open>retval\<close> and the message put into \<^verbatim>\<open>exception\<close>. libcef always passes both.
\<close>

record v8_result =
  vr_handled :: bool
  vr_retval :: "v8_value option"
  vr_exception :: "string option"

definition vr_throw :: "string \<Rightarrow> v8_result" where
  "vr_throw msg = \<lparr>vr_handled = True, vr_retval = None, vr_exception = Some msg\<rparr>"

definition vr_return :: "v8_value \<Rightarrow> v8_result" where
  "vr_return v = \<lparr>vr_handled = True, vr_retval = Some v, vr_exception = None\<rparr>"

definition vr_unhandled :: v8_result where
  "vr_unhandled = \<lparr>vr_handled = False, vr_retval = None, vr_exception = None\<rparr>"

definition OM_REQUEST :: string where "OM_REQUEST = ''request''"

definition OM_ON_SUCCESS :: string where "OM_ON_SUCCESS = ''onSuccess''"

definition OM_ON_FAILURE :: string where "OM_ON_FAILURE = ''onFailure''"

definition OM_PERSISTENT :: string where "OM_PERSISTENT = ''persistent''"

fun v8_is_text_or_buffer :: "v8_value \<Rightarrow> bool" where
  "v8_is_text_or_buffer (V8String w) = True"
| "v8_is_text_or_buffer (V8ArrayBuffer b) = True"
| "v8_is_text_or_buffer _ = False"

fun v8_is_bool :: "v8_value \<Rightarrow> bool" where
  "v8_is_bool (V8Bool b) = True"
| "v8_is_bool _ = False"

fun v8_bool_value :: "v8_value \<Rightarrow> bool" where
  "v8_bool_value (V8Bool b) = b"
| "v8_bool_value _ = False"

text \<open>\<^verbatim>\<open>arguments.filter(|a| a.len() == 1).and_then(|a| a[0].as_ref())\<close>\<close>

definition single_argument :: "v8_value option list option \<Rightarrow> v8_value option" where
  "single_argument arguments = (case arguments of Some [a] \<Rightarrow> a | _ \<Rightarrow> None)"

text \<open>\<^verbatim>\<open>RendererSideV8Handler::get_id_for_context\<close>; the closure of \<^verbatim>\<open>get_or_init\<close> runs once.\<close>

definition handler_context_id :: "nat \<Rightarrow> v8_context \<Rightarrow> renderer_process \<Rightarrow> (i32 \<times> renderer_process) outcome" where
  "handler_context_id h context rp =
     (case rp_handlers rp ! h of
        Some context_id \<Rightarrow> Ret (context_id, rp)
      | None \<Rightarrow>
          bind_outcome (if rp_alive rp then create_id_for_context context rp else Ret (RESERVED_ID, rp))
            (\<lambda>(context_id, rp1). Ret (context_id, rp1\<lparr>rp_handlers := (rp_handlers rp1)[h := Some context_id]\<rparr>)))"

text \<open>The arguments of a query, checked in the order the code checks them.\<close>

definition member_error :: "string \<Rightarrow> string \<Rightarrow> string" where
  "member_error key problem =
     ''Invalid arguments; object member '' @ [CHR 0x27] @ key @ [CHR 0x27] @ problem"

datatype query_check =
    BadQuery string
  | GoodQuery v8_value "v8_value option" "v8_value option" "v8_value option"

definition check_callback :: "string \<Rightarrow> v8_value \<Rightarrow> string + v8_value option" where
  "check_callback key arg =
     (case v8_value_bykey key arg of
        Some f \<Rightarrow>
          if \<not> v8_is_function f
          then Inl (member_error key '' must have type function'')
          else Inr (Some f)
      | None \<Rightarrow> Inr None)"

definition check_query :: "v8_value option list option \<Rightarrow> query_check" where
  "check_query arguments =
     (case Option.bind (single_argument arguments) (\<lambda>a. if v8_is_object a then Some a else None) of
        None \<Rightarrow> BadQuery ''Invalid arguments; expecting a single object''
      | Some arg \<Rightarrow>
          (case v8_value_bykey OM_REQUEST arg of
             None \<Rightarrow> BadQuery (member_error OM_REQUEST '' is required'')
           | Some request \<Rightarrow>
               if \<not> v8_is_text_or_buffer request
               then BadQuery (member_error OM_REQUEST '' must have type string or ArrayBuffer'')
               else (case check_callback OM_ON_SUCCESS arg of
                       Inl msg \<Rightarrow> BadQuery msg
                     | Inr success \<Rightarrow>
                         (case check_callback OM_ON_FAILURE arg of
                            Inl msg \<Rightarrow> BadQuery msg
                          | Inr failure \<Rightarrow>
                              (case Option.bind (v8_value_bykey OM_PERSISTENT arg)
                                      (\<lambda>v. if v \<noteq> V8Undefined then Some v else None) of
                                 Some p \<Rightarrow>
                                   if \<not> v8_is_bool p
                                   then BadQuery (member_error OM_PERSISTENT '' must have type boolean'')
                                   else GoodQuery request success failure (Some p)
                               | None \<Rightarrow> GoodQuery request success failure None)))))"

text \<open>
  \<^verbatim>\<open>V8Handler::execute\<close> of the handler \<open>h\<close>, where \<open>current\<close> is
  \<^verbatim>\<open>v8_context_get_current_context()\<close>.
\<close>

definition v8_handler_execute ::
  "cef_env \<Rightarrow> nat \<Rightarrow> v8_context option \<Rightarrow> string option \<Rightarrow> v8_value option list option \<Rightarrow>
   renderer_process \<Rightarrow> (v8_result \<times> renderer_process) outcome" where
  "v8_handler_execute env h current name arguments rp =
     (case name of
        None \<Rightarrow> Ret (vr_throw ''Missing function name'', rp)
      | Some name \<Rightarrow>
          if name = js_query_function (rr_config (rp_router rp)) then
            (case check_query arguments of
               BadQuery msg \<Rightarrow> Ret (vr_throw msg, rp)
             | GoodQuery request success failure persistent \<Rightarrow>
                 (case (rp_alive rp, current) of
                    (True, Some context) \<Rightarrow>
                      bind_outcome (handler_context_id h context rp) (\<lambda>(context_id, rp1).
                      bind_outcome (send_query env (ctx_browser context) (ctx_frame context) context_id request
                          \<lparr>ri_is_persistent = (case persistent of None \<Rightarrow> False | Some v \<Rightarrow> v8_bool_value v),
                           ri_success_callback = success, ri_failure_callback = failure\<rparr> rp1)
                        (\<lambda>(request_id, rp2). Ret (vr_return (V8Int request_id), rp2)))
                  | _ \<Rightarrow> Ret (vr_unhandled, rp)))
          else if name = js_cancel_function (rr_config (rp_router rp)) then
            (case single_argument arguments of
               Some (V8Int request_id) \<Rightarrow>
                 (case (request_id \<noteq> RESERVED_ID \<and> rp_alive rp, current) of
                    (True, Some context) \<Rightarrow>
                      bind_outcome (handler_context_id h context rp) (\<lambda>(context_id, rp1).
                      bind_outcome (send_cancel env (ctx_browser context) (ctx_frame context) context_id request_id rp1)
                        (\<lambda>(result, rp2). Ret (vr_return (V8Bool result), rp2)))
                  | _ \<Rightarrow> Ret (vr_unhandled, rp))
             | _ \<Rightarrow> Ret (vr_throw ''Invalid arguments; expecting a single integer'', rp))
          else Ret (vr_unhandled, rp))"

section \<open>The invariant\<close>

abbreviation requests :: "renderer_process \<Rightarrow> i32 \<Rightarrow> i32 \<times> i32 \<Rightarrow> request_info option" where
  "requests rp b k \<equiv> bim_lookup (m_data (request_mutex rp)) b k"

abbreviation context_of :: "renderer_process \<Rightarrow> i32 \<Rightarrow> v8_context option" where
  "context_of rp c \<equiv> Option.bind (bt_get c (m_data (context_mutex rp))) id"

definition rp_inv :: "renderer_process \<Rightarrow> bool" where
  "rp_inv rp \<longleftrightarrow>
     lock_ok (rr_context_id_generator (rp_router rp)) \<and> lock_ok (rr_request_id_generator (rp_router rp)) \<and>
     lock_ok (request_mutex rp) \<and> lock_ok (context_mutex rp) \<and>
     ig_inv I32_MAX (m_data (rr_context_id_generator (rp_router rp))) \<and>
     ig_inv I32_MAX (m_data (rr_request_id_generator (rp_router rp))) \<and>
     bim_inv (m_data (request_mutex rp)) \<and> bt_wf (m_data (context_mutex rp)) \<and>
     bt_get RESERVED_ID (m_data (context_mutex rp)) = None"

named_theorems rp_simps \<open>projections of the process after an update\<close>

lemma renderer_updates [rp_simps]:
  "rp_router (rp_log e rp) = rp_router rp" "rp_alive (rp_log e rp) = rp_alive rp"
  "rp_handlers (rp_log e rp) = rp_handlers rp" "rp_events (rp_log e rp) = rp_events rp @ [e]"
  "rp_router (set_request_map m rp) = (rp_router rp)\<lparr>rr_request_info_map := m\<rparr>"
  "rp_alive (set_request_map m rp) = rp_alive rp"
  "rp_handlers (set_request_map m rp) = rp_handlers rp" "rp_events (set_request_map m rp) = rp_events rp"
  "rp_router (set_context_map cm rp) = (rp_router rp)\<lparr>rr_context_map := cm\<rparr>"
  "rp_alive (set_context_map cm rp) = rp_alive rp"
  "rp_handlers (set_context_map cm rp) = rp_handlers rp" "rp_events (set_context_map cm rp) = rp_events rp"
  "rp_router (set_request_ids g rp) = (rp_router rp)\<lparr>rr_request_id_generator := g\<rparr>"
  "rp_alive (set_request_ids g rp) = rp_alive rp"
  "rp_handlers (set_request_ids g rp) = rp_handlers rp" "rp_events (set_request_ids g rp) = rp_events rp"
  "rp_router (set_context_ids g rp) = (rp_router rp)\<lparr>rr_context_id_generator := g\<rparr>"
  "rp_alive (set_context_ids g rp) = rp_alive rp"
  "rp_handlers (set_context_ids g rp) = rp_handlers rp" "rp_events (set_context_ids g rp) = rp_events rp"
  by (simp_all add: rp_log_def set_request_map_def set_context_map_def set_request_ids_def set_context_ids_def)

lemma send_to_browser_simps [rp_simps]:
  "rp_router (send_to_browser f m rp) = rp_router rp" "rp_alive (send_to_browser f m rp) = rp_alive rp"
  "rp_handlers (send_to_browser f m rp) = rp_handlers rp"
  "rp_events (send_to_browser f m rp) = rp_events rp @ (case m of None \<Rightarrow> [] | Some x \<Rightarrow> [SendToBrowser f x])"
  by (simp_all add: send_to_browser_def rp_simps split: option.splits)

lemma rp_inv_cong: "rp_router rp' = rp_router rp \<Longrightarrow> rp_inv rp' = rp_inv rp"
  by (simp add: rp_inv_def)

lemma rp_inv_new: "rp_inv (renderer_process_new config)"
  by (simp add: rp_inv_def renderer_process_new_def renderer_router_new_def ig_inv_new I32_MAX_def bt_simps)

lemma rp_inv_locks:
  assumes "rp_inv rp"
  shows "lock_ok (rr_context_id_generator (rp_router rp))" "lock_ok (rr_request_id_generator (rp_router rp))"
    "lock_ok (request_mutex rp)" "lock_ok (context_mutex rp)" "bim_inv (m_data (request_mutex rp))"
    "bt_wf (m_data (context_mutex rp))" "bt_get RESERVED_ID (m_data (context_mutex rp)) = None"
  using assms by (simp_all add: rp_inv_def)

section \<open>Effects\<close>

definition take_request :: "bool \<Rightarrow> i32 \<Rightarrow> i32 \<Rightarrow> i32 \<Rightarrow> request_map \<Rightarrow> request_map" where
  "take_request always b c r m = snd (bim_take (\<lambda>v. always \<or> \<not> ri_is_persistent v) b (c, r) m)"

lemma take_request_lookup:
  "bim_lookup (take_request always b c r m) b' k =
     (if b' = b \<and> k = (c, r) \<and> (\<exists>v. bim_lookup m b (c, r) = Some v \<and> (always \<or> \<not> ri_is_persistent v))
      then None else bim_lookup m b' k)"
  by (simp add: take_request_def bim.lookup_take)

lemma take_request_inv: "bim_inv m \<Longrightarrow> bim_inv (take_request always b c r m)"
  by (simp add: take_request_def bim.take_inv)

text \<open>The process once a request has been looked up.\<close>

definition looked_up :: "bool \<Rightarrow> i32 \<Rightarrow> i32 \<Rightarrow> i32 \<Rightarrow> renderer_process \<Rightarrow> renderer_process" where
  "looked_up always b c r rp =
     set_request_map ((request_mutex rp)\<lparr>m_data := take_request always b c r (m_data (request_mutex rp))\<rparr>) rp"

lemma get_request_info_eq:
  assumes "lock_ok (request_mutex rp)"
  shows "get_request_info b c r always rp = Ret (requests rp b (c, r), looked_up always b c r rp)"
proof -
  let ?t = "bim_take (\<lambda>v. always \<or> \<not> ri_is_persistent v) b (c, r) (m_data (request_mutex rp))"
  have "get_request_info b c r always rp = Ret (fst ?t, set_request_map ((request_mutex rp)\<lparr>m_data := snd ?t\<rparr>) rp)"
    using assms by (simp add: get_request_info_def outcome_simps bim_take_def Let_def case_prod_beta)
  then show ?thesis by (simp add: bim.take_result take_request_def looked_up_def)
qed

lemma looked_up_simps [rp_simps]:
  "rp_alive (looked_up always b c r rp) = rp_alive rp"
  "rp_handlers (looked_up always b c r rp) = rp_handlers rp"
  "rp_events (looked_up always b c r rp) = rp_events rp"
  "rr_context_map (rp_router (looked_up always b c r rp)) = rr_context_map (rp_router rp)"
  "requests (looked_up always b c r rp) b' k =
     (if b' = b \<and> k = (c, r) \<and> (\<exists>v. requests rp b (c, r) = Some v \<and> (always \<or> \<not> ri_is_persistent v))
      then None else requests rp b' k)"
  by (simp_all add: looked_up_def rp_simps take_request_lookup)

lemma looked_up_inv: "rp_inv rp \<Longrightarrow> rp_inv (looked_up always b c r rp)"
  by (simp add: rp_inv_def looked_up_def rp_simps take_request_inv)

lemma get_context_by_id_eq: "lock_ok (context_mutex rp) \<Longrightarrow> get_context_by_id c rp = Ret (context_of rp c)"
  by (simp add: get_context_by_id_def outcome_simps split: option.splits)

text \<open>The function call a response causes, if any.\<close>

definition success_call ::
  "cef_env \<Rightarrow> request_info option \<Rightarrow> v8_context option \<Rightarrow> message_payload \<Rightarrow> renderer_event list" where
  "success_call env info context response =
     (case (Option.bind info ri_success_callback, context) of
        (Some f, Some c) \<Rightarrow>
          (case response of
             PString s \<Rightarrow> [CallFunction f c [V8String (cef_string_from_utf8 env s)]]
           | PBinary b \<Rightarrow> if ctx_can_enter c then [CallFunction f c [V8ArrayBuffer b]] else []
           | PEmpty \<Rightarrow> if ctx_can_enter c then [CallFunction f c [V8ArrayBuffer []]] else [])
      | _ \<Rightarrow> [])"

definition failure_call ::
  "cef_env \<Rightarrow> request_info option \<Rightarrow> v8_context option \<Rightarrow> i32 \<Rightarrow> utf8 \<Rightarrow> renderer_event list" where
  "failure_call env info context code msg =
     (case (Option.bind info ri_failure_callback, context) of
        (Some f, Some c) \<Rightarrow> [CallFunction f c [V8Int code, V8String (cef_string_from_utf8 env msg)]]
      | _ \<Rightarrow> [])"

definition rp_logs :: "renderer_event list \<Rightarrow> renderer_process \<Rightarrow> renderer_process" where
  "rp_logs es rp = rp\<lparr>rp_events := rp_events rp @ es\<rparr>"

lemma rp_logs_simps [rp_simps, simp]:
  "rp_logs [] rp = rp" "rp_log e rp = rp_logs [e] rp" "rp_router (rp_logs es rp) = rp_router rp"
  "rp_alive (rp_logs es rp) = rp_alive rp" "rp_handlers (rp_logs es rp) = rp_handlers rp"
  "rp_events (rp_logs es rp) = rp_events rp @ es"
  by (simp_all add: rp_logs_def rp_log_def)

lemma execute_success_callback_eq:
  assumes "rp_inv rp"
  shows "execute_success_callback env b c r response rp =
    Ret (rp_logs (success_call env (requests rp b (c, r)) (context_of rp c) response) (looked_up False b c r rp))"
  using rp_inv_locks [OF assms]
  by (simp add: execute_success_callback_def get_request_info_eq get_context_by_id_eq success_call_def rp_simps
      split: option.splits message_payload.splits)

lemma execute_failure_callback_eq:
  assumes "rp_inv rp"
  shows "execute_failure_callback env b c r code msg rp =
    Ret (rp_logs (failure_call env (requests rp b (c, r)) (context_of rp c) code msg) (looked_up True b c r rp))"
  using rp_inv_locks [OF assms]
  by (simp add: execute_failure_callback_def get_request_info_eq get_context_by_id_eq failure_call_def rp_simps
      split: option.splits)

text \<open>Sending a query, and the process with it.\<close>

definition next_request_id :: "renderer_process \<Rightarrow> i32" where
  "next_request_id rp = fst (ig_next (m_data (rr_request_id_generator (rp_router rp))))"

definition query_sent :: "i32 \<Rightarrow> i32 \<Rightarrow> request_info \<Rightarrow> renderer_process \<Rightarrow> renderer_process" where
  "query_sent b c info rp =
     (let r = rp_router rp; g = rr_request_id_generator r
      in rp\<lparr>rp_router := r\<lparr>rr_request_id_generator := g\<lparr>m_data := snd (ig_next (m_data g))\<rparr>,
              rr_request_info_map := (rr_request_info_map r)\<lparr>m_data :=
                bim_insert b (c, next_request_id rp) info (m_data (rr_request_info_map r))\<rparr>\<rparr>\<rparr>)"

lemma query_sent_simps [rp_simps]:
  "rp_alive (query_sent b c info rp) = rp_alive rp" "rp_handlers (query_sent b c info rp) = rp_handlers rp"
  "rp_events (query_sent b c info rp) = rp_events rp"
  "rr_context_map (rp_router (query_sent b c info rp)) = rr_context_map (rp_router rp)"
  "rr_query_message_name (rp_router (query_sent b c info rp)) = rr_query_message_name (rp_router rp)"
  "requests (query_sent b c info rp) b' k =
     (if b' = b \<and> k = (c, next_request_id rp) then Some info else requests rp b' k)"
  by (simp_all add: query_sent_def Let_def bim_lookup_insert)

lemma query_sent_inv:
  assumes "rp_inv rp"
  shows "rp_inv (query_sent b c info rp)"
proof -
  have "ig_inv I32_MAX (snd (ig_next (m_data (rr_request_id_generator (rp_router rp)))))"
    using assms by (intro ig_next_inv) (simp_all add: rp_inv_def I32_MAX_def)
  with assms show ?thesis by (simp add: rp_inv_def query_sent_def Let_def bim_inv_insert)
qed

definition query_message :: "cef_env \<Rightarrow> renderer_process \<Rightarrow> i32 \<Rightarrow> v8_value \<Rightarrow> bool \<Rightarrow> process_message option" where
  "query_message env rp c request persistent =
     build_renderer_message env (message_size_threshold (rr_config (rp_router rp)))
       (rr_query_message_name (rp_router rp)) c (next_request_id rp) (Some request) persistent"

lemma send_query_eq:
  assumes "rp_inv rp"
  shows "send_query env browser frame c request info rp =
    (case (browser, frame) of
       (Some b, Some f) \<Rightarrow>
         Ret (next_request_id rp,
              send_to_browser f (query_message env rp c request (ri_is_persistent info)) (query_sent b c info rp))
     | _ \<Rightarrow> Ret (RESERVED_ID, rp))"
  using rp_inv_locks [OF assms]
  by (auto simp: send_query_def outcome_simps next_request_id_def query_sent_def query_message_def Let_def
      set_request_ids_def set_request_map_def case_prod_beta split: option.splits)

section \<open>Cancelling\<close>

lemma send_cancel_single_blocks:
  assumes "rp_inv rp" "r \<noteq> RESERVED_ID"
  shows "send_cancel env (Some b) (Some f) c r rp = Blocked"
  using rp_inv_locks [OF assms(1)] assms(2)
  by (simp add: send_cancel_def outcome_simps get_request_info_def rp_simps)

text \<open>All requests of a context.\<close>

definition context_requests :: "i32 \<Rightarrow> i32 \<Rightarrow> request_map \<Rightarrow> (i32 \<times> (i32 \<times> i32) \<times> request_info) list" where
  "context_requests b c m = filter (\<lambda>(_, k, _). fst k = c) (browser_entries_of b m)"

definition cancel_message :: "cef_env \<Rightarrow> renderer_process \<Rightarrow> i32 \<Rightarrow> i32 \<Rightarrow> process_message option" where
  "cancel_message env rp c r =
     (if env_create_ok env then Some (ListMessage (rr_cancel_message_name (rp_router rp)) [VInt c, VInt r]) else None)"

lemma cancel_count_visitor_filter:
  "cancel_count_visitor c =
     filter_visitor (\<lambda>n _ k _. if fst k = c then n + 1 else n) (\<lambda>_ k _. fst k = c)"
  by (intro ext) (auto simp: cancel_count_visitor_def filter_visitor_def)

lemma send_cancel_context:
  assumes "rp_inv rp"
  shows "\<exists>rp'. send_cancel env (Some b) (Some f) c RESERVED_ID rp =
            Ret (context_requests b c (m_data (request_mutex rp)) \<noteq> [], rp')
    \<and> rp_inv rp' \<and> rp_handlers rp' = rp_handlers rp \<and> rp_alive rp' = rp_alive rp
    \<and> context_mutex rp' = context_mutex rp
    \<and> rp_events rp' = rp_events rp @
        (if context_requests b c (m_data (request_mutex rp)) \<noteq> []
         then (case cancel_message env rp c RESERVED_ID of None \<Rightarrow> [] | Some m \<Rightarrow> [SendToBrowser f m]) else [])
    \<and> (\<forall>b' k. requests rp' b' k = (if b' = b \<and> fst k = c then None else requests rp b' k))"
proof -
  let ?m = "m_data (request_mutex rp)"
  have m: "bim_inv ?m" and lock: "lock_ok (request_mutex rp)" using rp_inv_locks [OF assms] by auto
  let ?es = "context_requests b c ?m"
  have visit: "visit_entries (cancel_count_visitor c) (browser_entries_of b ?m) 0 =
      (length ?es, filter (\<lambda>(_, k, _). fst k \<noteq> c) (browser_entries_of b ?m), True)"
    using fold_count [of "\<lambda>_ k _. fst k = c" "browser_entries_of b ?m" 0]
    by (simp add: cancel_count_visitor_filter visit_entries_filter context_requests_def)
  obtain m' where m': "bim_find_browser_all (cancel_count_visitor c) 0 b ?m = Ret (length ?es, m')" "bim_inv m'"
      "browser_entries_of b m' = filter (\<lambda>(_, k, _). fst k \<noteq> c) (browser_entries_of b ?m)"
      "\<forall>b' k. b' \<noteq> b \<longrightarrow> bim_lookup m' b' k = bim_lookup ?m b' k"
    using find_browser_all_refines [OF m visit] by auto
  have "bim_lookup m' b k = Some v \<longleftrightarrow> bim_lookup ?m b k = Some v \<and> \<not> fst k = c" for k v
    using mem_browser_entries_of [OF m, of b k v b] mem_browser_entries_of [OF m'(2), of b k v b] m'(3) by auto
  note here = option_filter_eqI [OF this]
  have look: "bim_lookup m' b' k = (if b' = b \<and> fst k = c then None else bim_lookup ?m b' k)" for b' k
    using here [of k] m'(4) [rule_format, of b' k] by (cases "b' = b"; cases "bim_lookup ?m b k") auto
  let ?evs = "if ?es \<noteq> [] then (case cancel_message env rp c RESERVED_ID of None \<Rightarrow> [] | Some m \<Rightarrow> [SendToBrowser f m]) else []"
  let ?rp' = "rp_logs ?evs (set_request_map ((request_mutex rp)\<lparr>m_data := m'\<rparr>) rp)"
  have "send_cancel env (Some b) (Some f) c RESERVED_ID rp = Ret (?es \<noteq> [], ?rp')"
    using lock m'(1)
    by (simp add: send_cancel_def outcome_simps process_message_create_def cancel_message_def lv_simps Let_def
        send_to_browser_def rp_logs_def set_request_map_def release_lock_ok)
  moreover have "rp_inv ?rp'" using assms m'(2) by (simp add: rp_inv_def rp_simps)
  ultimately show ?thesis using look by (intro exI [of _ ?rp']) (simp add: rp_simps)
qed

lemma send_cancel_refused: "rp_inv rp \<Longrightarrow> b = None \<or> f = None \<Longrightarrow> send_cancel env b f c r rp = Ret (False, rp)"
  by (auto simp: send_cancel_def outcome_simps rp_inv_locks split: option.splits)

section \<open>Contexts\<close>

lemma find_context_Some:
  assumes "bt_wf m" "find_context ctx m = Some c"
  shows "\<exists>d. bt_get c m = Some (Some d) \<and> is_same d ctx"
proof -
  from assms(2) obtain e where "List.find (\<lambda>(_, entry). case entry of None \<Rightarrow> False | Some c \<Rightarrow> is_same c ctx) m = Some (c, e)"
    by (auto simp: find_context_def)
  then have "(c, e) \<in> set m" "case e of None \<Rightarrow> False | Some d \<Rightarrow> is_same d ctx"
    by (auto simp: find_Some_iff dest: nth_mem)
  with assms(1) show ?thesis by (auto simp: bt_get_Some_iff split: option.splits)
qed

lemma get_id_for_context_eq:
  assumes "rp_inv rp"
  shows "get_id_for_context ctx remove rp =
    (case find_context ctx (m_data (context_mutex rp)) of
       None \<Rightarrow> Ret (RESERVED_ID, rp)
     | Some c \<Rightarrow> Ret (c, if remove then set_context_map ((context_mutex rp)\<lparr>m_data := bt_remove c (m_data (context_mutex rp))\<rparr>) rp
                        else rp))"
  using rp_inv_locks [OF assms] by (simp add: get_id_for_context_def outcome_simps)

lemma remove_context_inv:
  "rp_inv rp \<Longrightarrow> rp_inv (set_context_map ((context_mutex rp)\<lparr>m_data := bt_remove c (m_data (context_mutex rp))\<rparr>) rp)"
  by (simp add: rp_inv_def rp_simps bt_intros bt_simps)

definition next_context_id :: "renderer_process \<Rightarrow> i32" where
  "next_context_id rp = fst (ig_next (m_data (rr_context_id_generator (rp_router rp))))"

lemma create_id_for_context_spec:
  assumes "rp_inv rp"
  shows "\<exists>rp'. create_id_for_context ctx rp = Ret (next_context_id rp, rp') \<and> rp_inv rp'
    \<and> rp_handlers rp' = rp_handlers rp \<and> rp_events rp' = rp_events rp \<and> rp_alive rp' = rp_alive rp
    \<and> request_mutex rp' = request_mutex rp \<and> rr_config (rp_router rp') = rr_config (rp_router rp)
    \<and> rr_query_message_name (rp_router rp') = rr_query_message_name (rp_router rp)
    \<and> rr_request_id_generator (rp_router rp') = rr_request_id_generator (rp_router rp)
    \<and> (\<forall>c. context_of rp' c = (if c = next_context_id rp then Some ctx else context_of rp c))"
proof -
  let ?g = "rr_context_id_generator (rp_router rp)" and ?cm = "context_mutex rp"
  have g: "ig_inv I32_MAX (m_data ?g)" using assms by (simp add: rp_inv_def)
  have pos: "ig_inv I32_MAX (snd (ig_next (m_data ?g)))" "next_context_id rp \<noteq> RESERVED_ID"
    using ig_next_inv(1) [OF g] ig_next_never_reserved [OF g] by (simp_all add: I32_MAX_def next_context_id_def)
  let ?rp' = "set_context_map (?cm\<lparr>m_data := bt_insert (next_context_id rp) (Some ctx) (m_data ?cm)\<rparr>)
                (set_context_ids (?g\<lparr>m_data := snd (ig_next (m_data ?g))\<rparr>) rp)"
  have "create_id_for_context ctx rp = Ret (next_context_id rp, ?rp')"
    using rp_inv_locks [OF assms]
    by (simp add: create_id_for_context_def outcome_simps Let_def case_prod_beta next_context_id_def rp_simps)
  moreover have "rp_inv ?rp'"
    using assms pos by (auto simp: rp_inv_def rp_simps bt_intros bt_simps)
  ultimately show ?thesis by (intro exI [of _ ?rp']) (simp add: rp_simps bt_simps)
qed

text \<open>The id a handler works under: the one it has, or a new one that it keeps.\<close>

lemma handler_context_id_spec:
  assumes "rp_inv rp" "h < length (rp_handlers rp)" "rp_alive rp"
  shows "\<exists>c rp'. handler_context_id h ctx rp = Ret (c, rp') \<and> rp_inv rp'
    \<and> rp_handlers rp' = (rp_handlers rp)[h := Some c] \<and> rp_events rp' = rp_events rp \<and> rp_alive rp'
    \<and> request_mutex rp' = request_mutex rp \<and> rr_config (rp_router rp') = rr_config (rp_router rp)
    \<and> rr_query_message_name (rp_router rp') = rr_query_message_name (rp_router rp)
    \<and> rr_request_id_generator (rp_router rp') = rr_request_id_generator (rp_router rp)
    \<and> (case rp_handlers rp ! h of
         Some c' \<Rightarrow> c = c' \<and> rp' = rp
       | None \<Rightarrow> c = next_context_id rp \<and> context_of rp' c = Some ctx)"
proof (cases "rp_handlers rp ! h")
  case None
  obtain rp1 where rp1: "create_id_for_context ctx rp = Ret (next_context_id rp, rp1)" "rp_inv rp1"
    "rp_handlers rp1 = rp_handlers rp" "rp_events rp1 = rp_events rp" "rp_alive rp1 = rp_alive rp"
    "request_mutex rp1 = request_mutex rp" "rr_config (rp_router rp1) = rr_config (rp_router rp)"
    "rr_query_message_name (rp_router rp1) = rr_query_message_name (rp_router rp)"
    "rr_request_id_generator (rp_router rp1) = rr_request_id_generator (rp_router rp)"
    "context_of rp1 (next_context_id rp) = Some ctx"
    using create_id_for_context_spec [OF assms(1), of ctx] by auto
  let ?rp' = "rp1\<lparr>rp_handlers := (rp_handlers rp1)[h := Some (next_context_id rp)]\<rparr>"
  have "rp_inv ?rp'" using rp1(2) rp_inv_cong [of ?rp' rp1] by simp
  with rp1 None assms(3) show ?thesis
    by (intro exI [of _ "next_context_id rp"] exI [of _ ?rp']) (simp add: handler_context_id_def)
next
  case (Some c)
  moreover from this have "(rp_handlers rp)[h := Some c] = rp_handlers rp" by (metis list_update_id)
  ultimately show ?thesis using assms by (simp add: handler_context_id_def)
qed

section \<open>The renderer side as a state machine\<close>

text \<open>
  What happens to the renderer side: contexts come and go, messages arrive, and
  JavaScript calls an installed function.
\<close>

datatype renderer_op =
    ContextCreated "v8_context option"
  | ContextReleased "i32 option" "nat option" "v8_context option"
  | BrowserMessageReceived "i32 option" "process_message option"
  | CallInstalled nat "v8_context option" "string option" "v8_value option list option"

fun renderer_step :: "cef_env \<Rightarrow> renderer_op \<Rightarrow> renderer_process \<Rightarrow> renderer_process outcome" where
  "renderer_step env (ContextCreated ctx) rp = Ret (on_context_created ctx rp)"
| "renderer_step env (ContextReleased b f ctx) rp = on_context_released env b f ctx rp"
| "renderer_step env (BrowserMessageReceived b msg) rp =
     bind_outcome (renderer_message_received env b msg rp) (\<lambda>(_, rp'). Ret rp')"
| "renderer_step env (CallInstalled h ctx name args) rp =
     (if h < length (rp_handlers rp)
      then bind_outcome (v8_handler_execute env h ctx name args rp) (\<lambda>(_, rp'). Ret rp') else Ret rp)"

text \<open>The calls that run into the lock they hold: JavaScript cancelling one query.\<close>

definition single_cancel :: "renderer_process \<Rightarrow> renderer_op \<Rightarrow> bool" where
  "single_cancel rp op \<longleftrightarrow>
     (\<exists>h ctx b f r. op = CallInstalled h (Some ctx) (Some (js_cancel_function (rr_config (rp_router rp)))) (Some [Some (V8Int r)])
        \<and> h < length (rp_handlers rp) \<and> ctx_browser ctx = Some b \<and> ctx_frame ctx = Some f \<and> r \<noteq> RESERVED_ID
        \<and> rp_alive rp)"

lemma on_context_released_inv:
  assumes "rp_inv rp"
  shows "\<exists>rp'. on_context_released env b f ctx rp = Ret rp' \<and> rp_inv rp'"
proof -
  obtain c rp1 where c: "(case ctx of Some c \<Rightarrow> get_id_for_context c True rp | None \<Rightarrow> Ret (RESERVED_ID, rp)) = Ret (c, rp1)"
    "rp_inv rp1"
  proof (cases ctx)
    case None
    with assms that show thesis by simp
  next
    case (Some x)
    with assms that remove_context_inv [OF assms] show thesis
      by (cases "find_context x (m_data (context_mutex rp))") (simp_all add: get_id_for_context_eq)
  qed
  show ?thesis
  proof (cases "c = RESERVED_ID \<or> b = None \<or> f = None")
    case True
    with c show ?thesis by (auto simp: on_context_released_def send_cancel_refused)
  next
    case False
    then obtain b' f' where "b = Some b'" "f = Some f'" "c \<noteq> RESERVED_ID" by auto
    with c send_cancel_context [OF c(2), of env b' f' c] show ?thesis
      by (auto simp: on_context_released_def)
  qed
qed

lemma renderer_message_received_inv:
  assumes "rp_inv rp"
  shows "(\<exists>r rp'. renderer_message_received env b msg rp = Ret (r, rp') \<and> rp_inv rp')
    \<or> renderer_message_received env b msg rp = Panic"
proof (cases "b = None \<or> msg = None")
  case True
  with assms show ?thesis by (auto simp: renderer_message_received_def split: option.splits)
next
  case False
  then obtain b' m where bm: "b = Some b'" "msg = Some m" by auto
  have keep: "rp_inv (rp_logs es (looked_up always b' c r rp))" for es always c r
    using looked_up_inv [OF assms] rp_inv_cong by (metis rp_logs_simps(3))
  have "browser_message_from env (Some m) \<noteq> Blocked"
    by (auto simp: browser_message_from_def Let_def split: option.splits value_type.splits)
  then show ?thesis
    using keep assms bm
    by (cases "browser_message_from env (Some m)")
      (auto simp: renderer_message_received_def execute_success_callback_eq execute_failure_callback_eq Let_def)
qed

lemma v8_handler_execute_inv:
  assumes "rp_inv rp" "h < length (rp_handlers rp)"
  shows "(\<exists>r rp'. v8_handler_execute env h ctx name args rp = Ret (r, rp') \<and> rp_inv rp')
    \<or> (v8_handler_execute env h ctx name args rp = Blocked \<and> single_cancel rp (CallInstalled h ctx name args))"
proof (cases "\<exists>n c. name = Some n \<and> ctx = Some c \<and> rp_alive rp")
  case False
  then show ?thesis
    using assms(1)
    by (auto simp: v8_handler_execute_def split: option.splits query_check.splits v8_value.splits bool.splits)
next
  case True
  then obtain n c where n: "name = Some n" "ctx = Some c" "rp_alive rp" by blast
  obtain i rp1 where i: "handler_context_id h c rp = Ret (i, rp1)" "rp_inv rp1" "rp_alive rp1"
    using handler_context_id_spec [OF assms n(3)] by blast
  have q: "\<exists>r rp'. send_query env (ctx_browser c) (ctx_frame c) i req info rp1 = Ret (r, rp') \<and> rp_inv rp'" for req info
  proof -
    have "rp_inv (send_to_browser f m (query_sent b i info rp1))" for f m b
      using query_sent_inv [OF i(2)] rp_inv_cong [OF send_to_browser_simps(1)] by blast
    with i(2) show ?thesis by (cases "ctx_browser c"; cases "ctx_frame c") (simp_all add: send_query_eq)
  qed
  have cancel: "(\<exists>b. send_cancel env (ctx_browser c) (ctx_frame c) i r rp1 = Ret (b, rp1)) \<or>
      (send_cancel env (ctx_browser c) (ctx_frame c) i r rp1 = Blocked \<and> ctx_browser c \<noteq> None \<and> ctx_frame c \<noteq> None)"
    if "r \<noteq> RESERVED_ID" for r
    using send_cancel_single_blocks [OF i(2) that] send_cancel_refused [OF i(2)]
    by (cases "ctx_browser c"; cases "ctx_frame c") auto
  consider "n = js_query_function (rr_config (rp_router rp))"
    | "n \<noteq> js_query_function (rr_config (rp_router rp))" "n = js_cancel_function (rr_config (rp_router rp))"
    | "n \<noteq> js_query_function (rr_config (rp_router rp))" "n \<noteq> js_cancel_function (rr_config (rp_router rp))" by blast
  then show ?thesis
  proof cases
    case 1
    show ?thesis
    proof (cases "check_query args")
      case (GoodQuery request success failure persistent)
      obtain r rp' where "send_query env (ctx_browser c) (ctx_frame c) i request
          \<lparr>ri_is_persistent = (case persistent of None \<Rightarrow> False | Some v \<Rightarrow> v8_bool_value v),
           ri_success_callback = success, ri_failure_callback = failure\<rparr> rp1 = Ret (r, rp')" "rp_inv rp'"
        using q by blast
      with 1 GoodQuery n i(1) show ?thesis by (simp add: v8_handler_execute_def)
    qed (use 1 n assms in \<open>simp add: v8_handler_execute_def\<close>)
  next
    case 2
    show ?thesis
    proof (cases "\<exists>r. single_argument args = Some (V8Int r) \<and> r \<noteq> RESERVED_ID")
      case True
      then obtain r where r: "single_argument args = Some (V8Int r)" "r \<noteq> RESERVED_ID" by blast
      then have args: "args = Some [Some (V8Int r)]"
        by (auto simp: single_argument_def split: option.splits list.splits)
      from cancel [OF r(2)] show ?thesis
        using 2 n i r args assms(2) by (auto simp: v8_handler_execute_def single_cancel_def)
    next
      case False
      with 2 n assms show ?thesis
        by (auto simp: v8_handler_execute_def split: option.splits v8_value.splits)
    qed
  next
    case 3
    with n assms show ?thesis by (simp add: v8_handler_execute_def)
  qed
qed

lemma renderer_step_inv:
  assumes "rp_inv rp"
  shows "(\<exists>rp'. renderer_step env op rp = Ret rp' \<and> rp_inv rp') \<or> renderer_step env op rp = Panic
    \<or> (renderer_step env op rp = Blocked \<and> single_cancel rp op)"
proof (cases op)
  case (ContextCreated ctx)
  have "rp_router (on_context_created ctx rp) = rp_router rp"
    by (simp add: on_context_created_def Let_def split: option.splits)
  with ContextCreated assms show ?thesis by (auto simp: rp_inv_cong [of "on_context_created ctx rp" rp])
next
  case (ContextReleased b f ctx)
  with on_context_released_inv [OF assms, of env b f ctx] show ?thesis by auto
next
  case (BrowserMessageReceived b msg)
  with renderer_message_received_inv [OF assms, of env b msg] show ?thesis by auto
next
  case (CallInstalled h ctx name args)
  then show ?thesis
    using assms v8_handler_execute_inv [OF assms, of h env ctx name args] by auto
qed

interpretation renderer_machine: invariant_machine "renderer_step env" rp_inv for env
proof
  fix rp rp' op
  assume "rp_inv rp" "renderer_step env op rp = Ret rp'"
  then show "rp_inv rp'" using renderer_step_inv [of rp env op] by auto
qed

end
