(* ===== verification/Renderer_Side_Properties.thy ===== *)
theory Renderer_Side_Properties
  imports Renderer_Side_Router
begin

text \<open>
  What the renderer side of the message router promises: a query call registers its
  request and sends it, a response runs the right JavaScript callback and removes the
  request unless it is persistent, and a released context loses its requests and tells
  the browser process. The theorems that end in \<open>_flaw\<close> state where the code departs
  from its documentation.
\<close>

section \<open>A sample process\<close>

text \<open>
  Context 4 of browser 5, whose handler has the context id 1, with two requests
  pending: 20, and 21 which is persistent.
\<close>

definition sample_context :: v8_context where
  "sample_context = \<lparr>ctx_identity = 4, ctx_browser = Some 5, ctx_frame = Some 3, ctx_has_global = True, ctx_can_enter = True\<rparr>"

definition sample_info :: "bool \<Rightarrow> request_info" where
  "sample_info p = \<lparr>ri_is_persistent = p, ri_success_callback = Some (V8Function 7), ri_failure_callback = Some (V8Function 8)\<rparr>"

definition sample_requests :: request_map where
  "sample_requests = \<lparr>bim_map = [(5, [((1, 20), sample_info False), ((1, 21), sample_info True)])]\<rparr>"

definition sample_rp :: renderer_process where
  "sample_rp =
     \<lparr>rp_router =
        \<lparr>rr_config = config_default, rr_query_message_name = ''cefQueryMsg'', rr_cancel_message_name = ''cefQueryCancelMsg'',
         rr_context_id_generator = mutex_new ((ig_new I32_MAX)\<lparr>ig_next_id := 1\<rparr>),
         rr_request_id_generator = mutex_new ((ig_new I32_MAX)\<lparr>ig_next_id := 21\<rparr>),
         rr_request_info_map = mutex_new sample_requests,
         rr_context_map = mutex_new [(1, Some sample_context)]\<rparr>,
      rp_alive = True, rp_handlers = [Some 1], rp_events = []\<rparr>"

lemma sample_lookup:
  "bim_lookup sample_requests b k =
     (if b = 5 \<and> k = (1, 20) then Some (sample_info False)
      else if b = 5 \<and> k = (1, 21) then Some (sample_info True) else None)"
  by (simp add: sample_requests_def bim_lookup_def bt_get_def)

lemma sample_inv: "rp_inv sample_rp"
proof -
  have "bim_inv sample_requests" by (simp add: bim_inv_def sample_requests_def bt_wf_def less_prod_def)
  then show ?thesis
    by (simp add: rp_inv_def sample_rp_def ig_inv_def ig_new_def I32_MAX_def RESERVED_ID_def bt_wf_def bt_get_def)
qed

section \<open>Properties\<close>

text \<open>
  Calling the query function with valid arguments registers the request
  under the id of its context and a new request id that is never the reserved one,
  sends the query message to the browser process, and returns the request id to
  JavaScript. No other request is touched, and the handler keeps its context id.
\<close>

lemma query_call_registers:
  assumes inv: "rp_inv rp" and h: "h < length (rp_handlers rp)" and alive: "rp_alive rp"
    and args: "check_query args = GoodQuery request success failure persistent"
    and ctx: "ctx_browser ctx = Some b" "ctx_frame ctx = Some f"
  defines "p \<equiv> (case persistent of None \<Rightarrow> False | Some v \<Rightarrow> v8_bool_value v)"
    and "r \<equiv> next_request_id rp"
  shows "\<exists>c rp'. v8_handler_execute env h (Some ctx) (Some (js_query_function (rr_config (rp_router rp)))) args rp =
            Ret (vr_return (V8Int r), rp') \<and> rp_inv rp' \<and> r \<noteq> RESERVED_ID \<and> rp_handlers rp' ! h = Some c
    \<and> (case rp_handlers rp ! h of Some c' \<Rightarrow> c = c' | None \<Rightarrow> c = next_context_id rp \<and> context_of rp' c = Some ctx)
    \<and> (\<forall>b' k. requests rp' b' k =
         (if b' = b \<and> k = (c, r)
          then Some \<lparr>ri_is_persistent = p, ri_success_callback = success, ri_failure_callback = failure\<rparr>
          else requests rp b' k))
    \<and> rp_events rp' = rp_events rp @
         (case build_renderer_message env (message_size_threshold (rr_config (rp_router rp)))
                 (rr_query_message_name (rp_router rp)) c r (Some request) p of
            None \<Rightarrow> [] | Some m \<Rightarrow> [SendToBrowser f m])"
proof -
  obtain c rp1 where c: "handler_context_id h ctx rp = Ret (c, rp1)" "rp_inv rp1"
    "rp_handlers rp1 = (rp_handlers rp)[h := Some c]" "rp_events rp1 = rp_events rp"
    "request_mutex rp1 = request_mutex rp" "rr_config (rp_router rp1) = rr_config (rp_router rp)"
    "rr_query_message_name (rp_router rp1) = rr_query_message_name (rp_router rp)"
    "rr_request_id_generator (rp_router rp1) = rr_request_id_generator (rp_router rp)"
    "case rp_handlers rp ! h of Some c' \<Rightarrow> c = c' \<and> rp1 = rp
       | None \<Rightarrow> c = next_context_id rp \<and> context_of rp1 c = Some ctx"
    using handler_context_id_spec [OF inv h alive, of ctx] by blast
  let ?info = "\<lparr>ri_is_persistent = p, ri_success_callback = success, ri_failure_callback = failure\<rparr>"
  let ?msg = "query_message env rp1 c request p"
  let ?rp' = "send_to_browser f ?msg (query_sent b c ?info rp1)"
  have r: "next_request_id rp1 = r" using c(8) by (simp add: r_def next_request_id_def)
  have "v8_handler_execute env h (Some ctx) (Some (js_query_function (rr_config (rp_router rp)))) args rp =
      Ret (vr_return (V8Int r), ?rp')"
    using alive args ctx c(1) send_query_eq [OF c(2), of env "Some b" "Some f" c request ?info] r
    by (simp add: v8_handler_execute_def p_def)
  moreover have "rp_inv ?rp'" using query_sent_inv [OF c(2)] rp_inv_cong [OF send_to_browser_simps(1)] by blast
  moreover have "r \<noteq> RESERVED_ID"
    using inv ig_next_never_reserved [of I32_MAX "m_data (rr_request_id_generator (rp_router rp))"]
    by (simp add: rp_inv_def r_def next_request_id_def I32_MAX_def)
  moreover have "rp_handlers ?rp' ! h = Some c" using c(3) h by (simp add: rp_simps)
  moreover have "case rp_handlers rp ! h of Some c' \<Rightarrow> c = c' | None \<Rightarrow> c = next_context_id rp \<and> context_of ?rp' c = Some ctx"
    using c(9) by (auto simp: rp_simps split: option.splits)
  moreover have "requests ?rp' b' k = (if b' = b \<and> k = (c, r) then Some ?info else requests rp b' k)" for b' k
    using c(5) r by (simp add: rp_simps)
  moreover have "rp_events ?rp' = rp_events rp @
         (case build_renderer_message env (message_size_threshold (rr_config (rp_router rp)))
                 (rr_query_message_name (rp_router rp)) c r (Some request) p of
            None \<Rightarrow> [] | Some m \<Rightarrow> [SendToBrowser f m])"
    using c(4,6,7) r by (simp add: rp_simps query_message_def)
  ultimately show ?thesis by blast
qed

text \<open>
  Property C8. A response runs the callback of the request it names and nothing else:
  a success calls the success function with the payload as a string or an array
  buffer, and ends the request unless it is persistent; a failure calls the failure
  function with code and message and always ends the request. A response to a request
  that is not pending (answered, cancelled, or of a released context) calls nothing
  and changes nothing.
\<close>

theorem response_runs_callback:
  assumes inv: "rp_inv rp" and name: "pm_name msg = rr_query_message_name (rp_router rp)"
    and content: "browser_message_from env (Some msg) = Ret content"
  defines "c \<equiv> bm_context_id content" and "r \<equiv> bm_request_id content" and "ok \<equiv> bm_is_success content"
  shows "\<exists>rp'. renderer_message_received env (Some b) (Some msg) rp = Ret (True, rp') \<and> rp_inv rp'
    \<and> rp_events rp' = rp_events rp @
        (if ok then success_call env (requests rp b (c, r)) (context_of rp c) (bm_payload content)
         else failure_call env (requests rp b (c, r)) (context_of rp c) (bm_error_code content)
                (case bm_payload content of PString s \<Rightarrow> s | _ \<Rightarrow> []))
    \<and> (\<forall>b' k. requests rp' b' k =
         (if b' = b \<and> k = (c, r) \<and> (\<forall>v. requests rp b (c, r) = Some v \<longrightarrow> \<not> ok \<or> \<not> ri_is_persistent v)
          then None else requests rp b' k))
    \<and> (requests rp b (c, r) = None \<longrightarrow> rp_events rp' = rp_events rp \<and> requests rp' = requests rp)"
proof -
  let ?evs = "if ok then success_call env (requests rp b (c, r)) (context_of rp c) (bm_payload content)
         else failure_call env (requests rp b (c, r)) (context_of rp c) (bm_error_code content)
                (case bm_payload content of PString s \<Rightarrow> s | _ \<Rightarrow> [])"
  let ?rp' = "rp_logs ?evs (looked_up (\<not> ok) b c r rp)"
  have "renderer_message_received env (Some b) (Some msg) rp = Ret (True, ?rp')"
    using name content
    by (simp add: renderer_message_received_def execute_success_callback_eq [OF inv]
        execute_failure_callback_eq [OF inv] c_def r_def ok_def)
  moreover have "rp_inv ?rp'"
    using looked_up_inv [OF inv] rp_inv_cong [OF rp_logs_simps(3)] by blast
  moreover have look: "requests ?rp' b' k =
         (if b' = b \<and> k = (c, r) \<and> (\<forall>v. requests rp b (c, r) = Some v \<longrightarrow> \<not> ok \<or> \<not> ri_is_persistent v)
          then None else requests rp b' k)" for b' k
    by (cases "requests rp b (c, r)") (auto simp: rp_simps)
  moreover have "rp_events ?rp' = rp_events rp @ ?evs" by (simp add: rp_simps)
  moreover have "requests rp b (c, r) = None \<Longrightarrow> ?evs = [] \<and> requests ?rp' = requests rp"
    using look by (auto simp: success_call_def failure_call_def fun_eq_iff)
  ultimately show ?thesis by (intro exI [of _ ?rp']) auto
qed

theorem response_runs_callback_witness:
  "\<exists>rp'. renderer_message_received (ascii_env False) (Some 5)
        (Some (ListMessage ''cefQueryMsg'' [VInt 1, VInt 20, VBool True, VBinary [9]])) sample_rp = Ret (True, rp')
     \<and> rp_events rp' = [CallFunction (V8Function 7) sample_context [V8ArrayBuffer [9]]]
     \<and> requests rp' 5 (1, 20) = None \<and> requests rp' 5 (1, 21) = Some (sample_info True)"
proof -
  let ?msg = "ListMessage ''cefQueryMsg'' [VInt 1, VInt 20, VBool True, VBinary [9]]"
  have "browser_message_from (ascii_env False) (Some ?msg) = Ret (bm_success 1 20 (PBinary [9]))"
    by (simp add: browser_message_from_def lv_defs index_defs bytes_or_empty_def)
  moreover have "pm_name ?msg = rr_query_message_name (rp_router sample_rp)" by (simp add: sample_rp_def)
  moreover have "requests sample_rp = bim_lookup sample_requests" "context_of sample_rp 1 = Some sample_context"
      "rp_events sample_rp = []"
    by (simp_all add: sample_rp_def bt_get_def)
  ultimately show ?thesis
    using response_runs_callback [OF sample_inv, of ?msg "ascii_env False" "bm_success 1 20 (PBinary [9])" 5]
    by (fastforce simp: bm_success_def sample_lookup success_call_def sample_info_def sample_context_def)
qed

text \<open>
  Releasing a context forgets it, drops all its requests, and tells the
  browser process once if there were any; requests of other contexts stay.
\<close>

lemma context_release_drops_requests:
  assumes inv: "rp_inv rp" and c: "find_context ctx (m_data (context_mutex rp)) = Some c"
  shows "\<exists>rp'. on_context_released env (Some b) (Some f) (Some ctx) rp = Ret rp' \<and> rp_inv rp'
    \<and> (\<forall>c'. context_of rp' c' = (if c' = c then None else context_of rp c'))
    \<and> (\<forall>b' k. requests rp' b' k = (if b' = b \<and> fst k = c then None else requests rp b' k))
    \<and> rp_events rp' = rp_events rp @
        (if context_requests b c (m_data (request_mutex rp)) \<noteq> []
         then (case cancel_message env rp c RESERVED_ID of None \<Rightarrow> [] | Some m \<Rightarrow> [SendToBrowser f m]) else [])"
proof -
  let ?rp1 = "set_context_map ((context_mutex rp)\<lparr>m_data := bt_remove c (m_data (context_mutex rp))\<rparr>) rp"
  have inv1: "rp_inv ?rp1" by (rule remove_context_inv [OF inv])
  have "c \<noteq> RESERVED_ID"
    using find_context_Some [OF rp_inv_locks(6) [OF inv] c] rp_inv_locks(7) [OF inv] by auto
  moreover have "get_id_for_context ctx True rp = Ret (c, ?rp1)" using c by (simp add: get_id_for_context_eq [OF inv])
  moreover have "cancel_message env ?rp1 c RESERVED_ID = cancel_message env rp c RESERVED_ID"
    "request_mutex ?rp1 = request_mutex rp" by (simp_all add: cancel_message_def rp_simps)
  moreover have "context_of ?rp1 c' = (if c' = c then None else context_of rp c')" for c'
    by (simp add: rp_simps bt_simps)
  ultimately show ?thesis
    using send_cancel_context [OF inv1, of env b f c] by (auto simp: on_context_released_def rp_simps)
qed

text \<open>
  Property C35. JavaScript cancelling one of its queries makes the renderer thread wait
  for a lock it holds itself, and nothing else the renderer side does ever blocks.
\<close>

theorem single_cancel_deadlocks_flaw:
  assumes run: "run_ops (renderer_step env) ops (renderer_process_new config) = Ret rp"
    and names: "js_cancel_function (rr_config (rp_router rp)) \<noteq> js_query_function (rr_config (rp_router rp))"
  shows "renderer_step env op rp = Blocked \<longleftrightarrow> single_cancel rp op"
proof
  have inv: "rp_inv rp" by (rule renderer_machine.run_inv [OF rp_inv_new run])
  show "single_cancel rp op" if "renderer_step env op rp = Blocked"
    using renderer_step_inv [OF inv, of env op] that by auto
  assume "single_cancel rp op"
  then obtain h ctx b f r where op: "op = CallInstalled h (Some ctx)
        (Some (js_cancel_function (rr_config (rp_router rp)))) (Some [Some (V8Int r)])"
    "h < length (rp_handlers rp)" "ctx_browser ctx = Some b" "ctx_frame ctx = Some f" "r \<noteq> RESERVED_ID" "rp_alive rp"
    by (auto simp: single_cancel_def)
  obtain c rp1 where c: "handler_context_id h ctx rp = Ret (c, rp1)" "rp_inv rp1"
    using handler_context_id_spec [OF inv op(2,6)] by blast
  show "renderer_step env op rp = Blocked"
    using op names c send_cancel_single_blocks [OF c(2) op(5), of env b f c]
    by (simp add: v8_handler_execute_def single_argument_def)
qed

theorem single_cancel_deadlocks_flaw_witness:
  "\<exists>rp. run_ops (renderer_step (ascii_env False)) [ContextCreated (Some sample_context)] (renderer_process_new config_default) = Ret rp
     \<and> renderer_step (ascii_env False)
         (CallInstalled 0 (Some sample_context) (Some ''cefQueryCancel'') (Some [Some (V8Int 20)])) rp = Blocked"
proof -
  let ?rp = "on_context_created (Some sample_context) (renderer_process_new config_default)"
  have run: "run_ops (renderer_step (ascii_env False)) [ContextCreated (Some sample_context)]
      (renderer_process_new config_default) = Ret ?rp" by simp
  have rp: "rp_handlers ?rp = [None]" "rp_router ?rp = renderer_router_new config_default" "rp_alive ?rp = True"
    by (simp_all add: on_context_created_def renderer_process_new_def sample_context_def)
  have "js_cancel_function (rr_config (rp_router ?rp)) \<noteq> js_query_function (rr_config (rp_router ?rp))"
    unfolding rp by (simp add: renderer_router_new_def config_default_def)
  moreover have "single_cancel ?rp
      (CallInstalled 0 (Some sample_context) (Some ''cefQueryCancel'') (Some [Some (V8Int 20)]))"
    unfolding single_cancel_def rp
    by (simp add: renderer_router_new_def config_default_def sample_context_def RESERVED_ID_def)
  ultimately show ?thesis using single_cancel_deadlocks_flaw [OF run] run by blast
qed

definition callback_acceptable :: "v8_value \<Rightarrow> string \<Rightarrow> bool" where
  "callback_acceptable arg key \<longleftrightarrow> (\<forall>v. v8_value_bykey key arg = Some v \<longrightarrow> v8_is_function v)"

text \<open>
  Bad arguments of the query function never reach the router: they raise
  a JavaScript exception and change nothing. The arguments are accepted exactly when
  there is one object whose request is a string or an array buffer, whose two
  callbacks are functions (or cannot be read at all), and whose persistent flag is a
  boolean, undefined or unreadable.
\<close>

lemma query_arguments_checked:
  "(check_query args = BadQuery msg \<longrightarrow>
      v8_handler_execute env h ctx (Some (js_query_function (rr_config (rp_router rp)))) args rp = Ret (vr_throw msg, rp))
   \<and> ((\<exists>request success failure persistent. check_query args = GoodQuery request success failure persistent) \<longleftrightarrow>
       (\<exists>arg request. args = Some [Some arg] \<and> v8_is_object arg
          \<and> v8_value_bykey OM_REQUEST arg = Some request \<and> v8_is_text_or_buffer request
          \<and> callback_acceptable arg OM_ON_SUCCESS \<and> callback_acceptable arg OM_ON_FAILURE
          \<and> (\<forall>v. v8_value_bykey OM_PERSISTENT arg = Some v \<longrightarrow> v = V8Undefined \<or> v8_is_bool v)))"
proof -
  have single: "single_argument args = Some a \<longleftrightarrow> args = Some [Some a]" for a
    by (auto simp: single_argument_def split: option.splits list.splits)
  have "(\<exists>request success failure persistent. check_query args = GoodQuery request success failure persistent) \<longleftrightarrow>
     (\<exists>arg. single_argument args = Some arg \<and> v8_is_object arg
          \<and> (\<exists>request. v8_value_bykey OM_REQUEST arg = Some request \<and> v8_is_text_or_buffer request)
          \<and> callback_acceptable arg OM_ON_SUCCESS \<and> callback_acceptable arg OM_ON_FAILURE
          \<and> (\<forall>v. v8_value_bykey OM_PERSISTENT arg = Some v \<longrightarrow> v = V8Undefined \<or> v8_is_bool v))"
  proof (cases "single_argument args")
    case (Some a)
    then show ?thesis
      by (cases "v8_value_bykey OM_REQUEST a"; cases "v8_value_bykey OM_ON_SUCCESS a";
          cases "v8_value_bykey OM_ON_FAILURE a"; cases "v8_value_bykey OM_PERSISTENT a")
        (simp_all add: check_query_def check_callback_def callback_acceptable_def)
  qed (simp add: check_query_def)
  then show ?thesis by (auto simp: single v8_handler_execute_def)
qed

text \<open>
  The callbacks are documented as optional, but an object that leaves
  either of them out is refused: reading a member an object does not have gives
  \<open>undefined\<close>, which is not a function.
\<close>

lemma missing_callback_flaw:
  assumes "map_of members OM_ON_SUCCESS = None \<or> map_of members OM_ON_FAILURE = None"
  shows "\<exists>msg. check_query (Some [Some (V8Object members)]) = BadQuery msg"
  using assms
  by (auto simp: check_query_def single_argument_def check_callback_def split: option.splits if_splits sum.splits)

end
