(* ===== verification/Byte_Read_Handler.thy ===== *)
theory Byte_Read_Handler
  imports Prelude
begin

text \<open>
  \<^verbatim>\<open>cef/src/wrapper/byte_read_handler.rs\<close>: a read handler over an array of bytes in
  memory. Offsets are \<^verbatim>\<open>usize\<close> and \<^verbatim>\<open>i64\<close> values of a 64-bit machine, with the casts and
  the wrap-around of \<^verbatim>\<open>-offset as usize\<close> written out.
\<close>

section \<open>Operations\<close>

record byte_stream =
  bs_bytes :: "u8 list"
  bs_offset :: usize

definition bs_new :: "u8 list \<Rightarrow> byte_stream" where
  "bs_new bytes = \<lparr>bs_bytes = bytes, bs_offset = 0\<rparr>"

definition is_i64 :: "int \<Rightarrow> bool" where
  "is_i64 x \<longleftrightarrow> - 9223372036854775808 \<le> x \<and> x \<le> 9223372036854775807"

definition i64_as_usize :: "i64 \<Rightarrow> usize" where
  "i64_as_usize x = nat (x mod 18446744073709551616)"

definition usize_sub :: "usize \<Rightarrow> usize \<Rightarrow> usize" where
  "usize_sub a b = nat ((int a - int b) mod 18446744073709551616)"

definition usize_add :: "usize \<Rightarrow> usize \<Rightarrow> usize" where
  "usize_add a b = (a + b) mod 18446744073709551616"

text \<open>
  \<^verbatim>\<open>read\<close> gives the number of items and the bytes it wrote to the caller's buffer. A
  division by a zero item size panics, and so does a slice out of range.
\<close>

definition brh_read ::
  "usize \<Rightarrow> usize \<Rightarrow> byte_stream mutex \<Rightarrow> (usize \<times> u8 list \<times> byte_stream mutex) outcome" where
  "brh_read sz n m =
     with_lock m
       (\<lambda>stream.
          if sz = 0 then Panic
          else
            let s = usize_sub (length (bs_bytes stream)) (bs_offset stream) div sz;
                ret = min s n;
                stop = usize_add (bs_offset stream) (ret * sz)
            in if bs_offset stream \<le> stop \<and> stop \<le> length (bs_bytes stream)
               then Ret (ret, take (ret * sz) (drop (bs_offset stream) (bs_bytes stream)),
                         m\<lparr>m_data := stream\<lparr>bs_offset := stop\<rparr>\<rparr>)
               else Panic)
       (Ret (0, [], m))"

definition brh_seek :: "i64 \<Rightarrow> int \<Rightarrow> byte_stream mutex \<Rightarrow> (int \<times> byte_stream mutex) outcome" where
  "brh_seek offset whence m =
     with_lock m
       (\<lambda>stream.
          let len = length (bs_bytes stream);
              goto = (\<lambda>k. Ret (0, m\<lparr>m_data := stream\<lparr>bs_offset := k\<rparr>\<rparr>));
              refuse = Ret (- 1, m)
          in if whence = 0 then
               if offset < 0 then refuse
               else let offset = i64_as_usize offset in if offset > len then refuse else goto offset
             else if whence = 1 then
               if offset < 0 then
                 let offset = i64_as_usize (- offset)
                 in if offset > bs_offset stream then refuse else goto (bs_offset stream - offset)
               else
                 let offset = i64_as_usize offset
                 in if usize_add offset (bs_offset stream) > len then refuse
                    else goto (usize_add (bs_offset stream) offset)
             else if whence = 2 then
               if offset > 0 then refuse
               else let offset = i64_as_usize (- offset) in if offset > len then refuse else goto (len - offset)
             else refuse)
       (Ret (- 1, m))"

definition brh_tell :: "byte_stream mutex \<Rightarrow> i64 outcome" where
  "brh_tell m = with_lock m (\<lambda>stream. Ret (int (bs_offset stream))) (Ret 0)"

definition brh_eof :: "byte_stream mutex \<Rightarrow> int outcome" where
  "brh_eof m =
     with_lock m (\<lambda>stream. Ret (if bs_offset stream \<ge> length (bs_bytes stream) then 1 else 0)) (Ret 1)"

definition brh_may_block :: int where
  "brh_may_block = 0"

section \<open>What the handler keeps\<close>

text \<open>
  The position is inside the data, and the data is no larger than an allocation can
  be (\<^verbatim>\<open>isize::MAX\<close>).
\<close>

definition bs_inv :: "byte_stream \<Rightarrow> bool" where
  "bs_inv s \<longleftrightarrow> bs_offset s \<le> length (bs_bytes s) \<and> length (bs_bytes s) \<le> 9223372036854775807"

definition brh_inv :: "byte_stream mutex \<Rightarrow> bool" where
  "brh_inv m \<longleftrightarrow> lock_ok m \<and> bs_inv (m_data m)"

text \<open>What is left to read.\<close>

definition bs_rest :: "byte_stream mutex \<Rightarrow> u8 list" where
  "bs_rest m = drop (bs_offset (m_data m)) (bs_bytes (m_data m))"

lemma brh_inv_new: "length bytes \<le> 9223372036854775807 \<Longrightarrow> brh_inv (mutex_new (bs_new bytes))"
  by (simp add: brh_inv_def bs_inv_def bs_new_def)

lemma brh_read_eq:
  fixes m :: "byte_stream mutex" and sz n :: usize
  assumes "brh_inv m" "0 < sz"
  defines "ret \<equiv> min (length (bs_rest m) div sz) n"
  shows "brh_read sz n m =
    Ret (ret, take (ret * sz) (bs_rest m), m\<lparr>m_data := (m_data m)\<lparr>bs_offset := bs_offset (m_data m) + ret * sz\<rparr>\<rparr>)"
proof -
  let ?len = "length (bs_bytes (m_data m))" and ?off = "bs_offset (m_data m)"
  have le: "?off \<le> ?len" "?len \<le> 9223372036854775807" and lock: "lock_ok m"
    using assms(1) by (auto simp: brh_inv_def bs_inv_def)
  have sub: "usize_sub ?len ?off = length (bs_rest m)"
    using le by (simp add: usize_sub_def bs_rest_def of_nat_diff [symmetric] del: of_nat_diff)
  have "ret * sz \<le> length (bs_rest m)"
    unfolding ret_def using div_times_less_eq_dividend [of "length (bs_rest m)" sz]
    by (meson le_trans min.cobounded1 mult_le_mono1)
  then have fits: "?off + ret * sz \<le> ?len" using le by (simp add: bs_rest_def)
  then have "usize_add ?off (ret * sz) = ?off + ret * sz"
    using le by (simp add: usize_add_def)
  then show ?thesis
    using lock assms(2) sub fits unfolding brh_read_def with_lock_ok [OF lock]
    by (simp add: Let_def ret_def [symmetric] bs_rest_def [symmetric])
qed

lemma brh_read_inv:
  assumes "brh_inv m" "brh_read sz n m = Ret (k, bytes, m')"
  shows "brh_inv m' \<and> bytes @ bs_rest m' = bs_rest m \<and> length bytes = k * sz"
proof -
  have "sz \<noteq> 0" using assms by (cases "sz = 0") (simp_all add: brh_read_def outcome_simps brh_inv_def)
  then have sz: "0 < sz" by simp
  let ?ret = "min (length (bs_rest m) div sz) n"
  have ret: "?ret * sz \<le> length (bs_rest m)"
    using div_times_less_eq_dividend [of "length (bs_rest m)" sz]
    by (meson le_trans min.cobounded1 mult_le_mono1)
  have m': "k = ?ret" "bytes = take (?ret * sz) (bs_rest m)"
      "m' = m\<lparr>m_data := (m_data m)\<lparr>bs_offset := bs_offset (m_data m) + ?ret * sz\<rparr>\<rparr>"
    using trans [OF assms(2) [symmetric] brh_read_eq [OF assms(1) sz, of n]] by auto
  have "bs_rest m' = drop (?ret * sz) (bs_rest m)" by (simp add: m' bs_rest_def add.commute)
  moreover have "brh_inv m'" using assms(1) ret by (auto simp: m' brh_inv_def bs_inv_def bs_rest_def)
  ultimately show ?thesis using m'(1,2) ret by simp
qed

section \<open>Readers\<close>

text \<open>
  The contract between a source of bytes and what reads from it: a read hands out a
  prefix of what is left, at most as much as asked for, and something if there is
  anything left. The clients' lemmas are proved from it where the client is.
\<close>

locale byte_source =
  fixes rd :: "usize \<Rightarrow> 's \<Rightarrow> u8 list \<times> 's"
    and rest :: "'s \<Rightarrow> u8 list"
    and inv :: "'s \<Rightarrow> bool"
  assumes rd_rest: "inv s \<Longrightarrow> fst (rd n s) @ rest (snd (rd n s)) = rest s"
    and rd_bound: "inv s \<Longrightarrow> length (fst (rd n s)) \<le> n"
    and rd_progress: "inv s \<Longrightarrow> 0 < n \<Longrightarrow> rest s \<noteq> [] \<Longrightarrow> fst (rd n s) \<noteq> []"
    and rd_inv: "inv s \<Longrightarrow> inv (snd (rd n s))"
begin

lemma rd_take: "inv s \<Longrightarrow> fst (rd n s) = take (length (fst (rd n s))) (rest s)"
  using rd_rest [of s n] by (metis append_eq_conv_conj)

lemma rd_drop: "inv s \<Longrightarrow> rest (snd (rd n s)) = drop (length (fst (rd n s))) (rest s)"
  using rd_rest [of s n] by (metis append_eq_conv_conj)

end

text \<open>A byte of the in-memory stream per item; the read never fails then.\<close>

definition brh_read_bytes :: "usize \<Rightarrow> byte_stream mutex \<Rightarrow> u8 list \<times> byte_stream mutex" where
  "brh_read_bytes n m = (case brh_read 1 n m of Ret (_, bytes, m') \<Rightarrow> (bytes, m') | _ \<Rightarrow> ([], m))"

lemma brh_read_bytes_eq:
  assumes "brh_inv m"
  shows "\<exists>k. brh_read 1 n m = Ret (k, brh_read_bytes n m)" "fst (brh_read_bytes n m) = take n (bs_rest m)"
    "brh_inv (snd (brh_read_bytes n m))" "bs_rest (snd (brh_read_bytes n m)) = drop n (bs_rest m)"
proof -
  let ?m' = "m\<lparr>m_data := (m_data m)\<lparr>bs_offset := bs_offset (m_data m) + min (length (bs_rest m)) n\<rparr>\<rparr>"
  have eq: "brh_read 1 n m = Ret (min (length (bs_rest m)) n, take n (bs_rest m), ?m')"
    using brh_read_eq [OF assms, of 1 n] by (simp add: min_def)
  then show "\<exists>k. brh_read 1 n m = Ret (k, brh_read_bytes n m)" "fst (brh_read_bytes n m) = take n (bs_rest m)"
    by (simp_all add: brh_read_bytes_def)
  have "brh_inv ?m'" "take n (bs_rest m) @ bs_rest ?m' = bs_rest m" using brh_read_inv [OF assms eq] by auto
  then have "bs_rest ?m' = drop n (bs_rest m)" by (metis append_take_drop_id same_append_eq)
  with \<open>brh_inv ?m'\<close> eq show "brh_inv (snd (brh_read_bytes n m))" "bs_rest (snd (brh_read_bytes n m)) = drop n (bs_rest m)"
    by (simp_all add: brh_read_bytes_def)
qed

interpretation brh: byte_source brh_read_bytes bs_rest brh_inv
  by unfold_locales (simp_all add: brh_read_bytes_eq)

section \<open>Properties\<close>

text \<open>
  Reading hands out the bytes of the array in order: \<open>n\<close> items of a
  positive size are read as far as whole items are left, the position advances by
  exactly what was read and stays inside the array, the end is reported exactly when
  nothing is left, and the only way to fail is an item size of zero, which panics.
\<close>

lemma byte_read_in_order:
  assumes "brh_inv m"
  shows "(sz > 0 \<longrightarrow> (\<exists>m'. brh_read sz n m =
            Ret (min (length (bs_rest m) div sz) n,
                 take (min (length (bs_rest m) div sz) n * sz) (bs_rest m), m')
          \<and> brh_inv m' \<and> bs_rest m' = drop (min (length (bs_rest m) div sz) n * sz) (bs_rest m)))
    \<and> (brh_read sz n m = Panic \<longleftrightarrow> sz = 0)
    \<and> brh_eof m = Ret (if bs_rest m = [] then 1 else 0)"
proof (intro conjI impI)
  assume "0 < sz"
  let ?ret = "min (length (bs_rest m) div sz) n"
  let ?m' = "m\<lparr>m_data := (m_data m)\<lparr>bs_offset := bs_offset (m_data m) + ?ret * sz\<rparr>\<rparr>"
  have eq: "brh_read sz n m = Ret (?ret, take (?ret * sz) (bs_rest m), ?m')"
    by (rule brh_read_eq [OF assms \<open>0 < sz\<close>])
  moreover have "bs_rest ?m' = drop (?ret * sz) (bs_rest m)" by (simp add: bs_rest_def add.commute)
  ultimately show "\<exists>m'. brh_read sz n m = Ret (?ret, take (?ret * sz) (bs_rest m), m')
      \<and> brh_inv m' \<and> bs_rest m' = drop (?ret * sz) (bs_rest m)"
    using brh_read_inv [OF assms eq] by blast
next
  show "brh_read sz n m = Panic \<longleftrightarrow> sz = 0"
    using brh_read_eq [OF assms, of sz n] assms
    by (cases "sz = 0") (auto simp: brh_read_def outcome_simps brh_inv_def)
  show "brh_eof m = Ret (if bs_rest m = [] then 1 else 0)"
    using assms by (simp add: brh_eof_def outcome_simps brh_inv_def bs_rest_def)
qed

definition seek_target :: "i64 \<Rightarrow> int \<Rightarrow> byte_stream \<Rightarrow> int option" where
  "seek_target offset whence s =
     (let base = (if whence = 0 then Some 0 else if whence = 1 then Some (int (bs_offset s))
                  else if whence = 2 then Some (int (length (bs_bytes s))) else None)
      in case base of
           None \<Rightarrow> None
         | Some b \<Rightarrow> if 0 \<le> b + offset \<and> b + offset \<le> int (length (bs_bytes s)) then Some (b + offset) else None)"

text \<open>
  Seeking follows the C conventions: it goes to the start, the current
  position or the end plus the offset when that lies inside the array (the end
  included) and then reports 0; otherwise, and for an unknown origin, it reports -1
  and the position stays. The position reported afterwards is the new one.
\<close>

lemma byte_seek_target:
  assumes "brh_inv m" "is_i64 offset"
  shows "\<exists>m'. brh_seek offset whence m = Ret (case seek_target offset whence (m_data m) of None \<Rightarrow> - 1 | Some _ \<Rightarrow> 0, m')
    \<and> brh_inv m' \<and> bs_bytes (m_data m') = bs_bytes (m_data m)
    \<and> brh_tell m' = Ret (case seek_target offset whence (m_data m) of None \<Rightarrow> int (bs_offset (m_data m)) | Some p \<Rightarrow> p)"
proof -
  let ?s = "m_data m"
  have inv: "lock_ok m" "bs_offset ?s \<le> length (bs_bytes ?s)" "length (bs_bytes ?s) \<le> 9223372036854775807"
    using assms(1) by (auto simp: brh_inv_def bs_inv_def)
  have pos: "i64_as_usize x = nat x" if "0 \<le> x" "x \<le> 9223372036854775808" for x
    using that by (simp add: i64_as_usize_def)
  have rng: "- 9223372036854775808 \<le> offset" "offset \<le> 9223372036854775807"
    using assms(2) by (auto simp: is_i64_def)
  have add: "usize_add a b = a + b" if "a + b < 18446744073709551616" for a b
    using that by (simp add: usize_add_def)
  have moved: ?thesis
    if "brh_seek offset whence m = Ret (0, m\<lparr>m_data := ?s\<lparr>bs_offset := k\<rparr>\<rparr>)" "k \<le> length (bs_bytes ?s)"
       "seek_target offset whence ?s = Some (int k)" for k
    using that inv by (simp add: brh_inv_def bs_inv_def brh_tell_def outcome_simps)
  have stay: ?thesis if "brh_seek offset whence m = Ret (- 1, m)" "seek_target offset whence ?s = None"
    using that inv assms(1) by (simp add: brh_tell_def outcome_simps)
  consider "whence = 0" | "whence = 1" "offset < 0" | "whence = 1" "0 \<le> offset" | "whence = 2" | "whence \<notin> {0, 1, 2}"
    by fastforce
  then show ?thesis
  proof cases
    case 1
    show ?thesis
    proof (cases "0 \<le> offset \<and> nat offset \<le> length (bs_bytes ?s)")
      case True
      then show ?thesis using 1 rng inv
        by (intro moved [of "nat offset"]) (auto simp: brh_seek_def outcome_simps Let_def pos seek_target_def)
    qed (use 1 rng inv in \<open>intro stay, auto simp: brh_seek_def outcome_simps Let_def pos seek_target_def\<close>)
  next
    case 2
    show ?thesis
    proof (cases "nat (- offset) \<le> bs_offset ?s")
      case True
      then show ?thesis using 2 rng inv
        by (intro moved [of "bs_offset ?s - nat (- offset)"]) (auto simp: brh_seek_def outcome_simps Let_def pos seek_target_def)
    qed (use 2 rng inv in \<open>intro stay, auto simp: brh_seek_def outcome_simps Let_def pos seek_target_def\<close>)
  next
    case 3
    show ?thesis
    proof (cases "nat offset + bs_offset ?s \<le> length (bs_bytes ?s)")
      case True
      then show ?thesis using 3 rng inv
        by (intro moved [of "bs_offset ?s + nat offset"]) (auto simp: brh_seek_def outcome_simps Let_def pos add seek_target_def)
    qed (use 3 rng inv in \<open>intro stay, auto simp: brh_seek_def outcome_simps Let_def pos add seek_target_def\<close>)
  next
    case 4
    show ?thesis
    proof (cases "offset \<le> 0 \<and> nat (- offset) \<le> length (bs_bytes ?s)")
      case True
      then show ?thesis using 4 rng inv
        by (intro moved [of "length (bs_bytes ?s) - nat (- offset)"]) (auto simp: brh_seek_def outcome_simps Let_def pos seek_target_def)
    qed (use 4 rng inv in \<open>intro stay, auto simp: brh_seek_def outcome_simps Let_def pos seek_target_def\<close>)
  next
    case 5
    then show ?thesis using inv by (intro stay) (auto simp: brh_seek_def outcome_simps Let_def seek_target_def)
  qed
qed

end
