(* ===== verification/Stream_Resource_Handler.thy ===== *)
theory Stream_Resource_Handler
  imports Byte_Read_Handler
begin

text \<open>
  \<^verbatim>\<open>cef/src/wrapper/stream_resource_handler.rs\<close>: the resource handler that answers a
  request from a stream. The stream reader belongs to CEF; it is the parameter \<open>rd\<close>,
  one call of \<^verbatim>\<open>stream.read(data, 1, n)\<close>, whose contract is the locale \<open>byte_source\<close>.
  The handler's \<^verbatim>\<open>read\<close> loop is a partial function, so that a loop that does not end
  is the value \<^const>\<open>None\<close>.
\<close>

section \<open>Operations\<close>

type_synonym header_map = "(string \<times> string) list"

record 's stream_resource_handler =
  srh_status_code :: i32
  srh_status_text :: string
  srh_mime_type :: string
  srh_header_map :: "header_map option"
  srh_stream :: "'s option"

text \<open>What \<^verbatim>\<open>response_headers\<close> sets of a response.\<close>

record http_response =
  rs_status :: i32
  rs_status_text :: string
  rs_mime_type :: string
  rs_header_map :: header_map

definition new_with_stream :: "string \<Rightarrow> 's \<Rightarrow> 's stream_resource_handler" where
  "new_with_stream mime_type stream =
     \<lparr>srh_status_code = 200, srh_status_text = ''OK'', srh_mime_type = mime_type,
      srh_header_map = None, srh_stream = Some stream\<rparr>"

definition srh_open :: "'s stream_resource_handler \<Rightarrow> i32 option \<Rightarrow> i32 \<times> i32 option" where
  "srh_open h handle_request = (1, map_option (\<lambda>_. 1) handle_request)"

definition srh_response_headers ::
  "'s stream_resource_handler \<Rightarrow> http_response option \<Rightarrow> i64 option \<Rightarrow> http_response option \<times> i64 option" where
  "srh_response_headers h response response_length =
     (case response of
        None \<Rightarrow> (None, response_length)
      | Some r \<Rightarrow>
          let r = r\<lparr>rs_status := srh_status_code h, rs_status_text := srh_status_text h,
                    rs_mime_type := srh_mime_type h\<rparr>;
              r = (case srh_header_map h of None \<Rightarrow> r | Some header_map \<Rightarrow> r\<lparr>rs_header_map := header_map\<rparr>)
          in (Some r, map_option (\<lambda>_. if srh_stream h \<noteq> None then - 1 else 0) response_length))"

text \<open>The bytes written to the caller's buffer so far are \<open>buf\<close>.\<close>

partial_function (option) srh_read_loop ::
  "(usize \<Rightarrow> 's \<Rightarrow> u8 list \<times> 's) \<Rightarrow> i32 \<Rightarrow> i32 \<Rightarrow> u8 list \<Rightarrow> 's \<Rightarrow> (i32 \<times> u8 list \<times> 's) option" where
  "srh_read_loop rd bytes_to_read bytes_read buf stream =
     (let (chunk, stream') = rd (i64_as_usize (i32_wrap (bytes_to_read - bytes_read))) stream;
          bytes_read' = i32_wrap (bytes_read + i32_wrap (int (length chunk)))
      in if length chunk = 0 \<or> bytes_read' \<ge> bytes_to_read then Some (bytes_read', buf @ chunk, stream')
         else srh_read_loop rd bytes_to_read bytes_read' (buf @ chunk) stream')"

text \<open>
  \<^verbatim>\<open>read\<close>: the result, the new value of \<^verbatim>\<open>*bytes_read\<close> if there is one, the bytes
  written and the handler afterwards.
\<close>

definition srh_read ::
  "(usize \<Rightarrow> 's \<Rightarrow> u8 list \<times> 's) \<Rightarrow> 's stream_resource_handler \<Rightarrow> i32 \<Rightarrow> i32 option
    \<Rightarrow> (i32 \<times> i32 option \<times> u8 list \<times> 's stream_resource_handler) option" where
  "srh_read rd h bytes_to_read bytes_read =
     (if bytes_to_read < 1 then Some (0, bytes_read, [], h)
      else case bytes_read of
        None \<Rightarrow> Some (0, None, [], h)
      | Some _ \<Rightarrow>
          (case srh_stream h of
             None \<Rightarrow> Some (1, Some 0, [], h)
           | Some stream \<Rightarrow>
               map_option
                 (\<lambda>(bytes_read, buf, stream').
                    (if bytes_read > 0 then 1 else 0, Some bytes_read, buf, h\<lparr>srh_stream := Some stream'\<rparr>))
                 (srh_read_loop rd bytes_to_read 0 [] stream)))"

section \<open>The loop ends and fills the buffer\<close>

context byte_source
begin

lemma srh_read_loop_fills:
  assumes "inv s" "0 \<le> br" "br < n" "is_i32 n"
  shows "\<exists>s'. srh_read_loop rd n br buf s =
      Some (br + int (min (nat (n - br)) (length (rest s))), buf @ take (nat (n - br)) (rest s), s')
    \<and> inv s' \<and> rest s' = drop (nat (n - br)) (rest s)"
  using assms
proof (induction "nat (n - br)" arbitrary: br buf s rule: less_induct)
  case less
  let ?k = "nat (n - br)"
  obtain chunk s' where r: "rd ?k s = (chunk, s')" by fastforce
  note laws = rd_rest [OF less.prems(1), of ?k] rd_bound [OF less.prems(1), of ?k]
    rd_inv [OF less.prems(1), of ?k] rd_progress [OF less.prems(1), of ?k]
  have chunk: "chunk @ rest s' = rest s" "length chunk \<le> ?k" "inv s'" "rest s \<noteq> [] \<Longrightarrow> chunk \<noteq> []"
    using laws less.prems by (simp_all add: r)
  have small: "is_i32 (n - br)" "is_i32 (int (length chunk))" "is_i32 (br + int (length chunk))"
    using less.prems chunk(2) by (auto simp: is_i32_def)
  have ask: "i64_as_usize (i32_wrap (n - br)) = ?k"
    using less.prems small by (simp add: i32_wrap_id i64_as_usize_def is_i32_def)
  have unfolded: "srh_read_loop rd n br buf s =
      (if chunk = [] \<or> n \<le> br + int (length chunk) then Some (br + int (length chunk), buf @ chunk, s')
       else srh_read_loop rd n (br + int (length chunk)) (buf @ chunk) s')"
    by (subst srh_read_loop.simps) (unfold ask r, simp add: i32_wrap_id small)
  consider "chunk = []" | "chunk \<noteq> []" "n \<le> br + int (length chunk)" | "chunk \<noteq> []" "br + int (length chunk) < n"
    by linarith
  then show ?case
  proof cases
    case 1
    then have "rest s = []" using chunk(4) by blast
    then show ?thesis using 1 chunk unfolded by simp
  next
    case 2
    then have "length chunk = ?k" using chunk(2) by linarith
    moreover have "take ?k (rest s) = chunk" "drop ?k (rest s) = rest s'" "?k \<le> length (rest s)"
      unfolding chunk(1) [symmetric] by (simp_all flip: \<open>length chunk = ?k\<close>)
    ultimately show ?thesis using 2 chunk(3) unfolded by simp
  next
    case 3
    let ?br = "br + int (length chunk)"
    have "nat (n - ?br) < ?k" "0 \<le> ?br" using 3 less.prems by auto
    then obtain s'' where s'': "srh_read_loop rd n ?br (buf @ chunk) s' =
        Some (?br + int (min (nat (n - ?br)) (length (rest s'))), (buf @ chunk) @ take (nat (n - ?br)) (rest s'), s'')"
      "inv s''" "rest s'' = drop (nat (n - ?br)) (rest s')"
      using less.hyps [of ?br s' "buf @ chunk"] chunk(3) 3 less.prems by blast
    have k: "?k = length chunk + nat (n - ?br)" using 3 less.prems by linarith
    have "take ?k (rest s) = chunk @ take (nat (n - ?br)) (rest s')"
        "drop ?k (rest s) = drop (nat (n - ?br)) (rest s')" "length (rest s) = length chunk + length (rest s')"
      unfolding chunk(1) [symmetric] by (simp_all add: k)
    then show ?thesis using s'' 3 unfolded by (simp add: k)
  qed
qed

lemma srh_read_fills:
  assumes "srh_stream h = Some s" "inv s" "1 \<le> n" "is_i32 n"
  shows "\<exists>s'. srh_read rd h n (Some b) =
      Some (if rest s = [] then 0 else 1, Some (int (min (nat n) (length (rest s)))),
            take (nat n) (rest s), h\<lparr>srh_stream := Some s'\<rparr>)
    \<and> inv s' \<and> rest s' = drop (nat n) (rest s)"
  using srh_read_loop_fills [OF assms(2), of 0 n "[]"] assms
  by (auto simp: srh_read_def)

end

section \<open>Reading a whole body\<close>

text \<open>How CEF drains a handler: one \<^verbatim>\<open>read\<close> after the other with buffers of the given sizes.\<close>

fun srh_drain ::
  "(usize \<Rightarrow> 's \<Rightarrow> u8 list \<times> 's) \<Rightarrow> 's stream_resource_handler \<Rightarrow> i32 list
    \<Rightarrow> ((i32 \<times> u8 list) list \<times> 's stream_resource_handler) option" where
  "srh_drain rd h [] = Some ([], h)"
| "srh_drain rd h (n # ns) =
     (case srh_read rd h n (Some 0) of
        None \<Rightarrow> None
      | Some (ret, _, bytes, h') \<Rightarrow>
          map_option (\<lambda>(reads, h''). ((ret, bytes) # reads, h'')) (srh_drain rd h' ns))"

context byte_source
begin

lemma srh_drain_in_order:
  assumes "srh_stream h = Some s" "inv s" "\<forall>n\<in>set ns. 1 \<le> n \<and> is_i32 n"
  shows "\<exists>reads s'. srh_drain rd h ns = Some (reads, h\<lparr>srh_stream := Some s'\<rparr>)
    \<and> concat (map snd reads) = take (\<Sum>n\<leftarrow>ns. nat n) (rest s)
    \<and> (\<forall>(ret, bytes)\<in>set reads. ret = (if bytes = [] then 0 else 1))
    \<and> inv s' \<and> rest s' = drop (\<Sum>n\<leftarrow>ns. nat n) (rest s)"
  using assms
proof (induction ns arbitrary: h s)
  case (Cons n ns)
  have n: "1 \<le> n" "is_i32 n" using Cons.prems(3) by auto
  obtain s' where s': "srh_read rd h n (Some 0) =
      Some (if rest s = [] then 0 else 1, Some (int (min (nat n) (length (rest s)))),
            take (nat n) (rest s), h\<lparr>srh_stream := Some s'\<rparr>)" "inv s'" "rest s' = drop (nat n) (rest s)"
    using srh_read_fills [OF Cons.prems(1,2) n] by blast
  have "\<forall>n\<in>set ns. 1 \<le> n \<and> is_i32 n" using Cons.prems(3) by simp
  then obtain reads s'' where "srh_drain rd (h\<lparr>srh_stream := Some s'\<rparr>) ns = Some (reads, h\<lparr>srh_stream := Some s''\<rparr>)"
      "concat (map snd reads) = take (\<Sum>n\<leftarrow>ns. nat n) (rest s')"
      "\<forall>(ret, bytes)\<in>set reads. ret = (if bytes = [] then 0 else 1)"
      "inv s''" "rest s'' = drop (\<Sum>n\<leftarrow>ns. nat n) (rest s')"
    using Cons.IH [of "h\<lparr>srh_stream := Some s'\<rparr>" s'] s' by auto
  with s' n show ?case by (auto simp: take_add add.commute)
next
  case Nil
  have "h = h\<lparr>srh_stream := Some s\<rparr>" using Nil.prems(1) by (cases h) simp
  then show ?case using Nil.prems(2) by auto
qed

end

lemma new_with_stream_drains:
  assumes "length bytes \<le> 9223372036854775807" "\<forall>n\<in>set ns. 1 \<le> n \<and> is_i32 n"
  shows "\<exists>reads h'. srh_drain brh_read_bytes (new_with_stream mime (mutex_new (bs_new bytes))) ns = Some (reads, h')
    \<and> concat (map snd reads) = take (\<Sum>n\<leftarrow>ns. nat n) bytes
    \<and> (\<forall>(ret, bytes)\<in>set reads. ret = (if bytes = [] then 0 else 1))"
proof -
  have "bs_rest (mutex_new (bs_new bytes)) = bytes" by (simp add: bs_rest_def bs_new_def)
  then show ?thesis
    using brh.srh_drain_in_order [OF _ brh_inv_new [OF assms(1)] assms(2),
        of "new_with_stream mime (mutex_new (bs_new bytes))"]
    by (fastforce simp: new_with_stream_def)
qed

text \<open>
  Property C33. A handler over bytes in memory answers 200 OK with the given MIME type
  and an unknown length, and its body is those bytes: whatever positive buffer sizes
  they are read with, every read ends, the reads hand out the bytes in order and as
  many as the buffers have room for, each read reports 1 when it hands out something
  and 0 at the end of the body.
\<close>

theorem stream_body_in_order:
  assumes "length bytes \<le> 9223372036854775807" "\<forall>n\<in>set ns. 1 \<le> n \<and> is_i32 n"
  shows "let h = new_with_stream mime (mutex_new (bs_new bytes)) in srh_open h (Some 0) = (1, Some 1)
    \<and> srh_response_headers h (Some r) (Some 0) =
        (Some (r\<lparr>rs_status := 200, rs_status_text := ''OK'', rs_mime_type := mime\<rparr>), Some (- 1))
    \<and> (\<exists>reads h'. srh_drain brh_read_bytes h ns = Some (reads, h')
        \<and> concat (map snd reads) = take (\<Sum>n\<leftarrow>ns. nat n) bytes
        \<and> (\<forall>(ret, bytes)\<in>set reads. ret = (if bytes = [] then 0 else 1)))"
  using new_with_stream_drains [OF assms]
  by (simp add: Let_def new_with_stream_def srh_open_def srh_response_headers_def)

theorem stream_body_in_order_witness:
  "\<exists>reads h'. srh_drain brh_read_bytes (new_with_stream ''text/html'' (mutex_new (bs_new [1, 2, 3]))) [2, 2, 2] = Some (reads, h')
     \<and> concat (map snd reads) = [1, 2, 3]"
  using stream_body_in_order [of "[1, 2, 3]" "[2, 2, 2]" "''text/html''"
      "\<lparr>rs_status = 0, rs_status_text = [], rs_mime_type = [], rs_header_map = []\<rparr>"]
  by (auto simp: is_i32_def Let_def)

end
