(* ===== verification/Zip_Archive.thy ===== *)
theory Zip_Archive
  imports Stream_Resource_Handler "HOL-Library.Char_ord" "HOL-Library.List_Lexorder"
begin

text \<open>
  \<^verbatim>\<open>cef/src/wrapper/zip_archive.rs\<close>: an archive loaded into memory, a map from lower-case
  names to contents behind a mutex. The zip reader belongs to CEF: its methods are the
  fields of \<open>zip_api\<close>, with the documented behaviour as the predicate \<open>zip_laws\<close>.
  Unicode lower-casing is the field \<open>za_lower\<close>. The loop of \<^verbatim>\<open>load\<close> is a partial function,
  so that a \<^verbatim>\<open>load\<close> that does not return is the value \<^const>\<open>None\<close>.
\<close>

section \<open>Operations\<close>

record zip_file =
  zf_data :: "u8 list"

type_synonym file_map = "(string, zip_file mutex) btree"

record zip_archive =
  za_contents :: "file_map mutex"

record ('st, 'r) zip_api =
  za_create :: "'st \<Rightarrow> 'r option"
  za_file_size :: "'r \<Rightarrow> i64"
  za_file_name :: "'r \<Rightarrow> string"
  za_open_file :: "string \<Rightarrow> 'r \<Rightarrow> i32 \<times> 'r"
  za_eof :: "'r \<Rightarrow> i32"
  za_read_file :: "usize \<Rightarrow> 'r \<Rightarrow> i32 \<times> u8 list \<times> 'r"
  za_close_file :: "'r \<Rightarrow> 'r"
  za_move_to_next_file :: "'r \<Rightarrow> i32 \<times> 'r"
  za_lower :: "string \<Rightarrow> string"

definition zip_archive_default :: zip_archive where
  "zip_archive_default = \<lparr>za_contents = mutex_new []\<rparr>"

text \<open>\<^verbatim>\<open>ZipFile::stream_reader\<close>; \<open>create\<close> is \<^verbatim>\<open>stream_reader_create_for_handler\<close>.\<close>

definition zf_stream_reader :: "(byte_stream mutex \<Rightarrow> 's option) \<Rightarrow> zip_file \<Rightarrow> 's option" where
  "zf_stream_reader create f = create (mutex_new (bs_new (zf_data f)))"

text \<open>
  The inner loop of \<^verbatim>\<open>load\<close>. The chunk is a zeroed vector that the reader writes to, and
  cutting it at more than its length panics.
\<close>

function load_data :: "('st, 'r) zip_api \<Rightarrow> usize \<Rightarrow> u8 list \<Rightarrow> 'r \<Rightarrow> (u8 list \<times> 'r) outcome" where
  "load_data api sz dat reader =
     (if length dat < sz \<and> za_eof api reader = 0 then
        let n = sz - length dat;
            (rd, bytes, reader') = za_read_file api n reader;
            chunk = take n (bytes @ replicate n 0)
        in if rd \<le> 0 then Ret (dat, reader')
           else if nat rd > n then Panic
           else load_data api sz (dat @ take (nat rd) chunk) reader'
      else Ret (dat, reader))"
  by pat_completeness auto

termination
  by (relation "measure (\<lambda>(api, sz, dat, reader). sz - length dat)") (auto simp: min_def intro!: diff_less_mono2)

declare load_data.simps [simp del]

partial_function (option) load_loop ::
  "('st, 'r) zip_api \<Rightarrow> string \<Rightarrow> bool \<Rightarrow> usize \<Rightarrow> file_map \<Rightarrow> 'r \<Rightarrow> (usize \<times> file_map) outcome option" where
  "load_loop api password overwrite_existing count contents reader =
     (let sz = za_file_size api reader
      in if sz \<le> 0 then load_loop api password overwrite_existing count contents reader
         else let (opened, reader) = za_open_file api password reader
         in if opened = 0 then Some (Ret (count, contents))
         else let name = za_lower api (za_file_name api reader)
         in if bt_get name contents \<noteq> None \<and> \<not> overwrite_existing
            then load_loop api password overwrite_existing count contents reader
         else let contents = bt_remove name contents
         in case load_data api (nat sz) [] reader of
              Blocked \<Rightarrow> Some Blocked
            | Panic \<Rightarrow> Some Panic
            | Ret (dat, reader) \<Rightarrow>
                let reader = za_close_file api reader;
                    contents = bt_insert name (mutex_new \<lparr>zf_data = dat\<rparr>) contents;
                    (more, reader) = za_move_to_next_file api reader
                in if more = 0 then Some (Ret (count + 1, contents))
                   else load_loop api password overwrite_existing (count + 1) contents reader)"

definition za_load ::
  "('st, 'r) zip_api \<Rightarrow> 'st \<Rightarrow> string \<Rightarrow> bool \<Rightarrow> zip_archive \<Rightarrow> (usize \<times> zip_archive) outcome option" where
  "za_load api stream password overwrite_existing za =
     (case lock_result (za_contents za) of
        Blocked \<Rightarrow> Some Blocked
      | Panic \<Rightarrow> Some Panic
      | Ret None \<Rightarrow> Some (Ret (0, za))
      | Ret (Some contents) \<Rightarrow>
          (case za_create api stream of
             None \<Rightarrow> Some (Ret (0, za))
           | Some reader \<Rightarrow>
               map_option
                 (\<lambda>res. bind_outcome res
                    (\<lambda>(count, contents). Ret (count, za\<lparr>za_contents := (za_contents za)\<lparr>m_data := contents\<rparr>\<rparr>)))
                 (load_loop api password overwrite_existing 0 contents reader)))"

definition za_clear :: "zip_archive \<Rightarrow> zip_archive outcome" where
  "za_clear za =
     with_lock (za_contents za) (\<lambda>_. Ret (za\<lparr>za_contents := (za_contents za)\<lparr>m_data := []\<rparr>\<rparr>)) (Ret za)"

definition za_file_count :: "zip_archive \<Rightarrow> usize outcome" where
  "za_file_count za = with_lock (za_contents za) (\<lambda>contents. Ret (length contents)) (Ret 0)"

definition za_file :: "string \<Rightarrow> zip_archive \<Rightarrow> zip_file mutex option outcome" where
  "za_file name za = with_lock (za_contents za) (\<lambda>contents. Ret (bt_get name contents)) (Ret None)"

definition za_remove_file :: "string \<Rightarrow> zip_archive \<Rightarrow> (bool \<times> zip_archive) outcome" where
  "za_remove_file name za =
     with_lock (za_contents za)
       (\<lambda>contents. Ret (bt_get name contents \<noteq> None,
                        za\<lparr>za_contents := (za_contents za)\<lparr>m_data := bt_remove name contents\<rparr>\<rparr>))
       (Ret (False, za))"

definition za_files :: "zip_archive \<Rightarrow> file_map outcome" where
  "za_files za = with_lock (za_contents za) Ret (Ret [])"

section \<open>The zip reader's documented behaviour\<close>

text \<open>
  A reader stands on the first of the entries that are left; \<open>pos\<close> is the number of
  bytes read of an opened entry. Entries open with the password; a read hands out a
  non-empty prefix of what is left of the entry, no more than asked for, and reports
  its length; the end of an entry is reported when all of it is read.
\<close>

type_synonym zip_entries = "(string \<times> u8 list) list"

definition zip_laws ::
  "('st, 'r) zip_api \<Rightarrow> string \<Rightarrow> ('r \<Rightarrow> zip_entries) \<Rightarrow> ('r \<Rightarrow> nat) \<Rightarrow> bool" where
  "zip_laws api password entries pos \<longleftrightarrow>
     (\<forall>r name dat es. entries r = (name, dat) # es \<longrightarrow>
        za_file_size api r = int (length dat) \<and> za_file_name api r = name
        \<and> (\<exists>r'. za_open_file api password r = (1, r') \<and> entries r' = entries r \<and> pos r' = 0)
        \<and> (pos r < length dat \<longrightarrow> za_eof api r = 0)
        \<and> (\<forall>n>0. pos r < length dat \<longrightarrow>
             (\<exists>k r'. 0 < k \<and> k \<le> n \<and> pos r + k \<le> length dat
                \<and> za_read_file api n r = (int k, take k (drop (pos r) dat), r')
                \<and> entries r' = entries r \<and> pos r' = pos r + k))
        \<and> entries (za_close_file api r) = entries r
        \<and> (\<exists>rc r'. za_move_to_next_file api r = (rc, r') \<and> (rc = 0 \<longleftrightarrow> es = []) \<and> entries r' = es))"

lemma zip_lawsD:
  assumes "zip_laws api password entries pos" "entries r = (name, dat) # es"
  shows "za_file_size api r = int (length dat)" "za_file_name api r = name"
    "\<exists>r'. za_open_file api password r = (1, r') \<and> entries r' = (name, dat) # es \<and> pos r' = 0"
    "pos r < length dat \<Longrightarrow> za_eof api r = 0"
    "0 < n \<Longrightarrow> pos r < length dat \<Longrightarrow>
       \<exists>k r'. 0 < k \<and> k \<le> n \<and> pos r + k \<le> length dat
          \<and> za_read_file api n r = (int k, take k (drop (pos r) dat), r')
          \<and> entries r' = (name, dat) # es \<and> pos r' = pos r + k"
    "entries (za_close_file api r) = (name, dat) # es"
    "\<exists>rc r'. za_move_to_next_file api r = (rc, r') \<and> (rc = 0 \<longleftrightarrow> es = []) \<and> entries r' = es"
  using assms(1) [unfolded zip_laws_def, THEN spec, THEN spec, THEN spec, THEN spec, THEN mp, OF assms(2)]
  unfolding assms(2) by blast+

lemma load_data_complete:
  assumes "zip_laws api password entries pos" "entries r = (name, dat) # es" "pos r \<le> length dat"
  shows "\<exists>r'. load_data api (length dat) (take (pos r) dat) r = Ret (dat, r') \<and> entries r' = (name, dat) # es"
  using assms(2,3)
proof (induction "length dat - pos r" arbitrary: r rule: less_induct)
  case less
  show ?case
  proof (cases "pos r < length dat")
    case False
    then show ?thesis using less.prems by (simp add: load_data.simps)
  next
    case True
    then obtain k r' where k: "0 < k" "k \<le> length dat - pos r" "pos r + k \<le> length dat"
        "za_read_file api (length dat - pos r) r = (int k, take k (drop (pos r) dat), r')"
        "entries r' = (name, dat) # es" "pos r' = pos r + k"
      using zip_lawsD(5) [OF assms(1) less.prems(1), of "length dat - pos r"] by auto
    have "length (take k (drop (pos r) dat)) = k" using k(2) by simp
    then have "load_data api (length dat) (take (pos r) dat) r = load_data api (length dat) (take (pos r') dat) r'"
      using True zip_lawsD(4) [OF assms(1) less.prems(1) True] k
      by (subst load_data.simps) (simp add: take_add)
    then show ?thesis using less.hyps [of r'] k True by auto
  qed
qed

section \<open>Loading\<close>

text \<open>What a complete load leaves: every entry under its lower-case name, later entries last.\<close>

definition store_entries :: "(string \<Rightarrow> string) \<Rightarrow> zip_entries \<Rightarrow> file_map \<Rightarrow> file_map" where
  "store_entries lower es contents =
     foldl (\<lambda>c (name, dat). bt_insert (lower name) (mutex_new \<lparr>zf_data = dat\<rparr>) (bt_remove (lower name) c)) contents es"

definition loadable :: "(string \<Rightarrow> string) \<Rightarrow> bool \<Rightarrow> zip_entries \<Rightarrow> file_map \<Rightarrow> bool" where
  "loadable lower overwrite es contents \<longleftrightarrow>
     es \<noteq> [] \<and> (\<forall>(name, dat)\<in>set es. dat \<noteq> [])
     \<and> (overwrite \<or> distinct (map (lower \<circ> fst) es) \<and> (\<forall>(name, dat)\<in>set es. bt_get (lower name) contents = None))"

lemma loadable_tl:
  assumes "loadable lower ow ((name, dat) # es) contents" "es \<noteq> []"
  shows "loadable lower ow es (bt_insert (lower name) f (bt_remove (lower name) contents))"
proof -
  have "lower name' \<noteq> lower name" if "\<not> ow" "(name', dat') \<in> set es" for name' dat'
  proof -
    from that(2) have "lower name' \<in> set (map (lower \<circ> fst) es)" by force
    moreover have "lower name \<notin> set (map (lower \<circ> fst) es)" using assms(1) that(1) by (simp add: loadable_def)
    ultimately show ?thesis by metis
  qed
  with assms show ?thesis by (auto simp: loadable_def bt_simps)
qed

lemma load_loop_step:
  assumes laws: "zip_laws api password entries pos" and r: "entries r = (name, dat) # es"
    and ok: "dat \<noteq> []" "ow \<or> bt_get (za_lower api name) contents = None"
  defines "contents' \<equiv> bt_insert (za_lower api name) (mutex_new \<lparr>zf_data = dat\<rparr>) (bt_remove (za_lower api name) contents)"
  shows "\<exists>r'. entries r' = es \<and> load_loop api password ow count contents r =
     (if es = [] then Some (Ret (count + 1, contents'))
      else load_loop api password ow (count + 1) contents' r')"
proof -
  obtain r1 where r1: "za_open_file api password r = (1, r1)" "entries r1 = (name, dat) # es" "pos r1 = 0"
    using zip_lawsD(3) [OF laws r] by blast
  obtain r2 where r2: "load_data api (length dat) [] r1 = Ret (dat, r2)" "entries r2 = (name, dat) # es"
    using load_data_complete [OF laws r1(2)] r1(3) by auto
  obtain rc r3 where r3: "za_move_to_next_file api (za_close_file api r2) = (rc, r3)" "rc = 0 \<longleftrightarrow> es = []" "entries r3 = es"
    using zip_lawsD(7) [OF laws zip_lawsD(6) [OF laws r2(2)]] by blast
  have "load_loop api password ow count contents r =
     (if es = [] then Some (Ret (count + 1, contents'))
      else load_loop api password ow (count + 1) contents' r3)"
    using ok zip_lawsD(1) [OF laws r] zip_lawsD(2) [OF laws r1(2)] r1(1) r2(1) r3(1,2)
    by (subst load_loop.simps) (auto simp: contents'_def Let_def)
  with r3(3) show ?thesis by blast
qed

lemma load_loop_complete:
  assumes "zip_laws api password entries pos"
  shows "entries r = es \<Longrightarrow> loadable (za_lower api) ow es contents \<Longrightarrow>
    load_loop api password ow count contents r =
      Some (Ret (count + length es, store_entries (za_lower api) es contents))"
proof (induction es arbitrary: r count contents)
  case Nil
  then show ?case by (simp add: loadable_def)
next
  case (Cons e es)
  obtain name dat where e: "e = (name, dat)" by fastforce
  let ?c = "bt_insert (za_lower api name) (mutex_new \<lparr>zf_data = dat\<rparr>) (bt_remove (za_lower api name) contents)"
  have "dat \<noteq> []" "ow \<or> bt_get (za_lower api name) contents = None"
    using Cons.prems(2) by (auto simp: e loadable_def)
  then obtain r' where r': "entries r' = es" "load_loop api password ow count contents r =
     (if es = [] then Some (Ret (count + 1, ?c)) else load_loop api password ow (count + 1) ?c r')"
    using load_loop_step [OF assms] Cons.prems(1) e by blast
  show ?case
  proof (cases "es = []")
    case False
    then show ?thesis
      using Cons.IH [OF r'(1) loadable_tl [OF Cons.prems(2) [unfolded e] False]] r'(2)
      by (simp add: e store_entries_def)
  qed (use r'(2) in \<open>simp add: e store_entries_def\<close>)
qed

lemma load_loop_prefix:
  assumes "zip_laws api password entries pos" "rest \<noteq> []"
  shows "entries r = pre @ rest \<Longrightarrow> pre = [] \<or> loadable (za_lower api) ow pre contents \<Longrightarrow>
    \<exists>r'. entries r' = rest \<and> load_loop api password ow count contents r =
      load_loop api password ow (count + length pre) (store_entries (za_lower api) pre contents) r'"
proof (induction pre arbitrary: r count contents)
  case Nil
  then show ?case by (auto simp: store_entries_def)
next
  case (Cons e es)
  obtain name dat where e: "e = (name, dat)" by fastforce
  let ?c = "bt_insert (za_lower api name) (mutex_new \<lparr>zf_data = dat\<rparr>) (bt_remove (za_lower api name) contents)"
  have ok: "loadable (za_lower api) ow ((name, dat) # es) contents" using Cons.prems(2) e by simp
  then have "dat \<noteq> []" "ow \<or> bt_get (za_lower api name) contents = None" by (auto simp: loadable_def)
  then obtain r' where r': "entries r' = es @ rest"
      "load_loop api password ow count contents r = load_loop api password ow (count + 1) ?c r'"
    using load_loop_step [OF assms(1), of r name dat "es @ rest" ow contents count] Cons.prems(1) assms(2)
    by (auto simp: e)
  moreover have "es = [] \<or> loadable (za_lower api) ow es ?c" using loadable_tl [OF ok] by blast
  ultimately obtain r'' where "entries r'' = rest" "load_loop api password ow count contents r =
      load_loop api password ow (count + 1 + length es) (store_entries (za_lower api) es ?c) r''"
    using Cons.IH [OF r'(1), of ?c "count + 1"] by metis
  then show ?case by (auto simp: e store_entries_def)
qed

lemma load_loop_empty_stuck: "za_file_size api r \<le> 0 \<Longrightarrow> load_loop api password ow count contents r = None"
proof (rule ccontr)
  assume "za_file_size api r \<le> 0" "load_loop api password ow count contents r \<noteq> None"
  then obtain y where "load_loop api password ow count contents r = Some y" by blast
  then have "za_file_size api r > 0"
  proof (rule load_loop.raw_induct [where P = "\<lambda>api _ _ _ _ r _. za_file_size api r > 0", rotated], goal_cases)
    case (1 f api password ow count contents r y)
    then show ?case by (cases "za_file_size api r \<le> 0") (auto simp: Let_def)
  qed
  with \<open>za_file_size api r \<le> 0\<close> show False by simp
qed

lemma load_loop_existing_stuck:
  assumes "zip_laws api password entries pos" "entries r = (name, dat) # es"
    "bt_get (za_lower api name) contents \<noteq> None"
  shows "load_loop api password False count contents r = None"
proof (rule ccontr)
  assume "load_loop api password False count contents r \<noteq> None"
  then obtain y where "load_loop api password False count contents r = Some y" by blast
  then have "\<not> (zip_laws api password entries pos \<and> entries r = (name, dat) # es
      \<and> bt_get (za_lower api name) contents \<noteq> None \<and> \<not> False)"
  proof (rule load_loop.raw_induct [where P = "\<lambda>api password ow count contents r y.
      \<not> (zip_laws api password entries pos \<and> entries r = (name, dat) # es
        \<and> bt_get (za_lower api name) contents \<noteq> None \<and> \<not> ow)", rotated], goal_cases)
    case (1 f api password ow count contents r y)
    show ?case
    proof
      assume asm: "zip_laws api password entries pos \<and> entries r = (name, dat) # es
        \<and> bt_get (za_lower api name) contents \<noteq> None \<and> \<not> ow"
      then have laws: "zip_laws api password entries pos" "entries r = (name, dat) # es" by simp_all
      obtain r' where r': "za_open_file api password r = (1, r')" "entries r' = (name, dat) # es"
        using zip_lawsD(3) [OF laws] by blast
      have facts: "za_file_name api r' = name" "\<exists>y. bt_get (za_lower api name) contents = Some y" "ow = False"
        using asm zip_lawsD(2) [OF laws(1) r'(2)] by auto
      have "f api password ow count contents r = Some y \<or> f api password ow count contents r' = Some y"
        using 1(2) by (cases "za_file_size api r \<le> 0") (simp_all add: Let_def r'(1) facts)
      moreover have "zip_laws api password entries pos \<and> entries r' = (name, dat) # es
          \<and> bt_get (za_lower api name) contents \<noteq> None \<and> \<not> ow" using asm r'(2) by simp
      ultimately show False using asm 1(1) by metis
    qed
  qed
  with assms show False by blast
qed

lemma bt_get_store_entries:
  "bt_get n (store_entries lower es contents) =
    (case map_of (rev (map (\<lambda>(name, dat). (lower name, mutex_new \<lparr>zf_data = dat\<rparr>)) es)) n of
       None \<Rightarrow> bt_get n contents | Some f \<Rightarrow> Some f)"
  by (induction es arbitrary: contents)
    (auto simp: store_entries_def bt_simps map_add_def split: option.splits)

lemma bt_wf_store_entries: "bt_wf contents \<Longrightarrow> bt_wf (store_entries lower es contents)"
  by (induction es arbitrary: contents) (auto simp: store_entries_def intro!: bt_intros)

section \<open>Properties\<close>

text \<open>A reader over a list of entries, which hands out at most two bytes at a time.\<close>

definition list_zip :: "(string \<Rightarrow> string) \<Rightarrow> (zip_entries, zip_entries \<times> nat) zip_api" where
  "list_zip lower =
     \<lparr>za_create = (\<lambda>es. Some (es, 0)),
      za_file_size = (\<lambda>(es, k). int (length (snd (hd es)))),
      za_file_name = (\<lambda>(es, k). fst (hd es)),
      za_open_file = (\<lambda>pw (es, k). (1, (es, 0))),
      za_eof = (\<lambda>(es, k). if k < length (snd (hd es)) then 0 else 1),
      za_read_file = (\<lambda>n (es, k).
        let m = min (min n 2) (length (snd (hd es)) - k)
        in (int m, take m (drop k (snd (hd es))), (es, k + m))),
      za_close_file = (\<lambda>r. r),
      za_move_to_next_file = (\<lambda>(es, k). (if tl es = [] then 0 else 1, (tl es, 0))),
      za_lower = lower\<rparr>"

lemma list_zip_laws: "zip_laws (list_zip lower) pw fst snd"
  unfolding zip_laws_def
proof (intro allI impI, goal_cases)
  case (1 r name dat es)
  then obtain k where r: "r = ((name, dat) # es, k)" by (cases r) auto
  have read: "\<exists>k' r'. 0 < k' \<and> k' \<le> n \<and> snd r + k' \<le> length dat
      \<and> za_read_file (list_zip lower) n r = (int k', take k' (drop (snd r) dat), r')
      \<and> fst r' = fst r \<and> snd r' = snd r + k'" if "0 < n" "snd r < length dat" for n
    using that unfolding r
    by (intro exI [of _ "min (min n 2) (length dat - k)"]
        exI [of _ "((name, dat) # es, k + min (min n 2) (length dat - k))"])
      (auto simp: list_zip_def Let_def)
  show ?case by (intro conjI allI impI read) (simp_all add: r list_zip_def)
qed

text \<open>
  Property C34. Loading an archive all of whose entries are non-empty (and, when existing
  files are to be kept, have names that are new) returns: with the number of entries,
  and with every entry stored under its lower-case name with its whole contents, a later
  entry replacing an earlier one of the same name; other files stay. A file found is
  found under its lower-case name only, since the lookup does not change the case.
\<close>

theorem archive_load_complete:
  assumes "zip_laws api password entries pos" "lock_ok (za_contents za)"
    "za_create api stream = Some r" "loadable (za_lower api) ow (entries r) (m_data (za_contents za))"
  shows "\<exists>za'. za_load api stream password ow za = Some (Ret (length (entries r), za'))
    \<and> lock_ok (za_contents za')
    \<and> (bt_wf (m_data (za_contents za)) \<longrightarrow> bt_wf (m_data (za_contents za')))
    \<and> (\<forall>n. za_file n za' =
          Ret (case map_of (rev (map (\<lambda>(name, dat). (za_lower api name, mutex_new \<lparr>zf_data = dat\<rparr>)) (entries r))) n of
                 None \<Rightarrow> bt_get n (m_data (za_contents za)) | Some f \<Rightarrow> Some f))"
proof -
  let ?c = "store_entries (za_lower api) (entries r) (m_data (za_contents za))"
  let ?za = "za\<lparr>za_contents := (za_contents za)\<lparr>m_data := ?c\<rparr>\<rparr>"
  have "za_load api stream password ow za = Some (Ret (length (entries r), ?za))"
    using load_loop_complete [OF assms(1) refl assms(4), of 0] assms(2,3) by (simp add: za_load_def outcome_simps)
  moreover have "za_file n ?za = Ret (bt_get n ?c)" for n
    using assms(2) by (simp add: za_file_def outcome_simps)
  ultimately show ?thesis using assms(2)
    by (intro exI [of _ ?za]) (simp add: bt_get_store_entries bt_wf_store_entries)
qed

theorem archive_load_complete_witness:
  "\<exists>za'. za_load (list_zip (\<lambda>n. n)) [(''a'', [1, 2, 3]), (''b'', [4])] [] True zip_archive_default = Some (Ret (2, za'))
     \<and> za_file ''a'' za' = Ret (Some (mutex_new \<lparr>zf_data = [1, 2, 3]\<rparr>)) \<and> za_file ''c'' za' = Ret None"
proof -
  let ?es = "[(''a'', [1, 2, 3]), (''b'', [4])] :: zip_entries"
  have "lock_ok (za_contents zip_archive_default)" "za_create (list_zip (\<lambda>n. n)) ?es = Some (?es, 0)"
      "loadable (za_lower (list_zip (\<lambda>n. n))) True (fst (?es, 0 :: nat)) (m_data (za_contents zip_archive_default))"
    by (simp_all add: zip_archive_default_def list_zip_def loadable_def)
  from archive_load_complete [OF list_zip_laws this, of "[]"] obtain za' where
      "za_load (list_zip (\<lambda>n. n)) ?es [] True zip_archive_default = Some (Ret (2, za'))"
      "\<forall>n. za_file n za' = Ret (case map_of (rev (map (\<lambda>(name, dat). (za_lower (list_zip (\<lambda>n. n)) name, mutex_new \<lparr>zf_data = dat\<rparr>)) ?es)) n of
         None \<Rightarrow> bt_get n (m_data (za_contents zip_archive_default)) | Some f \<Rightarrow> Some f)"
    by (auto simp: numeral_2_eq_2)
  then show ?thesis
    by (intro exI [of _ za']) (simp add: zip_archive_default_def list_zip_def bt_simps)
qed

text \<open>
  Loading does not return when, after entries that load, it reaches an empty
  file or a directory, or, when existing files are to be kept, a name the archive has
  already: the loop goes round without moving to the next entry.
\<close>

lemma archive_load_stuck:
  assumes "zip_laws api password entries pos" "lock_ok (za_contents za)"
    "za_create api stream = Some r" "entries r = pre @ (name, dat) # post"
    "pre = [] \<or> loadable (za_lower api) ow pre (m_data (za_contents za))"
    "dat = [] \<or> \<not> ow \<and> bt_get (za_lower api name) (store_entries (za_lower api) pre (m_data (za_contents za))) \<noteq> None"
  shows "za_load api stream password ow za = None"
proof -
  let ?c = "store_entries (za_lower api) pre (m_data (za_contents za))"
  obtain r' where r': "entries r' = (name, dat) # post"
      "load_loop api password ow 0 (m_data (za_contents za)) r = load_loop api password ow (length pre) ?c r'"
    using load_loop_prefix [OF assms(1) _ assms(4,5), of 0] by auto
  have "load_loop api password ow (length pre) ?c r' = None"
    using assms(6)
  proof
    assume "dat = []"
    then show ?thesis using zip_lawsD(1) [OF assms(1) r'(1)] by (simp add: load_loop_empty_stuck)
  qed (use load_loop_existing_stuck [OF assms(1) r'(1)] in auto)
  with r'(2) assms(2,3) show ?thesis by (simp add: za_load_def outcome_simps)
qed

definition za_map :: "zip_archive \<Rightarrow> string \<Rightarrow> zip_file mutex option" where
  "za_map za name = bt_get name (m_data (za_contents za))"

lemma za_map_eq: "za_map za = map_of (m_data (za_contents za))"
  by (simp add: fun_eq_iff za_map_def bt_get_def)

lemma za_map_card: "bt_wf (m_data (za_contents za)) \<Longrightarrow> card (dom (za_map za)) = length (m_data (za_contents za))"
  by (simp add: za_map_eq dom_map_of_conv_image_fst bt_wf_def strict_sorted_iff)
    (metis distinct_card length_map list.set_map)

text \<open>
  The archive is a finite map from names to files: removing a file reports
  whether it was there and takes exactly it out, clearing takes out all, the count is the
  number of names, and the listing is the map in ascending order of the names.
\<close>

lemma archive_refines_map:
  assumes "lock_ok (za_contents za)" "bt_wf (m_data (za_contents za))"
  shows "za_file name za = Ret (za_map za name)
    \<and> (\<exists>za'. za_remove_file name za = Ret (za_map za name \<noteq> None, za') \<and> za_map za' = (za_map za)(name := None)
          \<and> lock_ok (za_contents za') \<and> bt_wf (m_data (za_contents za')))
    \<and> (\<exists>za'. za_clear za = Ret za' \<and> za_map za' = Map.empty
          \<and> lock_ok (za_contents za') \<and> bt_wf (m_data (za_contents za')))
    \<and> za_file_count za = Ret (card (dom (za_map za)))
    \<and> (\<exists>fs. za_files za = Ret fs \<and> sorted_wrt (<) (map fst fs) \<and> map_of fs = za_map za)"
  (is "?file \<and> ?remove \<and> ?clear \<and> ?count \<and> ?files")
proof (intro conjI)
  show ?file using assms by (simp add: za_file_def za_map_def outcome_simps)
  have "za_map (za\<lparr>za_contents := (za_contents za)\<lparr>m_data := bt_remove name (m_data (za_contents za))\<rparr>\<rparr>) =
      (za_map za)(name := None)"
    by (simp add: fun_eq_iff za_map_def bt_simps)
  then show ?remove using assms
    by (simp add: za_remove_file_def za_map_def outcome_simps bt_wf_remove)
  show ?clear using assms by (simp add: za_clear_def za_map_def fun_eq_iff outcome_simps bt_simps)
  show ?count using assms by (simp add: za_file_count_def za_map_card outcome_simps)
  show ?files using assms by (simp add: za_files_def za_map_eq bt_wf_def outcome_simps)
qed

end
