(* ===== verification/Resource_Urls.thy ===== *)
theory Resource_Urls
  imports Prelude
begin

text \<open>
  The URL helpers at the end of \<^verbatim>\<open>cef/src/wrapper/resource_manager.rs\<close>, with what they
  use of \<^verbatim>\<open>str\<close> and of \<^verbatim>\<open>PathBuf\<close> (a path as on Unix: a text whose separator is a
  slash). A text is the list of its bytes.
\<close>

section \<open>Text and paths of the standard library\<close>

fun str_split :: "(char \<Rightarrow> bool) \<Rightarrow> string \<Rightarrow> string list" where
  "str_split sep [] = [[]]"
| "str_split sep (c # cs) =
     (if sep c then [] # str_split sep cs
      else case str_split sep cs of [] \<Rightarrow> [[c]] | s # ss \<Rightarrow> (c # s) # ss)"

definition starts_with :: "string \<Rightarrow> string \<Rightarrow> bool" where
  "starts_with s p \<longleftrightarrow> take (length p) s = p"

definition strip_prefix :: "string \<Rightarrow> string \<Rightarrow> string option" where
  "strip_prefix s p = (if starts_with s p then Some (drop (length p) s) else None)"

definition trim_end_matches :: "char \<Rightarrow> string \<Rightarrow> string" where
  "trim_end_matches c s = rev (dropWhile (\<lambda>x. x = c) (rev s))"

text \<open>\<^verbatim>\<open>PathBuf::push\<close>: an absolute path replaces, a relative one follows a separator.\<close>

definition path_push :: "string \<Rightarrow> string \<Rightarrow> string" where
  "path_push base p =
     (if starts_with p ''/'' then p
      else if base \<noteq> [] \<and> last base \<noteq> CHR ''/'' then base @ ''/'' @ p
      else base @ p)"

section \<open>The helpers\<close>

definition get_url_without_query_or_fragment :: "string \<Rightarrow> string" where
  "get_url_without_query_or_fragment url =
     (case str_split (\<lambda>c. c \<in> {CHR ''?'', CHR ''#''}) url of [] \<Rightarrow> url | s # _ \<Rightarrow> s)"

text \<open>\<open>mime\<close> is \<^verbatim>\<open>crate::get_mime_type\<close> of CEF.\<close>

definition get_mime_type :: "(string \<Rightarrow> string) \<Rightarrow> string \<Rightarrow> string" where
  "get_mime_type mime url =
     (let url = get_url_without_query_or_fragment url
      in case rev (str_split (\<lambda>c. c = CHR ''.'') url) of [] \<Rightarrow> ''text/html'' | extension # _ \<Rightarrow> mime extension)"

definition get_filtered_url :: "string \<Rightarrow> string" where
  "get_filtered_url url = url"

definition normalize_url_path :: "string \<Rightarrow> string" where
  "normalize_url_path url_path = trim_end_matches (CHR ''/'') url_path @ ''/''"

definition get_file_relative_path :: "string \<Rightarrow> string \<Rightarrow> string \<Rightarrow> string option" where
  "get_file_relative_path base_path url_path url =
     map_option (\<lambda>rest. foldl path_push base_path (str_split (\<lambda>c. c = CHR ''/'') rest)) (strip_prefix url url_path)"

section \<open>What they compute\<close>

lemma str_split_neq_Nil [simp]: "str_split sep s \<noteq> []"
  by (cases s) (auto split: list.splits)

lemma hd_str_split: "hd (str_split sep s) = takeWhile (\<lambda>c. \<not> sep c) s"
  by (induction s) (auto split: list.splits)

lemma last_str_split: "last (str_split sep s) = rev (takeWhile (\<lambda>c. \<not> sep c) (rev s))"
proof (induction s)
  case (Cons c s)
  show ?case
  proof (cases "sep c")
    case False
    obtain t ts where ts: "str_split sep s = t # ts" using str_split_neq_Nil by (meson neq_Nil_conv)
    show ?thesis
    proof (cases "ts = []")
      case True
      then have "\<forall>x\<in>set s. \<not> sep x" using ts
      proof (induction s arbitrary: t)
        case (Cons x xs)
        then show ?case by (auto split: if_splits list.splits)
      qed simp
      then have all: "takeWhile (\<lambda>c. \<not> sep c) (rev s) = rev s" "takeWhile (\<lambda>c. \<not> sep c) (rev s @ [c]) = rev s @ [c]"
        using False by (simp_all add: takeWhile_eq_all_conv takeWhile_append2)
      then have "t = s" using Cons ts True by (simp only: all) simp
      then show ?thesis unfolding rev.simps all using ts True False by simp
    next
      case nonempty: False
      then have "\<exists>x\<in>set s. sep x" using ts
      proof (induction s arbitrary: t ts)
        case (Cons x xs)
        then show ?case by (cases "sep x") (auto split: list.splits)
      qed simp
      then show ?thesis using Cons ts nonempty False by (auto simp: takeWhile_append1)
    qed
  qed (use Cons in \<open>auto simp: takeWhile_append\<close>)
qed simp

lemma str_split_no_sep: "t \<in> set (str_split sep s) \<Longrightarrow> c \<in> set t \<Longrightarrow> \<not> sep c"
  by (induction s arbitrary: t) (fastforce split: if_splits list.splits)+

lemma str_split_join: "concat (map (\<lambda>s. c # s) (str_split (\<lambda>x. x = c) s)) = c # s"
  by (induction s) (auto split: list.splits)

lemma get_url_without_query_or_fragment_eq:
  "get_url_without_query_or_fragment url = takeWhile (\<lambda>c. c \<noteq> CHR ''?'' \<and> c \<noteq> CHR ''#'') url"
  using hd_str_split [of "\<lambda>c. c \<in> {CHR ''?'', CHR ''#''}" url]
  by (auto simp: get_url_without_query_or_fragment_def split: list.splits)

lemma get_mime_type_eq:
  "get_mime_type mime url =
     mime (rev (takeWhile (\<lambda>c. c \<noteq> CHR ''.'') (rev (takeWhile (\<lambda>c. c \<noteq> CHR ''?'' \<and> c \<noteq> CHR ''#'') url))))"
proof -
  let ?u = "get_url_without_query_or_fragment url"
  have "rev (str_split (\<lambda>c. c = CHR ''.'') ?u) \<noteq> []" by simp
  then obtain t ts where t: "rev (str_split (\<lambda>c. c = CHR ''.'') ?u) = t # ts" by (meson neq_Nil_conv)
  then have "last (str_split (\<lambda>c. c = CHR ''.'') ?u) = t" by (metis hd_rev list.sel(1))
  then show ?thesis using t by (simp add: get_mime_type_def last_str_split get_url_without_query_or_fragment_eq)
qed

lemma trim_end_matches_last: "trim_end_matches c s = [] \<or> last (trim_end_matches c s) \<noteq> c"
  by (metis (full_types) dropWhile_eq_Nil_conv hd_dropWhile last_rev rev_is_Nil_conv trim_end_matches_def)

lemma normalize_url_path_idem: "normalize_url_path (normalize_url_path u) = normalize_url_path u"
proof -
  have "trim_end_matches c (trim_end_matches c s @ [c]) = trim_end_matches c s" for c s
    by (simp add: trim_end_matches_def)
  then show ?thesis by (simp add: normalize_url_path_def)
qed

lemma path_push_segment:
  assumes "base \<noteq> []" "last base \<noteq> CHR ''/''" "s \<noteq> []" "CHR ''/'' \<notin> set s"
  shows "path_push base s = base @ CHR ''/'' # s" "last (path_push base s) \<noteq> CHR ''/''"
proof -
  have "hd s \<noteq> CHR ''/''" "last s \<noteq> CHR ''/''" using assms(3,4) by (metis hd_in_set last_in_set)+
  then show "path_push base s = base @ CHR ''/'' # s" "last (path_push base s) \<noteq> CHR ''/''"
    using assms by (cases s; simp add: path_push_def starts_with_def)+
qed

lemma foldl_path_push:
  assumes "base \<noteq> []" "last base \<noteq> CHR ''/''" "\<forall>s\<in>set segs. s \<noteq> [] \<and> CHR ''/'' \<notin> set s"
  shows "foldl path_push base segs = base @ concat (map (\<lambda>s. CHR ''/'' # s) segs)"
  using assms
proof (induction segs arbitrary: base)
  case (Cons s segs)
  then show ?case using path_push_segment [of base s] Cons.IH [of "path_push base s"] by simp
qed simp

text \<open>
  The path of a file: what follows the URL path, below the base path.
\<close>

lemma get_file_relative_path_prefix:
  assumes "base = [] \<or> last base \<noteq> CHR ''/''" "[] \<notin> set (str_split (\<lambda>c. c = CHR ''/'') rest)"
  shows "get_file_relative_path base p (p @ rest) = Some (if base = [] then rest else base @ ''/'' @ rest)"
proof -
  let ?segs = "str_split (\<lambda>c. c = CHR ''/'') rest"
  have segs: "\<forall>s\<in>set ?segs. s \<noteq> [] \<and> CHR ''/'' \<notin> set s"
    using assms(2) str_split_no_sep [of _ "\<lambda>c. c = CHR ''/''" rest] by metis
  have "foldl path_push base ?segs = (if base = [] then rest else base @ ''/'' @ rest)"
  proof (cases "base = []")
    case True
    obtain s ss where s: "?segs = s # ss" using str_split_neq_Nil by (meson neq_Nil_conv)
    with segs have ok: "s \<noteq> []" "CHR ''/'' \<notin> set s" "\<forall>s\<in>set ss. s \<noteq> [] \<and> CHR ''/'' \<notin> set s" by simp_all
    then have "hd s \<noteq> CHR ''/''" "last s \<noteq> CHR ''/''" by (metis hd_in_set last_in_set)+
    then have "path_push [] s = s" by (cases s) (simp_all add: path_push_def starts_with_def)
    then show ?thesis
      using True s str_split_join [of "CHR ''/''" rest] foldl_path_push [OF ok(1) \<open>last s \<noteq> CHR ''/''\<close> ok(3)] by simp
  next
    case False
    then show ?thesis using foldl_path_push [OF False _ segs] assms(1) str_split_join [of "CHR ''/''" rest] by simp
  qed
  then show ?thesis by (simp add: get_file_relative_path_def strip_prefix_def starts_with_def)
qed

lemma get_file_relative_path_None:
  "get_file_relative_path base p url = None \<longleftrightarrow> \<not> starts_with url p"
  by (simp add: get_file_relative_path_def strip_prefix_def)

end
