(* ===== verification/Resource_Manager.thy ===== *)
theory Resource_Manager
  imports Zip_Archive Resource_Urls
begin

text \<open>
  \<^verbatim>\<open>cef/src/wrapper/resource_manager.rs\<close>: the manager of resource providers, its requests,
  the content, directory and archive providers, and the tasks they post.

  The state (\<open>rm_world\<close>) is one manager behind its mutex with everything the manager,
  the providers and the tasks share: the requests and the archive provider states
  behind their mutexes, the tasks posted to the IO and the FILE thread in the order they
  run, and the callbacks that were continued. A \<^verbatim>\<open>Weak<Mutex<ResourceManager>>\<close> is
  \<open>w_manager_alive\<close>, an \<^verbatim>\<open>Arc<Mutex<ResourceManagerRequest>>\<close> is the number of the request;
  dropping the last such reference drops the request and with it its state, which
  continues the callback (\<^verbatim>\<open>impl Drop for RequestState\<close>). Methods with \<^verbatim>\<open>&mut self\<close> of the
  manager run while their caller holds the manager's lock. The streams, the zip reader,
  the MIME table and providers of the application are fields of \<open>rm_env\<close>. A loop that
  does not end is the value \<^const>\<open>None\<close>.
\<close>

section \<open>State\<close>

record cef_request =
  cr_identifier :: nat
  cr_url :: string

record request_params =
  pm_url :: string
  pm_browser :: nat
  pm_frame :: nat
  pm_request :: cef_request
  pm_url_filter :: "string \<Rightarrow> string"
  pm_mime_type_resolver :: "string \<Rightarrow> string"

record request_state =
  st_callback :: "nat option"
  st_current_entry :: usize
  st_current_request :: usize
  st_params :: request_params

record manager_request =
  rq_state :: "request_state option"
  rq_params :: request_params

record archive_provider_state =
  ap_url_path :: string
  ap_archive_path :: string
  ap_password :: string
  ap_load_started :: bool
  ap_load_ended :: bool
  ap_archive :: "zip_archive option"
  ap_pending_requests :: "nat list"

text \<open>A provider: content of a URL, a directory, the archive of a number, or one of the application.\<close>

datatype provider =
    ContentProvider string string string
  | DirectoryProvider string string
  | ArchiveProvider nat
  | CustomProvider nat

record provider_entry =
  pe_provider :: "provider option"
  pe_order :: i32
  pe_identifier :: string
  pe_pending_requests :: "nat list"
  pe_deletion_pending :: bool

record 's resource_manager =
  mg_providers :: "provider_entry list"
  mg_pending_handlers :: "(nat, 's stream_resource_handler) btree"
  mg_mime_type_resolver :: "string \<Rightarrow> string"
  mg_url_filter :: "string \<Rightarrow> string"

datatype 's rm_task =
    ContinueRequest "request_state option mutex" "'s stream_resource_handler option"
  | StopRequest "request_state option mutex"
  | OpenFileRequest string nat
  | ContinueFileRequest 's nat
  | OpenZipRequest nat
  | ContinueZipRequest nat
  | AddProvider "provider option mutex" i32 string
  | RemoveProviders string
  | RemoveAllProviders
  | SetUrlFilter "(string \<Rightarrow> string) option option mutex"
  | SetMimeTypeResolver "(string \<Rightarrow> string) option option mutex"

record 's rm_world =
  w_manager :: "'s resource_manager mutex"
  w_manager_alive :: bool
  w_requests :: "(nat, manager_request mutex) btree"
  w_next_request :: nat
  w_archives :: "(nat, archive_provider_state mutex) btree"
  w_next_archive :: nat
  w_io_tasks :: "'s rm_task list"
  w_file_tasks :: "'s rm_task list"
  w_continued :: "nat list"

record ('s, 'r) rm_env =
  ev_stream_for_data :: "u8 list \<Rightarrow> 's option"
  ev_stream_for_file :: "string \<Rightarrow> 's option"
  ev_stream_for_handler :: "byte_stream mutex \<Rightarrow> 's option"
  ev_zip :: "('s, 'r) zip_api"
  ev_mime :: "string \<Rightarrow> string"
  ev_on_request :: "nat \<Rightarrow> nat \<Rightarrow> 's rm_world \<Rightarrow> (bool \<times> 's rm_world) outcome"
  ev_on_request_canceled :: "nat \<Rightarrow> nat \<Rightarrow> 's rm_world \<Rightarrow> 's rm_world outcome"

definition resource_manager_new :: "('s, 'r) rm_env \<Rightarrow> 's resource_manager mutex" where
  "resource_manager_new env =
     mutex_new \<lparr>mg_providers = [], mg_pending_handlers = [],
                mg_mime_type_resolver = get_mime_type (ev_mime env), mg_url_filter = get_filtered_url\<rparr>"

definition rm_world_new :: "('s, 'r) rm_env \<Rightarrow> 's rm_world" where
  "rm_world_new env =
     \<lparr>w_manager = resource_manager_new env, w_manager_alive = True, w_requests = [], w_next_request = 0,
      w_archives = [], w_next_archive = 0, w_io_tasks = [], w_file_tasks = [], w_continued = []\<rparr>"

section \<open>Access\<close>

abbreviation the_manager :: "'s rm_world \<Rightarrow> 's resource_manager" where
  "the_manager w \<equiv> m_data (w_manager w)"

abbreviation providers :: "'s rm_world \<Rightarrow> provider_entry list" where
  "providers w \<equiv> mg_providers (the_manager w)"

definition set_manager :: "'s resource_manager \<Rightarrow> 's rm_world \<Rightarrow> 's rm_world" where
  "set_manager m w = w\<lparr>w_manager := (w_manager w)\<lparr>m_data := m\<rparr>\<rparr>"

definition set_providers :: "provider_entry list \<Rightarrow> 's rm_world \<Rightarrow> 's rm_world" where
  "set_providers ps w = set_manager ((the_manager w)\<lparr>mg_providers := ps\<rparr>) w"

definition hold_manager :: "'s rm_world \<Rightarrow> 's rm_world" where
  "hold_manager w = w\<lparr>w_manager := acquire (w_manager w)\<rparr>"

definition free_manager :: "'s rm_world \<Rightarrow> 's rm_world" where
  "free_manager w = w\<lparr>w_manager := release (m_data (w_manager w)) (w_manager w)\<rparr>"

text \<open>\<^verbatim>\<open>post_task\<close> to the two threads.\<close>

definition post_io :: "'s rm_task \<Rightarrow> 's rm_world \<Rightarrow> 's rm_world" where
  "post_io t w = w\<lparr>w_io_tasks := w_io_tasks w @ [t]\<rparr>"

definition post_file :: "'s rm_task \<Rightarrow> 's rm_world \<Rightarrow> 's rm_world" where
  "post_file t w = w\<lparr>w_file_tasks := w_file_tasks w @ [t]\<rparr>"

text \<open>
  Locking a request. A reference keeps its request, so the number is always that of a
  request; the case without one does not arise.
\<close>

definition with_request :: "nat \<Rightarrow> 's rm_world \<Rightarrow> (manager_request \<Rightarrow> 'b outcome) \<Rightarrow> 'b outcome \<Rightarrow> 'b outcome" where
  "with_request i w ok err = (case bt_get i (w_requests w) of None \<Rightarrow> Panic | Some m \<Rightarrow> with_lock m ok err)"

definition change_request ::
  "nat \<Rightarrow> (manager_request mutex \<Rightarrow> manager_request mutex) \<Rightarrow> 's rm_world \<Rightarrow> 's rm_world" where
  "change_request i f w =
     (case bt_get i (w_requests w) of None \<Rightarrow> w | Some m \<Rightarrow> w\<lparr>w_requests := bt_insert i (f m) (w_requests w)\<rparr>)"

definition put_request :: "nat \<Rightarrow> manager_request \<Rightarrow> 's rm_world \<Rightarrow> 's rm_world" where
  "put_request i rq = change_request i (\<lambda>m. m\<lparr>m_data := rq\<rparr>)"

definition hold_request :: "nat \<Rightarrow> 's rm_world \<Rightarrow> 's rm_world" where
  "hold_request i = change_request i acquire"

definition free_request :: "nat \<Rightarrow> 's rm_world \<Rightarrow> 's rm_world" where
  "free_request i = change_request i (\<lambda>m. release (m_data m) m)"

definition put_archive :: "nat \<Rightarrow> archive_provider_state \<Rightarrow> 's rm_world \<Rightarrow> 's rm_world" where
  "put_archive i st w =
     (case bt_get i (w_archives w) of
        None \<Rightarrow> w
      | Some m \<Rightarrow> w\<lparr>w_archives := bt_insert i (m\<lparr>m_data := st\<rparr>) (w_archives w)\<rparr>)"

section \<open>Dropping\<close>

definition drop_state :: "request_state \<Rightarrow> 's rm_world \<Rightarrow> 's rm_world" where
  "drop_state st w =
     (case st_callback st of None \<Rightarrow> w | Some callback \<Rightarrow> w\<lparr>w_continued := w_continued w @ [callback]\<rparr>)"

fun task_requests :: "'s rm_task \<Rightarrow> nat list" where
  "task_requests (OpenFileRequest _ i) = [i]"
| "task_requests (ContinueFileRequest _ i) = [i]"
| "task_requests _ = []"

definition references :: "'s rm_world \<Rightarrow> nat list" where
  "references w =
     concat (map task_requests (w_io_tasks w @ w_file_tasks w))
     @ concat (map (\<lambda>(_, a). ap_pending_requests (m_data a)) (w_archives w))
     @ concat (map pe_pending_requests (providers w))"

text \<open>An \<^verbatim>\<open>Arc\<close> of a request goes: the last one takes the request with it.\<close>

definition drop_request :: "nat \<Rightarrow> 's rm_world \<Rightarrow> 's rm_world" where
  "drop_request i w =
     (if i \<in> set (references w) then w
      else case bt_get i (w_requests w) of
        None \<Rightarrow> w
      | Some m \<Rightarrow>
          let w' = w\<lparr>w_requests := bt_remove i (w_requests w)\<rparr>
          in (case rq_state (m_data m) of None \<Rightarrow> w' | Some st \<Rightarrow> drop_state st w'))"

definition drop_requests :: "nat list \<Rightarrow> 's rm_world \<Rightarrow> 's rm_world" where
  "drop_requests is w = foldl (\<lambda>w i. drop_request i w) w is"

text \<open>The state of an archive provider is owned by the provider alone; tasks have it weakly.\<close>

fun drop_provider :: "provider option \<Rightarrow> 's rm_world \<Rightarrow> 's rm_world" where
  "drop_provider (Some (ArchiveProvider i)) w =
     (case bt_get i (w_archives w) of
        None \<Rightarrow> w
      | Some m \<Rightarrow> drop_requests (ap_pending_requests (m_data m)) (w\<lparr>w_archives := bt_remove i (w_archives w)\<rparr>))"
| "drop_provider _ w = w"

definition drop_entry :: "provider_entry \<Rightarrow> 's rm_world \<Rightarrow> 's rm_world" where
  "drop_entry e w = drop_requests (pe_pending_requests e) (drop_provider (pe_provider e) w)"

section \<open>Requests\<close>

definition rq_continue_request ::
  "'s stream_resource_handler option \<Rightarrow> manager_request \<Rightarrow> 's rm_world \<Rightarrow> manager_request \<times> 's rm_world" where
  "rq_continue_request handler rq w =
     (case rq_state rq of
        None \<Rightarrow> (rq, w)
      | Some st \<Rightarrow> (rq\<lparr>rq_state := None\<rparr>, post_io (ContinueRequest (mutex_new (Some st)) handler) w))"

definition rq_stop_request :: "manager_request \<Rightarrow> 's rm_world \<Rightarrow> manager_request \<times> 's rm_world" where
  "rq_stop_request rq w =
     (case rq_state rq of
        None \<Rightarrow> (rq, w)
      | Some st \<Rightarrow> (rq\<lparr>rq_state := None\<rparr>, post_io (StopRequest (mutex_new (Some st))) w))"

section \<open>Providers\<close>

definition content_on_request ::
  "('s, 'r) rm_env \<Rightarrow> string \<Rightarrow> string \<Rightarrow> string \<Rightarrow> nat \<Rightarrow> 's rm_world \<Rightarrow> (bool \<times> 's rm_world) outcome" where
  "content_on_request env url content mime_type i w =
     with_request i w
       (\<lambda>rq.
          if pm_url (rq_params rq) \<noteq> url then Ret (False, w)
          else case ev_stream_for_data env (map of_char content) of
            None \<Rightarrow> Ret (False, w)
          | Some stream \<Rightarrow>
              let mime_type = (if mime_type = [] then mime_type else pm_mime_type_resolver (rq_params rq) url);
                  (rq, w) = rq_continue_request (Some (new_with_stream mime_type stream)) rq w
              in Ret (True, put_request i rq w))
       (Ret (False, w))"

definition directory_on_request ::
  "string \<Rightarrow> string \<Rightarrow> nat \<Rightarrow> 's rm_world \<Rightarrow> (bool \<times> 's rm_world) outcome" where
  "directory_on_request url_path directory_path i w =
     with_request i w
       (\<lambda>rq.
          let url = pm_url (rq_params rq)
          in if \<not> starts_with url url_path then Ret (False, w)
             else case get_file_relative_path directory_path url_path url of
               None \<Rightarrow> Ret (False, w)
             | Some file_path \<Rightarrow> Ret (True, post_file (OpenFileRequest file_path i) w))
       (Ret (False, w))"

definition ap_new :: "string \<Rightarrow> string \<Rightarrow> string \<Rightarrow> archive_provider_state mutex" where
  "ap_new url_path archive_path password =
     mutex_new \<lparr>ap_url_path = normalize_url_path url_path, ap_archive_path = archive_path, ap_password = password,
                ap_load_started = False, ap_load_ended = False, ap_archive = None, ap_pending_requests = []\<rparr>"

definition ap_continue_request ::
  "('s, 'r) rm_env \<Rightarrow> archive_provider_state \<Rightarrow> nat \<Rightarrow> 's rm_world \<Rightarrow> (bool \<times> 's rm_world) outcome" where
  "ap_continue_request env st i w =
     with_request i w
       (\<lambda>rq.
          let url = pm_url (rq_params rq)
          in case (ap_archive st, get_file_relative_path [] (ap_url_path st) url) of
               (Some archive, Some relative_path) \<Rightarrow>
                 bind_outcome (za_file relative_path archive)
                   (\<lambda>file. case file of
                      None \<Rightarrow> Ret (False, w)
                    | Some file \<Rightarrow>
                        with_lock file
                          (\<lambda>file. case zf_stream_reader (ev_stream_for_handler env) file of
                             None \<Rightarrow> Ret (False, w)
                           | Some stream \<Rightarrow>
                               let handler = new_with_stream (pm_mime_type_resolver (rq_params rq) url) stream;
                                   (rq, w) = rq_continue_request (Some handler) rq w
                               in Ret (True, put_request i rq w))
                          (Ret (False, w)))
             | _ \<Rightarrow> Ret (False, w))
       (Ret (False, w))"

text \<open>
  The archive provider locks its state and the request and keeps both locks until it
  returns; a loaded archive makes it call \<^verbatim>\<open>continue_request\<close>, which locks the request
  again.
\<close>

definition archive_on_request ::
  "('s, 'r) rm_env \<Rightarrow> nat \<Rightarrow> nat \<Rightarrow> 's rm_world \<Rightarrow> (bool \<times> 's rm_world) outcome" where
  "archive_on_request env a i w =
     (case (bt_get a (w_archives w), bt_get i (w_requests w)) of
        (Some am, Some rm) \<Rightarrow>
          if m_held am \<or> m_held rm then Blocked
          else if m_poisoned am \<or> m_poisoned rm then Ret (False, w)
          else
            let st = m_data am
            in if \<not> starts_with (pm_url (rq_params (m_data rm))) (ap_url_path st) then Ret (False, w)
               else if \<not> ap_load_started st then
                 Ret (True, post_file (OpenZipRequest a)
                        (put_archive a (st\<lparr>ap_load_started := True, ap_pending_requests := ap_pending_requests st @ [i]\<rparr>) w))
               else if ap_load_started st \<and> \<not> ap_load_ended st then
                 Ret (True, put_archive a (st\<lparr>ap_pending_requests := ap_pending_requests st @ [i]\<rparr>) w)
               else
                 bind_outcome (ap_continue_request env st i (hold_request i w))
                   (\<lambda>(handled, w). Ret (handled, free_request i w))
      | _ \<Rightarrow> Panic)"

definition on_request ::
  "('s, 'r) rm_env \<Rightarrow> provider \<Rightarrow> nat \<Rightarrow> 's rm_world \<Rightarrow> (bool \<times> 's rm_world) outcome" where
  "on_request env p i w =
     (case p of
        ContentProvider url content mime_type \<Rightarrow> content_on_request env url content mime_type i w
      | DirectoryProvider url_path directory_path \<Rightarrow> directory_on_request url_path directory_path i w
      | ArchiveProvider a \<Rightarrow> archive_on_request env a i w
      | CustomProvider c \<Rightarrow> ev_on_request env c i w)"

definition on_request_canceled ::
  "('s, 'r) rm_env \<Rightarrow> provider option \<Rightarrow> nat \<Rightarrow> 's rm_world \<Rightarrow> 's rm_world outcome" where
  "on_request_canceled env p i w =
     (case p of Some (CustomProvider c) \<Rightarrow> ev_on_request_canceled env c i w | _ \<Rightarrow> Ret w)"

text \<open>
  \<^verbatim>\<open>ResourceManagerRequest::send_request\<close>: the caller holds the lock of the request.
\<close>

definition take_state :: "nat \<Rightarrow> 's rm_world \<Rightarrow> request_state option \<times> 's rm_world" where
  "take_state i w =
     (case bt_get i (w_requests w) of
        None \<Rightarrow> (None, w)
      | Some m \<Rightarrow> (rq_state (m_data m), put_request i ((m_data m)\<lparr>rq_state := None\<rparr>) w))"

definition rq_send_request ::
  "('s, 'r) rm_env \<Rightarrow> nat \<Rightarrow> 's rm_world \<Rightarrow> (request_state option \<times> 's rm_world) outcome" where
  "rq_send_request env i w =
     (case map_option (\<lambda>m. rq_state (m_data m)) (bt_get i (w_requests w)) of
        Some (Some st) \<Rightarrow>
          if \<not> w_manager_alive w then Ret (take_state i w)
          else with_lock (w_manager w)
            (\<lambda>m.
               if st_current_entry st < length (mg_providers m) then
                 (case pe_provider (mg_providers m ! st_current_entry st) of
                    None \<Rightarrow> Ret (take_state i w)
                  | Some provider \<Rightarrow>
                      bind_outcome (on_request env provider i (hold_manager w))
                        (\<lambda>(handled, w). if handled then Ret (None, free_manager w)
                                        else Ret (take_state i (free_manager w))))
               else Ret (take_state i w))
            (Ret (take_state i w))
      | _ \<Rightarrow> Ret (None, w))"

section \<open>The manager\<close>

definition vec_remove :: "usize \<Rightarrow> 'a list \<Rightarrow> 'a list" where
  "vec_remove i xs = take i xs @ drop (Suc i) xs"

text \<open>
  \<^verbatim>\<open>partition_point\<close> of a sequence whose elements with the property come first, as the
  entries in ascending order do.
\<close>

definition partition_point :: "('a \<Rightarrow> bool) \<Rightarrow> 'a list \<Rightarrow> usize" where
  "partition_point p xs = length (takeWhile p xs)"

definition mg_add_provider :: "bool \<Rightarrow> provider \<Rightarrow> i32 \<Rightarrow> string \<Rightarrow> 's rm_world \<Rightarrow> 's rm_world" where
  "mg_add_provider on_io p order identifier w =
     (if \<not> on_io then post_io (AddProvider (mutex_new (Some p)) order identifier) w
      else
        let e = \<lparr>pe_provider = Some p, pe_order = order, pe_identifier = identifier,
                 pe_pending_requests = [], pe_deletion_pending = False\<rparr>
        in if providers w = [] then set_providers (providers w @ [e]) w
           else
             let index = partition_point (\<lambda>entry. pe_order entry < order) (providers w)
             in set_providers (take index (providers w) @ [e] @ drop index (providers w)) w)"

definition add_content_provider ::
  "bool \<Rightarrow> string \<Rightarrow> string \<Rightarrow> string \<Rightarrow> i32 \<Rightarrow> string \<Rightarrow> 's rm_world \<Rightarrow> 's rm_world" where
  "add_content_provider on_io url content mime_type order identifier w =
     mg_add_provider on_io (ContentProvider url content mime_type) order identifier w"

definition add_directory_provider ::
  "bool \<Rightarrow> string \<Rightarrow> string \<Rightarrow> i32 \<Rightarrow> string \<Rightarrow> 's rm_world \<Rightarrow> 's rm_world" where
  "add_directory_provider on_io url_path directory_path order identifier w =
     mg_add_provider on_io (DirectoryProvider (normalize_url_path url_path) directory_path) order identifier w"

definition add_archive_provider ::
  "bool \<Rightarrow> string \<Rightarrow> string \<Rightarrow> string \<Rightarrow> i32 \<Rightarrow> string \<Rightarrow> 's rm_world \<Rightarrow> 's rm_world" where
  "add_archive_provider on_io url_path archive_path password order identifier w =
     (let a = w_next_archive w
      in mg_add_provider on_io (ArchiveProvider a) order identifier
           (w\<lparr>w_archives := bt_insert a (ap_new url_path archive_path password) (w_archives w),
              w_next_archive := Suc a\<rparr>))"

definition remove_entry :: "usize \<Rightarrow> 's rm_world \<Rightarrow> 's rm_world" where
  "remove_entry i w =
     (if i < length (providers w) then drop_entry (providers w ! i) (set_providers (vec_remove i (providers w)) w)
      else w)"

definition get_next_valid_provider :: "usize \<Rightarrow> 's rm_world \<Rightarrow> usize" where
  "get_next_valid_provider current w =
     (case List.find (\<lambda>i. \<not> pe_deletion_pending (providers w ! i)) [current..<length (providers w)] of
        None \<Rightarrow> length (providers w)
      | Some i \<Rightarrow> i)"

definition detach_request_from_provider :: "request_state \<Rightarrow> 's rm_world \<Rightarrow> request_state \<times> 's rm_world" where
  "detach_request_from_provider st w =
     (let i = st_current_entry st; k = st_current_request st
      in if i < length (providers w) then
           let entry = providers w ! i;
               pending = pe_pending_requests entry;
               entry' = entry\<lparr>pe_pending_requests := vec_remove k pending\<rparr>;
               w = set_providers ((providers w)[i := entry']) w;
               w = (if k < length pending then drop_request (pending ! k) w else w);
               w = (if pe_deletion_pending entry' \<and> pe_pending_requests entry' = [] then remove_entry i w else w)
           in (st\<lparr>st_current_entry := length (providers w)\<rparr>, w)
         else (st, w))"

definition increment_provider :: "request_state \<Rightarrow> 's rm_world \<Rightarrow> bool \<times> request_state \<times> 's rm_world" where
  "increment_provider st w =
     (let next_entry = get_next_valid_provider (st_current_entry st) w;
          (st, w) = detach_request_from_provider st w
      in if next_entry < length (providers w) then (True, st\<lparr>st_current_entry := next_entry\<rparr>, w)
         else (False, st, w))"

definition mg_stop_request :: "request_state \<Rightarrow> 's rm_world \<Rightarrow> 's rm_world" where
  "mg_stop_request st w = (let (st, w) = detach_request_from_provider st w in drop_state st w)"

definition new_request :: "request_state \<Rightarrow> 's rm_world \<Rightarrow> nat \<times> 's rm_world" where
  "new_request st w =
     (w_next_request w,
      w\<lparr>w_requests := bt_insert (w_next_request w)
          (mutex_new \<lparr>rq_state = Some st, rq_params = st_params st\<rparr>) (w_requests w),
        w_next_request := Suc (w_next_request w)\<rparr>)"

partial_function (option) mg_send_request ::
  "('s, 'r) rm_env \<Rightarrow> request_state \<Rightarrow> 's rm_world \<Rightarrow> (bool \<times> 's rm_world) outcome option" where
  "mg_send_request env st w =
     (let (i, w) = new_request st w
      in case rq_send_request env i (hold_request i w) of
           Blocked \<Rightarrow> Some Blocked
         | Panic \<Rightarrow> Some Panic
         | Ret (None, w) \<Rightarrow> Some (Ret (True, drop_request i (free_request i w)))
         | Ret (Some next, w) \<Rightarrow>
             let (more, next, w) = increment_provider next w
             in if more then mg_send_request env next (drop_request i (free_request i w))
                else Some (Ret (False, drop_request i (free_request i (mg_stop_request next w)))))"

definition mg_continue_request ::
  "('s, 'r) rm_env \<Rightarrow> request_state \<Rightarrow> 's stream_resource_handler option \<Rightarrow> 's rm_world \<Rightarrow> 's rm_world outcome option" where
  "mg_continue_request env st handler w =
     (case handler of
        Some handler \<Rightarrow>
          let m = the_manager w;
              m = m\<lparr>mg_pending_handlers := bt_insert (cr_identifier (pm_request (st_params st))) handler (mg_pending_handlers m)\<rparr>
          in Some (Ret (mg_stop_request st (set_manager m w)))
      | None \<Rightarrow>
          let (more, st, w) = increment_provider st w
          in if more then map_option (\<lambda>res. bind_outcome res (\<lambda>(_, w). Ret w)) (mg_send_request env st w)
             else Some (Ret (mg_stop_request st w)))"

fun cancel_pending_requests ::
  "('s, 'r) rm_env \<Rightarrow> provider option \<Rightarrow> bool \<Rightarrow> nat list \<Rightarrow> 's rm_world \<Rightarrow> 's rm_world outcome" where
  "cancel_pending_requests env p stop [] w = Ret w"
| "cancel_pending_requests env p stop (i # is) w =
     bind_outcome
       (with_request i w
          (\<lambda>rq.
             if rq_state rq = None then Ret w
             else
               let (rq, w) = (if stop then rq_stop_request rq w else rq_continue_request None rq w)
               in bind_outcome (on_request_canceled env p i (hold_request i (put_request i rq w)))
                    (\<lambda>w. Ret (free_request i w)))
          (Ret w))
       (cancel_pending_requests env p stop is)"

definition delete_provider ::
  "('s, 'r) rm_env \<Rightarrow> usize \<Rightarrow> bool \<Rightarrow> 's rm_world \<Rightarrow> (usize \<times> 's rm_world) outcome" where
  "delete_provider env deleted stop w =
     (if deleted \<ge> length (providers w) then Ret (length (providers w), w)
      else
        let entry = providers w ! deleted
        in if pe_deletion_pending entry then Ret (deleted, w)
           else if pe_pending_requests entry \<noteq> [] then
             bind_outcome
               (cancel_pending_requests env (pe_provider entry) stop (pe_pending_requests entry)
                  (set_providers ((providers w)[deleted := entry\<lparr>pe_deletion_pending := True\<rparr>]) w))
               (\<lambda>w. Ret (deleted + 1, w))
           else Ret (deleted, remove_entry deleted w))"

partial_function (option) remove_loop ::
  "('s, 'r) rm_env \<Rightarrow> string \<Rightarrow> usize \<Rightarrow> 's rm_world \<Rightarrow> 's rm_world outcome option" where
  "remove_loop env identifier index w =
     (if index < length (providers w) then
        (case if pe_identifier (providers w ! index) = identifier then delete_provider env index False w
              else Ret (index + 1, w) of
           Ret (index, w) \<Rightarrow> remove_loop env identifier index w
         | Blocked \<Rightarrow> Some Blocked
         | Panic \<Rightarrow> Some Panic)
      else Some (Ret w))"

definition remove_providers :: "('s, 'r) rm_env \<Rightarrow> bool \<Rightarrow> string \<Rightarrow> 's rm_world \<Rightarrow> 's rm_world outcome option" where
  "remove_providers env on_io identifier w =
     (if \<not> on_io then Some (Ret (post_io (RemoveProviders identifier) w))
      else if providers w = [] then Some (Ret w)
      else remove_loop env identifier 0 w)"

partial_function (option) remove_all_loop ::
  "('s, 'r) rm_env \<Rightarrow> usize \<Rightarrow> 's rm_world \<Rightarrow> 's rm_world outcome option" where
  "remove_all_loop env index w =
     (if index < length (providers w) then
        (case delete_provider env index True w of
           Ret (index, w) \<Rightarrow> remove_all_loop env index w
         | Blocked \<Rightarrow> Some Blocked
         | Panic \<Rightarrow> Some Panic)
      else Some (Ret w))"

definition remove_all_providers :: "('s, 'r) rm_env \<Rightarrow> bool \<Rightarrow> 's rm_world \<Rightarrow> 's rm_world outcome option" where
  "remove_all_providers env on_io w =
     (if \<not> on_io then Some (Ret (post_io RemoveAllProviders w))
      else if providers w = [] then Some (Ret w)
      else remove_all_loop env 0 w)"

definition set_url_filter :: "bool \<Rightarrow> (string \<Rightarrow> string) option \<Rightarrow> 's rm_world \<Rightarrow> 's rm_world" where
  "set_url_filter on_io f w =
     (if \<not> on_io then post_io (SetUrlFilter (mutex_new (Some f))) w
      else set_manager ((the_manager w)\<lparr>mg_url_filter := (case f of None \<Rightarrow> get_filtered_url | Some f \<Rightarrow> f)\<rparr>) w)"

definition set_mime_type_resolver ::
  "('s, 'r) rm_env \<Rightarrow> bool \<Rightarrow> (string \<Rightarrow> string) option \<Rightarrow> 's rm_world \<Rightarrow> 's rm_world" where
  "set_mime_type_resolver env on_io f w =
     (if \<not> on_io then post_io (SetMimeTypeResolver (mutex_new (Some f))) w
      else set_manager
        ((the_manager w)\<lparr>mg_mime_type_resolver := (case f of None \<Rightarrow> get_mime_type (ev_mime env) | Some f \<Rightarrow> f)\<rparr>) w)"

datatype return_value = RV_CONTINUE | RV_CONTINUE_ASYNC

definition initial_state :: "nat \<Rightarrow> nat \<Rightarrow> cef_request \<Rightarrow> nat \<Rightarrow> 's rm_world \<Rightarrow> request_state" where
  "initial_state browser frame request callback w =
     \<lparr>st_callback = Some callback, st_current_entry = get_next_valid_provider 0 w, st_current_request = 0,
      st_params =
        \<lparr>pm_url = get_url_without_query_or_fragment (mg_url_filter (the_manager w) (cr_url request)),
         pm_browser = browser, pm_frame = frame, pm_request = request,
         pm_url_filter = mg_url_filter (the_manager w),
         pm_mime_type_resolver = mg_mime_type_resolver (the_manager w)\<rparr>\<rparr>"

definition on_before_resource_load ::
  "('s, 'r) rm_env \<Rightarrow> nat \<Rightarrow> nat \<Rightarrow> cef_request \<Rightarrow> nat \<Rightarrow> 's rm_world
    \<Rightarrow> (return_value \<times> 's rm_world) outcome option" where
  "on_before_resource_load env browser frame request callback w =
     (if get_next_valid_provider 0 w = length (providers w) then Some (Ret (RV_CONTINUE, w))
      else
        map_option
          (\<lambda>res. bind_outcome res (\<lambda>(handled, w). Ret (if handled then RV_CONTINUE_ASYNC else RV_CONTINUE, w)))
          (mg_send_request env (initial_state browser frame request callback w) w))"

definition mg_resource_handler ::
  "cef_request \<Rightarrow> 's rm_world \<Rightarrow> 's stream_resource_handler option \<times> 's rm_world" where
  "mg_resource_handler request w =
     (let m = the_manager w; k = cr_identifier request
      in (bt_get k (mg_pending_handlers m),
          set_manager (m\<lparr>mg_pending_handlers := bt_remove k (mg_pending_handlers m)\<rparr>) w))"

section \<open>Tasks\<close>

text \<open>
  The start of the tasks that need the manager: upgrade the weak reference and lock; a
  task that cannot do so returns, and what it owns (\<open>err\<close>) is dropped.
\<close>

definition locked_manager ::
  "('s rm_world \<Rightarrow> 's rm_world outcome option) \<Rightarrow> ('s rm_world \<Rightarrow> 's rm_world) \<Rightarrow> 's rm_world
    \<Rightarrow> 's rm_world outcome option" where
  "locked_manager ok err w =
     (if \<not> w_manager_alive w then Some (Ret (err w))
      else if m_held (w_manager w) then Some Blocked
      else if m_poisoned (w_manager w) then Some (Ret (err w))
      else map_option (\<lambda>res. bind_outcome res (\<lambda>w. Ret (free_manager w))) (ok (hold_manager w)))"

text \<open>
  Taking the value out of the private mutex of a task: what to do with it, and what
  happens to it when the mutex is poisoned and the task is dropped.
\<close>

definition take_value ::
  "'a option mutex \<Rightarrow> ('a \<Rightarrow> 's rm_world \<Rightarrow> 's rm_world outcome option) \<Rightarrow> ('a \<Rightarrow> 's rm_world \<Rightarrow> 's rm_world)
    \<Rightarrow> 's rm_world \<Rightarrow> 's rm_world outcome option" where
  "take_value m ok err w =
     (if m_held m then Some Blocked
      else case m_data m of
        None \<Rightarrow> Some (Ret w)
      | Some x \<Rightarrow> if m_poisoned m then Some (Ret (err x w)) else ok x w)"

definition execute_continue_request ::
  "('s, 'r) rm_env \<Rightarrow> request_state option mutex \<Rightarrow> 's stream_resource_handler option \<Rightarrow> 's rm_world
    \<Rightarrow> 's rm_world outcome option" where
  "execute_continue_request env state handler =
     take_value state (\<lambda>st. locked_manager (mg_continue_request env st handler) (drop_state st)) drop_state"

definition execute_stop_request :: "request_state option mutex \<Rightarrow> 's rm_world \<Rightarrow> 's rm_world outcome option" where
  "execute_stop_request state =
     take_value state (\<lambda>st. locked_manager (\<lambda>w. Some (Ret (mg_stop_request st w))) (drop_state st)) drop_state"

definition execute_open_file ::
  "('s, 'r) rm_env \<Rightarrow> string \<Rightarrow> nat \<Rightarrow> 's rm_world \<Rightarrow> 's rm_world" where
  "execute_open_file env file_path i w =
     drop_request i
       (case ev_stream_for_file env file_path of
          None \<Rightarrow> w
        | Some stream \<Rightarrow> post_io (ContinueFileRequest stream i) w)"

definition execute_continue_file :: "'s \<Rightarrow> nat \<Rightarrow> 's rm_world \<Rightarrow> 's rm_world outcome" where
  "execute_continue_file stream i w =
     bind_outcome
       (with_request i w
          (\<lambda>rq.
             let handler = new_with_stream (pm_mime_type_resolver (rq_params rq) (pm_url (rq_params rq))) stream;
                 (rq, w) = rq_continue_request (Some handler) rq w
             in Ret (put_request i rq w))
          (Ret w))
       (\<lambda>w. Ret (drop_request i w))"

definition execute_open_zip :: "('s, 'r) rm_env \<Rightarrow> nat \<Rightarrow> 's rm_world \<Rightarrow> 's rm_world outcome option" where
  "execute_open_zip env a w =
     (case bt_get a (w_archives w) of
        None \<Rightarrow> Some (Ret w)
      | Some am \<Rightarrow>
          if m_held am then Some Blocked
          else if m_poisoned am then Some (Ret w)
          else case ev_stream_for_file env (ap_archive_path (m_data am)) of
            None \<Rightarrow> Some (Ret w)
          | Some stream \<Rightarrow>
              map_option
                (\<lambda>res. bind_outcome res
                   (\<lambda>(count, archive).
                      if count = 0 then Ret w
                      else Ret (post_io (ContinueZipRequest a) (put_archive a ((m_data am)\<lparr>ap_archive := Some archive\<rparr>) w))))
                (za_load (ev_zip env) stream (ap_password (m_data am)) True zip_archive_default))"

fun continue_zip_requests ::
  "('s, 'r) rm_env \<Rightarrow> archive_provider_state \<Rightarrow> nat list \<Rightarrow> 's rm_world \<Rightarrow> 's rm_world outcome" where
  "continue_zip_requests env st [] w = Ret w"
| "continue_zip_requests env st (i # is) w =
     bind_outcome (ap_continue_request env st i w)
       (\<lambda>(_, w). continue_zip_requests env st is (if i \<in> set is then w else drop_request i w))"

definition execute_continue_zip :: "('s, 'r) rm_env \<Rightarrow> nat \<Rightarrow> 's rm_world \<Rightarrow> 's rm_world outcome" where
  "execute_continue_zip env a w =
     (case bt_get a (w_archives w) of
        None \<Rightarrow> Ret w
      | Some am \<Rightarrow>
          with_lock am
            (\<lambda>st.
               let pending = ap_pending_requests st;
                   st = st\<lparr>ap_load_ended := True, ap_pending_requests := []\<rparr>
               in continue_zip_requests env st pending (put_archive a st w))
            (Ret w))"

definition execute_add_provider ::
  "provider option mutex \<Rightarrow> i32 \<Rightarrow> string \<Rightarrow> 's rm_world \<Rightarrow> 's rm_world outcome option" where
  "execute_add_provider p order identifier =
     locked_manager
       (take_value p (\<lambda>p w. Some (Ret (mg_add_provider True p order identifier w))) (\<lambda>p. drop_provider (Some p)))
       (drop_provider (m_data p))"

definition rm_execute :: "('s, 'r) rm_env \<Rightarrow> 's rm_task \<Rightarrow> 's rm_world \<Rightarrow> 's rm_world outcome option" where
  "rm_execute env t w =
     (case t of
        ContinueRequest state handler \<Rightarrow> execute_continue_request env state handler w
      | StopRequest state \<Rightarrow> execute_stop_request state w
      | OpenFileRequest file_path i \<Rightarrow> Some (Ret (execute_open_file env file_path i w))
      | ContinueFileRequest stream i \<Rightarrow> Some (execute_continue_file stream i w)
      | OpenZipRequest a \<Rightarrow> execute_open_zip env a w
      | ContinueZipRequest a \<Rightarrow> Some (execute_continue_zip env a w)
      | AddProvider p order identifier \<Rightarrow> execute_add_provider p order identifier w
      | RemoveProviders identifier \<Rightarrow> locked_manager (remove_providers env True identifier) (\<lambda>w. w) w
      | RemoveAllProviders \<Rightarrow> locked_manager (remove_all_providers env True) (\<lambda>w. w) w
      | SetUrlFilter f \<Rightarrow>
          locked_manager (take_value f (\<lambda>f w. Some (Ret (set_url_filter True f w))) (\<lambda>_ w. w)) (\<lambda>w. w) w
      | SetMimeTypeResolver f \<Rightarrow>
          locked_manager (take_value f (\<lambda>f w. Some (Ret (set_mime_type_resolver env True f w))) (\<lambda>_ w. w)) (\<lambda>w. w) w)"

text \<open>The next task of the IO thread and of the FILE thread.\<close>

definition io_step :: "('s, 'r) rm_env \<Rightarrow> 's rm_world \<Rightarrow> 's rm_world outcome option" where
  "io_step env w =
     (case w_io_tasks w of [] \<Rightarrow> Some (Ret w) | t # ts \<Rightarrow> rm_execute env t (w\<lparr>w_io_tasks := ts\<rparr>))"

definition file_step :: "('s, 'r) rm_env \<Rightarrow> 's rm_world \<Rightarrow> 's rm_world outcome option" where
  "file_step env w =
     (case w_file_tasks w of [] \<Rightarrow> Some (Ret w) | t # ts \<Rightarrow> rm_execute env t (w\<lparr>w_file_tasks := ts\<rparr>))"

section \<open>Calls\<close>

text \<open>
  What an application does with the manager: each call takes the lock of the manager for
  its duration (\<^verbatim>\<open>on_io\<close> tells the thread), and the two threads run their tasks. A call that
  does not return counts as blocked.
\<close>

datatype rm_op =
    OpAddContent bool string string string i32 string
  | OpAddDirectory bool string string i32 string
  | OpAddArchive bool string string string i32 string
  | OpAddCustom bool nat i32 string
  | OpRemove bool string
  | OpRemoveAll bool
  | OpUrlFilter bool "(string \<Rightarrow> string) option"
  | OpMimeTypeResolver bool "(string \<Rightarrow> string) option"
  | OpLoad nat nat cef_request nat
  | OpResourceHandler cef_request
  | OpIoTask
  | OpFileTask

definition rm_call :: "('s, 'r) rm_env \<Rightarrow> rm_op \<Rightarrow> 's rm_world \<Rightarrow> 's rm_world outcome option" where
  "rm_call env x w =
     (case x of
        OpAddContent io url content mime order ident \<Rightarrow> Some (Ret (add_content_provider io url content mime order ident w))
      | OpAddDirectory io url dir order ident \<Rightarrow> Some (Ret (add_directory_provider io url dir order ident w))
      | OpAddArchive io url path pw order ident \<Rightarrow> Some (Ret (add_archive_provider io url path pw order ident w))
      | OpAddCustom io c order ident \<Rightarrow> Some (Ret (mg_add_provider io (CustomProvider c) order ident w))
      | OpRemove io ident \<Rightarrow> remove_providers env io ident w
      | OpRemoveAll io \<Rightarrow> remove_all_providers env io w
      | OpUrlFilter io f \<Rightarrow> Some (Ret (set_url_filter io f w))
      | OpMimeTypeResolver io f \<Rightarrow> Some (Ret (set_mime_type_resolver env io f w))
      | OpLoad browser frame request callback \<Rightarrow>
          map_option (\<lambda>res. bind_outcome res (\<lambda>(_, w). Ret w))
            (on_before_resource_load env browser frame request callback w)
      | OpResourceHandler request \<Rightarrow> Some (Ret (snd (mg_resource_handler request w)))
      | OpIoTask \<Rightarrow> Some (Ret w)
      | OpFileTask \<Rightarrow> Some (Ret w))"

definition run_result :: "'a outcome option \<Rightarrow> 'a outcome" where
  "run_result r = (case r of None \<Rightarrow> Blocked | Some res \<Rightarrow> res)"

definition rm_step :: "('s, 'r) rm_env \<Rightarrow> rm_op \<Rightarrow> 's rm_world \<Rightarrow> 's rm_world outcome" where
  "rm_step env x w =
     run_result
       (case x of
          OpIoTask \<Rightarrow> io_step env w
        | OpFileTask \<Rightarrow> file_step env w
        | _ \<Rightarrow> locked_manager (rm_call env x) (\<lambda>w. w) w)"

end
