(* ===== verification/Resource_Manager_Invariant.thy ===== *)
theory Resource_Manager_Invariant
  imports Resource_Manager "HOL-Library.Multiset"
begin

text \<open>
  The invariant of the resource manager: what each operation leaves of the state, the
  account of the callbacks of requests, the entries of the manager in order with no
  request attached, the two removal loops, the tasks, and the state machine of calls and
  tasks that keeps all of it.
\<close>

named_theorems rm_frame \<open>what an operation leaves of the state\<close>

section \<open>What operations leave unchanged\<close>

lemma access_frame [rm_frame]:
  "w_manager (post_io t w) = w_manager w" "w_manager_alive (post_io t w) = w_manager_alive w"
  "w_manager (post_file t w) = w_manager w" "w_manager_alive (post_file t w) = w_manager_alive w"
  "w_requests (post_io t w) = w_requests w" "w_requests (post_file t w) = w_requests w"
  "w_archives (post_io t w) = w_archives w" "w_archives (post_file t w) = w_archives w"
  "w_continued (post_io t w) = w_continued w" "w_continued (post_file t w) = w_continued w"
  "w_io_tasks (post_io t w) = w_io_tasks w @ [t]" "w_file_tasks (post_io t w) = w_file_tasks w"
  "w_io_tasks (post_file t w) = w_io_tasks w" "w_file_tasks (post_file t w) = w_file_tasks w @ [t]"
  by (simp_all add: post_io_def post_file_def)

lemma set_manager_frame [rm_frame]:
  "w_manager (set_manager m w) = (w_manager w)\<lparr>m_data := m\<rparr>" "w_manager_alive (set_manager m w) = w_manager_alive w"
  "w_requests (set_manager m w) = w_requests w" "w_archives (set_manager m w) = w_archives w"
  "w_continued (set_manager m w) = w_continued w" "w_io_tasks (set_manager m w) = w_io_tasks w"
  "w_file_tasks (set_manager m w) = w_file_tasks w"
  by (simp_all add: set_manager_def)

lemma set_providers_frame [rm_frame]:
  "w_manager (set_providers ps w) = (w_manager w)\<lparr>m_data := (the_manager w)\<lparr>mg_providers := ps\<rparr>\<rparr>"
  "w_manager_alive (set_providers ps w) = w_manager_alive w"
  "w_requests (set_providers ps w) = w_requests w" "w_archives (set_providers ps w) = w_archives w"
  "w_continued (set_providers ps w) = w_continued w" "w_io_tasks (set_providers ps w) = w_io_tasks w"
  "w_file_tasks (set_providers ps w) = w_file_tasks w"
  by (simp_all add: set_providers_def rm_frame)

lemma set_providers_same: "set_providers (providers w) w = w"
  by (simp add: set_providers_def set_manager_def)

lemma hold_manager_frame [rm_frame]:
  "w_manager (hold_manager w) = acquire (w_manager w)" "w_manager_alive (hold_manager w) = w_manager_alive w"
  "w_requests (hold_manager w) = w_requests w" "w_archives (hold_manager w) = w_archives w"
  "w_continued (hold_manager w) = w_continued w" "w_io_tasks (hold_manager w) = w_io_tasks w"
  "w_file_tasks (hold_manager w) = w_file_tasks w"
  by (simp_all add: hold_manager_def)

lemma free_manager_frame [rm_frame]:
  "w_manager (free_manager w) = release (the_manager w) (w_manager w)" "w_manager_alive (free_manager w) = w_manager_alive w"
  "w_requests (free_manager w) = w_requests w" "w_archives (free_manager w) = w_archives w"
  "w_continued (free_manager w) = w_continued w" "w_io_tasks (free_manager w) = w_io_tasks w"
  "w_file_tasks (free_manager w) = w_file_tasks w"
  by (simp_all add: free_manager_def)

lemma change_request_frame [rm_frame]:
  "w_manager (change_request i f w) = w_manager w" "w_manager_alive (change_request i f w) = w_manager_alive w"
  "w_archives (change_request i f w) = w_archives w" "w_continued (change_request i f w) = w_continued w"
  "w_io_tasks (change_request i f w) = w_io_tasks w" "w_file_tasks (change_request i f w) = w_file_tasks w"
  by (simp_all add: change_request_def split: option.split)

lemma put_archive_frame [rm_frame]:
  "w_manager (put_archive a st w) = w_manager w" "w_manager_alive (put_archive a st w) = w_manager_alive w"
  "w_requests (put_archive a st w) = w_requests w" "w_continued (put_archive a st w) = w_continued w"
  "w_io_tasks (put_archive a st w) = w_io_tasks w" "w_file_tasks (put_archive a st w) = w_file_tasks w"
  by (simp_all add: put_archive_def split: option.split)

lemma drop_state_frame [rm_frame]:
  "w_manager (drop_state st w) = w_manager w" "w_manager_alive (drop_state st w) = w_manager_alive w"
  "w_requests (drop_state st w) = w_requests w" "w_archives (drop_state st w) = w_archives w"
  "w_io_tasks (drop_state st w) = w_io_tasks w" "w_file_tasks (drop_state st w) = w_file_tasks w"
  by (simp_all add: drop_state_def split: option.split)

lemma drop_request_frame [rm_frame]:
  "w_manager (drop_request i w) = w_manager w" "w_manager_alive (drop_request i w) = w_manager_alive w"
  "w_archives (drop_request i w) = w_archives w" "w_io_tasks (drop_request i w) = w_io_tasks w"
  "w_file_tasks (drop_request i w) = w_file_tasks w"
  by (simp_all add: drop_request_def rm_frame Let_def split: option.split)

lemma drop_requests_frame [rm_frame]:
  "w_manager (drop_requests is w) = w_manager w" "w_manager_alive (drop_requests is w) = w_manager_alive w"
  "w_archives (drop_requests is w) = w_archives w" "w_io_tasks (drop_requests is w) = w_io_tasks w"
  "w_file_tasks (drop_requests is w) = w_file_tasks w"
  unfolding drop_requests_def by (induction "is" arbitrary: w) (simp_all add: rm_frame)

lemma drop_provider_frame [rm_frame]:
  "w_manager (drop_provider p w) = w_manager w" "w_manager_alive (drop_provider p w) = w_manager_alive w"
  "w_io_tasks (drop_provider p w) = w_io_tasks w" "w_file_tasks (drop_provider p w) = w_file_tasks w"
  by (cases "(p, w)" rule: drop_provider.cases; simp add: rm_frame split: option.split)+

lemma drop_entry_frame [rm_frame]:
  "w_manager (drop_entry e w) = w_manager w" "w_manager_alive (drop_entry e w) = w_manager_alive w"
  "w_io_tasks (drop_entry e w) = w_io_tasks w" "w_file_tasks (drop_entry e w) = w_file_tasks w"
  by (simp_all add: drop_entry_def rm_frame)

lemma remove_entry_frame [rm_frame]:
  "w_manager (remove_entry i w) =
     (w_manager w)\<lparr>m_data := (the_manager w)\<lparr>mg_providers := vec_remove i (providers w)\<rparr>\<rparr>"
  "w_manager_alive (remove_entry i w) = w_manager_alive w"
  by (simp_all add: remove_entry_def rm_frame vec_remove_def)

lemma rq_continue_request_frame [rm_frame]:
  "w_manager (snd (rq_continue_request h rq w)) = w_manager w"
  "w_manager_alive (snd (rq_continue_request h rq w)) = w_manager_alive w"
  "w_requests (snd (rq_continue_request h rq w)) = w_requests w"
  "w_archives (snd (rq_continue_request h rq w)) = w_archives w"
  "w_continued (snd (rq_continue_request h rq w)) = w_continued w"
  by (simp_all add: rq_continue_request_def rm_frame split: option.split)

section \<open>The callbacks of requests\<close>

text \<open>
  Every callback the manager was given and has not lost: those continued, those of the
  states of requests and those of the states that tasks carry.
\<close>

fun state_callbacks :: "request_state option \<Rightarrow> nat multiset" where
  "state_callbacks None = {#}"
| "state_callbacks (Some st) = (case st_callback st of None \<Rightarrow> {#} | Some c \<Rightarrow> {#c#})"

fun task_callbacks :: "'s rm_task \<Rightarrow> nat multiset" where
  "task_callbacks (ContinueRequest m _) = state_callbacks (m_data m)"
| "task_callbacks (StopRequest m) = state_callbacks (m_data m)"
| "task_callbacks _ = {#}"

abbreviation request_callbacks :: "manager_request mutex \<Rightarrow> nat multiset" where
  "request_callbacks m \<equiv> state_callbacks (rq_state (m_data m))"

definition callbacks :: "'s rm_world \<Rightarrow> nat multiset" where
  "callbacks w =
     mset (w_continued w) + (\<Sum>(i, m)\<leftarrow>w_requests w. request_callbacks m)
     + (\<Sum>t\<leftarrow>w_io_tasks w. task_callbacks t) + (\<Sum>t\<leftarrow>w_file_tasks w. task_callbacks t)"

lemma sum_bt_insert:
  fixes g :: "'v \<Rightarrow> 'b::comm_monoid_add"
  assumes "bt_wf m"
  shows "(\<Sum>(k, v)\<leftarrow>bt_insert k v m. g v) + (case bt_get k m of None \<Rightarrow> 0 | Some u \<Rightarrow> g u) =
    (\<Sum>(k, v)\<leftarrow>m. g v) + g v"
  using assms
proof (induction m)
  case (Cons e m)
  obtain k' v' where e: "e = (k', v')" by fastforce
  have wf: "bt_wf m" "k < k' \<Longrightarrow> bt_get k m = None"
    using Cons.prems by (auto simp: e bt_wf_Cons bt_get_None_iff bt_keys_def)
  show ?case using Cons.IH [OF wf(1)] wf(2)
    by (auto simp: e bt_get_def ac_simps)
qed (simp add: bt_get_def)

lemma sum_bt_remove:
  fixes g :: "'v \<Rightarrow> 'b::comm_monoid_add"
  assumes "bt_wf m" "bt_get k m = Some u"
  shows "(\<Sum>(k, v)\<leftarrow>bt_remove k m. g v) + g u = (\<Sum>(k, v)\<leftarrow>m. g v)"
  using assms
proof (induction m)
  case (Cons e m)
  obtain k' v' where e: "e = (k', v')" by fastforce
  have wf: "bt_wf m" "k = k' \<Longrightarrow> bt_get k m = None"
    using Cons.prems(1) by (auto simp: e bt_wf_Cons bt_get_None_iff bt_keys_def)
  have "bt_remove k m = m" if "bt_get k m = None"
    using that by (auto simp: bt_remove_def bt_get_None_iff bt_keys_def filter_id_conv)
  then show ?case using Cons wf by (auto simp: e bt_get_def bt_remove_def ac_simps)
      (metis add.left_commute)
qed (simp add: bt_get_def)

text \<open>Worlds that agree in the manager.\<close>

definition same_manager :: "'s rm_world \<Rightarrow> 's rm_world \<Rightarrow> bool" where
  "same_manager w w' \<longleftrightarrow> w_manager w' = w_manager w \<and> w_manager_alive w' = w_manager_alive w"

text \<open>A step that conserves callbacks and well-formedness of the request store.\<close>

definition conserves :: "'s rm_world \<Rightarrow> 's rm_world \<Rightarrow> bool" where
  "conserves w w' \<longleftrightarrow> (bt_wf (w_requests w) \<longrightarrow> bt_wf (w_requests w') \<and> callbacks w' = callbacks w)"

lemma conserves_refl [simp]: "conserves w w"
  by (simp add: conserves_def)

lemma conserves_trans: "conserves w w' \<Longrightarrow> conserves w' w'' \<Longrightarrow> conserves w w''"
  by (simp add: conserves_def)

lemma callbacks_frame [rm_frame]:
  "callbacks (set_manager m w) = callbacks w" "callbacks (set_providers ps w) = callbacks w"
  "callbacks (hold_manager w) = callbacks w" "callbacks (free_manager w) = callbacks w"
  "callbacks (put_archive a ap w) = callbacks w"
  "callbacks (post_io t w) = callbacks w + task_callbacks t"
  "callbacks (post_file t w) = callbacks w + task_callbacks t"
  "callbacks (w\<lparr>w_archives := as\<rparr>) = callbacks w"
  "callbacks (drop_state st w) = callbacks w + state_callbacks (Some st)"
  by (simp_all add: callbacks_def rm_frame) (simp add: drop_state_def split: option.split)

lemma callbacks_change_request:
  assumes "bt_wf (w_requests w)" "bt_get i (w_requests w) = Some m"
  shows "callbacks (change_request i f w) + request_callbacks m = callbacks w + request_callbacks (f m)"
  using sum_bt_insert [OF assms(1), where k = i and v = "f m" and g = request_callbacks] assms(2)
  by (simp add: callbacks_def change_request_def ac_simps)

lemma wf_change_request: "bt_wf (w_requests w) \<Longrightarrow> bt_wf (w_requests (change_request i f w))"
  by (simp add: change_request_def bt_wf_insert split: option.split)

lemma conserves_hold: "conserves w (hold_request i w)" "conserves w (free_request i w)"
  unfolding conserves_def hold_request_def free_request_def
  using callbacks_change_request [of w i _ acquire] callbacks_change_request [of w i _ "\<lambda>m. release (m_data m) m"]
  by (cases "bt_get i (w_requests w)"; simp add: wf_change_request; simp add: change_request_def)+

lemma conserves_drop_request: "conserves w (drop_request i w)"
proof (cases "i \<in> set (references w) \<or> bt_get i (w_requests w) = None")
  case False
  then obtain m where m: "bt_get i (w_requests w) = Some m" by blast
  let ?w = "w\<lparr>w_requests := bt_remove i (w_requests w)\<rparr>"
  have drop: "drop_request i w = (case rq_state (m_data m) of None \<Rightarrow> ?w | Some st \<Rightarrow> drop_state st ?w)"
    using False m by (simp add: drop_request_def Let_def)
  have "callbacks ?w + request_callbacks m = callbacks w" if "bt_wf (w_requests w)"
    using sum_bt_remove [OF that m, where g = request_callbacks]
    by (simp add: callbacks_def ac_simps)
  then show ?thesis unfolding conserves_def drop
    by (cases "rq_state (m_data m)") (auto simp: rm_frame bt_wf_remove)
qed (auto simp: drop_request_def)

lemma conserves_drop_requests: "conserves w (drop_requests is w)"
  unfolding drop_requests_def
  by (induction "is" arbitrary: w) (auto intro: conserves_trans conserves_drop_request)

lemma conserves_drop_provider: "conserves w (drop_provider p w)"
proof -
  have "conserves w (w\<lparr>w_archives := as\<rparr>)" for as by (simp add: conserves_def rm_frame)
  then show ?thesis
    by (cases "(p, w)" rule: drop_provider.cases)
      (auto split: option.split intro: conserves_trans conserves_drop_requests)
qed

lemma conserves_remove_entry: "conserves w (remove_entry i w)"
proof -
  have "conserves w (set_providers ps w)" for ps by (simp add: conserves_def rm_frame)
  then show ?thesis unfolding remove_entry_def drop_entry_def
    by (simp add: conserves_trans [OF conserves_trans [OF _ conserves_drop_provider] conserves_drop_requests])
qed

text \<open>A provider that answers a request moves its state into a task.\<close>

lemma answer_request:
  assumes "bt_get i (w_requests w) = Some m" "rq_continue_request h (m_data m) w = (rq, w')"
  shows "conserves w (put_request i rq w')" "same_manager w (put_request i rq w')"
proof -
  have get: "bt_get i (w_requests w') = Some m" "w_requests w' = w_requests w"
    using assms rq_continue_request_frame(3) [of h "m_data m" w] by simp_all
  show "same_manager w (put_request i rq w')"
    using assms(2) rq_continue_request_frame(1,2) [of h "m_data m" w]
    by (simp add: same_manager_def put_request_def rm_frame)
  have "callbacks w' + state_callbacks (rq_state rq) = callbacks w + request_callbacks m"
    using assms(2) by (auto simp: rq_continue_request_def rm_frame split: option.splits)
  then show "conserves w (put_request i rq w')"
    using callbacks_change_request [of w' i m "\<lambda>m. m\<lparr>m_data := rq\<rparr>"] get
    by (auto simp: conserves_def put_request_def wf_change_request)
qed

section \<open>The invariant\<close>

text \<open>
  No request is ever attached to a provider entry, so no entry waits for its deletion;
  the entries are in ascending order.
\<close>

definition entries_ok :: "provider_entry list \<Rightarrow> bool" where
  "entries_ok ps \<longleftrightarrow>
     sorted (map pe_order ps)
     \<and> (\<forall>e\<in>set ps. pe_pending_requests e = [] \<and> \<not> pe_deletion_pending e \<and> pe_provider e \<noteq> None)"

definition rm_inv :: "'s rm_world \<Rightarrow> bool" where
  "rm_inv w \<longleftrightarrow> lock_ok (w_manager w) \<and> w_manager_alive w \<and> entries_ok (providers w) \<and> bt_wf (w_requests w)"

lemma rm_inv_new: "rm_inv (rm_world_new env)"
  by (simp add: rm_inv_def rm_world_new_def resource_manager_new_def entries_ok_def)

lemma entries_ok_nth:
  "entries_ok ps \<Longrightarrow> i < length ps \<Longrightarrow>
    pe_pending_requests (ps ! i) = [] \<and> \<not> pe_deletion_pending (ps ! i) \<and> (\<exists>p. pe_provider (ps ! i) = Some p)"
  by (auto simp: entries_ok_def)

lemma vec_remove_filter: "i < length xs \<Longrightarrow> \<exists>us vs. xs = us @ xs ! i # vs \<and> vec_remove i xs = us @ vs \<and> length us = i"
  by (metis id_take_nth_drop length_take min.absorb2 order_less_imp_le vec_remove_def)

lemma entries_ok_filter: "entries_ok ps \<Longrightarrow> entries_ok (filter P ps)"
  by (auto simp: entries_ok_def sorted_filter)

lemma entries_ok_vec_remove:
  assumes "entries_ok ps"
  shows "entries_ok (vec_remove i ps)"
proof (cases "i < length ps")
  case True
  then obtain us x vs where "ps = us @ x # vs" "vec_remove i ps = us @ vs" using vec_remove_filter by blast
  with assms show ?thesis by (simp add: entries_ok_def sorted_append)
qed (use assms in \<open>simp add: vec_remove_def\<close>)

text \<open>Adding is the library's insertion before the first entry that is not smaller.\<close>

lemma insert_at_partition_point:
  "take (partition_point (\<lambda>y. f y < f x) xs) xs @ [x] @ drop (partition_point (\<lambda>y. f y < f x) xs) xs = insort_key f x xs"
  by (induction xs) (auto simp: partition_point_def)

definition new_entry :: "provider \<Rightarrow> i32 \<Rightarrow> string \<Rightarrow> provider_entry" where
  "new_entry p order identifier =
     \<lparr>pe_provider = Some p, pe_order = order, pe_identifier = identifier,
      pe_pending_requests = [], pe_deletion_pending = False\<rparr>"

lemma add_provider_insort:
  "mg_add_provider True p order identifier w =
     set_providers (insort_key pe_order (new_entry p order identifier) (providers w)) w"
  using insert_at_partition_point [of pe_order "new_entry p order identifier" "providers w"]
  by (auto simp: mg_add_provider_def new_entry_def Let_def)

lemma entries_ok_insort: "entries_ok ps \<Longrightarrow> entries_ok (insort_key pe_order (new_entry p order ident) ps)"
  by (auto simp: entries_ok_def sorted_insort_key set_insort_key new_entry_def)

lemma delete_provider_ok:
  assumes "entries_ok (providers w)" "i < length (providers w)"
  shows "delete_provider env i stop w = Ret (i, remove_entry i w)"
  using entries_ok_nth [OF assms] assms(2) by (simp add: delete_provider_def)

text \<open>The two loops end: each round removes an entry or passes one.\<close>

abbreviation with_providers :: "'s rm_world \<Rightarrow> provider_entry list \<Rightarrow> 's rm_world \<Rightarrow> bool" where
  "with_providers w ps w' \<equiv>
     w_manager w' = (w_manager w)\<lparr>m_data := (the_manager w)\<lparr>mg_providers := ps\<rparr>\<rparr>
     \<and> w_manager_alive w' = w_manager_alive w \<and> conserves w w'"

lemma remove_loop_ends:
  assumes "entries_ok (providers w)" "index \<le> length (providers w)"
  shows "\<exists>w'. remove_loop env ident index w = Some (Ret w')
    \<and> with_providers w (take index (providers w) @ filter (\<lambda>e. pe_identifier e \<noteq> ident) (drop index (providers w))) w'"
  using assms
proof (induction "length (providers w) - index" arbitrary: w index rule: less_induct)
  case less
  let ?ps = "providers w"
  show ?case
  proof (cases "index < length ?ps")
    case False
    then show ?thesis using less.prems by (subst remove_loop.simps) (auto simp: set_providers_same)
  next
    case True
    then have drop: "drop index ?ps = ?ps ! index # drop (Suc index) ?ps" by (simp add: Cons_nth_drop_Suc)
    show ?thesis
    proof (cases "pe_identifier (?ps ! index) = ident")
      case match: True
      let ?w = "remove_entry index w"
      have ps: "providers ?w = take index ?ps @ drop (Suc index) ?ps" by (simp add: rm_frame vec_remove_def)
      have step: "remove_loop env ident index w = remove_loop env ident index ?w"
        using True match delete_provider_ok [OF less.prems(1) True, of env False] by (subst remove_loop.simps) simp
      have "entries_ok (providers ?w)" using entries_ok_vec_remove [OF less.prems(1)] by (simp add: rm_frame)
      moreover have "length (providers ?w) - index < length ?ps - index" "index \<le> length (providers ?w)"
        using True by (auto simp: ps)
      ultimately obtain w' where "remove_loop env ident index ?w = Some (Ret w')"
          "with_providers ?w (take index (providers ?w) @ filter (\<lambda>e. pe_identifier e \<noteq> ident) (drop index (providers ?w))) w'"
        using less.hyps [of ?w index] by blast
      then show ?thesis using step match drop True conserves_trans [OF conserves_remove_entry [of w index]]
        by (auto simp: rm_frame vec_remove_def)
    next
      case False
      then have "remove_loop env ident index w = remove_loop env ident (Suc index) w"
        using True by (subst remove_loop.simps) simp
      moreover obtain w' where "remove_loop env ident (Suc index) w = Some (Ret w')"
          "with_providers w (take (Suc index) ?ps @ filter (\<lambda>e. pe_identifier e \<noteq> ident) (drop (Suc index) ?ps)) w'"
        using less.hyps [of w "Suc index"] less.prems(1) True diff_less_mono2 [OF lessI True] by auto
      ultimately show ?thesis using False True drop by (auto simp: take_Suc_conv_app_nth)
    qed
  qed
qed

lemma remove_all_loop_ends:
  assumes "entries_ok (providers w)"
  shows "\<exists>w'. remove_all_loop env 0 w = Some (Ret w') \<and> with_providers w [] w'"
  using assms
proof (induction "length (providers w)" arbitrary: w rule: less_induct)
  case less
  show ?case
  proof (cases "providers w = []")
    case True
    then have "set_providers [] w = w" using set_providers_same [of w] by simp
    then show ?thesis using True set_providers_frame(1) [of "[]" w] by (subst remove_all_loop.simps) auto
  next
    case False
    let ?w = "remove_entry 0 w"
    have "entries_ok (providers ?w)" "length (providers ?w) < length (providers w)"
      using entries_ok_vec_remove [OF less.prems, of 0] False by (auto simp: rm_frame vec_remove_def)
    then obtain w' where "remove_all_loop env 0 ?w = Some (Ret w')" "with_providers ?w [] w'" using less.hyps by blast
    moreover have "remove_all_loop env 0 w = remove_all_loop env 0 ?w"
      using False delete_provider_ok [OF less.prems, of 0 env True] by (subst remove_all_loop.simps) simp
    ultimately show ?thesis using conserves_trans [OF conserves_remove_entry [of w 0]] by (auto simp: rm_frame)
  qed
qed

section \<open>Requests and the manager's lock\<close>

lemma next_valid_ok:
  assumes "entries_ok (providers w)"
  shows "get_next_valid_provider i w = (if i < length (providers w) then i else length (providers w))"
  using entries_ok_nth [OF assms, of i] by (simp add: get_next_valid_provider_def upt_rec)

lemma detach_ok:
  assumes "entries_ok (providers w)"
  shows "detach_request_from_provider st w =
    (if st_current_entry st < length (providers w) then st\<lparr>st_current_entry := length (providers w)\<rparr> else st, w)"
proof (cases "st_current_entry st < length (providers w)")
  case True
  let ?e = "providers w ! st_current_entry st"
  have e: "pe_pending_requests ?e = []" "\<not> pe_deletion_pending ?e" using entries_ok_nth [OF assms True] by simp_all
  then have "?e\<lparr>pe_pending_requests := vec_remove k []\<rparr> = ?e" for k by (simp add: vec_remove_def)
  then show ?thesis using True e by (simp add: detach_request_from_provider_def Let_def set_providers_same)
qed (simp add: detach_request_from_provider_def)

lemma drop_state_entry: "drop_state (st\<lparr>st_current_entry := n\<rparr>) w = drop_state st w"
  by (simp add: drop_state_def)

lemma stop_ok: "entries_ok (providers w) \<Longrightarrow> mg_stop_request st w = drop_state st w"
  by (simp add: mg_stop_request_def detach_ok drop_state_entry)

lemma increment_ok:
  "entries_ok (providers w) \<Longrightarrow>
    increment_provider st w = (st_current_entry st < length (providers w), st, w)"
  by (simp add: increment_provider_def next_valid_ok detach_ok)

text \<open>
  A request is sent by a method of the manager, whose lock is held; sending it through a
  provider locks the manager again.
\<close>

lemma send_blocked:
  assumes "w_manager_alive w" "m_held (w_manager w)"
  shows "mg_send_request env st w = Some Blocked"
proof -
  obtain i w1 where w1: "new_request st w = (i, w1)" by fastforce
  then have get: "bt_get i (w_requests w1) = Some (mutex_new \<lparr>rq_state = Some st, rq_params = st_params st\<rparr>)"
      "w_manager w1 = w_manager w" "w_manager_alive w1"
    using assms(1) by (auto simp: new_request_def bt_simps)
  then have "bt_get i (w_requests (hold_request i w1)) = Some (acquire (mutex_new \<lparr>rq_state = Some st, rq_params = st_params st\<rparr>))"
      "w_manager (hold_request i w1) = w_manager w" "w_manager_alive (hold_request i w1)"
    by (simp_all add: hold_request_def rm_frame) (simp add: change_request_def bt_simps)
  then have "rq_send_request env i (hold_request i w1) = Blocked"
    using assms by (simp add: rq_send_request_def outcome_simps)
  then show ?thesis by (subst mg_send_request.simps) (simp add: w1)
qed

definition held_inv :: "'s rm_world \<Rightarrow> bool" where
  "held_inv w \<longleftrightarrow> m_held (w_manager w) \<and> \<not> m_poisoned (w_manager w) \<and> w_manager_alive w
     \<and> entries_ok (providers w) \<and> bt_wf (w_requests w)"

lemma held_inv_hold: "rm_inv w \<Longrightarrow> held_inv (hold_manager w)"
  by (simp add: rm_inv_def held_inv_def rm_frame lock_ok_def)

lemma rm_inv_free: "held_inv w \<Longrightarrow> rm_inv (free_manager w)"
  by (simp add: rm_inv_def held_inv_def rm_frame)

lemma held_inv_with_providers:
  "held_inv w \<Longrightarrow> with_providers w ps w' \<Longrightarrow> entries_ok ps \<Longrightarrow> held_inv w' \<and> callbacks w' = callbacks w"
  by (simp add: held_inv_def conserves_def)

lemma held_inv_conserves:
  "held_inv w \<Longrightarrow> same_manager w w' \<Longrightarrow> conserves w w' \<Longrightarrow> held_inv w' \<and> callbacks w' = callbacks w"
  by (simp add: held_inv_def conserves_def same_manager_def)

lemma rm_inv_conserves:
  "rm_inv w \<Longrightarrow> same_manager w w' \<Longrightarrow> conserves w w' \<Longrightarrow> rm_inv w' \<and> callbacks w' = callbacks w"
  by (simp add: rm_inv_def conserves_def same_manager_def)

lemma locked_manager_ok:
  "rm_inv w \<Longrightarrow> locked_manager ok err w =
    map_option (\<lambda>res. bind_outcome res (\<lambda>w. Ret (free_manager w))) (ok (hold_manager w))"
  by (simp add: locked_manager_def rm_inv_def lock_ok_def)

lemma locked_manager_inv:
  assumes "rm_inv w" "locked_manager ok err w = Some (Ret w')"
    "\<And>v v'. held_inv v \<Longrightarrow> ok v = Some (Ret v') \<Longrightarrow> held_inv v' \<and> callbacks v' = callbacks v + c"
  shows "rm_inv w' \<and> callbacks w' = callbacks w + c"
proof -
  obtain v where "ok (hold_manager w) = Some (Ret v)" "w' = free_manager v"
    using assms(2) by (auto simp: locked_manager_ok [OF assms(1)] bind_outcome_Ret_iff)
  then show ?thesis using assms(3) [OF held_inv_hold [OF assms(1)]] rm_inv_free by (auto simp: rm_frame)
qed

section \<open>Every call and task keeps the invariant\<close>

lemma add_provider_held:
  assumes "held_inv w"
  shows "held_inv (mg_add_provider io p order ident w) \<and> callbacks (mg_add_provider io p order ident w) = callbacks w"
proof (cases io)
  case False
  then show ?thesis using assms by (simp add: mg_add_provider_def held_inv_def rm_frame)
qed (use assms in \<open>simp add: add_provider_insort held_inv_def rm_frame entries_ok_insort\<close>)

lemma remove_providers_held:
  assumes "held_inv w" "remove_providers env io ident w = Some (Ret w')"
  shows "held_inv w' \<and> callbacks w' = callbacks w"
proof (cases "io \<and> providers w \<noteq> []")
  case True
  have ok: "entries_ok (providers w)" using assms(1) by (simp add: held_inv_def)
  then obtain w'' where "remove_loop env ident 0 w = Some (Ret w'')"
      "with_providers w (filter (\<lambda>e. pe_identifier e \<noteq> ident) (providers w)) w''"
    using remove_loop_ends [OF ok, of 0] by auto
  then show ?thesis
    using True assms held_inv_with_providers [OF assms(1) _ entries_ok_filter [OF ok]]
    by (simp add: remove_providers_def)
qed (use assms in \<open>auto simp: remove_providers_def held_inv_def rm_frame split: if_splits\<close>)

lemma remove_all_providers_held:
  assumes "held_inv w" "remove_all_providers env io w = Some (Ret w')"
  shows "held_inv w' \<and> callbacks w' = callbacks w"
proof (cases "io \<and> providers w \<noteq> []")
  case True
  have ok: "entries_ok (providers w)" using assms(1) by (simp add: held_inv_def)
  obtain w'' where "remove_all_loop env 0 w = Some (Ret w'')" "with_providers w [] w''"
    using remove_all_loop_ends [OF ok] by blast
  then show ?thesis
    using True assms held_inv_with_providers [OF assms(1)]
    by (auto simp: remove_all_providers_def entries_ok_def)
qed (use assms in \<open>auto simp: remove_all_providers_def held_inv_def rm_frame split: if_splits\<close>)

lemma settings_held:
  "held_inv w \<Longrightarrow> held_inv (set_url_filter io f w) \<and> callbacks (set_url_filter io f w) = callbacks w"
  "held_inv w \<Longrightarrow> held_inv (set_mime_type_resolver env io f w) \<and> callbacks (set_mime_type_resolver env io f w) = callbacks w"
  by (simp_all add: set_url_filter_def set_mime_type_resolver_def held_inv_def rm_frame)

lemma drop_state_held:
  "held_inv w \<Longrightarrow> held_inv (drop_state st w) \<and> callbacks (drop_state st w) = callbacks w + state_callbacks (Some st)"
  by (simp add: held_inv_def rm_frame)

lemma continue_request_held:
  assumes "held_inv w" "mg_continue_request env st h w = Some (Ret w')"
  shows "held_inv w' \<and> callbacks w' = callbacks w + state_callbacks (Some st)"
proof -
  have ok: "entries_ok (providers w)" "w_manager_alive w" "m_held (w_manager w)"
    using assms(1) by (simp_all add: held_inv_def)
  show ?thesis
  proof (cases h)
    case None
    then show ?thesis using assms ok drop_state_held [OF assms(1), of st]
      by (auto simp: mg_continue_request_def increment_ok send_blocked stop_ok split: if_splits)
  next
    case (Some handler)
    let ?w = "set_manager ((the_manager w)\<lparr>mg_pending_handlers :=
        bt_insert (cr_identifier (pm_request (st_params st))) handler (mg_pending_handlers (the_manager w))\<rparr>) w"
    have "held_inv ?w" "callbacks ?w = callbacks w" using assms(1) by (simp_all add: held_inv_def rm_frame)
    moreover have "w' = drop_state st ?w"
      using assms(2) ok(1) Some by (auto simp: mg_continue_request_def Let_def stop_ok rm_frame)
    ultimately show ?thesis using drop_state_held by metis
  qed
qed

lemma take_value_held:
  assumes "take_value m ok err w = Some (Ret w')" "held_inv w"
    "\<And>x w'. ok x w = Some (Ret w') \<Longrightarrow> held_inv w' \<and> callbacks w' = callbacks w"
    "\<And>x. held_inv (err x w) \<and> callbacks (err x w) = callbacks w"
  shows "held_inv w' \<and> callbacks w' = callbacks w"
  using assms by (auto simp: take_value_def split: if_splits option.splits)

lemma drop_provider_held: "held_inv w \<Longrightarrow> held_inv (drop_provider p w) \<and> callbacks (drop_provider p w) = callbacks w"
  by (rule held_inv_conserves) (simp_all add: same_manager_def rm_frame conserves_drop_provider)

lemma rm_call_held:
  assumes "held_inv w" "rm_call env x w = Some (Ret w')"
  shows "held_inv w'"
proof (cases x)
  case (OpAddArchive io url path pw order ident)
  let ?w = "w\<lparr>w_archives := bt_insert (w_next_archive w) (ap_new url path pw) (w_archives w), w_next_archive := Suc (w_next_archive w)\<rparr>"
  have "held_inv ?w" using assms(1) by (simp add: held_inv_def)
  then show ?thesis using OpAddArchive assms(2) add_provider_held [OF \<open>held_inv ?w\<close>]
    by (auto simp: rm_call_def add_archive_provider_def Let_def)
next
  case (OpLoad browser frame request callback)
  then show ?thesis using assms send_blocked [of w env]
    by (auto simp: rm_call_def on_before_resource_load_def held_inv_def split: if_splits)
next
  case (OpResourceHandler request)
  then show ?thesis using assms by (auto simp: rm_call_def mg_resource_handler_def Let_def held_inv_def rm_frame)
qed (use assms add_provider_held [OF assms(1)] settings_held(1) [OF assms(1)] settings_held(2) [OF assms(1), of env]
      remove_providers_held [OF assms(1), of env] remove_all_providers_held [OF assms(1), of env]
    in \<open>auto simp: rm_call_def add_content_provider_def add_directory_provider_def\<close>)

text \<open>The archive answers a request or leaves everything as it is.\<close>

lemma ap_continue_request_cases:
  assumes "ap_continue_request env st i w = Ret (b, w')"
  obtains "\<not> b" "w' = w"
  | m h where "b" "bt_get i (w_requests w) = Some m" "\<not> m_held m"
      "w' = (case rq_continue_request (Some h) (m_data m) w of (rq, w) \<Rightarrow> put_request i rq w)"
proof -
  obtain m where m: "bt_get i (w_requests w) = Some m" "\<not> m_held m"
    using assms by (auto simp: ap_continue_request_def with_request_def with_lock_def split: option.splits if_splits)
  let ?path = "get_file_relative_path [] (ap_url_path st) (pm_url (rq_params (m_data m)))"
  have "(\<not> b \<and> w' = w) \<or>
      (b \<and> (\<exists>h. w' = (case rq_continue_request (Some h) (m_data m) w of (rq, w) \<Rightarrow> put_request i rq w)))"
  proof (cases "m_poisoned m \<or> ap_archive st = None \<or> ?path = None")
    case True
    then show ?thesis using assms m
      by (auto simp: ap_continue_request_def with_request_def with_lock_def Let_def split: option.splits)
  next
    case False
    then have lock: "lock_ok m" using m by (simp add: lock_ok_def)
    from False obtain za p where za: "ap_archive st = Some za" "?path = Some p" by auto
    then have eq: "bind_outcome (za_file p za) (\<lambda>f. case f of None \<Rightarrow> Ret (False, w)
        | Some f \<Rightarrow> with_lock f (\<lambda>f. case zf_stream_reader (ev_stream_for_handler env) f of None \<Rightarrow> Ret (False, w)
           | Some stream \<Rightarrow> let handler = new_with_stream (pm_mime_type_resolver (rq_params (m_data m)) (pm_url (rq_params (m_data m)))) stream;
               (rq, w) = rq_continue_request (Some handler) (m_data m) w in Ret (True, put_request i rq w)) (Ret (False, w))) = Ret (b, w')"
      using assms m(1) by (simp add: ap_continue_request_def with_request_def with_lock_ok [OF lock] Let_def)
    then obtain f where "za_file p za = Ret f" by (auto simp: bind_outcome_Ret_iff)
    with eq show ?thesis
      by (cases f) (auto simp: with_lock_def Let_def case_prod_beta split: if_splits option.splits)
  qed
  with m that show thesis by blast
qed

lemma ap_continue_request_conserves:
  assumes "ap_continue_request env st i w = Ret (b, w')"
  shows "conserves w w' \<and> same_manager w w'"
  using assms
proof (cases rule: ap_continue_request_cases)
  case (2 m h)
  then show ?thesis using answer_request [OF 2(2)] by (auto simp: case_prod_beta)
qed (simp add: same_manager_def)

lemma same_manager_trans: "same_manager w w' \<Longrightarrow> same_manager w' w'' \<Longrightarrow> same_manager w w''"
  by (simp add: same_manager_def)

lemma drop_request_same: "same_manager w (drop_request i w)"
  by (simp add: same_manager_def rm_frame)

lemma continue_zip_requests_conserves:
  "continue_zip_requests env st is w = Ret w' \<Longrightarrow> conserves w w' \<and> same_manager w w'"
proof (induction "is" arbitrary: w)
  case (Cons i "is")
  then obtain b w1 where w1: "ap_continue_request env st i w = Ret (b, w1)"
      "continue_zip_requests env st is (if i \<in> set is then w1 else drop_request i w1) = Ret w'"
    by (auto simp: bind_outcome_Ret_iff)
  have "conserves w1 (if i \<in> set is then w1 else drop_request i w1)"
      "same_manager w1 (if i \<in> set is then w1 else drop_request i w1)"
    using conserves_drop_request drop_request_same by (auto simp: same_manager_def)
  with ap_continue_request_conserves [OF w1(1)] Cons.IH [OF w1(2)] show ?case
    by (blast intro: conserves_trans same_manager_trans)
qed (simp add: same_manager_def)

lemma execute_conserves:
  "conserves w (execute_open_file env path i w) \<and> same_manager w (execute_open_file env path i w)"
  "execute_continue_file stream i w = Ret w' \<Longrightarrow> conserves w w' \<and> same_manager w w'"
  "execute_open_zip env a w = Some (Ret w') \<Longrightarrow> conserves w w' \<and> same_manager w w'"
  "execute_continue_zip env a w = Ret w' \<Longrightarrow> conserves w w' \<and> same_manager w w'"
proof -
  have post: "conserves w (post_io (ContinueFileRequest s i) w)" for s by (simp add: conserves_def rm_frame)
  then show "conserves w (execute_open_file env path i w) \<and> same_manager w (execute_open_file env path i w)"
    unfolding execute_open_file_def
    by (auto intro: conserves_trans [OF _ conserves_drop_request] conserves_drop_request
        simp: same_manager_def rm_frame split: option.split)
next
  assume exec: "execute_continue_file stream i w = Ret w'"
  then obtain m where m: "bt_get i (w_requests w) = Some m" "\<not> m_held m"
    by (auto simp: execute_continue_file_def with_request_def with_lock_def split: option.splits if_splits)
  then obtain w1 where "w' = drop_request i w1" "conserves w w1 \<and> same_manager w w1"
    using exec answer_request [OF m(1)]
    by (auto simp: execute_continue_file_def with_request_def with_lock_def same_manager_def
        split: if_splits prod.splits)
  then show "conserves w w' \<and> same_manager w w'"
    using conserves_trans [OF _ conserves_drop_request] same_manager_trans [OF _ drop_request_same] by blast
next
  assume "execute_open_zip env a w = Some (Ret w')"
  then show "conserves w w' \<and> same_manager w w'"
    by (auto simp: execute_open_zip_def bind_outcome_Ret_iff conserves_def same_manager_def rm_frame
        split: option.splits if_splits)
next
  assume "execute_continue_zip env a w = Ret w'"
  moreover have "conserves w (put_archive a st w)" "same_manager w (put_archive a st w)" for st
    by (simp_all add: conserves_def same_manager_def rm_frame)
  ultimately show "conserves w w' \<and> same_manager w w'"
    by (auto simp: execute_continue_zip_def with_lock_def Let_def same_manager_def split: option.splits if_splits
        dest!: continue_zip_requests_conserves intro: conserves_trans)
qed

lemma take_state_inv:
  assumes "rm_inv w" "take_value m ok drop_state w = Some (Ret w')"
    "\<And>st. ok st w = Some (Ret w') \<Longrightarrow> rm_inv w' \<and> callbacks w' = callbacks w + state_callbacks (Some st)"
  shows "rm_inv w' \<and> callbacks w' = callbacks w + state_callbacks (m_data m)"
proof (cases "m_data m")
  case (Some st)
  have "rm_inv (drop_state st w) \<and> callbacks (drop_state st w) = callbacks w + state_callbacks (Some st)"
    using assms(1) by (simp add: rm_inv_def rm_frame)
  then show ?thesis using Some assms by (auto simp: take_value_def split: if_splits)
qed (use assms in \<open>auto simp: take_value_def split: if_splits\<close>)

lemma rm_execute_inv:
  assumes "rm_inv w" "rm_execute env t w = Some (Ret w')"
  shows "rm_inv w' \<and> callbacks w' = callbacks w + task_callbacks t"
proof -
  have conserved: "rm_inv w' \<and> callbacks w' = callbacks w" if "conserves w w' \<and> same_manager w w'" for w'
    using rm_inv_conserves [OF assms(1)] that by blast
  note locked = locked_manager_inv [OF assms(1), where w' = w' and c = "{#}", simplified]
  show ?thesis
  proof (cases t)
    case (ContinueRequest m h)
    then have exec: "take_value m (\<lambda>st. locked_manager (mg_continue_request env st h) (drop_state st)) drop_state w = Some (Ret w')"
      using assms(2) by (simp add: rm_execute_def execute_continue_request_def)
    show ?thesis unfolding ContinueRequest task_callbacks.simps
      by (rule take_state_inv [OF assms(1) exec], erule locked_manager_inv [OF assms(1)]) (rule continue_request_held)
  next
    case (StopRequest m)
    then have exec: "take_value m (\<lambda>st. locked_manager (\<lambda>w. Some (Ret (mg_stop_request st w))) (drop_state st)) drop_state w = Some (Ret w')"
      using assms(2) by (simp add: rm_execute_def execute_stop_request_def)
    show ?thesis unfolding StopRequest task_callbacks.simps
      by (rule take_state_inv [OF assms(1) exec], erule locked_manager_inv [OF assms(1)])
        (auto simp: stop_ok held_inv_def rm_frame)
  next
    case (AddProvider p order ident)
    then have exec: "locked_manager (take_value p (\<lambda>p w. Some (Ret (mg_add_provider True p order ident w))) (\<lambda>p. drop_provider (Some p)))
        (drop_provider (m_data p)) w = Some (Ret w')"
      using assms(2) by (simp add: rm_execute_def execute_add_provider_def)
    show ?thesis unfolding AddProvider task_callbacks.simps add_0_right
      by (rule locked [OF exec], erule take_value_held) (auto simp: add_provider_held drop_provider_held)
  next
    case (RemoveProviders ident)
    then have exec: "locked_manager (remove_providers env True ident) (\<lambda>w. w) w = Some (Ret w')"
      using assms(2) by (simp add: rm_execute_def)
    show ?thesis unfolding RemoveProviders task_callbacks.simps add_0_right
      by (rule locked [OF exec]) (rule remove_providers_held)
  next
    case RemoveAllProviders
    then have exec: "locked_manager (remove_all_providers env True) (\<lambda>w. w) w = Some (Ret w')"
      using assms(2) by (simp add: rm_execute_def)
    show ?thesis unfolding RemoveAllProviders task_callbacks.simps add_0_right
      by (rule locked [OF exec]) (rule remove_all_providers_held)
  next
    case (SetUrlFilter f)
    then have exec: "locked_manager (take_value f (\<lambda>f w. Some (Ret (set_url_filter True f w))) (\<lambda>_ w. w)) (\<lambda>w. w) w = Some (Ret w')"
      using assms(2) by (simp add: rm_execute_def)
    show ?thesis unfolding SetUrlFilter task_callbacks.simps add_0_right
      by (rule locked [OF exec], erule take_value_held) (auto simp: settings_held)
  next
    case (SetMimeTypeResolver f)
    then have exec: "locked_manager (take_value f (\<lambda>f w. Some (Ret (set_mime_type_resolver env True f w))) (\<lambda>_ w. w)) (\<lambda>w. w) w = Some (Ret w')"
      using assms(2) by (simp add: rm_execute_def)
    show ?thesis unfolding SetMimeTypeResolver task_callbacks.simps add_0_right
      by (rule locked [OF exec], erule take_value_held) (auto simp: settings_held)
  qed (use assms(2) conserved execute_conserves(1) [where w = w and env = env] execute_conserves(2) [where w = w]
      execute_conserves(3,4) [where w = w and env = env] in \<open>auto simp: rm_execute_def\<close>)
qed

lemma pop_io: "w_io_tasks w = t # ts \<Longrightarrow> rm_inv w \<Longrightarrow>
    rm_inv (w\<lparr>w_io_tasks := ts\<rparr>) \<and> callbacks (w\<lparr>w_io_tasks := ts\<rparr>) + task_callbacks t = callbacks w"
  by (simp add: rm_inv_def callbacks_def ac_simps)

lemma pop_file: "w_file_tasks w = t # ts \<Longrightarrow> rm_inv w \<Longrightarrow>
    rm_inv (w\<lparr>w_file_tasks := ts\<rparr>) \<and> callbacks (w\<lparr>w_file_tasks := ts\<rparr>) + task_callbacks t = callbacks w"
  by (simp add: rm_inv_def callbacks_def ac_simps)

lemma io_step_inv: "rm_inv w \<Longrightarrow> io_step env w = Some (Ret w') \<Longrightarrow> rm_inv w' \<and> callbacks w' = callbacks w"
  using pop_io [of w] rm_execute_inv by (auto simp: io_step_def split: list.splits)

lemma file_step_inv: "rm_inv w \<Longrightarrow> file_step env w = Some (Ret w') \<Longrightarrow> rm_inv w' \<and> callbacks w' = callbacks w"
  using pop_file [of w] rm_execute_inv by (auto simp: file_step_def split: list.splits)

lemma rm_step_inv:
  assumes "rm_inv w" "rm_step env x w = Ret w'"
  shows "rm_inv w'"
proof -
  have call: "rm_inv w'" if "locked_manager (rm_call env x) (\<lambda>w. w) w = Some (Ret w')"
  proof -
    from that obtain v where "rm_call env x (hold_manager w) = Some (Ret v)" "w' = free_manager v"
      by (auto simp: locked_manager_ok [OF assms(1)] bind_outcome_Ret_iff)
    then show ?thesis using rm_call_held [OF held_inv_hold [OF assms(1)]] rm_inv_free by metis
  qed
  then show ?thesis
    using assms io_step_inv [OF assms(1), of env w'] file_step_inv [OF assms(1), of env w']
    by (cases x) (auto simp: rm_step_def run_result_def split: option.splits)
qed

interpretation resource_machine: invariant_machine "rm_step env" rm_inv
  for env :: "('s, 'r) rm_env"
  by unfold_locales (rule rm_step_inv)

section \<open>What the tasks of a request do\<close>

lemma io_step_locked:
  assumes "rm_inv w" "w_io_tasks w = t # ts"
    "rm_execute env t = take_value (mutex_new (Some st)) (\<lambda>st. locked_manager (ok st) (drop_state st)) drop_state"
    "ok st (hold_manager (w\<lparr>w_io_tasks := ts\<rparr>)) = Some (Ret w')"
  shows "io_step env w = Some (Ret (free_manager w'))"
proof -
  have "rm_inv (w\<lparr>w_io_tasks := ts\<rparr>)" using assms(1) by (simp add: rm_inv_def)
  from locked_manager_ok [OF this] show ?thesis
    using assms(2-4) by (simp add: io_step_def take_value_def mutex_new_def)
qed

lemma io_step_stop:
  assumes "rm_inv w" "w_io_tasks w = StopRequest (mutex_new (Some st)) # ts"
  shows "\<exists>w'. io_step env w = Some (Ret w')
    \<and> w_continued w' = w_continued w @ (case st_callback st of None \<Rightarrow> [] | Some c \<Rightarrow> [c])"
proof -
  let ?w = "hold_manager (w\<lparr>w_io_tasks := ts\<rparr>)"
  have "entries_ok (providers ?w)" using assms(1) by (simp add: rm_inv_def rm_frame)
  then have "io_step env w = Some (Ret (free_manager (drop_state st ?w)))"
    by (intro io_step_locked [OF assms, where ok = "\<lambda>st w. Some (Ret (mg_stop_request st w))" and st = st])
      (simp_all add: fun_eq_iff rm_execute_def execute_stop_request_def stop_ok)
  then show ?thesis by (simp add: rm_frame) (simp add: drop_state_def rm_frame split: option.split)
qed

text \<open>A handler that reaches the manager is handed out once, and the callback continues.\<close>

lemma io_step_continue:
  assumes "rm_inv w" "w_io_tasks w = ContinueRequest (mutex_new (Some st)) (Some h) # ts"
  defines "request \<equiv> pm_request (st_params st)"
  shows "\<exists>w' w''. io_step env w = Some (Ret w') \<and> w_io_tasks w' = ts
    \<and> w_continued w' = w_continued w @ (case st_callback st of None \<Rightarrow> [] | Some c \<Rightarrow> [c])
    \<and> mg_resource_handler request w' = (Some h, w'') \<and> fst (mg_resource_handler request w'') = None"
proof -
  let ?w = "hold_manager (w\<lparr>w_io_tasks := ts\<rparr>)"
  let ?m = "(the_manager w)\<lparr>mg_pending_handlers := bt_insert (cr_identifier request) h (mg_pending_handlers (the_manager w))\<rparr>"
  let ?w' = "free_manager (drop_state st (set_manager ?m ?w))"
  have "entries_ok (providers (set_manager ?m ?w))" using assms(1) by (simp add: rm_inv_def rm_frame)
  then have "mg_continue_request env st (Some h) ?w = Some (Ret (drop_state st (set_manager ?m ?w)))"
    by (simp add: mg_continue_request_def Let_def stop_ok rm_frame request_def)
  then have "io_step env w = Some (Ret ?w')"
    by (intro io_step_locked [OF assms(1,2), where ok = "\<lambda>st. mg_continue_request env st (Some h)" and st = st])
      (simp_all add: fun_eq_iff rm_execute_def execute_continue_request_def)
  moreover have "w_continued ?w' = w_continued w @ (case st_callback st of None \<Rightarrow> [] | Some c \<Rightarrow> [c])"
    by (simp add: rm_frame) (simp add: drop_state_def rm_frame split: option.split)
  moreover have "w_io_tasks ?w' = ts" by (simp add: rm_frame)
  moreover have "fst (mg_resource_handler request ?w') = Some h"
      "fst (mg_resource_handler request (snd (mg_resource_handler request ?w'))) = None"
    by (simp_all add: mg_resource_handler_def Let_def rm_frame bt_simps)
  ultimately show ?thesis by (metis prod.collapse)
qed

lemma answered:
  "rq_state (m_data m) = Some st \<Longrightarrow> rq_continue_request h (m_data m) w =
    ((m_data m)\<lparr>rq_state := None\<rparr>, post_io (ContinueRequest (mutex_new (Some st)) h) w)"
  by (simp add: rq_continue_request_def)

lemma put_request_frame [rm_frame]:
  "w_manager (put_request i rq w) = w_manager w" "w_manager_alive (put_request i rq w) = w_manager_alive w"
  "w_archives (put_request i rq w) = w_archives w" "w_continued (put_request i rq w) = w_continued w"
  "w_io_tasks (put_request i rq w) = w_io_tasks w" "w_file_tasks (put_request i rq w) = w_file_tasks w"
  by (simp_all add: put_request_def rm_frame)

end
