(* ===== verification/Resource_Manager_Properties.thy ===== *)
theory Resource_Manager_Properties
  imports Resource_Manager_Invariant
begin

text \<open>
  What the resource manager guarantees: the order of the providers, that removing
  providers ends and is exact, that no callback of a request is lost or run twice, what
  the providers serve, and where a request blocks the thread.
\<close>

section \<open>A sample manager\<close>

text \<open>Streams in memory, one file, and a zip reader over the same files.\<close>

definition sample_files :: "string \<Rightarrow> byte_stream mutex option" where
  "sample_files path = (if path = ''www/a.html'' then Some (mutex_new (bs_new [104, 105])) else None)"

definition sample_env :: "(byte_stream mutex, zip_entries \<times> nat) rm_env" where
  "sample_env =
     \<lparr>ev_stream_for_data = (\<lambda>bytes. Some (mutex_new (bs_new bytes))),
      ev_stream_for_file = sample_files,
      ev_stream_for_handler = Some,
      ev_zip =
        \<lparr>za_create = (\<lambda>_. None), za_file_size = (\<lambda>_. 0), za_file_name = (\<lambda>_. []), za_open_file = (\<lambda>_ r. (0, r)),
         za_eof = (\<lambda>_. 1), za_read_file = (\<lambda>_ r. (0, [], r)), za_close_file = (\<lambda>r. r),
         za_move_to_next_file = (\<lambda>r. (0, r)), za_lower = (\<lambda>n. n)\<rparr>,
      ev_mime = (\<lambda>e. ''text/'' @ e),
      ev_on_request = (\<lambda>_ _ w. Ret (False, w)),
      ev_on_request_canceled = (\<lambda>_ _ w. Ret w)\<rparr>"

definition sample_params :: "string \<Rightarrow> request_params" where
  "sample_params url =
     \<lparr>pm_url = url, pm_browser = 1, pm_frame = 2, pm_request = \<lparr>cr_identifier = 7, cr_url = url\<rparr>,
      pm_url_filter = get_filtered_url, pm_mime_type_resolver = get_mime_type (\<lambda>e. ''text/'' @ e)\<rparr>"

definition sample_state :: "string \<Rightarrow> request_state" where
  "sample_state url =
     \<lparr>st_callback = Some 9, st_current_entry = 0, st_current_request = 0, st_params = sample_params url\<rparr>"

text \<open>A world with one request that has not been answered.\<close>

definition sample_world :: "string \<Rightarrow> byte_stream mutex rm_world" where
  "sample_world url =
     (rm_world_new sample_env)
       \<lparr>w_requests := [(3, mutex_new \<lparr>rq_state = Some (sample_state url), rq_params = sample_params url\<rparr>)], w_next_request := 4\<rparr>"

lemma sample_world_inv: "rm_inv (sample_world url)"
  using rm_inv_new [of sample_env] by (simp add: sample_world_def rm_inv_def bt_wf_def)

lemma sample_request:
  "bt_get 3 (w_requests (sample_world url)) = Some (mutex_new \<lparr>rq_state = Some (sample_state url), rq_params = sample_params url\<rparr>)"
  by (simp add: sample_world_def bt_get_def)

lemma sample_tasks: "w_io_tasks (sample_world url) = []" "w_file_tasks (sample_world url) = []"
  "references (sample_world url) = []" "w_continued (sample_world url) = []"
  by (simp_all add: sample_world_def rm_world_new_def references_def resource_manager_new_def)

section \<open>The order of the providers\<close>

text \<open>
  Property C14. Whatever is called and whatever tasks run, the providers are in ascending
  order and none of them waits for its deletion. Adding one inserts it like the
  insertion sort of the library, before the first that is not smaller: of providers with
  the same order the one added last comes first.
\<close>

theorem providers_in_order:
  assumes "run_ops (rm_step env) xs (rm_world_new env) = Ret w"
  shows "sorted (map pe_order (providers w))
    \<and> (\<forall>e\<in>set (providers w). \<not> pe_deletion_pending e)
    \<and> providers (mg_add_provider True p order ident w) = insort_key pe_order (new_entry p order ident) (providers w)
    \<and> providers (mg_add_provider True q order ident (mg_add_provider True p order ident w)) =
        takeWhile (\<lambda>e. pe_order e < order) (providers w)
        @ [new_entry q order ident, new_entry p order ident] @ dropWhile (\<lambda>e. pe_order e < order) (providers w)"
proof -
  have inv: "rm_inv w" by (rule resource_machine.run_inv [OF rm_inv_new assms])
  have insort: "insort_key pe_order (new_entry r order ident) es =
      takeWhile (\<lambda>e. pe_order e < order) es @ new_entry r order ident # dropWhile (\<lambda>e. pe_order e < order) es" for r es
    by (induction es) (auto simp: new_entry_def)
  have skip: "takeWhile P (takeWhile P es @ e # ds) = takeWhile P es" "dropWhile P (takeWhile P es @ e # ds) = e # ds"
    if "\<not> P e" for P and e :: provider_entry and es ds
    using that by (induction es) auto
  have "\<not> pe_order (new_entry p order ident) < order" by (simp add: new_entry_def)
  then have "insort_key pe_order (new_entry q order ident) (insort_key pe_order (new_entry p order ident) (providers w)) =
      takeWhile (\<lambda>e. pe_order e < order) (providers w)
      @ [new_entry q order ident, new_entry p order ident] @ dropWhile (\<lambda>e. pe_order e < order) (providers w)"
    unfolding insort by (subst skip, assumption, subst skip, assumption) simp
  then show ?thesis using inv by (auto simp: rm_inv_def entries_ok_def add_provider_insort rm_frame)
qed

theorem providers_in_order_witness:
  "\<exists>w. run_ops (rm_step sample_env) [OpAddContent True ''u'' ''x'' [] 5 ''i'', OpAddContent True ''v'' ''y'' [] 2 ''j'']
         (rm_world_new sample_env) = Ret w
     \<and> map pe_order (providers w) = [2, 5] \<and> sorted (map pe_order (providers w))"
proof -
  have new: "rm_inv (rm_world_new sample_env)" by (rule rm_inv_new)
  obtain w1 where w1: "rm_step sample_env (OpAddContent True ''u'' ''x'' [] 5 ''i'') (rm_world_new sample_env) = Ret w1"
      "map pe_order (providers w1) = [5]"
    using locked_manager_ok [OF new] by (simp add: rm_step_def run_result_def rm_call_def add_content_provider_def
      add_provider_insort rm_frame new_entry_def rm_world_new_def resource_manager_new_def)
  obtain w2 where w2: "rm_step sample_env (OpAddContent True ''v'' ''y'' [] 2 ''j'') w1 = Ret w2"
      "map pe_order (providers w2) = [2, 5]"
    using locked_manager_ok [OF rm_step_inv [OF new w1(1)]] w1(2)
    by (auto simp: rm_step_def run_result_def rm_call_def add_content_provider_def
      add_provider_insort rm_frame new_entry_def map_eq_Cons_conv)
  have "run_ops (rm_step sample_env) [OpAddContent True ''u'' ''x'' [] 5 ''i'', OpAddContent True ''v'' ''y'' [] 2 ''j'']
         (rm_world_new sample_env) = Ret w2" using w1 w2 by simp
  with providers_in_order [OF this, of "CustomProvider 0" 0 "[]" "CustomProvider 0"] w2(2) show ?thesis
    by (intro exI [of _ w2]) simp
qed

section \<open>Removing providers\<close>

text \<open>
  Property C15. On the IO thread, removing the providers of an identifier returns and
  leaves exactly the others, in their order; removing all returns and leaves none.
  Neither loses the callback of a request.
\<close>

theorem removing_providers_ends:
  assumes "rm_inv w"
  shows "(\<exists>w'. remove_providers env True ident w = Some (Ret w')
          \<and> providers w' = filter (\<lambda>e. pe_identifier e \<noteq> ident) (providers w) \<and> callbacks w' = callbacks w)
    \<and> (\<exists>w'. remove_all_providers env True w = Some (Ret w') \<and> providers w' = [] \<and> callbacks w' = callbacks w)"
proof (cases "providers w = []")
  case True
  then show ?thesis by (simp add: remove_providers_def remove_all_providers_def)
next
  case False
  have ok: "entries_ok (providers w)" "bt_wf (w_requests w)" using assms by (simp_all add: rm_inv_def)
  from remove_loop_ends [OF ok(1), of 0 env ident] remove_all_loop_ends [OF ok(1), of env] False ok(2)
  show ?thesis by (auto simp: remove_providers_def remove_all_providers_def conserves_def)
qed

theorem removing_providers_ends_witness:
  "\<exists>w'. remove_providers sample_env True ''i''
      (mg_add_provider True (CustomProvider 1) 5 ''i'' (mg_add_provider True (CustomProvider 2) 6 ''j'' (rm_world_new sample_env)))
      = Some (Ret w') \<and> map pe_identifier (providers w') = [''j'']"
proof -
  let ?w = "mg_add_provider True (CustomProvider 1) 5 ''i'' (mg_add_provider True (CustomProvider 2) 6 ''j'' (rm_world_new sample_env))"
  have "rm_inv ?w"
    using rm_inv_new [of sample_env] by (simp add: rm_inv_def add_provider_insort rm_frame entries_ok_insort)
  from removing_providers_ends [OF this, of sample_env "''i''"] show ?thesis
    by (auto simp: add_provider_insort rm_frame new_entry_def rm_world_new_def resource_manager_new_def)
qed

section \<open>Callbacks\<close>

text \<open>
  Property C13. No task of the two threads loses the callback of a request or continues one
  twice: what was continued together with what requests and waiting tasks still own is
  the same before and after it.
\<close>

theorem callbacks_conserved:
  assumes "rm_inv w" "io_step env w = Some (Ret w') \<or> file_step env w = Some (Ret w')"
  shows "callbacks w' = callbacks w \<and> rm_inv w'"
  using assms io_step_inv file_step_inv by blast

theorem callbacks_conserved_witness:
  "\<exists>w'. io_step sample_env (post_io (StopRequest (mutex_new (Some (sample_state ''u'')))) (rm_world_new sample_env)) = Some (Ret w')
     \<and> w_continued w' = [9] \<and> callbacks w' = {#9#}"
proof -
  let ?w = "post_io (StopRequest (mutex_new (Some (sample_state ''u'')))) (rm_world_new sample_env)"
  have inv: "rm_inv ?w" using rm_inv_new [of sample_env] by (simp add: rm_inv_def rm_frame)
  have "w_io_tasks ?w = [StopRequest (mutex_new (Some (sample_state ''u'')))]" "w_continued ?w = []"
    by (simp_all add: rm_frame rm_world_new_def)
  then obtain w' where step: "io_step sample_env ?w = Some (Ret w')" "w_continued w' = [9]"
    using io_step_stop [OF inv, of "sample_state ''u''" "[]" sample_env] by (auto simp: sample_state_def)
  have "callbacks w' = callbacks ?w" using callbacks_conserved [OF inv] step(1) by blast
  moreover have "callbacks ?w = {#9#}"
    by (simp add: rm_frame) (simp add: callbacks_def rm_world_new_def sample_state_def)
  ultimately show ?thesis using step by auto
qed

section \<open>What is served\<close>

text \<open>
  What a content provider does on its own, with the locks of the request and of the manager
  free, which its only caller in the code holds (a request therefore blocks): asked for its
  URL it takes the request; the task it posts
  continues the callback of the request once and leaves a handler that the manager hands
  out once, whose body, read with buffers of any positive sizes, is the content. The
  MIME type of the handler is empty when none was given, and that of the resolver when
  one was given.
\<close>

lemma content_served:
  assumes "rm_inv w" "w_io_tasks w = []"
    "bt_get i (w_requests w) = Some m" "lock_ok m" "rq_state (m_data m) = Some st" "rq_params (m_data m) = st_params st"
    "st_callback st = Some c" "pm_url (st_params st) = url"
    "ev_stream_for_data env = (\<lambda>bytes. Some (mutex_new (bs_new bytes)))"
    "length content \<le> 9223372036854775807" "\<forall>n\<in>set ns. 1 \<le> n \<and> is_i32 n"
  shows "\<exists>w1 w2 w3 h reads h'.
      on_request env (ContentProvider url content mime) i w = Ret (True, w1)
    \<and> io_step env w1 = Some (Ret w2) \<and> w_continued w2 = w_continued w @ [c]
    \<and> mg_resource_handler (pm_request (st_params st)) w2 = (Some h, w3)
    \<and> fst (mg_resource_handler (pm_request (st_params st)) w3) = None
    \<and> srh_mime_type h = (if mime = [] then [] else pm_mime_type_resolver (st_params st) url)
    \<and> srh_drain brh_read_bytes h ns = Some (reads, h')
    \<and> concat (map snd reads) = take (\<Sum>n\<leftarrow>ns. nat n) (map of_char content)"
proof -
  let ?mime = "if mime = [] then [] else pm_mime_type_resolver (st_params st) url"
  let ?h = "new_with_stream ?mime (mutex_new (bs_new (map of_char content)))"
  let ?w1 = "put_request i ((m_data m)\<lparr>rq_state := None\<rparr>) (post_io (ContinueRequest (mutex_new (Some st)) (Some ?h)) w)"
  have taken: "on_request env (ContentProvider url content mime) i w = Ret (True, ?w1)"
    using assms(3-9) by (simp add: on_request_def content_on_request_def with_request_def outcome_simps answered Let_def)
  have "rm_inv ?w1"
    using rm_inv_conserves [OF assms(1)] answer_request [OF assms(3) answered [OF assms(5)]] by blast
  moreover have "w_io_tasks ?w1 = [ContinueRequest (mutex_new (Some st)) (Some ?h)]" "w_continued ?w1 = w_continued w"
    using assms(2) by (simp_all add: rm_frame)
  ultimately obtain w2 w3 where "io_step env ?w1 = Some (Ret w2)" "w_continued w2 = w_continued w @ [c]"
      "mg_resource_handler (pm_request (st_params st)) w2 = (Some ?h, w3)"
      "fst (mg_resource_handler (pm_request (st_params st)) w3) = None"
    using io_step_continue [of ?w1 st ?h "[]" env] assms(7) by auto
  moreover obtain reads h' where "srh_drain brh_read_bytes ?h ns = Some (reads, h')"
      "concat (map snd reads) = take (\<Sum>n\<leftarrow>ns. nat n) (map of_char content)"
    using new_with_stream_drains [of "map of_char content" ns ?mime] assms(10,11) by auto
  moreover have "srh_mime_type ?h = ?mime" by (simp add: new_with_stream_def)
  ultimately show ?thesis using taken by blast
qed

text \<open>
  A directory provider asked for a URL below its own takes the request and
  looks for the file of the rest of the URL below its directory. If it can be opened, two
  tasks later the callback has been continued once and the manager hands out a handler
  over the file with the MIME type of the resolver; if not, the request is dropped and
  its callback continued.
\<close>

lemma directory_served:
  assumes "rm_inv w" "w_io_tasks w = []" "w_file_tasks w = []" "i \<notin> set (references w)"
    "bt_get i (w_requests w) = Some m" "lock_ok m" "rq_state (m_data m) = Some st" "rq_params (m_data m) = st_params st"
    "st_callback st = Some c" "pm_url (st_params st) = normalize_url_path u @ rest"
    "[] \<notin> set (str_split (\<lambda>c. c = CHR ''/'') rest)" "dir \<noteq> []" "last dir \<noteq> CHR ''/''"
  shows "\<exists>w1 w2.
      on_request env (DirectoryProvider (normalize_url_path u) dir) i w = Ret (True, w1) \<and> file_step env w1 = Some (Ret w2)
    \<and> (case ev_stream_for_file env (dir @ ''/'' @ rest) of
         None \<Rightarrow> bt_get i (w_requests w2) = None \<and> w_io_tasks w2 = [] \<and> w_continued w2 = w_continued w @ [c]
       | Some s \<Rightarrow> \<exists>w3 w4 w5. io_step env w2 = Some (Ret w3) \<and> io_step env w3 = Some (Ret w4)
           \<and> w_continued w4 = w_continued w @ [c]
           \<and> mg_resource_handler (pm_request (st_params st)) w4 =
               (Some (new_with_stream (pm_mime_type_resolver (st_params st) (normalize_url_path u @ rest)) s), w5))"
proof -
  let ?path = "dir @ ''/'' @ rest" and ?w1 = "post_file (OpenFileRequest (dir @ ''/'' @ rest) i) w"
  have path: "get_file_relative_path dir (normalize_url_path u) (normalize_url_path u @ rest) = Some ?path"
    using get_file_relative_path_prefix [of dir rest] assms(11-13) by simp
  have "starts_with (normalize_url_path u @ rest) (normalize_url_path u)" by (simp add: starts_with_def)
  then have taken: "on_request env (DirectoryProvider (normalize_url_path u) dir) i w = Ret (True, ?w1)"
    using assms(5-8,10) path by (simp add: on_request_def directory_on_request_def with_request_def outcome_simps)
  have same: "?w1\<lparr>w_file_tasks := []\<rparr> = w" using assms(3) by (simp add: post_file_def)
  have step: "file_step env ?w1 = Some (Ret (execute_open_file env ?path i w))"
    using assms(3) same by (simp add: file_step_def rm_frame rm_execute_def)
  show ?thesis
  proof (cases "ev_stream_for_file env ?path")
    case None
    have "execute_open_file env ?path i w = drop_state st (w\<lparr>w_requests := bt_remove i (w_requests w)\<rparr>)"
      using None assms(4,5,7) by (simp add: execute_open_file_def drop_request_def)
    then show ?thesis using taken step None assms(2,9)
      by (simp add: rm_frame bt_simps) (simp add: drop_state_def)
  next
    case (Some s)
    let ?w2 = "post_io (ContinueFileRequest s i) w"
    have open_: "execute_open_file env ?path i w = ?w2"
      using Some by (simp add: execute_open_file_def drop_request_def references_def rm_frame)
    let ?h = "new_with_stream (pm_mime_type_resolver (st_params st) (normalize_url_path u @ rest)) s"
    let ?w3 = "drop_request i (put_request i ((m_data m)\<lparr>rq_state := None\<rparr>) (post_io (ContinueRequest (mutex_new (Some st)) (Some ?h)) w))"
    have "?w2\<lparr>w_io_tasks := []\<rparr> = w" using assms(2) by (simp add: post_io_def)
    then have third: "io_step env ?w2 = Some (Ret ?w3)"
      using assms(2,5-8,10) by (simp add: io_step_def rm_frame rm_execute_def execute_continue_file_def
          with_request_def outcome_simps answered Let_def)
    have inv: "rm_inv ?w2" using assms(1) by (simp add: rm_inv_def rm_frame)
    have "w_continued ?w3 = w_continued w"
    proof -
      let ?v = "put_request i ((m_data m)\<lparr>rq_state := None\<rparr>) (post_io (ContinueRequest (mutex_new (Some st)) (Some ?h)) w)"
      have "bt_get i (w_requests ?v) = Some (m\<lparr>m_data := (m_data m)\<lparr>rq_state := None\<rparr>\<rparr>)"
        using assms(5) by (simp add: put_request_def change_request_def rm_frame bt_simps)
      then have "w_continued (drop_request i ?v) = w_continued ?v" by (simp add: drop_request_def)
      then show ?thesis by (simp add: rm_frame)
    qed
    moreover have "w_io_tasks ?w3 = [ContinueRequest (mutex_new (Some st)) (Some ?h)]" using assms(2) by (simp add: rm_frame)
    moreover have "rm_inv ?w3" using io_step_inv [OF inv third] by simp
    ultimately obtain w4 w5 where "io_step env ?w3 = Some (Ret w4)" "w_continued w4 = w_continued w @ [c]"
        "mg_resource_handler (pm_request (st_params st)) w4 = (Some ?h, w5)"
      using io_step_continue [of ?w3 st ?h "[]" env] assms(9) by auto
    with taken step open_ third Some show ?thesis by auto
  qed
qed

section \<open>Archives\<close>

text \<open>The handler an archive has for a request, if any, when none of its locks is taken.\<close>

definition archive_free :: "archive_provider_state \<Rightarrow> bool" where
  "archive_free st \<longleftrightarrow>
     (case ap_archive st of
        None \<Rightarrow> True
      | Some za \<Rightarrow> lock_ok (za_contents za) \<and> (\<forall>(n, f)\<in>set (m_data (za_contents za)). lock_ok f))"

definition zip_answer ::
  "('s, 'r) rm_env \<Rightarrow> archive_provider_state \<Rightarrow> request_params \<Rightarrow> 's stream_resource_handler option" where
  "zip_answer env st params =
     (case (ap_archive st, get_file_relative_path [] (ap_url_path st) (pm_url params)) of
        (Some za, Some p) \<Rightarrow>
          (case bt_get p (m_data (za_contents za)) of
             None \<Rightarrow> None
           | Some f \<Rightarrow>
               map_option (new_with_stream (pm_mime_type_resolver params (pm_url params)))
                 (ev_stream_for_handler env (mutex_new (bs_new (zf_data (m_data f))))))
      | _ \<Rightarrow> None)"

definition zip_tasks :: "('s, 'r) rm_env \<Rightarrow> archive_provider_state \<Rightarrow> manager_request \<Rightarrow> 's rm_task list" where
  "zip_tasks env st rq =
     (case (rq_state rq, zip_answer env st (rq_params rq)) of
        (Some s, Some h) \<Rightarrow> [ContinueRequest (mutex_new (Some s)) (Some h)] | _ \<Rightarrow> [])"

definition zip_declined :: "('s, 'r) rm_env \<Rightarrow> archive_provider_state \<Rightarrow> manager_request \<Rightarrow> nat list" where
  "zip_declined env st rq =
     (case (rq_state rq, zip_answer env st (rq_params rq)) of
        (Some s, None) \<Rightarrow> (case st_callback s of None \<Rightarrow> [] | Some c \<Rightarrow> [c]) | _ \<Rightarrow> [])"

lemma ap_continue_request_answer:
  assumes "archive_free st" "bt_get i (w_requests w) = Some m" "lock_ok m"
  shows "ap_continue_request env st i w =
    (case zip_answer env st (rq_params (m_data m)) of
       None \<Rightarrow> Ret (False, w)
     | Some h \<Rightarrow> (let (rq, w) = rq_continue_request (Some h) (m_data m) w in Ret (True, put_request i rq w)))"
proof (cases "ap_archive st")
  case (Some za)
  have za: "lock_ok (za_contents za)" using assms(1) Some by (simp add: archive_free_def)
  have "lock_ok f" if "bt_get p (m_data (za_contents za)) = Some f" for p f
    using assms(1) Some that by (auto simp: archive_free_def bt_get_def dest: map_of_SomeD)
  then show ?thesis using assms(2,3) Some za
    by (auto simp: ap_continue_request_def zip_answer_def with_request_def outcome_simps za_file_def
        zf_stream_reader_def Let_def split: option.splits)
qed (use assms in \<open>simp add: ap_continue_request_def zip_answer_def with_request_def outcome_simps\<close>)

text \<open>One request of the queue: answered or declined, and gone.\<close>

lemma continue_zip_step:
  assumes "archive_free st" "bt_get i (w_requests w) = Some m" "lock_ok m" "i \<notin> set (references w)"
  shows "\<exists>b w1 w2. ap_continue_request env st i w = Ret (b, w1) \<and> w2 = drop_request i w1
    \<and> w_io_tasks w2 = w_io_tasks w @ zip_tasks env st (m_data m)
    \<and> w_continued w2 = w_continued w @ zip_declined env st (m_data m)
    \<and> (\<forall>j. bt_get j (w_requests w2) = (if j = i then None else bt_get j (w_requests w)))
    \<and> set (references w2) = set (references w) \<and> w_archives w2 = w_archives w"
proof -
  let ?rq = "m_data m"
  consider (none) "zip_answer env st (rq_params ?rq) = None"
    | (idle) h where "zip_answer env st (rq_params ?rq) = Some h" "rq_state ?rq = None"
    | (answered) h s where "zip_answer env st (rq_params ?rq) = Some h" "rq_state ?rq = Some s"
    by (cases "zip_answer env st (rq_params ?rq)"; cases "rq_state ?rq") auto
  then show ?thesis
  proof cases
    case none
    then have "ap_continue_request env st i w = Ret (False, w)" by (simp add: ap_continue_request_answer [OF assms(1-3)])
    moreover have "drop_request i w = (case rq_state ?rq of None \<Rightarrow> w\<lparr>w_requests := bt_remove i (w_requests w)\<rparr>
        | Some s \<Rightarrow> drop_state s (w\<lparr>w_requests := bt_remove i (w_requests w)\<rparr>))"
      using assms(2,4) by (simp add: drop_request_def Let_def)
    ultimately show ?thesis using none
      by (cases "rq_state ?rq")
        (auto simp: zip_tasks_def zip_declined_def rm_frame bt_simps references_def drop_state_def split: option.splits)
  next
    case idle
    let ?v = "put_request i ?rq w"
    have "ap_continue_request env st i w = Ret (True, ?v)"
      using idle by (simp add: ap_continue_request_answer [OF assms(1-3)] rq_continue_request_def)
    moreover have "bt_get i (w_requests ?v) = Some (m\<lparr>m_data := ?rq\<rparr>)"
      using assms(2) by (simp add: put_request_def change_request_def bt_simps)
    moreover have "references ?v = references w" by (simp add: references_def rm_frame)
    ultimately show ?thesis using idle assms(2,4)
      by (intro exI [of _ True]) (simp add: drop_request_def zip_tasks_def zip_declined_def rm_frame Let_def,
        simp add: references_def rm_frame bt_simps put_request_def change_request_def)
  next
    case answered
    let ?v = "put_request i (?rq\<lparr>rq_state := None\<rparr>) (post_io (ContinueRequest (mutex_new (Some s)) (Some h)) w)"
    have "ap_continue_request env st i w = Ret (True, ?v)"
      using answered by (simp add: ap_continue_request_answer [OF assms(1-3)] rq_continue_request_def)
    moreover have "bt_get i (w_requests ?v) = Some (m\<lparr>m_data := ?rq\<lparr>rq_state := None\<rparr>\<rparr>)"
      using assms(2) by (simp add: put_request_def change_request_def rm_frame bt_simps)
    moreover have "references ?v = references w" by (simp add: references_def rm_frame)
    ultimately show ?thesis using answered assms(2,4)
      by (intro exI [of _ True]) (simp add: drop_request_def zip_tasks_def zip_declined_def rm_frame Let_def,
        simp add: references_def rm_frame bt_simps put_request_def change_request_def)
  qed
qed

lemma continue_zip_requests_all:
  assumes "archive_free st"
  shows "distinct is \<Longrightarrow> \<forall>i\<in>set is. i \<notin> set (references w) \<and> (\<exists>m. bt_get i (w_requests w) = Some m \<and> lock_ok m) \<Longrightarrow>
    \<exists>w'. continue_zip_requests env st is w = Ret w'
    \<and> w_io_tasks w' = w_io_tasks w @ concat (map (\<lambda>i. zip_tasks env st (m_data (the (bt_get i (w_requests w))))) is)
    \<and> w_continued w' = w_continued w @ concat (map (\<lambda>i. zip_declined env st (m_data (the (bt_get i (w_requests w))))) is)
    \<and> (\<forall>j. bt_get j (w_requests w') = (if j \<in> set is then None else bt_get j (w_requests w)))
    \<and> w_archives w' = w_archives w"
proof (induction "is" arbitrary: w)
  case (Cons i "is")
  then obtain m where m: "bt_get i (w_requests w) = Some m" "lock_ok m" "i \<notin> set (references w)" by auto
  obtain b w1 w2 where w2: "ap_continue_request env st i w = Ret (b, w1)" "w2 = drop_request i w1"
    "w_io_tasks w2 = w_io_tasks w @ zip_tasks env st (m_data m)"
    "w_continued w2 = w_continued w @ zip_declined env st (m_data m)"
    "\<And>j. bt_get j (w_requests w2) = (if j = i then None else bt_get j (w_requests w))"
    "set (references w2) = set (references w)" "w_archives w2 = w_archives w"
    using continue_zip_step [OF assms m] by metis
  have new: "i \<notin> set is" "distinct is" using Cons.prems(1) by auto
  then have same: "bt_get j (w_requests w2) = bt_get j (w_requests w)" if "j \<in> set is" for j using that w2(5) by auto
  have "\<forall>i\<in>set is. i \<notin> set (references w2) \<and> (\<exists>m. bt_get i (w_requests w2) = Some m \<and> lock_ok m)"
    using Cons.prems(2) same w2(6) by auto
  from Cons.IH [OF new(2) this] obtain w' where w': "continue_zip_requests env st is w2 = Ret w'"
    "w_io_tasks w' = w_io_tasks w2 @ concat (map (\<lambda>i. zip_tasks env st (m_data (the (bt_get i (w_requests w2))))) is)"
    "w_continued w' = w_continued w2 @ concat (map (\<lambda>i. zip_declined env st (m_data (the (bt_get i (w_requests w2))))) is)"
    "\<And>j. bt_get j (w_requests w') = (if j \<in> set is then None else bt_get j (w_requests w2))" "w_archives w' = w_archives w2"
    by blast
  have "map (\<lambda>i. f (bt_get i (w_requests w2))) is = map (\<lambda>i. f (bt_get i (w_requests w))) is" for f :: "_ \<Rightarrow> 'z list"
    using same by simp
  then show ?case using w'  w2 m(1) new(1) same by (auto simp: cong: map_cong)
qed simp

text \<open>
  When an archive has been loaded, the task of the IO thread answers every
  request that was waiting for it, in the order of arrival: one whose file the archive
  has is continued with a handler over that file, and the callback of one whose file it
  has not is continued at once. Afterwards no request waits and the requests are gone.
\<close>

lemma archive_queue_served:
  assumes "bt_get a (w_archives w) = Some am" "lock_ok am" "archive_free (m_data am)"
    "distinct (ap_pending_requests (m_data am))"
    "\<forall>i\<in>set (ap_pending_requests (m_data am)).
       i \<notin> set (references (put_archive a ((m_data am)\<lparr>ap_load_ended := True, ap_pending_requests := []\<rparr>) w))
       \<and> (\<exists>m. bt_get i (w_requests w) = Some m \<and> lock_ok m)"
  shows "\<exists>w'. execute_continue_zip env a w = Ret w'
    \<and> w_io_tasks w' = w_io_tasks w @
        concat (map (\<lambda>i. zip_tasks env (m_data am) (m_data (the (bt_get i (w_requests w))))) (ap_pending_requests (m_data am)))
    \<and> w_continued w' = w_continued w @
        concat (map (\<lambda>i. zip_declined env (m_data am) (m_data (the (bt_get i (w_requests w))))) (ap_pending_requests (m_data am)))
    \<and> (\<forall>j. bt_get j (w_requests w') = (if j \<in> set (ap_pending_requests (m_data am)) then None else bt_get j (w_requests w)))
    \<and> (\<exists>am'. bt_get a (w_archives w') = Some am' \<and> ap_load_ended (m_data am') \<and> ap_pending_requests (m_data am') = [])"
proof -
  let ?st = "(m_data am)\<lparr>ap_load_ended := True, ap_pending_requests := []\<rparr>"
  let ?w = "put_archive a ?st w"
  have exec: "execute_continue_zip env a w = continue_zip_requests env ?st (ap_pending_requests (m_data am)) ?w"
    using assms(1,2) by (simp add: execute_continue_zip_def outcome_simps Let_def)
  have "zip_answer env ?st = zip_answer env (m_data am)" by (simp add: zip_answer_def fun_eq_iff)
  then have same: "zip_tasks env ?st = zip_tasks env (m_data am)" "zip_declined env ?st = zip_declined env (m_data am)"
    by (simp_all add: zip_tasks_def zip_declined_def fun_eq_iff)
  have free: "archive_free ?st" using assms(3) by (simp add: archive_free_def)
  have get: "bt_get a (w_archives ?w) = Some (am\<lparr>m_data := ?st\<rparr>)"
    using assms(1) by (simp add: put_archive_def bt_simps)
  have "\<forall>i\<in>set (ap_pending_requests (m_data am)). i \<notin> set (references ?w) \<and> (\<exists>m. bt_get i (w_requests ?w) = Some m \<and> lock_ok m)"
    using assms(5) by (simp add: rm_frame)
  from continue_zip_requests_all [OF free assms(4) this, of env, unfolded same] obtain w' where
    "continue_zip_requests env ?st (ap_pending_requests (m_data am)) ?w = Ret w'"
    "w_io_tasks w' = w_io_tasks w @ concat (map (\<lambda>i. zip_tasks env (m_data am) (m_data (the (bt_get i (w_requests w))))) (ap_pending_requests (m_data am)))"
    "w_continued w' = w_continued w @ concat (map (\<lambda>i. zip_declined env (m_data am) (m_data (the (bt_get i (w_requests w))))) (ap_pending_requests (m_data am)))"
    "\<forall>j. bt_get j (w_requests w') = (if j \<in> set (ap_pending_requests (m_data am)) then None else bt_get j (w_requests w))"
    "w_archives w' = w_archives ?w"
    unfolding rm_frame by blast
  then show ?thesis using exec get by (intro exI [of _ w'] conjI exI [of _ "am\<lparr>m_data := ?st\<rparr>"]) simp_all
qed

definition sample_archive :: archive_provider_state where
  "sample_archive =
     \<lparr>ap_url_path = ''u/'', ap_archive_path = ''a.zip'', ap_password = [], ap_load_started = True, ap_load_ended = False,
      ap_archive = Some \<lparr>za_contents = mutex_new [(''b'', mutex_new \<lparr>zf_data = [104]\<rparr>)]\<rparr>, ap_pending_requests = [3]\<rparr>"

section \<open>Where a request does not get through\<close>

text \<open>
  Property C36. A request for which there is a provider never gets to it:
  \<^verbatim>\<open>on_before_resource_load\<close> runs under the lock of the manager and sending the request to
  a provider takes that lock again, so the IO thread blocks. Without a provider the
  request continues at once and nothing changes.
\<close>

theorem request_blocks_flaw:
  assumes "rm_inv w"
  shows "on_before_resource_load env browser frame request c (hold_manager w) =
    Some (if providers w = [] then Ret (RV_CONTINUE, hold_manager w) else Blocked)"
proof -
  have held: "held_inv (hold_manager w)" by (rule held_inv_hold [OF assms])
  then have "get_next_valid_provider 0 (hold_manager w) = length (providers (hold_manager w)) \<longleftrightarrow> providers w = []"
    by (simp add: next_valid_ok held_inv_def rm_frame)
  moreover have "mg_send_request env st (hold_manager w) = Some Blocked" for st
    using held by (intro send_blocked) (simp_all add: held_inv_def)
  ultimately show ?thesis by (simp add: on_before_resource_load_def)
qed

theorem request_blocks_flaw_witness:
  "on_before_resource_load sample_env 1 2 \<lparr>cr_identifier = 7, cr_url = ''u''\<rparr> 9
     (hold_manager (mg_add_provider True (ContentProvider ''u'' ''hi'' []) 0 ''i'' (rm_world_new sample_env))) = Some Blocked"
proof -
  let ?w = "mg_add_provider True (ContentProvider ''u'' ''hi'' []) 0 ''i'' (rm_world_new sample_env)"
  have "rm_inv ?w"
    using rm_inv_new [of sample_env] by (simp add: rm_inv_def add_provider_insort rm_frame entries_ok_insort)
  moreover have "providers ?w \<noteq> []"
    by (simp add: add_provider_insort rm_frame rm_world_new_def resource_manager_new_def)
  ultimately show ?thesis using request_blocks_flaw [of ?w] by simp
qed

text \<open>
  An archive provider fails its requests in two ways. Once its archive is
  loaded, a request for it blocks: the provider holds the lock of the request when it
  looks for the file, which takes the lock again. And when the archive file cannot be
  opened, the task that tries leaves everything as it is: the requests that wait keep
  waiting, and later ones join them with no task to come.
\<close>

lemma archive_requests_flaw:
  assumes "bt_get a (w_archives w) = Some am" "lock_ok am" "bt_get i (w_requests w) = Some m" "lock_ok m"
    "starts_with (pm_url (rq_params (m_data m))) (ap_url_path (m_data am))" "ap_load_started (m_data am)"
  shows "(ap_load_ended (m_data am) \<longrightarrow> archive_on_request env a i w = Blocked)
    \<and> (ev_stream_for_file env (ap_archive_path (m_data am)) = None \<longrightarrow> execute_open_zip env a w = Some (Ret w))
    \<and> (\<not> ap_load_ended (m_data am) \<longrightarrow>
         (\<exists>w'. archive_on_request env a i w = Ret (True, w') \<and> w_io_tasks w' = w_io_tasks w \<and> w_file_tasks w' = w_file_tasks w
           \<and> (\<exists>am'. bt_get a (w_archives w') = Some am' \<and> ap_pending_requests (m_data am') = ap_pending_requests (m_data am) @ [i])))"
proof (intro conjI impI)
  assume "ap_load_ended (m_data am)"
  moreover have "ap_continue_request env (m_data am) i (hold_request i w) = Blocked"
    using assms(3) by (simp add: ap_continue_request_def with_request_def hold_request_def change_request_def bt_simps outcome_simps)
  ultimately show "archive_on_request env a i w = Blocked"
    using assms by (simp add: archive_on_request_def lock_ok_def Let_def)
next
  assume "ev_stream_for_file env (ap_archive_path (m_data am)) = None"
  then show "execute_open_zip env a w = Some (Ret w)" using assms(1,2) by (simp add: execute_open_zip_def lock_ok_def)
next
  assume "\<not> ap_load_ended (m_data am)"
  then show "\<exists>w'. archive_on_request env a i w = Ret (True, w') \<and> w_io_tasks w' = w_io_tasks w \<and> w_file_tasks w' = w_file_tasks w
      \<and> (\<exists>am'. bt_get a (w_archives w') = Some am' \<and> ap_pending_requests (m_data am') = ap_pending_requests (m_data am) @ [i])"
    using assms by (simp add: archive_on_request_def lock_ok_def Let_def rm_frame) (simp add: put_archive_def bt_simps)
qed

end
