(* ===== verification/Ownership.thy ===== *)
theory Ownership
  imports Prelude "HOL-Library.Multiset"
begin

text \<open>
  Counting who refers to an object: the references of a program are a multiset, and a step
  that gives up the reference at a position takes one occurrence out of it. Shared by the
  theories of reference counting and of strings.
\<close>

lemma mset_drop_nth: "k < length xs \<Longrightarrow> mset (drop_nth k xs) = mset xs - {#xs ! k#}"
proof -
  assume "k < length xs"
  then have "xs = take k xs @ xs ! k # drop (Suc k) xs" by (rule id_take_nth_drop)
  then have "mset xs = mset (take k xs) + mset (drop (Suc k) xs) + {#xs ! k#}"
    by (metis add_mset_add_single mset.simps(2) mset_append union_mset_add_mset_right)
  then show ?thesis by (simp add: drop_nth_def)
qed

end
