(* ===== verification/Ref_Count.thy ===== *)
theory Ref_Count
  imports Ownership
begin

text \<open>
  \<^verbatim>\<open>cef/src/rc.rs\<close>: objects implemented in Rust and handed to CEF (\<^verbatim>\<open>RcImpl\<close>), the four
  functions in their base, the trait \<^verbatim>\<open>Rc\<close> that calls them, and the smart pointer
  \<^verbatim>\<open>RefGuard\<close>. The memory is a map from addresses to objects; a call through a pointer to
  an object that has been freed is undefined behaviour and is the value \<^const>\<open>None\<close>.
  The counter is a \<^verbatim>\<open>usize\<close> of 64 bits that wraps; the interleaving of threads is that of
  its atomic operations.
\<close>

section \<open>Objects\<close>

text \<open>
  The base of an object: for each of the four function pointers whether it is set, to the
  function of \<^verbatim>\<open>RcImpl\<close> of that name.
\<close>

record cef_base =
  base_size :: usize
  base_add_ref :: bool
  base_has_one_ref :: bool
  base_has_at_least_one_ref :: bool
  base_release :: bool

record 'i rc_impl =
  rc_base :: cef_base
  rc_interface :: 'i
  rc_ref_count :: usize

text \<open>\<open>rc_dropped\<close> lists the interfaces whose destructor has run.\<close>

record 'i rc_heap =
  rc_objects :: "nat \<Rightarrow> 'i rc_impl option"
  rc_next :: nat
  rc_dropped :: "'i list"

definition rc_impl_new :: "usize \<Rightarrow> 'i \<Rightarrow> 'i rc_heap \<Rightarrow> nat \<times> 'i rc_heap" where
  "rc_impl_new sz interface h =
     (let base = \<lparr>base_size = sz, base_add_ref = True, base_has_one_ref = True,
                  base_has_at_least_one_ref = True, base_release = True\<rparr>;
          object = \<lparr>rc_base = base, rc_interface = interface, rc_ref_count = 1\<rparr>
      in (rc_next h, h\<lparr>rc_objects := (rc_objects h)(rc_next h \<mapsto> object), rc_next := Suc (rc_next h)\<rparr>))"

definition usize_fetch_add :: "usize \<Rightarrow> usize" where
  "usize_fetch_add n = (n + 1) mod 18446744073709551616"

definition usize_fetch_sub :: "usize \<Rightarrow> usize" where
  "usize_fetch_sub n = (if n = 0 then 18446744073709551615 else n - 1)"

definition set_count :: "nat \<Rightarrow> 'i rc_impl \<Rightarrow> usize \<Rightarrow> 'i rc_heap \<Rightarrow> 'i rc_heap" where
  "set_count a obj n h = h\<lparr>rc_objects := (rc_objects h)(a \<mapsto> obj\<lparr>rc_ref_count := n\<rparr>)\<rparr>"

definition rc_add_ref :: "nat \<Rightarrow> 'i rc_heap \<Rightarrow> 'i rc_heap option" where
  "rc_add_ref a h =
     (case rc_objects h a of
        None \<Rightarrow> None
      | Some obj \<Rightarrow> Some (set_count a obj (usize_fetch_add (rc_ref_count obj)) h))"

definition rc_has_one_ref :: "nat \<Rightarrow> 'i rc_heap \<Rightarrow> i32 option" where
  "rc_has_one_ref a h =
     (case rc_objects h a of None \<Rightarrow> None | Some obj \<Rightarrow> Some (if rc_ref_count obj = 1 then 1 else 0))"

definition rc_has_at_least_one_ref :: "nat \<Rightarrow> 'i rc_heap \<Rightarrow> i32 option" where
  "rc_has_at_least_one_ref a h =
     (case rc_objects h a of None \<Rightarrow> None | Some obj \<Rightarrow> Some (if rc_ref_count obj \<ge> 1 then 1 else 0))"

definition rc_release :: "nat \<Rightarrow> 'i rc_heap \<Rightarrow> (i32 \<times> 'i rc_heap) option" where
  "rc_release a h =
     (case rc_objects h a of
        None \<Rightarrow> None
      | Some obj \<Rightarrow>
          if rc_ref_count obj \<noteq> 1 then Some (0, set_count a obj (usize_fetch_sub (rc_ref_count obj)) h)
          else Some (1, h\<lparr>rc_objects := (rc_objects h)(a := None), rc_dropped := rc_dropped h @ [rc_interface obj]\<rparr>))"

section \<open>The trait and the smart pointer\<close>

definition base_of :: "nat \<Rightarrow> 'i rc_heap \<Rightarrow> cef_base option" where
  "base_of a h = map_option rc_base (rc_objects h a)"

definition trait_add_ref :: "nat \<Rightarrow> 'i rc_heap \<Rightarrow> 'i rc_heap option" where
  "trait_add_ref a h =
     (case base_of a h of None \<Rightarrow> None | Some b \<Rightarrow> if base_add_ref b then rc_add_ref a h else Some h)"

definition trait_has_one_ref :: "nat \<Rightarrow> 'i rc_heap \<Rightarrow> bool option" where
  "trait_has_one_ref a h =
     (case base_of a h of
        None \<Rightarrow> None
      | Some b \<Rightarrow> if base_has_one_ref b then map_option (\<lambda>r. r = 1) (rc_has_one_ref a h) else Some False)"

definition trait_has_at_least_one_ref :: "nat \<Rightarrow> 'i rc_heap \<Rightarrow> bool option" where
  "trait_has_at_least_one_ref a h =
     (case base_of a h of
        None \<Rightarrow> None
      | Some b \<Rightarrow>
          if base_has_at_least_one_ref b then map_option (\<lambda>r. r = 1) (rc_has_at_least_one_ref a h) else Some False)"

definition trait_release :: "nat \<Rightarrow> 'i rc_heap \<Rightarrow> (bool \<times> 'i rc_heap) option" where
  "trait_release a h =
     (case base_of a h of
        None \<Rightarrow> None
      | Some b \<Rightarrow> if base_release b then map_option (\<lambda>(r, h). (r = 1, h)) (rc_release a h) else Some (False, h))"

record ref_guard =
  rg_object :: nat

definition rg_from_raw :: "nat \<Rightarrow> ref_guard" where
  "rg_from_raw ptr = \<lparr>rg_object = ptr\<rparr>"

definition rg_from_raw_add_ref :: "nat \<Rightarrow> 'i rc_heap \<Rightarrow> (ref_guard \<times> 'i rc_heap) option" where
  "rg_from_raw_add_ref ptr h = map_option (\<lambda>h. (\<lparr>rg_object = ptr\<rparr>, h)) (trait_add_ref ptr h)"

definition rg_into_raw :: "ref_guard \<Rightarrow> nat" where
  "rg_into_raw g = rg_object g"

definition rg_convert :: "ref_guard \<Rightarrow> 'i rc_heap \<Rightarrow> (ref_guard \<times> 'i rc_heap) option" where
  "rg_convert g h = rg_from_raw_add_ref (rg_into_raw g) h"

definition rg_clone :: "ref_guard \<Rightarrow> 'i rc_heap \<Rightarrow> (ref_guard \<times> 'i rc_heap) option" where
  "rg_clone g h = map_option (\<lambda>h. (\<lparr>rg_object = rg_object g\<rparr>, h)) (trait_add_ref (rg_object g) h)"

definition rg_drop :: "ref_guard \<Rightarrow> 'i rc_heap \<Rightarrow> 'i rc_heap option" where
  "rg_drop g h = map_option snd (trait_release (rg_object g) h)"

section \<open>Out-parameters\<close>

text \<open>
  \<^verbatim>\<open>WrapParamRef<T, P>\<close>: a wrapper of a parameter of CEF. \<open>cell\<close> is what the pointer points
  to, \<open>zero_p\<close> and \<open>zero_t\<close> are the zeroed values, \<open>into_t\<close> and \<open>into_p\<close> the conversions.
\<close>

record 't wrap_param_ref =
  wp_value :: 't
  wp_output :: bool

definition wp_from_mut :: "'p \<Rightarrow> 't \<Rightarrow> ('p \<Rightarrow> 't) \<Rightarrow> 'p option \<Rightarrow> 't wrap_param_ref \<times> 'p option" where
  "wp_from_mut zero_p zero_t into_t cell =
     (case cell of
        None \<Rightarrow> (\<lparr>wp_value = zero_t, wp_output = False\<rparr>, None)
      | Some p \<Rightarrow> (\<lparr>wp_value = into_t p, wp_output = True\<rparr>, Some zero_p))"

definition wp_from_const :: "'t \<Rightarrow> ('p \<Rightarrow> 't) \<Rightarrow> 'p option \<Rightarrow> 't wrap_param_ref" where
  "wp_from_const zero_t into_t cell =
     \<lparr>wp_value = (case cell of None \<Rightarrow> zero_t | Some p \<Rightarrow> into_t p), wp_output = False\<rparr>"

definition wp_as_mut :: "('t \<Rightarrow> 't) \<Rightarrow> 't wrap_param_ref \<Rightarrow> 't wrap_param_ref" where
  "wp_as_mut f w = w\<lparr>wp_value := f (wp_value w)\<rparr>"

definition wp_drop :: "('t \<Rightarrow> 'p) \<Rightarrow> 't wrap_param_ref \<Rightarrow> 'p option \<Rightarrow> 'p option" where
  "wp_drop into_p w cell = (if wp_output w then map_option (\<lambda>_. into_p (wp_value w)) cell else cell)"

lemma wrap_param_writes_back:
  "(let (w, cell') = wp_from_mut zero_p zero_t into_t cell in wp_drop into_p (wp_as_mut f w) cell') =
     map_option (\<lambda>p. into_p (f (into_t p))) cell"
  by (cases cell) (simp_all add: wp_from_mut_def wp_drop_def wp_as_mut_def)

section \<open>Programs that follow the rules of ownership\<close>

text \<open>
  The references to objects are the guards in Rust and the references CEF owns. A program
  makes objects, clones, converts and drops guards, passes a guard as an argument (the
  bindings add a reference for CEF and pass the pointer), takes a returned pointer into a
  guard, and CEF adds and releases references of its own.
\<close>

datatype 'i rc_op =
    RcNew usize 'i
  | RcClone nat
  | RcConvert nat
  | RcDrop nat
  | RcPass nat
  | RcReturn nat
  | RcForeignAdd nat
  | RcForeignRelease nat

record 'i rc_program =
  pg_heap :: "'i rc_heap"
  pg_guards :: "ref_guard list"
  pg_foreign :: "nat list"

definition rc_program_new :: "'i rc_program" where
  "rc_program_new = \<lparr>pg_heap = \<lparr>rc_objects = Map.empty, rc_next = 0, rc_dropped = []\<rparr>, pg_guards = [], pg_foreign = []\<rparr>"

definition defined :: "'a option \<Rightarrow> ('a \<Rightarrow> 'b) \<Rightarrow> 'b outcome" where
  "defined r f = (case r of None \<Rightarrow> Panic | Some x \<Rightarrow> Ret (f x))"

text \<open>A step that names no guard or no reference of CEF does nothing.\<close>

definition rc_step :: "'i rc_op \<Rightarrow> 'i rc_program \<Rightarrow> 'i rc_program outcome" where
  "rc_step x p =
     (let h = pg_heap p; gs = pg_guards p; fs = pg_foreign p
      in case x of
        RcNew sz interface \<Rightarrow>
          (let (a, h) = rc_impl_new sz interface h in Ret (p\<lparr>pg_heap := h, pg_guards := gs @ [rg_from_raw a]\<rparr>))
      | RcClone k \<Rightarrow>
          if k < length gs then defined (rg_clone (gs ! k) h) (\<lambda>(g, h). p\<lparr>pg_heap := h, pg_guards := gs @ [g]\<rparr>)
          else Ret p
      | RcConvert k \<Rightarrow>
          if k < length gs then defined (rg_convert (gs ! k) h) (\<lambda>(g, h). p\<lparr>pg_heap := h, pg_guards := gs @ [g]\<rparr>)
          else Ret p
      | RcDrop k \<Rightarrow>
          if k < length gs then defined (rg_drop (gs ! k) h) (\<lambda>h. p\<lparr>pg_heap := h, pg_guards := drop_nth k gs\<rparr>)
          else Ret p
      | RcPass k \<Rightarrow>
          if k < length gs
          then defined (trait_add_ref (rg_object (gs ! k)) h) (\<lambda>h. p\<lparr>pg_heap := h, pg_foreign := fs @ [rg_into_raw (gs ! k)]\<rparr>)
          else Ret p
      | RcReturn k \<Rightarrow>
          if k < length fs then Ret (p\<lparr>pg_guards := gs @ [rg_from_raw (fs ! k)], pg_foreign := drop_nth k fs\<rparr>) else Ret p
      | RcForeignAdd k \<Rightarrow>
          if k < length fs then defined (rc_add_ref (fs ! k) h) (\<lambda>h. p\<lparr>pg_heap := h, pg_foreign := fs @ [fs ! k]\<rparr>)
          else Ret p
      | RcForeignRelease k \<Rightarrow>
          if k < length fs then defined (rc_release (fs ! k) h) (\<lambda>(_, h). p\<lparr>pg_heap := h, pg_foreign := drop_nth k fs\<rparr>)
          else Ret p)"

text \<open>All references of a program, and the invariant: the counters count them.\<close>

definition refs :: "'i rc_program \<Rightarrow> nat multiset" where
  "refs p = mset (map rg_object (pg_guards p)) + mset (pg_foreign p)"

definition impl_base :: "cef_base \<Rightarrow> bool" where
  "impl_base b \<longleftrightarrow> base_add_ref b \<and> base_has_one_ref b \<and> base_has_at_least_one_ref b \<and> base_release b"

definition counted :: "nat \<Rightarrow> 'i rc_impl option \<Rightarrow> bool" where
  "counted n r \<longleftrightarrow>
     (case r of None \<Rightarrow> n = 0 | Some obj \<Rightarrow> rc_ref_count obj = n \<and> 0 < n \<and> impl_base (rc_base obj))"

definition rc_inv :: "'i rc_program \<Rightarrow> bool" where
  "rc_inv p \<longleftrightarrow>
     (\<forall>a. counted (count (refs p) a) (rc_objects (pg_heap p) a))
     \<and> (\<forall>a. rc_next (pg_heap p) \<le> a \<longrightarrow> rc_objects (pg_heap p) a = None)"

lemma rc_inv_new: "rc_inv rc_program_new"
  by (simp add: rc_inv_def rc_program_new_def refs_def counted_def)

text \<open>A step that touches one object only.\<close>

lemma rc_inv_update:
  assumes "rc_inv p" "\<And>b. b \<noteq> a \<Longrightarrow> rc_objects (pg_heap p') b = rc_objects (pg_heap p) b"
    "\<And>b. b \<noteq> a \<Longrightarrow> count (refs p') b = count (refs p) b" "counted (count (refs p') a) (rc_objects (pg_heap p') a)"
    "rc_next (pg_heap p) \<le> rc_next (pg_heap p')" "a < rc_next (pg_heap p')"
  shows "rc_inv p'"
  using assms unfolding rc_inv_def by (metis le_trans not_le)

lemma rc_inv_below: "rc_inv p \<Longrightarrow> rc_objects (pg_heap p) a = Some obj \<Longrightarrow> a < rc_next (pg_heap p)"
  by (auto simp: rc_inv_def) (metis not_le option.distinct(1))

lemma rc_inv_object:
  assumes "rc_inv p" "a \<in># refs p"
  obtains obj where "rc_objects (pg_heap p) a = Some obj" "rc_ref_count obj = count (refs p) a" "impl_base (rc_base obj)"
proof -
  have "counted (count (refs p) a) (rc_objects (pg_heap p) a)" "0 < count (refs p) a"
    using assms by (simp_all add: rc_inv_def)
  then show thesis
    by (auto simp: counted_def intro: that split: option.splits simp del: count_greater_zero_iff)
qed

lemma refs_guard: "k < length (pg_guards p) \<Longrightarrow> rg_object (pg_guards p ! k) \<in># refs p"
  by (auto simp: refs_def)

lemma refs_foreign: "k < length (pg_foreign p) \<Longrightarrow> pg_foreign p ! k \<in># refs p"
  by (simp add: refs_def)

text \<open>Adding a reference.\<close>

lemma add_ref_ok:
  assumes "rc_inv p" "a \<in># refs p" "size (refs p) < 18446744073709551615"
  obtains h where "rc_add_ref a (pg_heap p) = Some h" "trait_add_ref a (pg_heap p) = Some h"
    "\<And>p'. pg_heap p' = h \<Longrightarrow> refs p' = add_mset a (refs p) \<Longrightarrow> rc_inv p'"
proof -
  obtain obj where obj: "rc_objects (pg_heap p) a = Some obj" "rc_ref_count obj = count (refs p) a" "impl_base (rc_base obj)"
    using rc_inv_object [OF assms(1,2)] .
  have "count (refs p) a < 18446744073709551615" using count_le_size [of "refs p" a] assms(3) by linarith
  then have fetch: "usize_fetch_add (rc_ref_count obj) = Suc (count (refs p) a)" by (simp add: usize_fetch_add_def obj(2))
  let ?h = "set_count a obj (Suc (count (refs p) a)) (pg_heap p)"
  show thesis
  proof (rule that)
    show "rc_add_ref a (pg_heap p) = Some ?h" by (simp add: rc_add_ref_def obj(1) fetch)
    then show "trait_add_ref a (pg_heap p) = Some ?h"
      using obj(3) by (simp add: trait_add_ref_def base_of_def obj(1) impl_base_def)
    fix p' :: "'a rc_program"
    assume "pg_heap p' = ?h" "refs p' = add_mset a (refs p)"
    then show "rc_inv p'"
      using obj rc_inv_below [OF assms(1) obj(1)]
      by (intro rc_inv_update [OF assms(1), of a]) (simp_all add: set_count_def counted_def)
  qed
qed

text \<open>Releasing one: the object goes exactly with its last reference.\<close>

lemma release_ok:
  assumes "rc_inv p" "a \<in># refs p"
  obtains h obj where "rc_release a (pg_heap p) = Some (if count (refs p) a = 1 then 1 else 0, h)"
    "trait_release a (pg_heap p) = Some (count (refs p) a = 1, h)"
    "rc_objects (pg_heap p) a = Some obj"
    "rc_dropped h = rc_dropped (pg_heap p) @ (if count (refs p) a = 1 then [rc_interface obj] else [])"
    "rc_objects h a = None \<longleftrightarrow> count (refs p) a = 1" "\<And>b. b \<noteq> a \<Longrightarrow> rc_objects h b = rc_objects (pg_heap p) b"
    "\<And>p'. pg_heap p' = h \<Longrightarrow> refs p' = refs p - {#a#} \<Longrightarrow> rc_inv p'"
proof -
  obtain obj where obj: "rc_objects (pg_heap p) a = Some obj" "rc_ref_count obj = count (refs p) a" "impl_base (rc_base obj)"
    using rc_inv_object [OF assms] .
  have pos: "0 < count (refs p) a" using assms(2) by simp
  define h where "h = (if count (refs p) a = 1
      then (pg_heap p)\<lparr>rc_objects := (rc_objects (pg_heap p))(a := None), rc_dropped := rc_dropped (pg_heap p) @ [rc_interface obj]\<rparr>
      else set_count a obj (count (refs p) a - 1) (pg_heap p))"
  show thesis
  proof (rule that [of h obj])
    show rel: "rc_release a (pg_heap p) = Some (if count (refs p) a = 1 then 1 else 0, h)"
      using pos by (auto simp: rc_release_def obj(1,2) h_def usize_fetch_sub_def simp del: count_greater_zero_iff)
    then show "trait_release a (pg_heap p) = Some (count (refs p) a = 1, h)"
      using obj(3) by (simp add: trait_release_def base_of_def obj(1) impl_base_def)
    fix p' :: "'a rc_program"
    assume heap: "pg_heap p' = h" and refs: "refs p' = refs p - {#a#}"
    have "counted (count (refs p) a - 1) (rc_objects h a)"
      using obj pos by (auto simp: counted_def h_def set_count_def simp del: count_greater_zero_iff)
    then show "rc_inv p'"
      using rc_inv_below [OF assms(1) obj(1)]
      by (intro rc_inv_update [OF assms(1), of a]) (simp_all add: heap refs h_def set_count_def)
  qed (use obj in \<open>auto simp: h_def set_count_def\<close>)
qed

lemma rc_step_inv:
  assumes "rc_inv p" "size (refs p) < 18446744073709551615"
  shows "\<exists>p'. rc_step x p = Ret p' \<and> rc_inv p' \<and> size (refs p') \<le> Suc (size (refs p))"
proof (cases x)
  case (RcNew sz interface)
  have fresh: "rc_objects (pg_heap p) (rc_next (pg_heap p)) = None" using assms(1) by (simp add: rc_inv_def)
  let ?a = "rc_next (pg_heap p)"
  have "counted (count (refs p) ?a) (rc_objects (pg_heap p) ?a)" using assms(1) unfolding rc_inv_def by blast
  then have zero: "count (refs p) ?a = 0" unfolding fresh by (simp add: counted_def)
  let ?p = "p\<lparr>pg_heap := snd (rc_impl_new sz interface (pg_heap p)), pg_guards := pg_guards p @ [rg_from_raw ?a]\<rparr>"
  have refs: "refs (p\<lparr>pg_heap := h, pg_guards := pg_guards p @ [rg_from_raw ?a]\<rparr>) = add_mset ?a (refs p)" for h
    by (simp add: refs_def rg_from_raw_def)
  have "rc_inv ?p"
    using zero by (intro rc_inv_update [OF assms(1), of ?a])
      (simp_all add: refs rc_impl_new_def counted_def impl_base_def)
  then show ?thesis using refs by (simp add: RcNew rc_step_def Let_def rc_impl_new_def)
next
  case (RcClone k)
  show ?thesis
  proof (cases "k < length (pg_guards p)")
    case True
    obtain h where h: "trait_add_ref (rg_object (pg_guards p ! k)) (pg_heap p) = Some h"
        "\<And>p'. pg_heap p' = h \<Longrightarrow> refs p' = add_mset (rg_object (pg_guards p ! k)) (refs p) \<Longrightarrow> rc_inv p'"
      using add_ref_ok [OF assms(1) refs_guard [OF True] assms(2)] by metis
    then show ?thesis using True h(2) [of "p\<lparr>pg_heap := h, pg_guards := pg_guards p @ [\<lparr>rg_object = rg_object (pg_guards p ! k)\<rparr>]\<rparr>"]
      by (simp add: RcClone rc_step_def Let_def rg_clone_def defined_def refs_def)
  qed (use assms(1) in \<open>simp add: RcClone rc_step_def Let_def\<close>)
next
  case (RcConvert k)
  show ?thesis
  proof (cases "k < length (pg_guards p)")
    case True
    obtain h where h: "trait_add_ref (rg_object (pg_guards p ! k)) (pg_heap p) = Some h"
        "\<And>p'. pg_heap p' = h \<Longrightarrow> refs p' = add_mset (rg_object (pg_guards p ! k)) (refs p) \<Longrightarrow> rc_inv p'"
      using add_ref_ok [OF assms(1) refs_guard [OF True] assms(2)] by metis
    then show ?thesis using True h(2) [of "p\<lparr>pg_heap := h, pg_guards := pg_guards p @ [\<lparr>rg_object = rg_object (pg_guards p ! k)\<rparr>]\<rparr>"]
      by (simp add: RcConvert rc_step_def Let_def rg_convert_def rg_from_raw_add_ref_def rg_into_raw_def defined_def refs_def)
  qed (use assms(1) in \<open>simp add: RcConvert rc_step_def Let_def\<close>)
next
  case (RcDrop k)
  show ?thesis
  proof (cases "k < length (pg_guards p)")
    case True
    from release_ok [OF assms(1) refs_guard [OF True]] obtain h b where h: "trait_release (rg_object (pg_guards p ! k)) (pg_heap p) = Some (b, h)"
        "\<And>p'. pg_heap p' = h \<Longrightarrow> refs p' = refs p - {#rg_object (pg_guards p ! k)#} \<Longrightarrow> rc_inv p'" by metis
    have refs: "refs (p\<lparr>pg_heap := h, pg_guards := drop_nth k (pg_guards p)\<rparr>) = refs p - {#rg_object (pg_guards p ! k)#}"
      using True by (simp add: refs_def map_drop_nth mset_drop_nth)
    then show ?thesis using True h(1) h(2) [OF _ refs]
      by (simp add: RcDrop rc_step_def Let_def rg_drop_def defined_def size_Diff_singleton_if le_diff_conv)
  qed (use assms(1) in \<open>simp add: RcDrop rc_step_def Let_def\<close>)
next
  case (RcPass k)
  show ?thesis
  proof (cases "k < length (pg_guards p)")
    case True
    obtain h where h: "trait_add_ref (rg_object (pg_guards p ! k)) (pg_heap p) = Some h"
        "\<And>p'. pg_heap p' = h \<Longrightarrow> refs p' = add_mset (rg_object (pg_guards p ! k)) (refs p) \<Longrightarrow> rc_inv p'"
      using add_ref_ok [OF assms(1) refs_guard [OF True] assms(2)] by metis
    then show ?thesis using True h(2) [of "p\<lparr>pg_heap := h, pg_foreign := pg_foreign p @ [rg_object (pg_guards p ! k)]\<rparr>"]
      by (simp add: RcPass rc_step_def Let_def rg_into_raw_def defined_def refs_def)
  qed (use assms(1) in \<open>simp add: RcPass rc_step_def Let_def\<close>)
next
  case (RcReturn k)
  show ?thesis
  proof (cases "k < length (pg_foreign p)")
    case True
    let ?p = "p\<lparr>pg_guards := pg_guards p @ [rg_from_raw (pg_foreign p ! k)], pg_foreign := drop_nth k (pg_foreign p)\<rparr>"
    have "refs ?p = refs p" using True by (simp add: refs_def rg_from_raw_def mset_drop_nth)
    moreover from this have "rc_inv ?p" using assms(1) by (simp add: rc_inv_def)
    ultimately show ?thesis using True by (simp add: RcReturn rc_step_def Let_def)
  qed (use assms(1) in \<open>simp add: RcReturn rc_step_def Let_def\<close>)
next
  case (RcForeignAdd k)
  show ?thesis
  proof (cases "k < length (pg_foreign p)")
    case True
    obtain h where h: "rc_add_ref (pg_foreign p ! k) (pg_heap p) = Some h"
        "\<And>p'. pg_heap p' = h \<Longrightarrow> refs p' = add_mset (pg_foreign p ! k) (refs p) \<Longrightarrow> rc_inv p'"
      using add_ref_ok [OF assms(1) refs_foreign [OF True] assms(2)] by metis
    then show ?thesis using True h(2) [of "p\<lparr>pg_heap := h, pg_foreign := pg_foreign p @ [pg_foreign p ! k]\<rparr>"]
      by (simp add: RcForeignAdd rc_step_def Let_def defined_def refs_def)
  qed (use assms(1) in \<open>simp add: RcForeignAdd rc_step_def Let_def\<close>)
next
  case (RcForeignRelease k)
  show ?thesis
  proof (cases "k < length (pg_foreign p)")
    case True
    from release_ok [OF assms(1) refs_foreign [OF True]] obtain h b where h: "rc_release (pg_foreign p ! k) (pg_heap p) = Some (b, h)"
        "\<And>p'. pg_heap p' = h \<Longrightarrow> refs p' = refs p - {#pg_foreign p ! k#} \<Longrightarrow> rc_inv p'" by metis
    have refs: "refs (p\<lparr>pg_heap := h, pg_foreign := drop_nth k (pg_foreign p)\<rparr>) = refs p - {#pg_foreign p ! k#}"
      using True by (simp add: refs_def mset_drop_nth)
    then show ?thesis using True h(1) h(2) [OF _ refs]
      by (simp add: RcForeignRelease rc_step_def Let_def defined_def size_Diff_singleton_if le_diff_conv)
  qed (use assms(1) in \<open>simp add: RcForeignRelease rc_step_def Let_def\<close>)
qed

text \<open>A program of fewer steps than the counter can count never loses a count.\<close>

lemma run_rc_ops:
  "rc_inv p \<Longrightarrow> size (refs p) + length xs < 18446744073709551616 \<Longrightarrow> \<exists>p'. run_ops rc_step xs p = Ret p' \<and> rc_inv p'"
proof (induction xs arbitrary: p)
  case (Cons x xs)
  then obtain p' where p': "rc_step x p = Ret p'" "rc_inv p'" "size (refs p') \<le> Suc (size (refs p))"
    using rc_step_inv [of p x] by auto
  then show ?case using Cons.IH [of p'] Cons.prems(2) by auto
qed simp

section \<open>Properties\<close>

text \<open>
  Property C19. A program of less than two to the 64 steps that makes objects, clones,
  converts and drops guards, passes them to CEF and takes them back, with CEF adding and
  releasing references of its own, never touches an object that has been freed; at every
  point the count of an object is the number of guards and references of CEF to it, and an
  object exists exactly as long as there is one.
\<close>

theorem ref_counts_exact:
  fixes xs :: "'i rc_op list"
  assumes "length xs < 18446744073709551616"
  shows "\<exists>p. run_ops rc_step xs rc_program_new = Ret p
    \<and> (\<forall>a. (case rc_objects (pg_heap p) a of
              None \<Rightarrow> a \<notin># refs p
            | Some obj \<Rightarrow> a \<in># refs p \<and> rc_ref_count obj = count (refs p) a))"
proof -
  have "size (refs (rc_program_new :: 'i rc_program)) = 0" by (simp add: refs_def rc_program_new_def)
  then obtain p where p: "run_ops rc_step xs (rc_program_new :: 'i rc_program) = Ret p" "rc_inv p"
    using run_rc_ops [OF rc_inv_new, of xs] assms by auto
  have "case rc_objects (pg_heap p) a of None \<Rightarrow> a \<notin># refs p
      | Some obj \<Rightarrow> a \<in># refs p \<and> rc_ref_count obj = count (refs p) a" for a
    using p(2) by (auto simp: rc_inv_def counted_def count_eq_zero_iff split: option.splits dest!: spec [of _ a])
  with p(1) show ?thesis by blast
qed

theorem ref_counts_exact_witness:
  "\<exists>p. run_ops rc_step [RcNew 8 ''x'', RcPass 0, RcDrop 0] rc_program_new = Ret p \<and> rc_objects (pg_heap p) 0 \<noteq> None"
proof -
  have eval: "run_ops rc_step [RcNew 8 ''x'', RcPass 0, RcDrop 0] rc_program_new = Ret p \<Longrightarrow> refs p = {#0#}" for p
    by (auto simp: rc_step_def rc_program_new_def rc_impl_new_def rg_from_raw_def trait_add_ref_def base_of_def rc_add_ref_def
        set_count_def rg_into_raw_def defined_def rg_drop_def trait_release_def rc_release_def usize_fetch_add_def
        usize_fetch_sub_def drop_nth_def refs_def Let_def)
  from ref_counts_exact [of "[RcNew 8 ''x'', RcPass 0, RcDrop 0]"] obtain p where
    p: "run_ops rc_step [RcNew 8 ''x'', RcPass 0, RcDrop 0] rc_program_new = Ret p"
       "case rc_objects (pg_heap p) 0 of None \<Rightarrow> 0 \<notin># refs p | Some obj \<Rightarrow> 0 \<in># refs p \<and> rc_ref_count obj = count (refs p) 0"
    by auto
  with eval [OF p(1)] show ?thesis by (auto split: option.splits)
qed

text \<open>
  Dropping a guard runs the destructor of the object exactly when it was the
  last reference to it, which is when the object says it has one reference; then the
  object is gone, and otherwise it stays. No other object is affected.
\<close>

lemma last_release_frees:
  assumes "rc_inv p" "k < length (pg_guards p)" "a = rg_object (pg_guards p ! k)"
  shows "\<exists>h obj. rg_drop (pg_guards p ! k) (pg_heap p) = Some h \<and> rc_objects (pg_heap p) a = Some obj
    \<and> trait_has_one_ref a (pg_heap p) = Some (count (refs p) a = 1)
    \<and> trait_has_at_least_one_ref a (pg_heap p) = Some True
    \<and> rc_dropped h = rc_dropped (pg_heap p) @ (if count (refs p) a = 1 then [rc_interface obj] else [])
    \<and> (rc_objects h a = None \<longleftrightarrow> count (refs p) a = 1)
    \<and> (\<forall>b. b \<noteq> a \<longrightarrow> rc_objects h b = rc_objects (pg_heap p) b)"
proof -
  have a: "a \<in># refs p" using refs_guard [OF assms(2)] assms(3) by simp
  obtain obj where obj: "rc_objects (pg_heap p) a = Some obj" "rc_ref_count obj = count (refs p) a" "impl_base (rc_base obj)"
    using rc_inv_object [OF assms(1) a] .
  have "trait_has_one_ref a (pg_heap p) = Some (count (refs p) a = 1)" "trait_has_at_least_one_ref a (pg_heap p) = Some True"
    using obj a by (auto simp: trait_has_one_ref_def trait_has_at_least_one_ref_def base_of_def impl_base_def rc_has_one_ref_def
        rc_has_at_least_one_ref_def Suc_le_eq)
  moreover obtain h where "trait_release a (pg_heap p) = Some (count (refs p) a = 1, h)"
      "rc_dropped h = rc_dropped (pg_heap p) @ (if count (refs p) a = 1 then [rc_interface obj] else [])"
      "rc_objects h a = None \<longleftrightarrow> count (refs p) a = 1" "\<And>b. b \<noteq> a \<Longrightarrow> rc_objects h b = rc_objects (pg_heap p) b"
    using release_ok [OF assms(1) a] obj(1) by (metis option.inject)
  ultimately show ?thesis using obj(1) assms(3) by (auto simp: rg_drop_def)
qed

end
