(* ===== verification/Download_Cef.thy ===== *)
theory Download_Cef
  imports Resource_Urls
begin

text \<open>
  \<^verbatim>\<open>download-cef/src/lib.rs\<close>: the index of CEF builds, the choice of a build, the download of
  an archive with its verification, and the retries. The crates it calls are parameters in
  \<open>dl_env\<close>: parsing and ordering of versions (\<open>semver\<close>), the replacement by a regular
  expression (\<open>regex\<close>), the hash (\<open>sha1_smol\<close>) and the HTTP client (\<open>ureq\<close>), whose
  answers may differ from one request to the next. The file system is a map from paths to
  contents; an operation on it may fail whenever it is called (\<open>dl_io_error\<close>).
  Extracting an archive is in \<^verbatim>\<open>Extract_Cef\<close>.
\<close>

section \<open>Errors, versions and the index\<close>

datatype dl_error =
    UnsupportedTarget string
  | RequestError
  | InvalidVersion
  | VersionNotFound string
  | MissingContentLength
  | InvalidContentLength string
  | IoError
  | UnexpectedFileSize nat nat
  | CorruptedFile string
  | InvalidArchiveFile string
  | JsonError
  | VersionMismatch string string string
  | InvalidRegexPattern

datatype channel = Stable | Beta

record cef_file =
  cf_type :: string
  cf_name :: string
  cf_sha1 :: string

record cef_version =
  cv_channel :: channel
  cv_version :: string
  cv_files :: "cef_file list"

type_synonym cef_platform = "cef_version list"

record cef_index =
  ix_macosarm64 :: cef_platform
  ix_macosx64 :: cef_platform
  ix_windows64 :: cef_platform
  ix_windowsarm64 :: cef_platform
  ix_windows32 :: cef_platform
  ix_linux64 :: cef_platform
  ix_linuxarm64 :: cef_platform
  ix_linuxarm :: cef_platform

text \<open>
  An answer of the HTTP client: the header \<^verbatim>\<open>Content-Length\<close> and the bytes of the body that are
  copied, which are not all of them when reading or writing fails on the way (\<open>ha_body_fails\<close>).
\<close>

record http_answer =
  ha_content_length :: "string option"
  ha_body :: "u8 list"
  ha_body_fails :: bool

record 'v dl_env =
  dl_parse :: "string \<Rightarrow> 'v option"
  dl_build :: "'v \<Rightarrow> string"
  dl_strip_build :: "string \<Rightarrow> string"
  dl_parse_u64 :: "string \<Rightarrow> nat option"
  dl_sha1 :: "u8 list \<Rightarrow> string"
  dl_http_get :: "nat \<Rightarrow> string \<Rightarrow> http_answer option"
  dl_io_error :: "nat \<Rightarrow> bool"

record dl_world =
  dl_files :: "string \<Rightarrow> u8 list option"
  dl_io_count :: nat
  dl_requests :: nat
  dl_slept :: "nat list"

definition unwrap_cef_version ::
  "'v dl_env \<Rightarrow> string \<Rightarrow> ('v \<Rightarrow> string option) \<Rightarrow> (dl_error + string) \<times> ('v \<Rightarrow> string option)" where
  "unwrap_cef_version env version cache =
     (case dl_parse env version of
        None \<Rightarrow> (Inl InvalidVersion, cache)
      | Some v \<Rightarrow>
          (case cache v of
             Some s \<Rightarrow> (Inr s, cache)
           | None \<Rightarrow>
               let s = (if dl_build env v = [] then version else dl_build env v)
               in (Inr s, cache(v \<mapsto> s))))"

definition default_version :: "'v dl_env \<Rightarrow> string \<Rightarrow> ('v \<Rightarrow> string option) \<Rightarrow> string \<times> ('v \<Rightarrow> string option)" where
  "default_version env version cache =
     (case unwrap_cef_version env version cache of
        (Inl _, cache) \<Rightarrow> (version, cache)
      | (Inr s, cache) \<Rightarrow> (s, cache))"

definition ix_platform :: "cef_index \<Rightarrow> string \<Rightarrow> dl_error + cef_platform" where
  "ix_platform index target =
     (if target = ''aarch64-apple-darwin'' then Inr (ix_macosarm64 index)
      else if target = ''x86_64-apple-darwin'' then Inr (ix_macosx64 index)
      else if target = ''x86_64-pc-windows-msvc'' then Inr (ix_windows64 index)
      else if target = ''aarch64-pc-windows-msvc'' then Inr (ix_windowsarm64 index)
      else if target = ''i686-pc-windows-msvc'' then Inr (ix_windows32 index)
      else if target = ''x86_64-unknown-linux-gnu'' then Inr (ix_linux64 index)
      else if target = ''aarch64-unknown-linux-gnu'' then Inr (ix_linuxarm64 index)
      else if target = ''arm-unknown-linux-gnueabi'' then Inr (ix_linuxarm index)
      else Inl (UnsupportedTarget target))"

definition os_and_arch :: "string \<Rightarrow> dl_error + string \<times> string" where
  "os_and_arch target =
     (if target = ''aarch64-apple-darwin'' then Inr (''macos'', ''aarch64'')
      else if target = ''x86_64-apple-darwin'' then Inr (''macos'', ''x86_64'')
      else if target = ''x86_64-pc-windows-msvc'' then Inr (''windows'', ''x86_64'')
      else if target = ''aarch64-pc-windows-msvc'' then Inr (''windows'', ''aarch64'')
      else if target = ''i686-pc-windows-msvc'' then Inr (''windows'', ''x86'')
      else if target = ''x86_64-unknown-linux-gnu'' then Inr (''linux'', ''x86_64'')
      else if target = ''aarch64-unknown-linux-gnu'' then Inr (''linux'', ''aarch64'')
      else if target = ''arm-unknown-linux-gnueabi'' then Inr (''linux'', ''arm'')
      else Inl (UnsupportedTarget target))"

definition os_and_arch_display :: "string \<times> string \<Rightarrow> string" where
  "os_and_arch_display oa = ''cef_'' @ fst oa @ ''_'' @ snd oa"

definition pf_version :: "cef_platform \<Rightarrow> string \<Rightarrow> dl_error + cef_version" where
  "pf_version versions cef_version =
     (case List.find (\<lambda>v. take (length cef_version + 1) (cv_version v) = cef_version @ ''+'') versions of
        None \<Rightarrow> Inl (VersionNotFound cef_version)
      | Some v \<Rightarrow> Inr v)"

text \<open>\<^verbatim>\<open>Iterator::max_by\<close>: of equal elements the last.\<close>

fun max_by_key :: "('v::linorder \<times> 'a) list \<Rightarrow> ('v \<times> 'a) option" where
  "max_by_key [] = None"
| "max_by_key (x # xs) =
     (case max_by_key xs of None \<Rightarrow> Some x | Some y \<Rightarrow> Some (if fst x \<le> fst y then y else x))"

definition pf_latest :: "'v::linorder dl_env \<Rightarrow> cef_platform \<Rightarrow> channel \<Rightarrow> dl_error + cef_version" where
  "pf_latest env versions channel =
     (let keyed = List.map_filter
        (\<lambda>v. if cv_channel v = channel then map_option (\<lambda>k. (k, v)) (dl_parse env (dl_strip_build env (cv_version v))) else None)
        versions
      in case max_by_key keyed of None \<Rightarrow> Inl (VersionNotFound ''latest'') | Some (_, v) \<Rightarrow> Inr v)"

definition cv_minimal :: "cef_version \<Rightarrow> dl_error + cef_file" where
  "cv_minimal v =
     (case List.find (\<lambda>f. cf_type f = ''minimal'') (cv_files v) of
        None \<Rightarrow> Inl (VersionNotFound (cv_version v))
      | Some f \<Rightarrow> Inr f)"

section \<open>Downloading\<close>

text \<open>One operation on the file system: it fails, or has its effect.\<close>

definition io_op :: "'v dl_env \<Rightarrow> (dl_world \<Rightarrow> dl_world) \<Rightarrow> dl_world \<Rightarrow> bool \<times> dl_world" where
  "io_op env effect w =
     (let w' = w\<lparr>dl_io_count := Suc (dl_io_count w)\<rparr>
      in if dl_io_error env (dl_io_count w) then (False, w') else (True, effect w'))"

definition write_file :: "string \<Rightarrow> u8 list option \<Rightarrow> dl_world \<Rightarrow> dl_world" where
  "write_file path content w = w\<lparr>dl_files := (dl_files w)(path := content)\<rparr>"

text \<open>
  \<^verbatim>\<open>calculate_file_sha1\<close> reads the file in pieces of 8192 bytes and hashes them in turn; it
  panics when the file cannot be opened or read.
\<close>

function sha1_loop :: "u8 list \<Rightarrow> u8 list \<Rightarrow> u8 list" where
  "sha1_loop hashed rest =
     (let piece = take 8192 rest in if piece = [] then hashed else sha1_loop (hashed @ piece) (drop 8192 rest))"
  by pat_completeness auto

termination
  by (relation "measure (\<lambda>(hashed, rest). length rest)") auto

declare sha1_loop.simps [simp del]

definition calculate_file_sha1 :: "'v dl_env \<Rightarrow> string \<Rightarrow> dl_world \<Rightarrow> (string \<times> dl_world) outcome" where
  "calculate_file_sha1 env path w =
     (case (io_op env (\<lambda>w. w) w, dl_files w path) of
        ((True, w), Some content) \<Rightarrow> Ret (dl_sha1 env (sha1_loop [] content), w)
      | _ \<Rightarrow> Panic)"

text \<open>The end of a download: the size and the hash of what was written.\<close>

definition check_download ::
  "'v dl_env \<Rightarrow> string \<Rightarrow> string \<Rightarrow> nat \<Rightarrow> nat \<Rightarrow> dl_world \<Rightarrow> ((dl_error + string) \<times> dl_world) outcome" where
  "check_download env download_file sha downloaded expected w =
     (if downloaded \<noteq> expected then Ret (Inl (UnexpectedFileSize downloaded expected), w)
      else bind_outcome (calculate_file_sha1 env download_file w)
        (\<lambda>(hash, w). Ret (if hash \<noteq> sha then Inl (CorruptedFile download_file) else Inr download_file, w)))"

definition fetch_file ::
  "'v dl_env \<Rightarrow> string \<Rightarrow> string \<Rightarrow> string \<Rightarrow> dl_world \<Rightarrow> ((dl_error + string) \<times> dl_world) outcome" where
  "fetch_file env cef_url download_file sha w =
     (case io_op env (write_file download_file (Some [])) w of
        (False, w) \<Rightarrow> Ret (Inl IoError, w)
      | (True, w) \<Rightarrow>
          let answer = dl_http_get env (dl_requests w) cef_url;
              w = w\<lparr>dl_requests := Suc (dl_requests w)\<rparr>
          in case answer of
               None \<Rightarrow> Ret (Inl RequestError, w)
             | Some resp \<Rightarrow>
                 (case ha_content_length resp of
                    None \<Rightarrow> Ret (Inl MissingContentLength, w)
                  | Some header \<Rightarrow>
                      (case dl_parse_u64 env header of
                         None \<Rightarrow> Ret (Inl (InvalidContentLength header), w)
                       | Some expected \<Rightarrow>
                           (case io_op env (write_file download_file (Some (ha_body resp))) w of
                              (False, w) \<Rightarrow> Ret (Inl IoError, w)
                            | (True, w) \<Rightarrow>
                                if ha_body_fails resp then Ret (Inl IoError, w)
                                else check_download env download_file sha (length (ha_body resp)) expected w))))"

definition download_archive_from ::
  "'v dl_env \<Rightarrow> cef_version \<Rightarrow> string \<Rightarrow> string \<Rightarrow> dl_world \<Rightarrow> ((dl_error + string) \<times> dl_world) outcome" where
  "download_archive_from env v url location w =
     (case cv_minimal v of
        Inl e \<Rightarrow> Ret (Inl e, w)
      | Inr f \<Rightarrow>
          (case io_op env (\<lambda>w. w) w of
             (False, w) \<Rightarrow> Ret (Inl IoError, w)
           | (True, w) \<Rightarrow>
               let download_file = path_push location (cf_name f);
                   fetch = fetch_file env (url @ ''/'' @ cf_name f) download_file (cf_sha1 f)
               in if dl_files w download_file = None then fetch w
                  else
                    bind_outcome (calculate_file_sha1 env download_file w)
                      (\<lambda>(hash, w).
                         if hash = cf_sha1 f then Ret (Inr download_file, w)
                         else
                           let corrupted_file = path_push location (''corrupted_'' @ cf_name f)
                           in case io_op env
                                (\<lambda>w. write_file download_file None (write_file corrupted_file (dl_files w download_file) w)) w of
                                (False, w) \<Rightarrow> Ret (Inl IoError, w)
                              | (True, w) \<Rightarrow>
                                  (case io_op env (write_file corrupted_file None) w of
                                     (False, w) \<Rightarrow> Ret (Inl IoError, w)
                                   | (True, w) \<Rightarrow> fetch w))))"

text \<open>
  The retries: only after an error of the file system, after a delay that grows. The delay is in
  whole seconds without a bound: the code's product overflows, and panics, only for a delay of
  2 to the 64 seconds, after sleeps as long.
\<close>

function retry_loop ::
  "'v dl_env \<Rightarrow> cef_version \<Rightarrow> string \<Rightarrow> string \<Rightarrow> nat \<Rightarrow> nat \<Rightarrow> nat \<Rightarrow> dl_error + string \<Rightarrow> dl_world
    \<Rightarrow> ((dl_error + string) \<times> dl_world) outcome" where
  "retry_loop env v url location retry_delay max_retries retry result w =
     (if result \<noteq> Inl IoError \<or> retry \<ge> max_retries then Ret (result, w)
      else
        let w = w\<lparr>dl_slept := dl_slept w @ [retry_delay * (retry + 1)]\<rparr>
        in case download_archive_from env v url location w of
             Ret (result, w) \<Rightarrow> retry_loop env v url location retry_delay max_retries (retry + 1) result w
           | Blocked \<Rightarrow> Blocked
           | Panic \<Rightarrow> Panic)"
  by pat_completeness auto

termination
  by (relation "measure (\<lambda>(env, v, url, location, retry_delay, max_retries, retry, result, w). max_retries - retry)") auto

declare retry_loop.simps [simp del]

definition download_archive_with_retry_from ::
  "'v dl_env \<Rightarrow> cef_version \<Rightarrow> string \<Rightarrow> string \<Rightarrow> nat \<Rightarrow> nat \<Rightarrow> dl_world \<Rightarrow> ((dl_error + string) \<times> dl_world) outcome" where
  "download_archive_with_retry_from env v url location retry_delay max_retries w =
     bind_outcome (download_archive_from env v url location w)
       (\<lambda>(result, w). retry_loop env v url location retry_delay max_retries 0 result w)"

text \<open>\<open>index\<close> is what \<^verbatim>\<open>CefIndex::download_from\<close> returned.\<close>

definition download_target_archive_from ::
  "'v dl_env \<Rightarrow> (dl_error + cef_index) \<Rightarrow> string \<Rightarrow> string \<Rightarrow> string \<Rightarrow> string \<Rightarrow> dl_world
    \<Rightarrow> ((dl_error + string) \<times> dl_world) outcome" where
  "download_target_archive_from env index url target cef_version location w =
     (case index of
        Inl e \<Rightarrow> Ret (Inl e, w)
      | Inr index \<Rightarrow>
          (case ix_platform index target of
             Inl e \<Rightarrow> Ret (Inl e, w)
           | Inr platform \<Rightarrow>
               (case pf_version platform cef_version of
                  Inl e \<Rightarrow> Ret (Inl e, w)
                | Inr v \<Rightarrow> download_archive_with_retry_from env v url location 15 3 w)))"

section \<open>What a download guarantees\<close>

lemma sha1_loop_all: "sha1_loop hashed rest = hashed @ rest"
proof (induction hashed rest rule: sha1_loop.induct)
  case (1 hashed rest)
  then show ?case by (cases "take 8192 rest = []") (simp_all add: sha1_loop.simps [of hashed] Let_def)
qed

definition verified :: "'v dl_env \<Rightarrow> cef_version \<Rightarrow> string \<Rightarrow> string \<Rightarrow> dl_world \<Rightarrow> bool" where
  "verified env v location path w \<longleftrightarrow>
     (\<exists>f content. cv_minimal v = Inr f \<and> path = path_push location (cf_name f)
        \<and> dl_files w path = Some content \<and> dl_sha1 env content = cf_sha1 f)"

lemma io_op_frame: "io_op env effect w = (b, w') \<Longrightarrow> (\<And>w. dl_slept (effect w) = dl_slept w) \<Longrightarrow> dl_slept w' = dl_slept w"
  by (auto simp: io_op_def Let_def split: if_splits)

lemma io_op_id_files: "io_op env (\<lambda>w. w) w = (b, w') \<Longrightarrow> dl_files w' = dl_files w \<and> dl_slept w' = dl_slept w"
  by (auto simp: io_op_def Let_def split: if_splits)

lemma calculate_file_sha1_Ret:
  assumes "calculate_file_sha1 env path w = Ret (hash, w')"
  shows "\<exists>content. dl_files w path = Some content \<and> hash = dl_sha1 env content"
    "dl_files w' = dl_files w" "dl_slept w' = dl_slept w"
proof -
  obtain b v where b: "io_op env (\<lambda>w. w) w = (b, v)" by fastforce
  with assms have "b" "v = w'" "\<exists>content. dl_files w path = Some content \<and> hash = dl_sha1 env content"
    by (auto simp: calculate_file_sha1_def sha1_loop_all split: bool.splits option.splits)
  with io_op_id_files [OF b] show "\<exists>content. dl_files w path = Some content \<and> hash = dl_sha1 env content"
    "dl_files w' = dl_files w" "dl_slept w' = dl_slept w" by auto
qed

text \<open>What one attempt reports: a file whose hash is the listed one, or an error.\<close>

definition attempt_ok :: "'v dl_env \<Rightarrow> string \<Rightarrow> string \<Rightarrow> dl_world \<Rightarrow> (dl_error + string) \<times> dl_world \<Rightarrow> bool" where
  "attempt_ok env path sha w res \<longleftrightarrow>
     dl_slept (snd res) = dl_slept w
     \<and> (\<forall>p. fst res = Inr p \<longrightarrow> p = path \<and> (\<exists>content. dl_files (snd res) path = Some content \<and> dl_sha1 env content = sha))"

lemma attempt_error: "dl_slept w' = dl_slept w \<Longrightarrow> attempt_ok env path sha w (Inl e, w')"
  by (simp add: attempt_ok_def)

lemma check_download_ok:
  "check_download env path sha downloaded expected w = Ret res \<Longrightarrow> attempt_ok env path sha w res"
  by (auto simp: check_download_def bind_outcome_Ret_iff attempt_ok_def dest: calculate_file_sha1_Ret split: if_splits)
    (metis calculate_file_sha1_Ret(1,2))+

lemma write_file_slept: "dl_slept (write_file path c w) = dl_slept w"
  by (simp add: write_file_def)

lemma fetch_file_ok:
  assumes "fetch_file env cef_url path sha w = Ret res"
  shows "attempt_ok env path sha w res"
proof -
  obtain b w1 where w1: "io_op env (write_file path (Some [])) w = (b, w1)" by fastforce
  have slept: "dl_slept w1 = dl_slept w" using io_op_frame [OF w1] by (simp add: write_file_slept)
  let ?w2 = "w1\<lparr>dl_requests := Suc (dl_requests w1)\<rparr>"
  show ?thesis
  proof (cases "\<exists>resp header expected. b \<and> dl_http_get env (dl_requests w1) cef_url = Some resp
      \<and> ha_content_length resp = Some header \<and> dl_parse_u64 env header = Some expected")
    case True
    then obtain resp header expected where resp: "b" "dl_http_get env (dl_requests w1) cef_url = Some resp"
      "ha_content_length resp = Some header" "dl_parse_u64 env header = Some expected" by blast
    obtain b' w3 where w3: "io_op env (write_file path (Some (ha_body resp))) ?w2 = (b', w3)" by fastforce
    have "dl_slept w3 = dl_slept w" using io_op_frame [OF w3] slept by (simp add: write_file_slept)
    then show ?thesis using assms w1 resp w3 check_download_ok [of env path sha "length (ha_body resp)" expected w3 res]
      by (auto simp: fetch_file_def Let_def attempt_error attempt_ok_def split: bool.splits if_splits)
  qed (use assms w1 slept in \<open>auto simp: fetch_file_def Let_def attempt_error split: bool.splits option.splits\<close>)
qed

lemma download_archive_from_ok:
  assumes "download_archive_from env v url location w = Ret (result, w')"
  shows "dl_slept w' = dl_slept w" "result = Inr path \<Longrightarrow> verified env v location path w'"
proof -
  have "dl_slept w' = dl_slept w \<and> (\<forall>path. result = Inr path \<longrightarrow> verified env v location path w')"
  proof (cases "cv_minimal v")
    case (Inl e)
    then show ?thesis using assms by (auto simp: download_archive_from_def)
  next
    case (Inr f)
    let ?path = "path_push location (cf_name f)"
    have ok: ?thesis if "attempt_ok env ?path (cf_sha1 f) w (result, w')"
      using that Inr by (auto simp: attempt_ok_def verified_def)
    have attempt_trans: "attempt_ok env ?path (cf_sha1 f) w res"
      if "attempt_ok env ?path (cf_sha1 f) u res" "dl_slept u = dl_slept w" for u res
      using that by (auto simp: attempt_ok_def)
    obtain b w1 where w1: "io_op env (\<lambda>w. w) w = (b, w1)" by fastforce
    note same = io_op_id_files [OF w1]
    consider (failed) "\<not> b" | (new) "b" "dl_files w1 ?path = None" | (old) "b" "dl_files w1 ?path \<noteq> None" by blast
    then show ?thesis
    proof cases
      case failed
      then show ?thesis using assms Inr w1 same by (auto simp: download_archive_from_def)
    next
      case new
      then show ?thesis using assms Inr w1 same ok attempt_trans fetch_file_ok
        by (fastforce simp: download_archive_from_def)
    next
      case old
      let ?corrupted = "path_push location (''corrupted_'' @ cf_name f)"
      from old assms Inr w1 obtain hash w2 where w2: "calculate_file_sha1 env ?path w1 = Ret (hash, w2)"
        by (auto simp: download_archive_from_def Let_def bind_outcome_Ret_iff)
      note sha = calculate_file_sha1_Ret [OF w2]
      show ?thesis
      proof (cases "hash = cf_sha1 f")
        case True
        then have "result = Inr ?path" "w' = w2" using assms Inr w1 w2 old by (auto simp: download_archive_from_def)
        then show ?thesis using True sha same Inr by (auto simp: verified_def)
      next
        case False
        obtain b3 w3 where w3: "io_op env (\<lambda>w. write_file ?path None (write_file ?corrupted (dl_files w ?path) w)) w2 = (b3, w3)"
          by fastforce
        obtain b4 w4 where w4: "io_op env (write_file ?corrupted None) w3 = (b4, w4)" by fastforce
        have slept: "dl_slept w3 = dl_slept w" "dl_slept w4 = dl_slept w"
          using io_op_frame [OF w3] io_op_frame [OF w4] sha(3) same by (simp_all add: write_file_slept)
        have "(\<not> b3 \<and> (result, w') = (Inl IoError, w3)) \<or> (b3 \<and> \<not> b4 \<and> (result, w') = (Inl IoError, w4))
            \<or> (b3 \<and> b4 \<and> fetch_file env (url @ ''/'' @ cf_name f) ?path (cf_sha1 f) w4 = Ret (result, w'))"
          using assms Inr w1 w2 w3 w4 old False by (auto simp: download_archive_from_def Let_def split: bool.splits)
        then show ?thesis using slept ok attempt_trans fetch_file_ok by fastforce
      qed
    qed
  qed
  then show "dl_slept w' = dl_slept w" "result = Inr path \<Longrightarrow> verified env v location path w'" by auto
qed

lemma retry_loop_ok:
  "retry_loop env v url location d m k result w = Ret (result', w') \<Longrightarrow> k \<le> m \<Longrightarrow>
    (\<And>path. result = Inr path \<Longrightarrow> verified env v location path w) \<Longrightarrow>
    (\<exists>n\<le>m. k \<le> n \<and> dl_slept w' = dl_slept w @ map (\<lambda>i. d * i) [Suc k..<Suc n] \<and> (result' = Inl IoError \<longrightarrow> n = m))
    \<and> (\<forall>path. result' = Inr path \<longrightarrow> verified env v location path w')"
proof (induction env v url location d m k result w rule: retry_loop.induct)
  case (1 env v url location d m k result w)
  show ?case
  proof (cases "result \<noteq> Inl IoError \<or> m \<le> k")
    case True
    then have "result' = result" "w' = w" using "1.prems"(1) by (simp_all add: retry_loop.simps [of env])
    then show ?thesis using True "1.prems"(2,3) by (auto intro!: exI [of _ k])
  next
    case False
    let ?w = "w\<lparr>dl_slept := dl_slept w @ [d * (k + 1)]\<rparr>"
    obtain r1 w1 where r1: "download_archive_from env v url location ?w = Ret (r1, w1)"
        "retry_loop env v url location d m (k + 1) r1 w1 = Ret (result', w')"
      using False "1.prems"(1) by (auto simp: retry_loop.simps [of env v url location d m k] Let_def split: outcome.splits)
    note attempt = download_archive_from_ok [OF r1(1)]
    have "k + 1 \<le> m" using False by simp
    from "1.IH" [OF False refl r1(1) refl r1(2) this attempt(2)] obtain n where
      n: "n \<le> m" "k + 1 \<le> n" "dl_slept w' = dl_slept w1 @ map (\<lambda>i. d * i) [Suc (k + 1)..<Suc n]" "result' = Inl IoError \<longrightarrow> n = m"
         "\<forall>path. result' = Inr path \<longrightarrow> verified env v location path w'" by auto
    have upt: "[Suc k..<Suc n] = Suc k # [Suc (k + 1)..<Suc n]" using n(2) by (simp add: upt_conv_Cons)
    have "dl_slept w' = dl_slept w @ map (\<lambda>i. d * i) [Suc k..<Suc n]"
      unfolding upt n(3) using attempt(1) by (simp del: upt_Suc)
    moreover have "k \<le> n" using n(2) by simp
    ultimately show ?thesis using n(1,4,5) by blast
  qed
qed

text \<open>Nothing blocks, and only an error of the file system while a file is hashed panics.\<close>

definition no_panic :: "'v dl_env \<Rightarrow> 'a outcome \<Rightarrow> bool" where
  "no_panic env m \<longleftrightarrow> m \<noteq> Blocked \<and> (m = Panic \<longrightarrow> (\<exists>n. dl_io_error env n))"

lemma no_panic_Ret [simp]: "no_panic env (Ret x)"
  by (simp add: no_panic_def)

lemma no_panic_bind: "no_panic env m \<Longrightarrow> (\<And>x. m = Ret x \<Longrightarrow> no_panic env (f x)) \<Longrightarrow> no_panic env (bind_outcome m f)"
  by (cases m) (simp_all add: no_panic_def)

lemma calculate_file_sha1_no_panic: "dl_files w path \<noteq> None \<Longrightarrow> no_panic env (calculate_file_sha1 env path w)"
  by (auto simp: calculate_file_sha1_def io_op_def Let_def no_panic_def)

lemma check_download_no_panic:
  "dl_files w path \<noteq> None \<Longrightarrow> no_panic env (check_download env path sha downloaded expected w)"
  by (auto simp: check_download_def intro!: no_panic_bind calculate_file_sha1_no_panic)

lemma fetch_file_no_panic: "no_panic env (fetch_file env cef_url path sha w)"
  by (auto simp: fetch_file_def Let_def io_op_def write_file_def intro!: check_download_no_panic split: option.split)

lemma hash_then_no_panic:
  "dl_files w path \<noteq> None \<Longrightarrow> (\<And>hash u. no_panic env (f (hash, u))) \<Longrightarrow>
    no_panic env (bind_outcome (calculate_file_sha1 env path w) f)"
  by (intro no_panic_bind calculate_file_sha1_no_panic) auto

lemma download_archive_from_no_panic: "no_panic env (download_archive_from env v url location w)"
  by (auto simp: download_archive_from_def Let_def io_op_def fetch_file_no_panic intro!: hash_then_no_panic split: sum.split)

lemma retry_loop_no_panic: "no_panic env (retry_loop env v url location d m k result w)"
proof (induction env v url location d m k result w rule: retry_loop.induct)
  case (1 env v url location d m k result w)
  show ?case
  proof (cases "result \<noteq> Inl IoError \<or> m \<le> k")
    case False
    let ?w = "w\<lparr>dl_slept := dl_slept w @ [d * (k + 1)]\<rparr>"
    have attempt: "no_panic env (download_archive_from env v url location ?w)" by (rule download_archive_from_no_panic)
    show ?thesis
    proof (cases "download_archive_from env v url location ?w")
      case (Ret x)
      obtain r1 w1 where x: "x = (r1, w1)" by (cases x)
      from "1.IH" [OF False refl Ret [unfolded x] refl] show ?thesis
        using False Ret x by (simp add: retry_loop.simps [of env v url location d m k] Let_def)
    qed (use False attempt in \<open>simp_all add: retry_loop.simps [of env v url location d m k] Let_def no_panic_def\<close>)
  qed (auto simp: retry_loop.simps [of env])
qed

section \<open>Properties\<close>

text \<open>
  Property C20. A download with retries ends: it makes at most the given number of retries,
  only after errors of the file system, with delays that grow by the given one, and reports
  such an error only when all retries are used up. When it reports a path, the file there
  has the hash the index lists for the minimal archive of the build. It panics only when
  the file system fails.
\<close>

theorem download_verified:
  "case download_archive_with_retry_from env v url location delay max_retries w of
     Ret (result, w') \<Rightarrow>
       (\<exists>n\<le>max_retries. dl_slept w' = dl_slept w @ map (\<lambda>i. delay * i) [1..<Suc n] \<and> (result = Inl IoError \<longrightarrow> n = max_retries))
       \<and> (\<forall>path. result = Inr path \<longrightarrow>
            (\<exists>f content. cv_minimal v = Inr f \<and> path = path_push location (cf_name f)
               \<and> dl_files w' path = Some content \<and> dl_sha1 env content = cf_sha1 f))
   | Blocked \<Rightarrow> False
   | Panic \<Rightarrow> \<exists>n. dl_io_error env n"
proof -
  let ?run = "download_archive_with_retry_from env v url location delay max_retries w"
  have "no_panic env ?run"
    unfolding download_archive_with_retry_from_def
    by (auto intro!: no_panic_bind download_archive_from_no_panic retry_loop_no_panic)
  moreover have "(\<exists>n\<le>max_retries. dl_slept w' = dl_slept w @ map (\<lambda>i. delay * i) [1..<Suc n] \<and> (result = Inl IoError \<longrightarrow> n = max_retries))
      \<and> (\<forall>path. result = Inr path \<longrightarrow> verified env v location path w')"
    if run: "?run = Ret (result, w')" for result w'
  proof -
    obtain r1 w1 where r1: "download_archive_from env v url location w = Ret (r1, w1)"
        "retry_loop env v url location delay max_retries 0 r1 w1 = Ret (result, w')"
      using run by (auto simp: download_archive_with_retry_from_def bind_outcome_Ret_iff)
    note attempt = download_archive_from_ok [OF r1(1)]
    from retry_loop_ok [OF r1(2) _ attempt(2)] attempt(1) show ?thesis
      unfolding One_nat_def by auto
  qed
  ultimately show ?thesis
    unfolding verified_def by (cases ?run) (simp_all add: no_panic_def split: prod.split del: upt_Suc)
qed

definition sample_dl_env :: "nat dl_env" where
  "sample_dl_env =
     \<lparr>dl_parse = (\<lambda>s. Some (length s)), dl_build = (\<lambda>_. []), dl_strip_build = takeWhile (\<lambda>c. c \<noteq> CHR ''+''),
      dl_parse_u64 = (\<lambda>s. if s = ''2'' then Some 2 else None), dl_sha1 = (\<lambda>bytes. if bytes = [1, 2] then ''ok'' else ''bad''),
      dl_http_get = (\<lambda>_ _. Some \<lparr>ha_content_length = Some ''2'', ha_body = [1, 2], ha_body_fails = False\<rparr>),
      dl_io_error = (\<lambda>n. n = 1)\<rparr>"

definition sample_build :: cef_version where
  "sample_build = \<lparr>cv_channel = Stable, cv_version = ''1.2+x'', cv_files = [\<lparr>cf_type = ''minimal'', cf_name = ''a'', cf_sha1 = ''ok''\<rparr>]\<rparr>"

theorem download_verified_witness:
  "\<exists>w'. download_archive_with_retry_from sample_dl_env sample_build ''u'' ''d'' 15 3
       \<lparr>dl_files = (\<lambda>_. None), dl_io_count = 0, dl_requests = 0, dl_slept = []\<rparr> = Ret (Inr ''d/a'', w')
     \<and> (\<exists>content. dl_files w' ''d/a'' = Some content \<and> dl_sha1 sample_dl_env content = ''ok'')"
proof -
  let ?w = "\<lparr>dl_files = (\<lambda>_. None), dl_io_count = 0, dl_requests = 0, dl_slept = []\<rparr>"
  have minimal: "cv_minimal sample_build = Inr \<lparr>cf_type = ''minimal'', cf_name = ''a'', cf_sha1 = ''ok''\<rparr>"
    by (simp add: cv_minimal_def sample_build_def)
  note eval = minimal download_archive_from_def io_op_def sample_dl_env_def fetch_file_def write_file_def path_push_def
    starts_with_def check_download_def calculate_file_sha1_def sha1_loop_all Let_def
  have first: "\<exists>w1. download_archive_from sample_dl_env sample_build ''u'' ''d'' ?w = Ret (Inl IoError, w1)
      \<and> dl_files w1 = (\<lambda>_. None) \<and> dl_io_count w1 = 2 \<and> dl_requests w1 = 0"
    by (simp add: eval)
  have second: "\<exists>w2. download_archive_from sample_dl_env sample_build ''u'' ''d'' w1 = Ret (Inr ''d/a'', w2)"
    if "dl_files w1 = (\<lambda>_. None)" "dl_io_count w1 = 2" for w1
    using that by (simp add: eval)
  from first obtain w1 where w1: "download_archive_from sample_dl_env sample_build ''u'' ''d'' ?w = Ret (Inl IoError, w1)"
      "dl_files w1 = (\<lambda>_. None)" "dl_io_count w1 = 2" by blast
  obtain w2 where w2: "download_archive_from sample_dl_env sample_build ''u'' ''d'' (w1\<lparr>dl_slept := dl_slept w1 @ [15]\<rparr>) = Ret (Inr ''d/a'', w2)"
    using second [of "w1\<lparr>dl_slept := dl_slept w1 @ [15]\<rparr>"] w1 by auto
  have run: "download_archive_with_retry_from sample_dl_env sample_build ''u'' ''d'' 15 3 ?w = Ret (Inr ''d/a'', w2)"
    by (simp add: download_archive_with_retry_from_def w1(1) w2 retry_loop.simps [of _ _ _ _ _ _ 0] retry_loop.simps [of _ _ _ _ _ _ "Suc 0"])
  from download_verified [where env = sample_dl_env and v = sample_build and url = "''u''" and location = "''d''"
      and delay = 15 and max_retries = 3 and w = ?w] minimal run show ?thesis
    by (auto simp: path_push_def starts_with_def)
qed

text \<open>The targets with their directories.\<close>

definition target_table :: "(string \<times> string \<times> string) list" where
  "target_table =
     [(''aarch64-apple-darwin'', ''macos'', ''aarch64''), (''x86_64-apple-darwin'', ''macos'', ''x86_64''),
      (''x86_64-pc-windows-msvc'', ''windows'', ''x86_64''), (''aarch64-pc-windows-msvc'', ''windows'', ''aarch64''),
      (''i686-pc-windows-msvc'', ''windows'', ''x86''), (''x86_64-unknown-linux-gnu'', ''linux'', ''x86_64''),
      (''aarch64-unknown-linux-gnu'', ''linux'', ''aarch64''), (''arm-unknown-linux-gnueabi'', ''linux'', ''arm'')]"

lemma os_and_arch_table: "os_and_arch target = Inr oa \<Longrightarrow> (target, oa) \<in> set target_table"
  unfolding os_and_arch_def target_table_def by (simp only: split: if_splits) simp_all

lemma target_table_distinct: "distinct (map (\<lambda>(t, oa). os_and_arch_display oa) target_table)"
  by code_simp

lemma os_and_arch_inj:
  assumes "os_and_arch target = Inr oa" "os_and_arch target' = Inr oa'" "os_and_arch_display oa = os_and_arch_display oa'"
  shows "target = target'"
proof -
  have "inj_on (\<lambda>(t, oa). os_and_arch_display oa) (set target_table)"
    using target_table_distinct by (simp add: distinct_map)
  from inj_onD [OF this _ os_and_arch_table [OF assms(1)] os_and_arch_table [OF assms(2)]] assms(3)
  show ?thesis by simp
qed

lemma max_by_key_Some:
  "max_by_key xs = Some y \<Longrightarrow> y \<in> set xs \<and> (\<forall>x\<in>set xs. fst x \<le> fst y)"
proof (induction xs arbitrary: y)
  case (Cons x xs)
  show ?case
  proof (cases "max_by_key xs")
    case None
    then have "xs = []" by (cases xs) (simp_all split: option.splits)
    with Cons.prems show ?thesis by auto
  next
    case (Some z)
    from Cons.IH [OF Some] Cons.prems Some show ?thesis by (auto split: if_splits)
  qed
qed simp

lemma max_by_key_None: "max_by_key xs = None \<longleftrightarrow> xs = []"
  by (cases xs) (auto split: option.splits)

text \<open>
  The latest build of a channel is one of the builds of this channel whose
  version can be read, and none of those has a greater version; there is none only when
  the channel has no build with a readable version. The targets that have a list of builds
  are exactly those that have a directory, and different targets have different ones.
\<close>

lemma build_selection:
  fixes env :: "'v::linorder dl_env"
  shows "(case pf_latest env versions c of
       Inl e \<Rightarrow> e = VersionNotFound ''latest''
         \<and> (\<forall>v\<in>set versions. cv_channel v = c \<longrightarrow> dl_parse env (dl_strip_build env (cv_version v)) = None)
     | Inr v \<Rightarrow> v \<in> set versions \<and> cv_channel v = c
         \<and> (\<exists>k. dl_parse env (dl_strip_build env (cv_version v)) = Some k
              \<and> (\<forall>u\<in>set versions. \<forall>j. cv_channel u = c \<longrightarrow> dl_parse env (dl_strip_build env (cv_version u)) = Some j \<longrightarrow> j \<le> k)))
    \<and> ((\<exists>p. ix_platform index target = Inr p) \<longleftrightarrow> (\<exists>oa. os_and_arch target = Inr oa))
    \<and> (os_and_arch target = Inr oa \<longrightarrow> os_and_arch target' = Inr oa' \<longrightarrow>
        os_and_arch_display oa = os_and_arch_display oa' \<longrightarrow> target = target')"
proof (intro conjI)
  let ?key = "\<lambda>v. if cv_channel v = c then map_option (\<lambda>k. (k, v)) (dl_parse env (dl_strip_build env (cv_version v))) else None"
  have keyed: "(k, v) \<in> set (List.map_filter ?key versions) \<longleftrightarrow>
      v \<in> set versions \<and> cv_channel v = c \<and> dl_parse env (dl_strip_build env (cv_version v)) = Some k" for k v
    by (auto simp: List.map_filter_def) force
  show "case pf_latest env versions c of
       Inl e \<Rightarrow> e = VersionNotFound ''latest''
         \<and> (\<forall>v\<in>set versions. cv_channel v = c \<longrightarrow> dl_parse env (dl_strip_build env (cv_version v)) = None)
     | Inr v \<Rightarrow> v \<in> set versions \<and> cv_channel v = c
         \<and> (\<exists>k. dl_parse env (dl_strip_build env (cv_version v)) = Some k
              \<and> (\<forall>u\<in>set versions. \<forall>j. cv_channel u = c \<longrightarrow> dl_parse env (dl_strip_build env (cv_version u)) = Some j \<longrightarrow> j \<le> k))"
  proof (cases "max_by_key (List.map_filter ?key versions)")
    case None
    then have "\<And>k v. (k, v) \<notin> set (List.map_filter ?key versions)" by (simp add: max_by_key_None)
    with None show ?thesis unfolding keyed by (auto simp: pf_latest_def) (metis option.exhaust)
  next
    case (Some y)
    then obtain k v where y: "y = (k, v)" "(k, v) \<in> set (List.map_filter ?key versions)"
        "\<And>j u. (j, u) \<in> set (List.map_filter ?key versions) \<Longrightarrow> j \<le> k"
      using max_by_key_Some [OF Some] by (cases y) fastforce
    with Some show ?thesis unfolding keyed by (auto simp: pf_latest_def)
  qed
  show "(\<exists>p. ix_platform index target = Inr p) \<longleftrightarrow> (\<exists>oa. os_and_arch target = Inr oa)"
    by (simp add: ix_platform_def os_and_arch_def)
  show "os_and_arch target = Inr oa \<longrightarrow> os_and_arch target' = Inr oa' \<longrightarrow>
      os_and_arch_display oa = os_and_arch_display oa' \<longrightarrow> target = target'"
    using os_and_arch_inj by blast
qed

end
