(* ===== verification/Extract_Cef.thy ===== *)
theory Extract_Cef
  imports Download_Cef "HOL-Library.Sublist"
begin

text \<open>
  \<^verbatim>\<open>extract_target_archive\<close> of \<^verbatim>\<open>download-cef/src/lib.rs\<close>: an archive is unpacked, its parts are moved
  into one directory named after the target, and the rest is removed. The file system is a list
  of paths with what is there, with the rules of \<^verbatim>\<open>rename\<close> on Linux; every operation may fail
  besides, as \<open>xe_fails\<close> says for the n-th one, and a removal that fails leaves the paths \<open>xe_left\<close>
  says. Unpacking (the crates \<^verbatim>\<open>bzip2\<close> and \<^verbatim>\<open>tar\<close>) is a parameter.
\<close>

section \<open>The file system\<close>

datatype fs_node = FsDir | FsFile "u8 list"

type_synonym fs_path = "string list"
type_synonym fs = "(fs_path \<times> fs_node) list"

record xe_env =
  xe_unpack :: "u8 list \<Rightarrow> fs_path \<Rightarrow> fs \<Rightarrow> bool \<times> fs"
  xe_fails :: "nat \<Rightarrow> bool"
  xe_left :: "nat \<Rightarrow> fs_path \<Rightarrow> bool"

record xe_world =
  xw_fs :: fs
  xw_ops :: nat

definition fs_get :: "fs \<Rightarrow> fs_path \<Rightarrow> fs_node option" where
  "fs_get = map_of"

definition fs_move :: "fs_path \<Rightarrow> fs_path \<Rightarrow> fs \<Rightarrow> fs" where
  "fs_move src dst fs =
     map (\<lambda>(p, x). (if prefix src p then dst @ drop (length src) p else p, x)) (filter (\<lambda>(p, x). \<not> prefix dst p) fs)"

definition fs_remove :: "fs_path \<Rightarrow> fs \<Rightarrow> fs" where
  "fs_remove dir fs = filter (\<lambda>(p, x). \<not> prefix dir p) fs"

definition fs_children :: "fs_path \<Rightarrow> fs \<Rightarrow> string list" where
  "fs_children dir fs = remdups (List.map_filter (\<lambda>(p, x). if p \<noteq> [] \<and> butlast p = dir then Some (last p) else None) fs)"

text \<open>
  What \<^verbatim>\<open>rename\<close> refuses: a source that is not there or a target in no directory, a target below
  the source, and a target that is there, unless a file replaces a file or a directory an
  empty one.
\<close>

definition rename_ok :: "fs_path \<Rightarrow> fs_path \<Rightarrow> fs \<Rightarrow> bool" where
  "rename_ok src dst fs \<longleftrightarrow>
     dst \<noteq> [] \<and> fs_get fs (butlast dst) = Some FsDir \<and> \<not> prefix src dst \<and> \<not> prefix dst src
     \<and> (case (fs_get fs src, fs_get fs dst) of
          (None, _) \<Rightarrow> False
        | (Some _, None) \<Rightarrow> True
        | (Some (FsFile _), Some (FsFile _)) \<Rightarrow> True
        | (Some FsDir, Some FsDir) \<Rightarrow> fs_children dst fs = []
        | _ \<Rightarrow> False)"

section \<open>Extraction\<close>

text \<open>An operation on the file system gives the files it leaves, whether or not it succeeds.\<close>

definition xe_io :: "(nat \<Rightarrow> fs \<Rightarrow> bool \<times> fs) \<Rightarrow> xe_world \<Rightarrow> bool \<times> xe_world" where
  "xe_io f w = (case f (xw_ops w) (xw_fs w) of (ok, fs) \<Rightarrow> (ok, w\<lparr>xw_fs := fs, xw_ops := Suc (xw_ops w)\<rparr>))"

definition xe_rename :: "xe_env \<Rightarrow> fs_path \<Rightarrow> fs_path \<Rightarrow> xe_world \<Rightarrow> bool \<times> xe_world" where
  "xe_rename env src dst =
     xe_io (\<lambda>n fs. if \<not> xe_fails env n \<and> rename_ok src dst fs then (True, fs_move src dst fs) else (False, fs))"

definition xe_remove_dir_all :: "xe_env \<Rightarrow> fs_path \<Rightarrow> xe_world \<Rightarrow> bool \<times> xe_world" where
  "xe_remove_dir_all env dir =
     xe_io (\<lambda>n fs.
       if fs_get fs dir \<noteq> Some FsDir then (False, fs)
       else if xe_fails env n then (False, filter (\<lambda>(p, x). \<not> prefix dir p \<or> xe_left env n p) fs)
       else (True, fs_remove dir fs))"

definition xe_then :: "bool \<times> xe_world \<Rightarrow> (xe_world \<Rightarrow> bool \<times> xe_world) \<Rightarrow> bool \<times> xe_world" where
  "xe_then r f = (if fst r then f (snd r) else r)"

fun xe_move_each :: "xe_env \<Rightarrow> fs_path \<Rightarrow> fs_path \<Rightarrow> string list \<Rightarrow> xe_world \<Rightarrow> bool \<times> xe_world" where
  "xe_move_each env src dst [] w = (True, w)"
| "xe_move_each env src dst (n # ns) w = xe_then (xe_rename env (src @ [n]) (dst @ [n]) w) (xe_move_each env src dst ns)"

text \<open>Replacing a directory: it is renamed and removed.\<close>

definition xe_clean_up :: "xe_env \<Rightarrow> fs_path \<Rightarrow> fs_path \<Rightarrow> xe_world \<Rightarrow> bool \<times> xe_world" where
  "xe_clean_up env dir old w = xe_then (xe_rename env dir old w) (xe_remove_dir_all env old)"

definition moved_names :: "string list" where
  "moved_names = [''CMakeLists.txt'', ''cmake'', ''include'', ''libcef_dll'', ''CREDITS.html'']"

definition xe_read_dir :: "xe_env \<Rightarrow> fs_path \<Rightarrow> (string list \<Rightarrow> xe_world \<Rightarrow> bool \<times> xe_world) \<Rightarrow> xe_world \<Rightarrow> bool \<times> xe_world" where
  "xe_read_dir env dir f w =
     xe_then (xe_io (\<lambda>n fs. (\<not> xe_fails env n \<and> fs_get fs dir = Some FsDir, fs)) w) (f (fs_children dir (xw_fs w)))"

definition xe_arrange :: "xe_env \<Rightarrow> string \<Rightarrow> fs_path \<Rightarrow> fs_path \<Rightarrow> fs_path \<Rightarrow> fs_path \<Rightarrow> xe_world \<Rightarrow> bool \<times> xe_world" where
  "xe_arrange env os extracted_dir cef_dir old_dir left_dir w =
     xe_then
       (xe_then
          (xe_then
             (xe_then
                (if fs_get (xw_fs w) cef_dir \<noteq> None then xe_clean_up env cef_dir old_dir w else (True, w))
                (xe_rename env (extracted_dir @ [''Release'']) cef_dir))
             (\<lambda>w. if os = ''macos'' then (True, w)
                  else xe_read_dir env (extracted_dir @ [''Resources'']) (xe_move_each env (extracted_dir @ [''Resources'']) cef_dir) w))
          (xe_move_each env extracted_dir cef_dir moved_names))
       (xe_clean_up env extracted_dir left_dir)"

definition strip_suffix :: "string \<Rightarrow> string \<Rightarrow> string option" where
  "strip_suffix post name =
     (let n = length name - length post in if drop n name = post \<and> length post \<le> length name then Some (take n name) else None)"

definition extract_target_archive :: "xe_env \<Rightarrow> string \<Rightarrow> fs_path \<Rightarrow> fs_path \<Rightarrow> xe_world \<Rightarrow> (dl_error + fs_path) \<times> xe_world" where
  "extract_target_archive env target archive location w =
     (case fs_get (xw_fs w) archive of
        Some (FsFile bytes) \<Rightarrow>
          (case xe_io (\<lambda>n. xe_unpack env bytes location) w of
             (False, w) \<Rightarrow> (Inl IoError, w)
           | (True, w) \<Rightarrow>
               (case strip_suffix ''.tar.bz2'' (last archive) of
                  None \<Rightarrow> (Inl (InvalidArchiveFile (last archive)), w)
                | Some stem \<Rightarrow>
                    (case os_and_arch target of
                       Inl e \<Rightarrow> (Inl e, w)
                     | Inr (os, arch) \<Rightarrow>
                         (let cef_dir = location @ [os_and_arch_display (os, arch)]
                          in case xe_arrange env os (location @ [stem]) cef_dir
                                    (location @ [''old_'' @ os @ ''_'' @ arch]) (location @ [''extracted_'' @ os @ ''_'' @ arch]) w of
                               (False, w) \<Rightarrow> (Inl IoError, w)
                             | (True, w) \<Rightarrow> (Inr cef_dir, w)))))
      | _ \<Rightarrow> (Inl IoError, w))"

section \<open>Looking up after an operation\<close>

lemma fs_get_Cons: "fs_get ((q, x) # fs) p = (if p = q then Some x else fs_get fs p)"
  by (simp add: fs_get_def)

lemma fs_get_Nil [simp]: "fs_get [] p = None"
  by (simp add: fs_get_def)

lemma prefix_both: "prefix a p \<Longrightarrow> prefix b p \<Longrightarrow> \<not> a \<parallel> b"
  by (auto simp: parallel_def dest: prefix_same_cases)

lemma fs_get_filter: "fs_get (filter (\<lambda>(p, x). P p) fs) p = (if P p then fs_get fs p else None)"
  by (induction fs) (auto simp: fs_get_Cons)

lemma fs_get_remove: "fs_get (fs_remove dir fs) p = (if prefix dir p then None else fs_get fs p)"
  using fs_get_filter [of "\<lambda>p. \<not> prefix dir p"] by (simp add: fs_remove_def)

lemma fs_get_move:
  assumes "src \<parallel> dst"
  shows "fs_get (fs_move src dst fs) p =
    (if prefix dst p then fs_get fs (src @ drop (length dst) p) else if prefix src p then None else fs_get fs p)"
proof (induction fs)
  case (Cons a fs)
  obtain q x where a: "a = (q, x)" by (cases a)
  consider "prefix dst q" | "prefix src q" "\<not> prefix dst q" | "\<not> prefix src q" "\<not> prefix dst q" by blast
  then show ?case
  proof cases
    case 1
    then have "src @ r \<noteq> q" for r using prefix_both [of src q dst] assms by auto
    with 1 Cons show ?thesis by (auto simp: a fs_move_def fs_get_Cons)
  next
    case 2
    then obtain r where q: "q = src @ r" by (auto simp: prefix_def)
    have "fs_get (fs_move src dst (a # fs)) p = (if p = dst @ r then Some x else fs_get (fs_move src dst fs) p)"
      using 2 by (simp add: a fs_move_def fs_get_Cons q)
    moreover have "p = dst @ r \<longleftrightarrow> prefix dst p \<and> src @ drop (length dst) p = q"
      by (auto simp: q prefix_def)
    ultimately show ?thesis using 2(2) Cons q prefixI [of q src r] by (auto simp: a fs_get_Cons)
  next
    case 3
    then have "q \<noteq> src @ r" for r by auto
    with 3 Cons show ?thesis by (auto simp: a fs_move_def fs_get_Cons)
  qed
qed (simp add: fs_move_def)

lemma map_filter_in: "y \<in> set (List.map_filter f xs) \<longleftrightarrow> (\<exists>x\<in>set xs. f x = Some y)"
  by (force simp: List.map_filter_def)

lemma in_fs_children: "n \<in> set (fs_children dir fs) \<longleftrightarrow> fs_get fs (dir @ [n]) \<noteq> None"
proof -
  have "n \<in> set (fs_children dir fs) \<longleftrightarrow> dir @ [n] \<in> fst ` set fs"
    by (auto simp: fs_children_def map_filter_in image_iff split_beta snoc_eq_iff_butlast split: if_splits)
  then show ?thesis by (metis fs_get_def map_of_eq_None_iff)
qed

lemma parallel_names [simp]: "a \<noteq> b \<Longrightarrow> (loc @ [a]) \<parallel> (loc @ [b])"
  by (simp add: parallel_def)

lemma parallel_below: "a \<parallel> b \<Longrightarrow> (a @ c) \<parallel> (b @ d)"
  by (simp add: parallel_append)

lemma xe_then_True: "xe_then r f = (True, w') \<longleftrightarrow> (\<exists>w. r = (True, w) \<and> f w = (True, w'))"
  by (cases r) (auto simp: xe_then_def)

lemma xe_rename_True:
  "xe_rename env src dst w = (True, w') \<Longrightarrow>
     src \<parallel> dst \<and> fs_get (xw_fs w) src \<noteq> None \<and> xw_fs w' = fs_move src dst (xw_fs w)"
  by (auto simp: xe_rename_def xe_io_def rename_ok_def parallel_def split: if_splits option.splits)

lemma xe_clean_up_True:
  assumes "xe_clean_up env dir old w = (True, w')"
  shows "dir \<parallel> old"
    and "fs_get (xw_fs w') p = (if prefix dir p \<or> prefix old p then None else fs_get (xw_fs w) p)"
proof -
  from assms obtain w1 where w1: "xe_rename env dir old w = (True, w1)" "xe_remove_dir_all env old w1 = (True, w')"
    by (auto simp: xe_clean_up_def xe_then_True)
  from w1(1) show par: "dir \<parallel> old" by (auto dest: xe_rename_True)
  from w1(2) have "xw_fs w' = fs_remove old (xw_fs w1)" by (auto simp: xe_remove_dir_all_def xe_io_def split: if_splits)
  with xe_rename_True [OF w1(1)] par show "fs_get (xw_fs w') p = (if prefix dir p \<or> prefix old p then None else fs_get (xw_fs w) p)"
    by (simp add: fs_get_remove fs_get_move)
qed

lemma below_name: "prefix (dir @ [n]) p \<longleftrightarrow> (\<exists>r. p = dir @ n # r)" "prefix (dir @ [a, n]) p \<longleftrightarrow> (\<exists>r. p = dir @ a # n # r)"
  by (auto simp: prefix_def)

lemma xe_move_each_True:
  assumes "xe_move_each env src dst ns w = (True, w')" "src \<parallel> dst" "distinct ns"
  shows "fs_get (xw_fs w') p =
    (if \<exists>n\<in>set ns. prefix (dst @ [n]) p then fs_get (xw_fs w) (src @ drop (length dst) p)
     else if \<exists>n\<in>set ns. prefix (src @ [n]) p then None
     else fs_get (xw_fs w) p)"
  using assms
proof (induction ns arbitrary: w)
  case (Cons n ns)
  from Cons.prems(1) obtain w1 where w1: "xe_rename env (src @ [n]) (dst @ [n]) w = (True, w1)"
      "xe_move_each env src dst ns w1 = (True, w')"
    by (auto simp: xe_then_True)
  have par: "(src @ [a]) \<parallel> (dst @ [b])" "(dst @ [a]) \<parallel> (src @ [b])" for a b
    using Cons.prems(2) by (auto intro!: parallel_below simp: parallel_commute [of dst])
  have fs1: "fs_get (xw_fs w1) q =
      (if prefix (dst @ [n]) q then fs_get (xw_fs w) (src @ [n] @ drop (Suc (length dst)) q)
       else if prefix (src @ [n]) q then None else fs_get (xw_fs w) q)" for q
    using xe_rename_True [OF w1(1)] by (simp add: fs_get_move par)
  have excl: "src @ a # r \<noteq> dst @ b # r'" for a b r r'
    using par(1) prefix_both [of "src @ [a]" "src @ a # r" "dst @ [b]"] by (auto simp: below_name)
  note IH = Cons.IH [OF w1(2) Cons.prems(2)]
  show ?case
  proof (cases "\<exists>m\<in>set ns. prefix (dst @ [m]) p")
    case True
    then obtain m r where m: "m \<in> set ns" "p = dst @ m # r" by (auto simp: below_name)
    with Cons.prems(3) have "m \<noteq> n" by auto
    then have "\<not> prefix (dst @ [n]) (src @ m # r)" "\<not> prefix (src @ [n]) (src @ m # r)"
      using excl by (auto simp: below_name)
    with True m IH Cons.prems(3) show ?thesis by (auto simp: fs1)
  next
    case False
    then show ?thesis using IH Cons.prems(3) excl excl [symmetric] by (auto simp: fs1 below_name)
  qed
qed simp

section \<open>Properties\<close>

text \<open>Where a part of the directory comes from: the later moves win.\<close>

definition origin :: "string \<Rightarrow> fs_path \<Rightarrow> fs \<Rightarrow> string \<Rightarrow> string list" where
  "origin os extracted_dir fs n =
     (if n \<in> set moved_names then []
      else if os \<noteq> ''macos'' \<and> fs_get fs (extracted_dir @ [''Resources'', n]) \<noteq> None then [''Resources'']
      else [''Release''])"

lemma moved_names_not: "n \<in> set moved_names \<Longrightarrow> n \<noteq> ''Resources''" "n \<in> set moved_names \<Longrightarrow> n \<noteq> ''Release''"
    "distinct moved_names"
  by (auto simp: moved_names_def)

lemma xe_resources_True:
  assumes "(if os = ''macos'' then (True, w) else xe_read_dir env (src @ [''Resources'']) (xe_move_each env (src @ [''Resources'']) dst) w) = (True, w')"
    and "src \<parallel> dst"
  shows "fs_get (xw_fs w') p =
    (if os \<noteq> ''macos'' \<and> (\<exists>n r. p = dst @ n # r \<and> fs_get (xw_fs w) (src @ [''Resources'', n]) \<noteq> None)
     then fs_get (xw_fs w) (src @ ''Resources'' # drop (length dst) p)
     else if os \<noteq> ''macos'' \<and> (\<exists>n r. p = src @ ''Resources'' # n # r \<and> fs_get (xw_fs w) (src @ [''Resources'', n]) \<noteq> None) then None
     else fs_get (xw_fs w) p)"
proof (cases "os = ''macos''")
  case False
  define w1 where "w1 = w\<lparr>xw_ops := Suc (xw_ops w)\<rparr>"
  have w1: "xw_fs w1 = xw_fs w"
      "xe_move_each env (src @ [''Resources'']) dst (fs_children (src @ [''Resources'']) (xw_fs w)) w1 = (True, w')"
    using assms(1) False by (auto simp: w1_def xe_read_dir_def xe_then_True xe_io_def)
  have par: "(src @ [''Resources'']) \<parallel> dst" using parallel_below [OF assms(2), of "[''Resources'']" "[]"] by simp
  have "distinct (fs_children (src @ [''Resources'']) (xw_fs w))" by (simp add: fs_children_def)
  from xe_move_each_True [OF w1(2) par this, of p] False show ?thesis
    by (auto simp: in_fs_children below_name w1(1))
qed (use assms(1) in simp)

lemma xe_arrange_True:
  assumes "xe_arrange env os (loc @ [e]) (loc @ [c]) (loc @ [old]) (loc @ [l]) w = (True, w')"
    and "distinct [e, c, old, l]"
  shows "fs_get (xw_fs w') (loc @ c # n # r) = fs_get (xw_fs w) (loc @ e # origin os (loc @ [e]) (xw_fs w) n @ n # r)"
    and "\<forall>a\<in>{e, c, old, l}. \<not> prefix (loc @ [a]) p \<Longrightarrow> fs_get (xw_fs w') p = fs_get (xw_fs w) p"
    and "a \<in> {e, l} \<Longrightarrow> fs_get (xw_fs w') (loc @ a # r) = None"
proof -
  from assms(1) obtain w1 w2 w3 w4 where
      w1: "(if fs_get (xw_fs w) (loc @ [c]) \<noteq> None then xe_clean_up env (loc @ [c]) (loc @ [old]) w else (True, w)) = (True, w1)"
    and w2: "xe_rename env (loc @ [e, ''Release'']) (loc @ [c]) w1 = (True, w2)"
    and w3: "(if os = ''macos'' then (True, w2) else xe_read_dir env ((loc @ [e]) @ [''Resources''])
               (xe_move_each env ((loc @ [e]) @ [''Resources'']) (loc @ [c])) w2) = (True, w3)"
    and w4: "xe_move_each env (loc @ [e]) (loc @ [c]) moved_names w3 = (True, w4)"
    and w5: "xe_clean_up env (loc @ [e]) (loc @ [l]) w4 = (True, w')"
    by (auto simp: xe_arrange_def xe_then_True)
  have fs1: "fs_get (xw_fs w1) q = fs_get (xw_fs w) q" if "\<not> prefix (loc @ [c]) q" "\<not> prefix (loc @ [old]) q" for q
    using w1 that xe_clean_up_True(2) [of env "loc @ [c]" "loc @ [old]" w w1 q] by (auto split: if_splits)
  have fs2: "fs_get (xw_fs w2) q = (if prefix (loc @ [c]) q then fs_get (xw_fs w1) (loc @ e # ''Release'' # drop (Suc (length loc)) q)
      else if prefix (loc @ [e, ''Release'']) q then None else fs_get (xw_fs w1) q)" for q
    using xe_rename_True [OF w2] by (simp add: fs_get_move)
  have par: "(loc @ [e]) \<parallel> (loc @ [c])" using assms(2) by simp
  note fs3 = xe_resources_True [OF w3 par]
  note fs4 = xe_move_each_True [OF w4 par moved_names_not(3), unfolded below_name]
  note fs5 = xe_clean_up_True(2) [OF w5]
  show "fs_get (xw_fs w') (loc @ c # n # r) = fs_get (xw_fs w) (loc @ e # origin os (loc @ [e]) (xw_fs w) n @ n # r)"
  proof (cases "n \<in> set moved_names")
    case True
    with assms(2) moved_names_not(1,2) [OF True] show ?thesis by (auto simp: fs5 fs4 fs3 fs2 fs1 origin_def)
  next
    case False
    have "fs_get (xw_fs w') (loc @ c # n # r) = fs_get (xw_fs w3) (loc @ c # n # r)" using assms(2) False by (auto simp: fs5 fs4)
    moreover have "fs_get (xw_fs w2) (loc @ c # n # r) = fs_get (xw_fs w) (loc @ e # ''Release'' # n # r)"
        "fs_get (xw_fs w2) (loc @ e # ''Resources'' # q) = fs_get (xw_fs w) (loc @ e # ''Resources'' # q)" for q
      using assms(2) by (auto simp: fs2 fs1)
    ultimately show ?thesis using assms(2) False by (auto simp: fs3 origin_def)
  qed
  show "fs_get (xw_fs w') p = fs_get (xw_fs w) p" if "\<forall>a\<in>{e, c, old, l}. \<not> prefix (loc @ [a]) p"
    using that by (auto simp: fs5 fs4 fs3 fs2 fs1 below_name)
  show "fs_get (xw_fs w') (loc @ a # r) = None" if "a \<in> {e, l}"
    using that by (auto simp: fs5)
qed

text \<open>What an operation leaves alone, whether or not it succeeds.\<close>

definition leaves_alone :: "(fs_path \<Rightarrow> bool) \<Rightarrow> bool \<times> xe_world \<Rightarrow> xe_world \<Rightarrow> bool" where
  "leaves_alone Q r w \<longleftrightarrow> (\<forall>p. Q p \<longrightarrow> fs_get (xw_fs (snd r)) p = fs_get (xw_fs w) p)"

lemma leaves_then:
  "leaves_alone Q r w \<Longrightarrow> (\<And>w. leaves_alone Q (f w) w) \<Longrightarrow> leaves_alone Q (xe_then r f) w"
  by (auto simp: leaves_alone_def xe_then_def)

lemma leaves_rename:
  assumes "\<And>p. Q p \<Longrightarrow> \<not> prefix src p \<and> \<not> prefix dst p"
  shows "leaves_alone Q (xe_rename env src dst w) w"
  using assms by (auto simp: leaves_alone_def xe_rename_def xe_io_def rename_ok_def fs_get_move parallel_def)

lemma leaves_remove:
  assumes "\<And>p. Q p \<Longrightarrow> \<not> prefix dir p"
  shows "leaves_alone Q (xe_remove_dir_all env dir w) w"
  using assms
  by (auto simp: leaves_alone_def xe_remove_dir_all_def xe_io_def fs_get_remove
      fs_get_filter [where P = "\<lambda>p. prefix dir p \<longrightarrow> xe_left env (xw_ops w) p"])

lemma leaves_clean_up:
  assumes "\<And>p. Q p \<Longrightarrow> \<not> prefix dir p \<and> \<not> prefix old p"
  shows "leaves_alone Q (xe_clean_up env dir old w) w"
  unfolding xe_clean_up_def using assms by (intro leaves_then leaves_rename leaves_remove) auto

lemma leaves_move_each:
  assumes "\<And>p. Q p \<Longrightarrow> \<not> prefix src p \<and> \<not> prefix dst p"
  shows "leaves_alone Q (xe_move_each env src dst ns w) w"
proof (induction ns arbitrary: w)
  case (Cons n ns)
  from assms have "Q p \<Longrightarrow> \<not> prefix (src @ [n]) p \<and> \<not> prefix (dst @ [n]) p" for p
    by (auto dest: append_prefixD)
  then show ?case by (auto intro: leaves_then leaves_rename Cons.IH)
qed (simp add: leaves_alone_def)

lemma leaves_arrange:
  assumes "\<And>p. Q p \<Longrightarrow> \<not> prefix ext p \<and> \<not> prefix cef p \<and> \<not> prefix old p \<and> \<not> prefix l p"
  shows "leaves_alone Q (xe_arrange env os ext cef old l w) w"
proof -
  have below: "Q p \<Longrightarrow> \<not> prefix (ext @ x) p" for p x using assms by (auto dest: append_prefixD)
  have res: "leaves_alone Q (if os = ''macos'' then (True, w) else xe_read_dir env (ext @ [''Resources'']) (xe_move_each env (ext @ [''Resources'']) cef) w) w" for w
  proof -
    have "leaves_alone Q (xe_read_dir env (ext @ [''Resources'']) (xe_move_each env (ext @ [''Resources'']) cef) w) w"
      unfolding xe_read_dir_def using assms below
      by (intro leaves_then leaves_move_each) (auto simp: leaves_alone_def xe_io_def)
    then show ?thesis by (simp add: leaves_alone_def)
  qed
  have "leaves_alone Q (if fs_get (xw_fs w) cef \<noteq> None then xe_clean_up env cef old w else (True, w)) w" for w
    using leaves_clean_up [of Q cef old env w] assms by (simp add: leaves_alone_def)
  then show ?thesis
    unfolding xe_arrange_def using assms below res
    by (intro leaves_then leaves_rename leaves_move_each leaves_clean_up) auto
qed

text \<open>
  Extracting an archive touches, besides what unpacking writes, only the four
  directories it works with, also when it fails. When it succeeds it gives the directory
  named after the target, whose parts are those of the archive: the five parts that belong to
  every build, for other systems than macOS the contents of the resources, and the release
  files for the rest, each with everything below it; the unpacked directory is gone, and of
  an earlier build nothing is left in the new directory.
\<close>

lemma extract_layout:
  assumes "fs_get (xw_fs w) archive = Some (FsFile bytes)" "xe_unpack env bytes location (xw_fs w) = (True, fs)"
    and "strip_suffix ''.tar.bz2'' (last archive) = Some stem" "os_and_arch target = Inr (os, arch)"
    and "c = ''cef_'' @ os @ ''_'' @ arch" "old = ''old_'' @ os @ ''_'' @ arch" "l = ''extracted_'' @ os @ ''_'' @ arch"
    and "stem \<notin> {c, old, l}" "extract_target_archive env target archive location w = (res, w')"
  shows "(\<forall>p. (\<forall>a\<in>{stem, c, old, l}. \<not> prefix (location @ [a]) p) \<longrightarrow> fs_get (xw_fs w') p = fs_get fs p)
    \<and> (\<forall>dir. res = Inr dir \<longrightarrow>
         dir = location @ [c]
         \<and> (\<forall>n r. fs_get (xw_fs w') (dir @ n # r)
               = fs_get fs (location @ stem # origin os (location @ [stem]) fs n @ n # r))
         \<and> (\<forall>r. fs_get (xw_fs w') (location @ stem # r) = None \<and> fs_get (xw_fs w') (location @ l # r) = None))"
proof -
  define w1 where "w1 = w\<lparr>xw_fs := fs, xw_ops := Suc (xw_ops w)\<rparr>"
  obtain ok w2 where r: "xe_arrange env os (location @ [stem]) (location @ [c]) (location @ [old]) (location @ [l]) w1 = (ok, w2)"
    by fastforce
  have unpacked: "xe_io (\<lambda>n. xe_unpack env bytes location) w = (True, w1)"
    using assms(2) by (simp add: xe_io_def w1_def)
  have res: "w' = w2" "res = (if ok then Inr (location @ [c]) else Inl IoError)"
    using assms(9) r by (cases ok; simp add: extract_target_archive_def assms(1,3-7) unpacked os_and_arch_display_def Let_def)+
  have dist: "distinct [stem, c, old, l]" using assms(5-8) by auto
  have "leaves_alone (\<lambda>p. \<forall>a\<in>{stem, c, old, l}. \<not> prefix (location @ [a]) p) (ok, w2) w1"
    unfolding r [symmetric] by (rule leaves_arrange) auto
  then have "\<forall>p. (\<forall>a\<in>{stem, c, old, l}. \<not> prefix (location @ [a]) p) \<longrightarrow> fs_get (xw_fs w') p = fs_get fs p"
    by (simp add: leaves_alone_def res(1) w1_def)
  moreover have "dir = location @ [c]
      \<and> (\<forall>n r. fs_get (xw_fs w') (dir @ n # r) = fs_get fs (location @ stem # origin os (location @ [stem]) fs n @ n # r))
      \<and> (\<forall>r. fs_get (xw_fs w') (location @ stem # r) = None \<and> fs_get (xw_fs w') (location @ l # r) = None)"
    if "res = Inr dir" for dir
  proof -
    from that res(2) have ok: ok and dir: "dir = location @ [c]" by (auto split: if_splits)
    from r ok have r': "xe_arrange env os (location @ [stem]) (location @ [c]) (location @ [old]) (location @ [l]) w1 = (True, w2)" by simp
    show ?thesis using xe_arrange_True(1,3) [OF r' dist] by (simp add: dir res(1) w1_def)
  qed
  ultimately show ?thesis by blast
qed

definition sample_xe_env :: xe_env where
  "sample_xe_env =
     \<lparr>xe_unpack = (\<lambda>bytes loc fs.
        (True, fs @ [(loc @ [''b''], FsDir), (loc @ [''b'', ''Release''], FsDir), (loc @ [''b'', ''Release'', ''libcef.so''], FsFile bytes),
           (loc @ [''b'', ''Resources''], FsDir), (loc @ [''b'', ''Resources'', ''icudtl.dat''], FsFile [1]),
           (loc @ [''b'', ''CMakeLists.txt''], FsFile []), (loc @ [''b'', ''cmake''], FsDir), (loc @ [''b'', ''include''], FsDir),
           (loc @ [''b'', ''libcef_dll''], FsDir), (loc @ [''b'', ''CREDITS.html''], FsFile [])])),
      xe_fails = (\<lambda>n. False), xe_left = (\<lambda>n p. True)\<rparr>"

definition sample_xe_world :: xe_world where
  "sample_xe_world = \<lparr>xw_fs = [([''w''], FsDir), ([''w'', ''b.tar.bz2''], FsFile [7])], xw_ops = 0\<rparr>"

end
