(* ===== verification/Export_Cef_Dir.thy ===== *)
theory Export_Cef_Dir
  imports Extract_Cef
begin

text \<open>
  \<^verbatim>\<open>export-cef-dir/src/main.rs\<close>: the tool that puts a build of CEF into a directory, over the file system
  of the extraction. An archive that is there already is extracted; otherwise one is
  downloaded first, which is an argument here (\<open>ee_fetch\<close>, the archive and its entry in the index) and
  verified with its own model in \<^verbatim>\<open>Download_Cef\<close>. SHA-1 and the printing of JSON are parameters.
\<close>

datatype export_error =
    ExDownload dl_error
  | ExInvalidDirectory
  | ExDirectoryExists
  | ExDirectoryMismatch
  | ExPanicked

record export_env =
  ee_xe :: xe_env
  ee_sha1 :: "u8 list \<Rightarrow> string"
  ee_json :: "cef_file \<Rightarrow> u8 list"
  ee_fetch :: "fs_path \<Rightarrow> fs \<Rightarrow> (dl_error + fs_path \<times> cef_file) \<times> fs"

record export_args =
  ea_force :: bool
  ea_save_archive :: bool
  ea_target :: string
  ea_archive :: "fs_path option"
  ea_output :: fs_path

type_synonym 'a export_result = "(export_error + 'a) \<times> xe_world"

definition ex_bind :: "'a export_result \<Rightarrow> ('a \<Rightarrow> xe_world \<Rightarrow> 'b export_result) \<Rightarrow> 'b export_result" where
  "ex_bind r f = (case r of (Inl e, w) \<Rightarrow> (Inl e, w) | (Inr a, w) \<Rightarrow> f a w)"

definition ex_io :: "bool \<times> xe_world \<Rightarrow> unit export_result" where
  "ex_io r = (if fst r then Inr () else Inl (ExDownload IoError), snd r)"

definition ex_download :: "(dl_error + 'a) \<times> xe_world \<Rightarrow> 'a export_result" where
  "ex_download r = (case fst r of Inl e \<Rightarrow> Inl (ExDownload e) | Inr a \<Rightarrow> Inr a, snd r)"

text \<open>A directory that is there is renamed and removed.\<close>

definition clean_directory :: "xe_env \<Rightarrow> fs_path \<Rightarrow> xe_world \<Rightarrow> unit export_result" where
  "clean_directory env dir w =
     (if fs_get (xw_fs w) dir \<noteq> None then ex_io (xe_clean_up env dir (butlast dir @ [''old_'' @ last dir]) w) else (Inr (), w))"

definition fs_write :: "fs_path \<Rightarrow> u8 list \<Rightarrow> fs \<Rightarrow> fs" where
  "fs_write p bytes fs = (p, FsFile bytes) # fs"

text \<open>Creating a file succeeds in a directory, where no directory has the name; a failed write may leave it empty.\<close>

definition xe_write_file :: "xe_env \<Rightarrow> fs_path \<Rightarrow> u8 list \<Rightarrow> xe_world \<Rightarrow> bool \<times> xe_world" where
  "xe_write_file env p bytes =
     xe_io (\<lambda>n fs.
       if p = [] \<or> fs_get fs (butlast p) \<noteq> Some FsDir \<or> fs_get fs p = Some FsDir then (False, fs)
       else if xe_fails env n then (False, if xe_left env n p then fs_write p [] fs else fs)
       else (True, fs_write p bytes fs))"

definition xe_remove_file :: "xe_env \<Rightarrow> fs_path \<Rightarrow> xe_world \<Rightarrow> bool \<times> xe_world" where
  "xe_remove_file env p =
     xe_io (\<lambda>n fs. case fs_get fs p of
       Some (FsFile _) \<Rightarrow> if xe_fails env n then (False, fs) else (True, filter (\<lambda>(q, x). q \<noteq> p) fs)
     | _ \<Rightarrow> (False, fs))"

definition write_archive_json :: "export_env \<Rightarrow> cef_file \<Rightarrow> fs_path \<Rightarrow> xe_world \<Rightarrow> unit export_result" where
  "write_archive_json env file location w = ex_io (xe_write_file (ee_xe env) (location @ [''archive.json'']) (ee_json env file) w)"

text \<open>The entry of an archive that is given; its name is there, since the file is, and an unreadable file panics.\<close>

definition cef_file_try_from :: "export_env \<Rightarrow> fs_path \<Rightarrow> xe_world \<Rightarrow> cef_file export_result" where
  "cef_file_try_from env archive w =
     (if archive = [] then (Inl (ExDownload (InvalidArchiveFile [])), w)
      else
        (case fs_get (xw_fs w) archive of
           Some (FsFile bytes) \<Rightarrow>
             (Inr \<lparr>cf_type = ''minimal'', cf_name = last archive, cf_sha1 = ee_sha1 env bytes\<rparr>, w)
         | _ \<Rightarrow> (Inl ExPanicked, w)))"

definition extract_archive :: "export_env \<Rightarrow> export_args \<Rightarrow> fs_path \<Rightarrow> fs_path \<Rightarrow> xe_world \<Rightarrow> fs_path export_result" where
  "extract_archive env args archive parent w = ex_download (extract_target_archive (ee_xe env) (ea_target args) archive parent w)"

definition obtain_build :: "export_env \<Rightarrow> export_args \<Rightarrow> fs_path \<Rightarrow> xe_world \<Rightarrow> (cef_file \<times> fs_path) export_result" where
  "obtain_build env args parent w =
     (case ea_archive args of
        Some archive \<Rightarrow>
          ex_bind (extract_archive env args archive parent w) (\<lambda>extracted_dir w.
          ex_bind (cef_file_try_from env archive w) (\<lambda>file w. (Inr (file, extracted_dir), w)))
      | None \<Rightarrow>
          (let (fetched, fs) = ee_fetch env parent (xw_fs w)
           in ex_bind (ex_download (fetched, w\<lparr>xw_fs := fs\<rparr>)) (\<lambda>(archive, file) w.
              ex_bind (extract_archive env args archive parent w) (\<lambda>extracted_dir w.
              ex_bind (if ea_save_archive args then (Inr (), w) else ex_io (xe_remove_file (ee_xe env) archive w)) (\<lambda>_ w.
              (Inr (file, extracted_dir), w))))))"

definition export_cef_dir :: "export_env \<Rightarrow> export_args \<Rightarrow> xe_world \<Rightarrow> unit export_result" where
  "export_cef_dir env args w =
     (let output = ea_output args; parent = butlast output
      in if output = [] then (Inl ExInvalidDirectory, w)
         else if fs_get (xw_fs w) output \<noteq> None \<and> \<not> ea_force args then (Inl ExDirectoryExists, w)
         else
           ex_bind (clean_directory (ee_xe env) output w) (\<lambda>_ w.
             case os_and_arch (ea_target args) of
               Inl e \<Rightarrow> (Inl (ExDownload e), w)
             | Inr os_arch \<Rightarrow>
                 (let cef_dir = parent @ [os_and_arch_display os_arch]
                  in ex_bind (clean_directory (ee_xe env) cef_dir w) (\<lambda>_ w.
                     ex_bind (obtain_build env args parent w) (\<lambda>(archive, extracted_dir) w.
                       if extracted_dir \<noteq> cef_dir then (Inl ExDirectoryMismatch, w)
                       else ex_bind (write_archive_json env archive extracted_dir w) (\<lambda>_ w.
                         if output \<noteq> cef_dir then ex_io (xe_rename (ee_xe env) cef_dir output w) else (Inr (), w)))))))"

section \<open>Properties\<close>

lemma ex_bind_Inr: "ex_bind r f = (Inr b, w') \<longleftrightarrow> (\<exists>a w. r = (Inr a, w) \<and> f a w = (Inr b, w'))"
  by (cases r) (auto simp: ex_bind_def split: sum.splits)

lemma ex_bind_Inl:
  "ex_bind r f = (Inl e, w') \<longleftrightarrow> r = (Inl e, w') \<or> (\<exists>a w. r = (Inr a, w) \<and> f a w = (Inl e, w'))"
  by (cases r) (auto simp: ex_bind_def split: sum.splits)

lemma ex_io_Inr: "ex_io r = (Inr u, w') \<longleftrightarrow> r = (True, w')"
  by (cases r) (auto simp: ex_io_def)

lemma ex_io_Inl: "ex_io r = (Inl e, w') \<Longrightarrow> e = ExDownload IoError"
  by (auto simp: ex_io_def split: if_splits)

lemma ex_download_Inr: "ex_download r = (Inr a, w') \<longleftrightarrow> r = (Inr a, w')"
  by (cases r) (auto simp: ex_download_def split: sum.splits)

lemma ex_download_Inl: "ex_download r = (Inl e, w') \<Longrightarrow> e \<noteq> ExDirectoryMismatch"
  by (auto simp: ex_download_def split: sum.splits)

lemma extract_directory:
  assumes "extract_target_archive env target archive location w = (Inr dir, w')" "os_and_arch target = Inr oa"
  shows "dir = location @ [os_and_arch_display oa]"
  using assms
  by (auto simp: extract_target_archive_def Let_def split: option.splits fs_node.splits prod.splits bool.splits)

lemma obtain_build_directory:
  assumes "obtain_build env args parent w = (Inr (file, dir), w')" "os_and_arch (ea_target args) = Inr oa"
  shows "dir = parent @ [os_and_arch_display oa]"
  using assms
  by (auto simp: obtain_build_def extract_archive_def ex_bind_Inr ex_download_Inr split_beta dest: extract_directory split: option.splits)

lemma obtain_build_no_mismatch: "obtain_build env args parent w \<noteq> (Inl ExDirectoryMismatch, w')"
  by (auto simp: obtain_build_def extract_archive_def ex_bind_Inl cef_file_try_from_def split_beta
      dest!: ex_download_Inl ex_io_Inl split: option.splits fs_node.splits if_splits)

lemma clean_directory_no_mismatch: "clean_directory env dir w \<noteq> (Inl ExDirectoryMismatch, w')"
  by (auto simp: clean_directory_def dest: ex_io_Inl)

lemma export_no_mismatch: "export_cef_dir env args w \<noteq> (Inl ExDirectoryMismatch, w')"
  using obtain_build_no_mismatch clean_directory_no_mismatch
  by (auto simp: export_cef_dir_def Let_def ex_bind_Inl write_archive_json_def
      dest!: ex_io_Inl obtain_build_directory split: sum.splits if_splits)

lemma clean_directory_frame:
  assumes "clean_directory env dir w = (Inr u, w')" "\<not> prefix dir p" "\<not> prefix (butlast dir @ [''old_'' @ last dir]) p"
  shows "fs_get (xw_fs w') p = fs_get (xw_fs w) p"
  using assms xe_clean_up_True(2) [of env dir _ w w' p] by (auto simp: clean_directory_def ex_io_Inr split: if_splits)

lemma write_file_True:
  "xe_write_file env p bytes w = (True, w') \<Longrightarrow> fs_get (xw_fs w') q = (if q = p then Some (FsFile bytes) else fs_get (xw_fs w) q)"
  by (auto simp: xe_write_file_def xe_io_def fs_write_def fs_get_Cons split: if_splits)

lemma extract_unpacks:
  assumes "extract_target_archive env target archive location w = (Inr dir, w')"
  shows "\<exists>bytes fs. fs_get (xw_fs w) archive = Some (FsFile bytes) \<and> xe_unpack env bytes location (xw_fs w) = (True, fs)"
  using assms
  by (auto simp: extract_target_archive_def xe_io_def Let_def split: option.splits fs_node.splits prod.splits bool.splits)

text \<open>What a successful export has done, one call after the other.\<close>

lemma export_steps:
  assumes "export_cef_dir env args w = (Inr u, w')" "ea_archive args = Some archive" "ea_output args = parent @ [name]"
    and "os_and_arch (ea_target args) = Inr oa"
  obtains w1 w2 w3 entry w4 where "clean_directory (ee_xe env) (parent @ [name]) w = (Inr (), w1)"
    and "clean_directory (ee_xe env) (parent @ [os_and_arch_display oa]) w1 = (Inr (), w2)"
    and "extract_target_archive (ee_xe env) (ea_target args) archive parent w2 = (Inr (parent @ [os_and_arch_display oa]), w3)"
    and "cef_file_try_from env archive w3 = (Inr entry, w3)"
    and "write_archive_json env entry (parent @ [os_and_arch_display oa]) w3 = (Inr (), w4)"
    and "(if parent @ [name] \<noteq> parent @ [os_and_arch_display oa]
          then ex_io (xe_rename (ee_xe env) (parent @ [os_and_arch_display oa]) (parent @ [name]) w4) else (Inr (), w4)) = (Inr (), w')"
proof -
  have try_w: "cef_file_try_from env archive x = (Inr f, y) \<Longrightarrow> y = x" for f x y
    by (auto simp: cef_file_try_from_def split: if_splits option.splits fs_node.splits)
  from assms obtain w1 w2 entry dir w3 w4 where
      "clean_directory (ee_xe env) (parent @ [name]) w = (Inr (), w1)"
      "clean_directory (ee_xe env) (parent @ [os_and_arch_display oa]) w1 = (Inr (), w2)"
    and b: "obtain_build env args parent w2 = (Inr (entry, dir), w3)"
    and rest: "dir = parent @ [os_and_arch_display oa]" "write_archive_json env entry dir w3 = (Inr (), w4)"
      "(if parent @ [name] \<noteq> parent @ [os_and_arch_display oa]
        then ex_io (xe_rename (ee_xe env) (parent @ [os_and_arch_display oa]) (parent @ [name]) w4) else (Inr (), w4)) = (Inr (), w')"
    by (auto simp: export_cef_dir_def Let_def ex_bind_Inr split: if_splits)
  moreover from b assms(2) obtain x where x: "extract_target_archive (ee_xe env) (ea_target args) archive parent w2 = (Inr dir, x)"
      "cef_file_try_from env archive x = (Inr entry, w3)"
    by (auto simp: obtain_build_def extract_archive_def ex_bind_Inr ex_download_Inr)
  ultimately show thesis using try_w [OF x(2)] that by simp
qed

text \<open>
  What an export leaves in the output directory: the parts of the archive, unpacked over the files
  as they were but for the replaced directories, and the file that describes the archive.
\<close>

definition exported_from ::
  "export_env \<Rightarrow> fs_path \<Rightarrow> fs_path \<Rightarrow> string \<Rightarrow> string \<Rightarrow> string \<Rightarrow> string \<Rightarrow> fs \<Rightarrow> fs \<Rightarrow> bool" where
  "exported_from env archive parent name os stem c before after \<longleftrightarrow>
     (\<exists>fs0 bytes fs packed.
        (\<forall>p. (\<forall>a\<in>{name, ''old_'' @ name, c, ''old_'' @ c}. \<not> prefix (parent @ [a]) p) \<longrightarrow> fs_get fs0 p = fs_get before p)
        \<and> fs_get fs0 archive = Some (FsFile bytes) \<and> xe_unpack (ee_xe env) bytes parent fs0 = (True, fs)
        \<and> fs_get fs archive = Some (FsFile packed)
        \<and> (\<forall>n r. fs_get after (parent @ name # n # r) =
             (if n = ''archive.json'' \<and> r = []
              then Some (FsFile (ee_json env \<lparr>cf_type = ''minimal'', cf_name = last archive, cf_sha1 = ee_sha1 env packed\<rparr>))
              else fs_get fs (parent @ stem # origin os (parent @ [stem]) fs n @ n # r))))"

lemma export_success:
  assumes "ea_archive args = Some archive" "ea_output args = parent @ [name]" "os_and_arch (ea_target args) = Inr (os, arch)"
    and "strip_suffix ''.tar.bz2'' (last archive) = Some stem"
    and "c = ''cef_'' @ os @ ''_'' @ arch" "old = ''old_'' @ os @ ''_'' @ arch" "l = ''extracted_'' @ os @ ''_'' @ arch"
    and "stem \<notin> {c, old, l}" "\<forall>a\<in>{stem, c, old, l}. \<not> prefix (parent @ [a]) archive"
    and "export_cef_dir env args w = (Inr (), w')"
  shows "exported_from env archive parent name os stem c (xw_fs w) (xw_fs w')"
proof -
  have c: "os_and_arch_display (os, arch) = c" by (simp add: os_and_arch_display_def assms(5))
  from export_steps [OF assms(10,1-3), unfolded c] obtain w1 w2 w3 entry w4 where
      w1: "clean_directory (ee_xe env) (parent @ [name]) w = (Inr (), w1)"
    and w2: "clean_directory (ee_xe env) (parent @ [c]) w1 = (Inr (), w2)"
    and w3: "extract_target_archive (ee_xe env) (ea_target args) archive parent w2 = (Inr (parent @ [c]), w3)"
    and entry: "cef_file_try_from env archive w3 = (Inr entry, w3)"
    and w4: "write_archive_json env entry (parent @ [c]) w3 = (Inr (), w4)"
    and last: "(if parent @ [name] \<noteq> parent @ [c] then ex_io (xe_rename (ee_xe env) (parent @ [c]) (parent @ [name]) w4)
                else (Inr (), w4)) = (Inr (), w')"
    by blast
  obtain bytes fs where fs: "fs_get (xw_fs w2) archive = Some (FsFile bytes)" "xe_unpack (ee_xe env) bytes parent (xw_fs w2) = (True, fs)"
    using extract_unpacks [OF w3] by blast
  note layout = extract_layout [OF fs assms(4,3,5-8) w3]
  have "fs_get (xw_fs w3) archive = fs_get fs archive" using layout assms(9) by blast
  with entry obtain packed where packed: "fs_get fs archive = Some (FsFile packed)"
      "entry = \<lparr>cf_type = ''minimal'', cf_name = last archive, cf_sha1 = ee_sha1 env packed\<rparr>"
    by (auto simp: cef_file_try_from_def split: if_splits option.splits fs_node.splits)
  have cef: "fs_get (xw_fs w4) (parent @ c # n # r) = (if n = ''archive.json'' \<and> r = [] then Some (FsFile (ee_json env entry))
      else fs_get fs (parent @ stem # origin os (parent @ [stem]) fs n @ n # r))" for n r
    using layout write_file_True [of "ee_xe env" "parent @ [c, ''archive.json'']" _ w3 w4] w4
    by (auto simp: write_archive_json_def ex_io_Inr)
  have out: "fs_get (xw_fs w') (parent @ name # n # r) = fs_get (xw_fs w4) (parent @ c # n # r)" for n r
    using last xe_rename_True [of "ee_xe env" "parent @ [c]" "parent @ [name]" w4 w']
    by (auto simp: ex_io_Inr fs_get_move split: if_splits)
  have frame: "fs_get (xw_fs w2) p = fs_get (xw_fs w) p"
    if "\<forall>a\<in>{name, ''old_'' @ name, c, ''old_'' @ c}. \<not> prefix (parent @ [a]) p" for p
    using clean_directory_frame [OF w1, of p] clean_directory_frame [OF w2, of p] that by simp
  show ?thesis
    unfolding exported_from_def
    by (intro exI [of _ "xw_fs w2"] exI [of _ bytes] exI [of _ fs] exI [of _ packed])
      (use frame in \<open>simp add: fs packed out cef\<close>)
qed

text \<open>
  Property C27. Exporting a given archive refuses an existing directory without the option to
  replace it, and changes nothing then; the two names of the extracted directory never
  differ; and when it succeeds, the output directory holds exactly the parts of the archive,
  each with everything below it, and the file that describes the archive: the five parts that
  belong to every build, for other systems than macOS the contents of the resources, and the
  release files for the rest.
\<close>

theorem export_output:
  assumes "ea_archive args = Some archive" "ea_output args = parent @ [name]" "os_and_arch (ea_target args) = Inr (os, arch)"
    and "strip_suffix ''.tar.bz2'' (last archive) = Some stem"
    and "c = ''cef_'' @ os @ ''_'' @ arch" "old = ''old_'' @ os @ ''_'' @ arch" "l = ''extracted_'' @ os @ ''_'' @ arch"
    and "stem \<notin> {c, old, l}" "\<forall>a\<in>{stem, c, old, l}. \<not> prefix (parent @ [a]) archive"
    and "export_cef_dir env args w = (res, w')"
  shows "(fs_get (xw_fs w) (parent @ [name]) \<noteq> None \<and> \<not> ea_force args \<longrightarrow> res = Inl ExDirectoryExists \<and> w' = w)
    \<and> res \<noteq> Inl ExDirectoryMismatch
    \<and> (res = Inr () \<longrightarrow> exported_from env archive parent name os stem c (xw_fs w) (xw_fs w'))"
proof -
  have "res = Inl ExDirectoryExists \<and> w' = w" if "fs_get (xw_fs w) (parent @ [name]) \<noteq> None" "\<not> ea_force args"
    using assms(10) that by (simp add: export_cef_dir_def assms(2) Let_def)
  moreover have "res \<noteq> Inl ExDirectoryMismatch" using export_no_mismatch assms(10) by blast
  moreover have "exported_from env archive parent name os stem c (xw_fs w) (xw_fs w')" if "res = Inr ()"
    by (rule export_success [OF assms(1-9)]) (use assms(10) that in simp)
  ultimately show ?thesis by blast
qed

definition sample_export_env :: export_env where
  "sample_export_env = \<lparr>ee_xe = sample_xe_env, ee_sha1 = (\<lambda>bytes. ''sum''), ee_json = (\<lambda>cf. [0]), ee_fetch = (\<lambda>p fs. (Inl IoError, fs))\<rparr>"

definition sample_export_args :: export_args where
  "sample_export_args =
     \<lparr>ea_force = True, ea_save_archive = False, ea_target = ''x86_64-unknown-linux-gnu'',
      ea_archive = Some [''w'', ''b.tar.bz2''], ea_output = [''w'', ''cef'']\<rparr>"

theorem export_output_witness:
  "\<exists>w'. export_cef_dir sample_export_env sample_export_args sample_xe_world = (Inr (), w')
     \<and> exported_from sample_export_env [''w'', ''b.tar.bz2''] [''w''] ''cef'' ''linux'' ''b'' ''cef_linux_x86_64''
         (xw_fs sample_xe_world) (xw_fs w')"
proof -
  let ?r = "export_cef_dir sample_export_env sample_export_args sample_xe_world"
  have "fst ?r = Inr ()" by code_simp
  then obtain w' where r: "?r = (Inr (), w')" by (cases ?r) auto
  have args: "ea_archive sample_export_args = Some [''w'', ''b.tar.bz2'']" "ea_output sample_export_args = [''w''] @ [''cef'']"
      "os_and_arch (ea_target sample_export_args) = Inr (''linux'', ''x86_64'')"
      "strip_suffix ''.tar.bz2'' (last [''w'', ''b.tar.bz2'']) = Some ''b''"
    by code_simp+
  from export_output [OF args refl refl refl _ _ r] r show ?thesis by simp
qed

end
