(* ===== verification/Cef_String.thy ===== *)
theory Cef_String
  imports Process_Messages Ownership
begin

text \<open>
  The strings of \<^verbatim>\<open>cef/src/string.rs\<close> and the functions of
  \<^verbatim>\<open>libcef/common/string_types_impl.cc\<close> they call: a structure with a pointer to the text, a
  length and a destructor, owned by Rust, by CEF or by neither. The source has every
  function for UTF-8, UTF-16 and wide characters; here they are written once for a type
  \<open>'c\<close> of code units, and named for each where the three differ. A memory holds the
  buffers and the structures that exist. Reading or freeing what has been freed is
  undefined behaviour and a value of its own. The functions of Chromium that convert
  between encodings are parameters: they give a text and whether the input was valid.
\<close>

section \<open>Memory\<close>

datatype 'a mem_result = Val 'a | Undefined | Assertion

fun bind_mem :: "'a mem_result \<Rightarrow> ('a \<Rightarrow> 'b mem_result) \<Rightarrow> 'b mem_result" where
  "bind_mem (Val x) f = f x"
| "bind_mem Undefined f = Undefined"
| "bind_mem Assertion f = Assertion"

lemma bind_mem_Val_iff: "bind_mem r f = Val y \<longleftrightarrow> (\<exists>x. r = Val x \<and> f x = Val y)"
  by (cases r) simp_all

lemma bind_mem_assoc: "bind_mem (bind_mem r f) g = bind_mem r (\<lambda>x. bind_mem (f x) g)"
  by (cases r) simp_all

record cef_string_t =
  st_str :: "nat option"
  st_length :: usize
  st_dtor :: bool

definition zeroed :: cef_string_t where
  "zeroed = \<lparr>st_str = None, st_length = 0, st_dtor = False\<rparr>"

record 'c str_mem =
  sm_buffers :: "nat \<Rightarrow> 'c list option"
  sm_structs :: "nat \<Rightarrow> cef_string_t option"
  sm_next :: nat

definition mem_empty :: "'c str_mem" where
  "mem_empty = \<lparr>sm_buffers = Map.empty, sm_structs = Map.empty, sm_next = 0\<rparr>"

text \<open>
  The text a function is given: in memory of the program, or at an address that may be
  null and a length.
\<close>

datatype 'c str_src = Outside "'c list" | Inside "nat option" usize

fun src_read :: "'c str_src \<Rightarrow> 'c str_mem \<Rightarrow> 'c list mem_result" where
  "src_read (Outside text) m = Val text"
| "src_read (Inside None n) m = Val []"
| "src_read (Inside (Some a) n) m =
     (if n = 0 then Val []
      else case sm_buffers m a of
             None \<Rightarrow> Undefined
           | Some text \<Rightarrow> if n \<le> length text then Val (take n text) else Undefined)"

definition load_struct :: "nat \<Rightarrow> 'c str_mem \<Rightarrow> cef_string_t mem_result" where
  "load_struct p m = (case sm_structs m p of None \<Rightarrow> Undefined | Some v \<Rightarrow> Val v)"

definition store_struct :: "nat \<Rightarrow> cef_string_t \<Rightarrow> 'c str_mem \<Rightarrow> 'c str_mem" where
  "store_struct p v m = m\<lparr>sm_structs := (sm_structs m)(p \<mapsto> v)\<rparr>"

section \<open>The functions of CEF\<close>

text \<open>The structure that is cleared is zero afterwards.\<close>

definition cef_string_clear :: "cef_string_t \<Rightarrow> 'c str_mem \<Rightarrow> 'c str_mem mem_result" where
  "cef_string_clear v m =
     (case st_str v of
        Some a \<Rightarrow>
          if st_dtor v
          then (case sm_buffers m a of None \<Rightarrow> Undefined | Some _ \<Rightarrow> Val (m\<lparr>sm_buffers := (sm_buffers m)(a := None)\<rparr>))
          else Val m
      | None \<Rightarrow> Val m)"

text \<open>Setting a structure to a copy: it is cleared first, and an empty text leaves it zero.\<close>

definition cef_string_copy :: "'c str_src \<Rightarrow> cef_string_t \<Rightarrow> 'c str_mem \<Rightarrow> (cef_string_t \<times> 'c str_mem) mem_result" where
  "cef_string_copy src out m =
     bind_mem (cef_string_clear out m) (\<lambda>m.
       bind_mem (src_read src m) (\<lambda>text.
         Val (if text = [] then (zeroed, m)
              else (\<lparr>st_str = Some (sm_next m), st_length = length text, st_dtor = True\<rparr>,
                    m\<lparr>sm_buffers := (sm_buffers m)(sm_next m \<mapsto> text), sm_next := Suc (sm_next m)\<rparr>))))"

definition cef_string_convert ::
  "('d list \<Rightarrow> 'c list \<times> bool) \<Rightarrow> 'd list \<Rightarrow> cef_string_t \<Rightarrow> 'c str_mem \<Rightarrow> (bool \<times> cef_string_t \<times> 'c str_mem) mem_result" where
  "cef_string_convert conv text out m =
     (let (str, ret) = conv text in bind_mem (cef_string_copy (Outside str) out m) (\<lambda>(v, m). Val (ret, v, m)))"

definition userfree_alloc :: "'c str_mem \<Rightarrow> nat \<times> 'c str_mem" where
  "userfree_alloc m = (sm_next m, (store_struct (sm_next m) zeroed m)\<lparr>sm_next := Suc (sm_next m)\<rparr>)"

definition userfree_free :: "nat \<Rightarrow> 'c str_mem \<Rightarrow> 'c str_mem mem_result" where
  "userfree_free p m =
     bind_mem (load_struct p m) (\<lambda>v.
       bind_mem (cef_string_clear v m) (\<lambda>m. Val (m\<lparr>sm_structs := (sm_structs m)(p := None)\<rparr>)))"

section \<open>Strings that the caller frees\<close>

type_synonym user_free_data = "nat option"

definition uf_clone :: "user_free_data \<Rightarrow> 'c str_mem \<Rightarrow> (user_free_data \<times> 'c str_mem) mem_result" where
  "uf_clone uf m =
     (case uf of
        None \<Rightarrow> Val (None, m)
      | Some p \<Rightarrow>
          bind_mem (load_struct p m) (\<lambda>value.
            let (data, m) = userfree_alloc m
            in bind_mem (cef_string_copy (Inside (st_str value) (st_length value)) zeroed m)
                 (\<lambda>(v, m). Val (Some data, store_struct data v m))))"

definition uf_drop :: "user_free_data \<Rightarrow> 'c str_mem \<Rightarrow> 'c str_mem mem_result" where
  "uf_drop uf m = (case uf of None \<Rightarrow> Val m | Some p \<Rightarrow> userfree_free p m)"

section \<open>Strings\<close>

datatype cef_string_data =
    Borrowed "cef_string_t option"
  | BorrowedMut "nat option"
  | Clear "cef_string_t option"

definition data_default :: cef_string_data where
  "data_default = Borrowed None"

definition data_ref :: "cef_string_data \<Rightarrow> 'c str_mem \<Rightarrow> cef_string_t option mem_result" where
  "data_ref d m =
     (case d of
        Borrowed v \<Rightarrow> Val v
      | Clear v \<Rightarrow> Val v
      | BorrowedMut p \<Rightarrow> (case p of None \<Rightarrow> Val None | Some p \<Rightarrow> bind_mem (load_struct p m) (\<lambda>v. Val (Some v))))"

definition data_from_const :: "nat option \<Rightarrow> 'c str_mem \<Rightarrow> cef_string_data mem_result" where
  "data_from_const p m =
     (case p of None \<Rightarrow> Val (Borrowed None) | Some p \<Rightarrow> bind_mem (load_struct p m) (\<lambda>v. Val (Borrowed (Some v))))"

definition data_from_mut :: "nat option \<Rightarrow> cef_string_data" where
  "data_from_mut p = BorrowedMut p"

text \<open>A clone is a copy of the structure, not of the text, and does not own it.\<close>

definition data_clone :: "cef_string_data \<Rightarrow> 'c str_mem \<Rightarrow> cef_string_data mem_result" where
  "data_clone d m = bind_mem (data_ref d m) (\<lambda>v. Val (Borrowed v))"

text \<open>
  The pointer a string is passed as: to a structure of CEF, to the one inside the string,
  or null. A string that is only borrowed gives no pointer to write through.
\<close>

datatype str_place = NullPtr | CellPtr nat | SelfPtr

definition data_const_ptr :: "cef_string_data \<Rightarrow> str_place" where
  "data_const_ptr d =
     (case d of
        Borrowed v \<Rightarrow> if v = None then NullPtr else SelfPtr
      | Clear v \<Rightarrow> if v = None then NullPtr else SelfPtr
      | BorrowedMut p \<Rightarrow> (case p of None \<Rightarrow> NullPtr | Some p \<Rightarrow> CellPtr p))"

definition data_mut_ptr :: "cef_string_data \<Rightarrow> str_place" where
  "data_mut_ptr d =
     (case d of
        BorrowedMut p \<Rightarrow> (case p of None \<Rightarrow> NullPtr | Some p \<Rightarrow> CellPtr p)
      | Clear v \<Rightarrow> if v = None then NullPtr else SelfPtr
      | Borrowed _ \<Rightarrow> NullPtr)"

definition str_drop :: "cef_string_data \<Rightarrow> 'c str_mem \<Rightarrow> 'c str_mem mem_result" where
  "str_drop d m = (case d of Clear (Some v) \<Rightarrow> cef_string_clear v m | _ \<Rightarrow> Val m)"

definition str_from_raw :: "cef_string_t \<Rightarrow> cef_string_data" where
  "str_from_raw v = Borrowed (Some v)"

text \<open>Taking the structure out; the string is dropped at the end.\<close>

definition str_into_raw :: "cef_string_data \<Rightarrow> 'c str_mem \<Rightarrow> (cef_string_t \<times> 'c str_mem) mem_result" where
  "str_into_raw d m =
     (let raw = (case (case d of Borrowed v \<Rightarrow> v | _ \<Rightarrow> None) of None \<Rightarrow> zeroed | Some v \<Rightarrow> v)
      in bind_mem (str_drop d m) (\<lambda>m. Val (raw, m)))"

definition str_as_slice :: "cef_string_data \<Rightarrow> 'c str_mem \<Rightarrow> 'c list option mem_result" where
  "str_as_slice d m =
     bind_mem (data_ref d m) (\<lambda>data.
       case data of
         None \<Rightarrow> Val None
       | Some value \<Rightarrow>
           if st_str value = None \<or> st_length value = 0 then Val None
           else bind_mem (src_read (Inside (st_str value) (st_length value)) m) (\<lambda>text. Val (Some text)))"

definition str_from_userfree :: "user_free_data \<Rightarrow> 'c str_mem \<Rightarrow> (cef_string_data \<times> 'c str_mem) mem_result" where
  "str_from_userfree uf m =
     (case uf of
        None \<Rightarrow> Val (Clear None, m)
      | Some p \<Rightarrow>
          bind_mem (load_struct p m) (\<lambda>value.
            bind_mem (cef_string_copy (Inside (st_str value) (st_length value)) zeroed m)
              (\<lambda>(data, m). Val (Clear (Some data), m))))"

text \<open>A text that converts from another encoding; of one that does not, the buffer stays behind.\<close>

definition str_converted ::
  "('d list \<Rightarrow> 'c list \<times> bool) \<Rightarrow> 'd list \<Rightarrow> 'c str_mem \<Rightarrow> (cef_string_data \<times> 'c str_mem) mem_result" where
  "str_converted conv text m =
     bind_mem (cef_string_convert conv text zeroed m)
       (\<lambda>(ret, data, m). Val (Clear (if \<not> ret then None else Some data), m))"

definition str_convert_slice ::
  "('d list \<Rightarrow> 'c list \<times> bool) \<Rightarrow> cef_string_data \<Rightarrow> 'd str_mem \<Rightarrow> 'c str_mem \<Rightarrow> (cef_string_data \<times> 'c str_mem) mem_result" where
  "str_convert_slice conv value mv m =
     bind_mem (str_as_slice value mv) (\<lambda>slice.
       case slice of None \<Rightarrow> Val (Clear None, m) | Some text \<Rightarrow> str_converted conv text m)"

definition utf8_from_str :: "u8 str_src \<Rightarrow> u8 str_mem \<Rightarrow> (cef_string_data \<times> u8 str_mem) mem_result" where
  "utf8_from_str value m = bind_mem (cef_string_copy value zeroed m) (\<lambda>(data, m). Val (Clear (Some data), m))"

definition utf8_try_set :: "cef_string_data \<Rightarrow> u8 str_src \<Rightarrow> u8 str_mem \<Rightarrow> (bool \<times> u8 str_mem) mem_result" where
  "utf8_try_set d value m =
     (case d of
        BorrowedMut (Some p) \<Rightarrow>
          bind_mem (load_struct p m) (\<lambda>data.
            if (case value of Outside _ \<Rightarrow> False | Inside a _ \<Rightarrow> a = st_str data) then Assertion
            else
              bind_mem (cef_string_clear data m) (\<lambda>m.
                bind_mem (cef_string_copy value zeroed m) (\<lambda>(v, m). Val (True, store_struct p v m))))
      | _ \<Rightarrow> Val (False, m))"

definition str_try_set ::
  "(u8 list \<Rightarrow> 'c list \<times> bool) \<Rightarrow> cef_string_data \<Rightarrow> u8 list \<Rightarrow> 'c str_mem \<Rightarrow> (bool \<times> 'c str_mem) mem_result" where
  "str_try_set conv d value m =
     (case d of
        BorrowedMut (Some p) \<Rightarrow>
          bind_mem (load_struct p m) (\<lambda>data.
            bind_mem (cef_string_clear data m) (\<lambda>m.
              bind_mem (cef_string_convert conv value zeroed m) (\<lambda>(ret, v, m). Val (ret, store_struct p v m))))
      | _ \<Rightarrow> Val (False, m))"

text \<open>\<^verbatim>\<open>CefStringUserfreeWide\<close> from a UTF-16 structure.\<close>

definition userfree_wide_from ::
  "(u16 list \<Rightarrow> 'w list \<times> bool) \<Rightarrow> cef_string_t option \<Rightarrow> u16 str_mem \<Rightarrow> 'w str_mem \<Rightarrow> (user_free_data \<times> 'w str_mem) mem_result" where
  "userfree_wide_from conv value mv m =
     (case value of
        None \<Rightarrow> Val (None, m)
      | Some value \<Rightarrow>
          if st_str value = None \<or> st_length value = 0 then Val (None, m)
          else
            bind_mem (src_read (Inside (st_str value) (st_length value)) mv) (\<lambda>slice.
              let (data, m) = userfree_alloc m
              in bind_mem (cef_string_convert conv slice zeroed m) (\<lambda>(ret, v, m).
                   let m = store_struct data v m
                   in if \<not> ret then bind_mem (userfree_free data m) (\<lambda>m. Val (None, m))
                      else Val (Some data, m))))"

section \<open>The three encodings\<close>

text \<open>The conversions of Chromium; wide characters have 32 bits here (Linux and macOS).\<close>

type_synonym wide = "32 word"

record str_conv =
  cv_utf8_utf16 :: "u8 list \<Rightarrow> u16 list \<times> bool"
  cv_utf16_utf8 :: "u16 list \<Rightarrow> u8 list \<times> bool"
  cv_utf8_wide :: "u8 list \<Rightarrow> wide list \<times> bool"
  cv_wide_utf8 :: "wide list \<Rightarrow> u8 list \<times> bool"
  cv_utf16_wide :: "u16 list \<Rightarrow> wide list \<times> bool"
  cv_wide_utf16 :: "wide list \<Rightarrow> u16 list \<times> bool"

definition utf16_from_str :: "str_conv \<Rightarrow> u8 list \<Rightarrow> u16 str_mem \<Rightarrow> (cef_string_data \<times> u16 str_mem) mem_result" where
  "utf16_from_str cv value m = str_converted (cv_utf8_utf16 cv) value m"

definition wide_from_str :: "str_conv \<Rightarrow> u8 list \<Rightarrow> wide str_mem \<Rightarrow> (cef_string_data \<times> wide str_mem) mem_result" where
  "wide_from_str cv value m = str_converted (cv_utf8_wide cv) value m"

definition utf8_from_utf16 ::
  "str_conv \<Rightarrow> cef_string_data \<Rightarrow> u16 str_mem \<Rightarrow> u8 str_mem \<Rightarrow> (cef_string_data \<times> u8 str_mem) mem_result" where
  "utf8_from_utf16 cv value m16 m = str_convert_slice (cv_utf16_utf8 cv) value m16 m"

definition utf8_from_wide ::
  "str_conv \<Rightarrow> cef_string_data \<Rightarrow> wide str_mem \<Rightarrow> u8 str_mem \<Rightarrow> (cef_string_data \<times> u8 str_mem) mem_result" where
  "utf8_from_wide cv value mw m = str_convert_slice (cv_wide_utf8 cv) value mw m"

definition utf16_from_utf8 ::
  "str_conv \<Rightarrow> cef_string_data \<Rightarrow> u8 str_mem \<Rightarrow> u16 str_mem \<Rightarrow> (cef_string_data \<times> u16 str_mem) mem_result" where
  "utf16_from_utf8 cv value m8 m = str_convert_slice (cv_utf8_utf16 cv) value m8 m"

definition utf16_from_wide ::
  "str_conv \<Rightarrow> cef_string_data \<Rightarrow> wide str_mem \<Rightarrow> u16 str_mem \<Rightarrow> (cef_string_data \<times> u16 str_mem) mem_result" where
  "utf16_from_wide cv value mw m = str_convert_slice (cv_wide_utf16 cv) value mw m"

definition wide_from_utf8 ::
  "str_conv \<Rightarrow> cef_string_data \<Rightarrow> u8 str_mem \<Rightarrow> wide str_mem \<Rightarrow> (cef_string_data \<times> wide str_mem) mem_result" where
  "wide_from_utf8 cv value m8 m = str_convert_slice (cv_utf8_wide cv) value m8 m"

definition wide_from_utf16 ::
  "str_conv \<Rightarrow> cef_string_data \<Rightarrow> u16 str_mem \<Rightarrow> wide str_mem \<Rightarrow> (cef_string_data \<times> wide str_mem) mem_result" where
  "wide_from_utf16 cv value m16 m = str_convert_slice (cv_utf16_wide cv) value m16 m"

text \<open>
  \<^verbatim>\<open>Display\<close>, which \<^verbatim>\<open>to_string\<close> uses: the text as UTF-8, empty when there is none, through a
  UTF-8 string that is dropped.
\<close>

definition utf8_display :: "cef_string_data \<Rightarrow> u8 str_mem \<Rightarrow> u8 list mem_result" where
  "utf8_display d m = bind_mem (str_as_slice d m) (\<lambda>text. Val (case text of None \<Rightarrow> [] | Some value \<Rightarrow> value))"

definition utf16_display ::
  "str_conv \<Rightarrow> cef_string_data \<Rightarrow> u16 str_mem \<Rightarrow> u8 str_mem \<Rightarrow> (u8 list \<times> u8 str_mem) mem_result" where
  "utf16_display cv d m16 m =
     bind_mem (utf8_from_utf16 cv d m16 m) (\<lambda>(value, m).
       bind_mem (utf8_display value m) (\<lambda>text. bind_mem (str_drop value m) (\<lambda>m. Val (text, m))))"

definition wide_display ::
  "str_conv \<Rightarrow> cef_string_data \<Rightarrow> wide str_mem \<Rightarrow> u8 str_mem \<Rightarrow> (u8 list \<times> u8 str_mem) mem_result" where
  "wide_display cv d mw m =
     bind_mem (utf8_from_wide cv d mw m) (\<lambda>(value, m).
       bind_mem (utf8_display value m) (\<lambda>text. bind_mem (str_drop value m) (\<lambda>m. Val (text, m))))"

end
