(* ===== verification/Cef_String_Ownership.thy ===== *)
theory Cef_String_Ownership
  imports Cef_String
begin



section \<open>Structures and the buffers they own\<close>

definition owned :: "cef_string_t \<Rightarrow> nat multiset" where
  "owned v = (case st_str v of Some a \<Rightarrow> if st_dtor v then {#a#} else {#} | None \<Rightarrow> {#})"

definition struct_ok :: "'c str_mem \<Rightarrow> cef_string_t \<Rightarrow> bool" where
  "struct_ok m v \<longleftrightarrow> v = zeroed
     \<or> (\<exists>a text. v = \<lparr>st_str = Some a, st_length = length text, st_dtor = True\<rparr> \<and> sm_buffers m a = Some text \<and> text \<noteq> [])"

definition buffers_ok :: "cef_string_t multiset \<Rightarrow> 'c str_mem \<Rightarrow> bool" where
  "buffers_ok vs m \<longleftrightarrow>
     (\<forall>a. count (\<Sum>v\<in>#vs. owned v) a = (if sm_buffers m a = None then 0 else 1))
     \<and> (\<forall>v\<in>#vs. struct_ok m v) \<and> (\<forall>a\<ge>sm_next m. sm_buffers m a = None)"

text \<open>The text of a structure.\<close>

definition text_of :: "'c str_mem \<Rightarrow> cef_string_t \<Rightarrow> 'c list" where
  "text_of m v = (case st_str v of None \<Rightarrow> [] | Some a \<Rightarrow> (case sm_buffers m a of None \<Rightarrow> [] | Some text \<Rightarrow> take (st_length v) text))"

lemma zeroed_simps [simp]: "st_str zeroed = None" "st_length zeroed = 0" "\<not> st_dtor zeroed"
  by (simp_all add: zeroed_def)

lemma clear_zeroed [simp]: "cef_string_clear zeroed m = Val m"
  by (simp add: cef_string_clear_def)

lemma owned_zeroed [simp]: "owned zeroed = {#}"
  by (simp add: owned_def zeroed_def)

lemma owned_own [simp]: "owned \<lparr>st_str = Some a, st_length = n, st_dtor = True\<rparr> = {#a#}"
  by (simp add: owned_def)

lemma text_of_zeroed [simp]: "text_of m zeroed = []"
  by (simp add: text_of_def zeroed_def)

lemma struct_ok_zeroed [simp]: "struct_ok m zeroed"
  by (simp add: struct_ok_def)

lemma buffers_ok_zeroed [simp]: "buffers_ok (add_mset zeroed vs) m \<longleftrightarrow> buffers_ok vs m"
  by (simp add: buffers_ok_def)


lemma buffers_ok_structs [simp]: "buffers_ok vs (m\<lparr>sm_structs := s\<rparr>) = buffers_ok vs m"
  by (simp add: buffers_ok_def struct_ok_def)






section \<open>Programs\<close>


record 'c str_program =
  sp_mem :: "'c str_mem"
  sp_strings :: "cef_string_data list"
  sp_handles :: "nat list"
  sp_raws :: "cef_string_t list"
  sp_other :: "u8 str_mem"
  sp_converted :: "cef_string_data list"






definition string_struct :: "cef_string_data \<Rightarrow> cef_string_t multiset" where
  "string_struct d = (case d of Clear (Some v) \<Rightarrow> {#v#} | _ \<Rightarrow> {#})"

definition structs_of :: "'c str_program \<Rightarrow> cef_string_t multiset" where
  "structs_of p =
     (\<Sum>d\<in>#mset (sp_strings p). string_struct d) + image_mset (\<lambda>q. the (sm_structs (sp_mem p) q)) (mset (sp_handles p))"

definition handles_ok :: "nat list \<Rightarrow> 'c str_mem \<Rightarrow> bool" where
  "handles_ok hs m \<longleftrightarrow>
     (\<forall>q. count (mset hs) q = (if sm_structs m q = None then 0 else 1)) \<and> (\<forall>q\<ge>sm_next m. sm_structs m q = None)"

definition sp_inv :: "'c str_program \<Rightarrow> bool" where
  "sp_inv p \<longleftrightarrow> buffers_ok (structs_of p) (sp_mem p) \<and> handles_ok (sp_handles p) (sp_mem p)
     \<and> (\<forall>q. BorrowedMut q \<notin> set (sp_strings p))"





section \<open>Every step keeps the ownership\<close>














lemma sp_inv_raws [simp]: "sp_inv (p\<lparr>sp_raws := rs\<rparr>) = sp_inv p"
  by (simp add: sp_inv_def structs_of_def)

lemma sp_inv_other [simp]: "sp_inv (p\<lparr>sp_other := m, sp_converted := ds\<rparr>) = sp_inv p"
  by (simp add: sp_inv_def structs_of_def)


section \<open>Borrowed structures\<close>

text \<open>
  How a step changes the memory: it frees buffers, and adds ones at new addresses with
  texts that the conversion produces. An address is never used again.
\<close>

definition heap_step :: "'c list set \<Rightarrow> 'c str_mem \<Rightarrow> 'c str_mem \<Rightarrow> bool" where
  "heap_step T m m' \<longleftrightarrow> sm_next m \<le> sm_next m' \<and>
     (\<forall>a. sm_buffers m' a = sm_buffers m a \<or> sm_buffers m' a = None
        \<or> sm_next m \<le> a \<and> (\<exists>t \<in> T. sm_buffers m' a = Some t))"



lemma heap_step_refl [simp]: "heap_step T m m"
  by (simp add: heap_step_def)


lemma heap_step_structs [simp]:
  "heap_step T m (store_struct q v m') = heap_step T m m'" "heap_step T m (m'\<lparr>sm_structs := s\<rparr>) = heap_step T m m'"
  by (simp_all add: heap_step_def store_struct_def)














section \<open>Every step\<close>















section \<open>Properties\<close>



text \<open>A string made from a text, in an encoding that can be converted back.\<close>

definition made :: "'c list \<Rightarrow> 'c str_mem \<Rightarrow> cef_string_t \<times> 'c str_mem" where
  "made u m =
     (if u = [] then (zeroed, m)
      else (\<lparr>st_str = Some (sm_next m), st_length = length u, st_dtor = True\<rparr>,
            m\<lparr>sm_buffers := (sm_buffers m)(sm_next m \<mapsto> u), sm_next := Suc (sm_next m)\<rparr>))"

lemma converted_made: "conv t = (u, True) \<Longrightarrow> made u m = (v, m') \<Longrightarrow> str_converted conv t m = Val (Clear (Some v), m')"
  by (auto simp: str_converted_def cef_string_convert_def cef_string_copy_def made_def split: if_splits)

lemma made_slice:
  assumes "made u m = (v, m')"
  shows "str_as_slice (Clear (Some v)) m' = Val (if u = [] then None else Some u)"
    "str_as_slice (Borrowed (Some v)) m' = Val (if u = [] then None else Some u)" "text_of m' v = u"
  using assms by (auto simp: made_def str_as_slice_def data_ref_def text_of_def split: if_splits)

lemma made_clear:
  assumes "made u m = (v, m')" "sm_buffers m (sm_next m) = None"
  obtains m'' where "cef_string_clear v m' = Val m''" "sm_buffers m'' = sm_buffers m" "sm_next m \<le> sm_next m''"
proof -
  have "(sm_buffers m)(sm_next m := None) = sm_buffers m" using assms(2) by (simp add: fun_upd_idem)
  with assms(1) have "\<exists>m''. cef_string_clear v m' = Val m'' \<and> sm_buffers m'' = sm_buffers m \<and> sm_next m \<le> sm_next m''"
    by (auto simp: made_def cef_string_clear_def split: if_splits)
  then show thesis by (auto intro: that)
qed

lemma made_dangling:
  "made u m = (v, m') \<Longrightarrow> u \<noteq> [] \<Longrightarrow> sm_buffers m (sm_next m) = None \<Longrightarrow> sm_buffers m'' = sm_buffers m \<Longrightarrow>
    str_as_slice (Borrowed (Some v)) m'' = Undefined"
  by (auto simp: made_def str_as_slice_def data_ref_def)

lemma display_back:
  assumes "str_as_slice d m = Val (if t = [] then None else Some x)" "reverse x = (t, True)" "sm_buffers m8 (sm_next m8) = None"
  shows "\<exists>m8'. bind_mem (str_convert_slice reverse d m m8) (\<lambda>(value, m). bind_mem (utf8_display value m)
      (\<lambda>text. bind_mem (str_drop value m) (\<lambda>m. Val (text, m)))) = Val (t, m8')
      \<and> sm_buffers m8' = sm_buffers m8 \<and> sm_next m8 \<le> sm_next m8'"
proof (cases "t = []")
  case True
  then show ?thesis using assms(1) by (simp add: str_convert_slice_def utf8_display_def str_as_slice_def data_ref_def str_drop_def)
next
  case False
  obtain v m' where v: "made t m8 = (v, m')" by fastforce
  obtain m'' where "cef_string_clear v m' = Val m''" "sm_buffers m'' = sm_buffers m8" "sm_next m8 \<le> sm_next m''"
    using v assms(3) by (rule made_clear)
  then show ?thesis using assms(1) False converted_made [of reverse x t m8 v m', OF assms(2) v] made_slice [OF v]
    by (simp add: str_convert_slice_def utf8_display_def str_drop_def)
qed

text \<open>
  Property C22. A text put into a UTF-16 or a wide string comes out again: reading the string
  gives the converted text, its display gives the text itself and leaves no memory behind,
  and dropping it gives back its memory. The conversions are those of the text there and
  back.
\<close>

theorem string_roundtrip:
  assumes "cv_utf8_utf16 cv t = (u, True)" "cv_utf16_utf8 cv u = (t, True)" "u = [] \<longleftrightarrow> t = []"
    and "cv_utf8_wide cv t = (w, True)" "cv_wide_utf8 cv w = (t, True)" "w = [] \<longleftrightarrow> t = []"
    and "sm_buffers m8 (sm_next m8) = None" "sm_buffers m16 (sm_next m16) = None" "sm_buffers mw (sm_next mw) = None"
  shows "(\<exists>d m16' m8' m16''. utf16_from_str cv t m16 = Val (d, m16')
      \<and> str_as_slice d m16' = Val (if t = [] then None else Some u)
      \<and> utf16_display cv d m16' m8 = Val (t, m8') \<and> sm_buffers m8' = sm_buffers m8
      \<and> str_drop d m16' = Val m16'' \<and> sm_buffers m16'' = sm_buffers m16)
    \<and> (\<exists>d mw' m8' mw''. wide_from_str cv t mw = Val (d, mw')
      \<and> str_as_slice d mw' = Val (if t = [] then None else Some w)
      \<and> wide_display cv d mw' m8 = Val (t, m8') \<and> sm_buffers m8' = sm_buffers m8
      \<and> str_drop d mw' = Val mw'' \<and> sm_buffers mw'' = sm_buffers mw)"
proof -
  obtain v m' where v: "made u m16 = (v, m')" by fastforce
  obtain v2 m2 where v2: "made w mw = (v2, m2)" by fastforce
  obtain m'' where m'': "cef_string_clear v m' = Val m''" "sm_buffers m'' = sm_buffers m16" using v assms(8) by (rule made_clear)
  obtain m3 where m3: "cef_string_clear v2 m2 = Val m3" "sm_buffers m3 = sm_buffers mw" using v2 assms(9) by (rule made_clear)
  have slices: "str_as_slice (Clear (Some v)) m' = Val (if t = [] then None else Some u)"
      "str_as_slice (Clear (Some v2)) m2 = Val (if t = [] then None else Some w)"
    using made_slice(1) [OF v] made_slice(1) [OF v2] assms(3,6) by simp_all
  from display_back [where reverse = "cv_utf16_utf8 cv", OF slices(1) assms(2,7)]
    display_back [where reverse = "cv_wide_utf8 cv", OF slices(2) assms(5,7)] slices m'' m3
    converted_made [of "cv_utf8_utf16 cv" t u m16 v m', OF assms(1) v] converted_made [of "cv_utf8_wide cv" t w mw v2 m2, OF assms(4) v2]
  show ?thesis
    by (auto simp: utf16_from_str_def wide_from_str_def utf16_display_def wide_display_def utf8_from_utf16_def utf8_from_wide_def str_drop_def)
qed

definition sample_conv :: str_conv where
  "sample_conv =
     \<lparr>cv_utf8_utf16 = (\<lambda>t. (map ucast t, True)), cv_utf16_utf8 = (\<lambda>t. (map ucast t, True)),
      cv_utf8_wide = (\<lambda>t. (map ucast t, True)), cv_wide_utf8 = (\<lambda>t. (map ucast t, True)),
      cv_utf16_wide = (\<lambda>t. (map ucast t, True)), cv_wide_utf16 = (\<lambda>t. (map ucast t, True))\<rparr>"

theorem string_roundtrip_witness:
  "(\<exists>d m m'. utf16_from_str sample_conv [104, 105] mem_empty = Val (d, m) \<and> utf16_display sample_conv d m mem_empty = Val ([104, 105], m'))
    \<and> (\<exists>d m. wide_from_str sample_conv [104, 105] mem_empty = Val (d, m) \<and> str_as_slice d m = Val (Some [104, 105]))"
  using string_roundtrip [of sample_conv "[104, 105]" "[104, 105]" "[104, 105]" mem_empty mem_empty mem_empty]
  by (auto simp: sample_conv_def mem_empty_def)

text \<open>
  Property C37. A clone of an owned string shares its buffer and does not own it: it reads
  the same while the original exists, and after the original has been dropped reading it
  is undefined. The structure taken out of a clone is that of the original, while the one
  taken out of the owned string itself is empty and the text is freed. When a text does not
  convert, there is no string, and the buffer of the converted part belongs to nobody.
\<close>

theorem string_clone_dangles_flaw:
  assumes "conv t = (u, True)" "u \<noteq> []" "conv bad = (rest, False)" "rest \<noteq> []" "sm_buffers m (sm_next m) = None"
  shows "\<exists>d m' c raw. str_converted conv t m = Val (d, m') \<and> data_clone d m' = Val c
    \<and> str_as_slice c m' = Val (Some u) \<and> str_into_raw c m' = Val (raw, m') \<and> text_of m' raw = u
    \<and> (\<exists>m''. str_drop d m' = Val m'' \<and> str_drop c m'' = Val m'' \<and> str_as_slice c m'' = Undefined
         \<and> str_into_raw d m' = Val (zeroed, m''))
    \<and> (\<exists>m''. str_converted conv bad m = Val (Clear None, m'') \<and> sm_buffers m'' = (sm_buffers m)(sm_next m \<mapsto> rest)
         \<and> str_drop (Clear None) m'' = Val m'')"
proof -
  obtain v m' where v: "made u m = (v, m')" by fastforce
  obtain m'' where m'': "cef_string_clear v m' = Val m''" "sm_buffers m'' = sm_buffers m" using v assms(5) by (rule made_clear)
  have "\<exists>m''. str_converted conv bad m = Val (Clear None, m'') \<and> sm_buffers m'' = (sm_buffers m)(sm_next m \<mapsto> rest)
      \<and> str_drop (Clear None) m'' = Val m''"
    using assms(3,4) by (simp add: str_converted_def cef_string_convert_def cef_string_copy_def str_drop_def)
  moreover have "data_clone (Clear (Some v)) m' = Val (Borrowed (Some v))" by (simp add: data_clone_def data_ref_def)
  ultimately show ?thesis
    using converted_made [of conv t u m v m', OF assms(1) v] made_slice [OF v] made_dangling [OF v assms(2,5) m''(2)] m''(1) assms(2)
    by (intro exI [of _ "Clear (Some v)"] exI [of _ m'] exI [of _ "Borrowed (Some v)"] exI [of _ v])
      (simp add: str_into_raw_def str_drop_def)
qed

theorem string_clone_dangles_flaw_witness:
  "\<exists>d m' c m''. str_converted (\<lambda>t. (t, t \<noteq> [255 :: u8])) [104] mem_empty = Val (d, m') \<and> data_clone d m' = Val c
    \<and> str_drop d m' = Val m'' \<and> str_as_slice c m'' = Undefined"
proof -
  have "sm_buffers mem_empty (sm_next mem_empty) = (None :: u8 list option)" by (simp add: mem_empty_def)
  from string_clone_dangles_flaw [of "\<lambda>t. (t, t \<noteq> [255 :: u8])" "[104]" "[104]" "[255]" "[255]" mem_empty, OF _ _ _ _ this]
  show ?thesis by auto
qed

end
