(* ===== verification/Cef_String_Collections.thy ===== *)
theory Cef_String_Collections
  imports Cef_String_Ownership
begin

text \<open>
  The lists, maps and multimaps of strings of \<^verbatim>\<open>cef/src/string.rs\<close>, over the C++ classes of
  \<^verbatim>\<open>libcef/common/string_list_impl.cc\<close>, \<^verbatim>\<open>string_map_impl.cc\<close> and \<^verbatim>\<open>string_multimap_impl.cc\<close>: a
  vector of texts, and a map or multimap with the vector of its entries in the order they
  were made. The objects are in a map from addresses; a call with an address that is not
  that of an object is undefined.
\<close>

record 't coll_world =
  cw_objects :: "nat \<Rightarrow> 't option"
  cw_next :: nat
  cw_utf16 :: "u16 str_mem"
  cw_utf8 :: "u8 str_mem"

type_synonym list_object = "utf16 list"
type_synonym map_object = "(utf16 \<times> utf16) list"

section \<open>The C++ classes\<close>

definition coll_alloc :: "'t list coll_world \<Rightarrow> nat \<times> 't list coll_world" where
  "coll_alloc w = (cw_next w, w\<lparr>cw_objects := (cw_objects w)(cw_next w \<mapsto> []), cw_next := Suc (cw_next w)\<rparr>)"

definition coll_load :: "nat \<Rightarrow> 't coll_world \<Rightarrow> 't mem_result" where
  "coll_load p w = (case cw_objects w p of None \<Rightarrow> Undefined | Some x \<Rightarrow> Val x)"

definition coll_store :: "nat \<Rightarrow> 't \<Rightarrow> 't coll_world \<Rightarrow> 't coll_world" where
  "coll_store p x w = w\<lparr>cw_objects := (cw_objects w)(p \<mapsto> x)\<rparr>"

definition coll_delete :: "nat \<Rightarrow> 't coll_world \<Rightarrow> 't coll_world mem_result" where
  "coll_delete p w = bind_mem (coll_load p w) (\<lambda>_. Val (w\<lparr>cw_objects := (cw_objects w)(p := None)\<rparr>))"

text \<open>A text given out: a copy in a structure of the caller, which was zero.\<close>

definition copy_out :: "utf16 list \<Rightarrow> usize \<Rightarrow> 't coll_world \<Rightarrow> (bool \<times> cef_string_t \<times> 't coll_world) mem_result" where
  "copy_out xs i w =
     (if i \<ge> length xs then Val (False, zeroed, w)
      else bind_mem (cef_string_copy (Outside (xs ! i)) zeroed (cw_utf16 w)) (\<lambda>(v, m). Val (True, v, w\<lparr>cw_utf16 := m\<rparr>)))"

definition cef_string_list_value :: "nat \<Rightarrow> usize \<Rightarrow> list_object coll_world \<Rightarrow> (bool \<times> cef_string_t \<times> list_object coll_world) mem_result" where
  "cef_string_list_value p i w = bind_mem (coll_load p w) (\<lambda>xs. copy_out xs i w)"

definition cef_string_list_append :: "nat \<Rightarrow> utf16 \<Rightarrow> list_object coll_world \<Rightarrow> list_object coll_world mem_result" where
  "cef_string_list_append p value w = bind_mem (coll_load p w) (\<lambda>xs. Val (coll_store p (xs @ [value]) w))"

definition cef_string_map_key :: "nat \<Rightarrow> usize \<Rightarrow> map_object coll_world \<Rightarrow> (bool \<times> cef_string_t \<times> map_object coll_world) mem_result" where
  "cef_string_map_key p i w = bind_mem (coll_load p w) (\<lambda>xs. copy_out (map fst xs) i w)"

definition cef_string_map_value :: "nat \<Rightarrow> usize \<Rightarrow> map_object coll_world \<Rightarrow> (bool \<times> cef_string_t \<times> map_object coll_world) mem_result" where
  "cef_string_map_value p i w = bind_mem (coll_load p w) (\<lambda>xs. copy_out (map snd xs) i w)"

text \<open>\<^verbatim>\<open>std::map::insert\<close> leaves an entry of the key as it is.\<close>

definition cef_string_map_append :: "nat \<Rightarrow> utf16 \<Rightarrow> utf16 \<Rightarrow> map_object coll_world \<Rightarrow> (bool \<times> map_object coll_world) mem_result" where
  "cef_string_map_append p key value w =
     bind_mem (coll_load p w) (\<lambda>xs. Val (True, coll_store p (if key \<in> fst ` set xs then xs else xs @ [(key, value)]) w))"

definition cef_string_multimap_append :: "nat \<Rightarrow> utf16 \<Rightarrow> utf16 \<Rightarrow> map_object coll_world \<Rightarrow> (bool \<times> map_object coll_world) mem_result" where
  "cef_string_multimap_append p key value w =
     bind_mem (coll_load p w) (\<lambda>xs. Val (True, coll_store p (xs @ [(key, value)]) w))"

text \<open>The values of a key are in the order they were inserted, as \<^verbatim>\<open>std::multimap\<close> keeps them.\<close>

definition values_of :: "'k \<Rightarrow> ('k \<times> 'v) list \<Rightarrow> 'v list" where
  "values_of key xs = map snd (filter (\<lambda>e. fst e = key) xs)"

definition cef_string_multimap_find_count :: "nat \<Rightarrow> utf16 \<Rightarrow> map_object coll_world \<Rightarrow> usize mem_result" where
  "cef_string_multimap_find_count p key w = bind_mem (coll_load p w) (\<lambda>xs. Val (length (values_of key xs)))"

definition cef_string_multimap_enumerate ::
  "nat \<Rightarrow> utf16 \<Rightarrow> usize \<Rightarrow> map_object coll_world \<Rightarrow> (bool \<times> cef_string_t \<times> map_object coll_world) mem_result" where
  "cef_string_multimap_enumerate p key i w = bind_mem (coll_load p w) (\<lambda>xs. copy_out (values_of key xs) i w)"

definition cef_string_multimap_key :: "nat \<Rightarrow> usize \<Rightarrow> map_object coll_world \<Rightarrow> (bool \<times> cef_string_t \<times> map_object coll_world) mem_result" where
  "cef_string_multimap_key p i w = bind_mem (coll_load p w) (\<lambda>xs. copy_out (map fst xs) i w)"

section \<open>The Rust collections\<close>

text \<open>
  \<^verbatim>\<open>CefStringCollection\<close>. The structure of CEF is opaque and has no bytes in Rust, so the copy
  that a borrowed collection holds is empty, and its address is not that of the object.
\<close>

datatype cef_string_collection =
    CollBorrowed "unit option"
  | CollBorrowedMut "nat option"
  | CollFree "nat option"

definition coll_ref :: "cef_string_collection \<Rightarrow> str_place" where
  "coll_ref c =
     (case c of
        CollBorrowed v \<Rightarrow> if v = None then NullPtr else SelfPtr
      | CollBorrowedMut p \<Rightarrow> (case p of None \<Rightarrow> NullPtr | Some p \<Rightarrow> CellPtr p)
      | CollFree p \<Rightarrow> (case p of None \<Rightarrow> NullPtr | Some p \<Rightarrow> CellPtr p))"

definition coll_mut :: "cef_string_collection \<Rightarrow> nat option" where
  "coll_mut c = (case c of CollBorrowed _ \<Rightarrow> None | CollBorrowedMut p \<Rightarrow> p | CollFree p \<Rightarrow> p)"

definition coll_clone :: "cef_string_collection \<Rightarrow> cef_string_collection" where
  "coll_clone c = CollBorrowed (case coll_ref c of NullPtr \<Rightarrow> None | _ \<Rightarrow> Some ())"

definition coll_new :: "'t list coll_world \<Rightarrow> cef_string_collection \<times> 't list coll_world" where
  "coll_new w = (let (p, w) = coll_alloc w in (CollFree (Some p), w))"

text \<open>Dropping a list or a map frees it, dropping a multimap clears it.\<close>

definition coll_drop :: "cef_string_collection \<Rightarrow> 't coll_world \<Rightarrow> 't coll_world mem_result" where
  "coll_drop c w = (case c of CollFree (Some p) \<Rightarrow> coll_delete p w | _ \<Rightarrow> Val w)"

definition multimap_drop :: "cef_string_collection \<Rightarrow> 't list coll_world \<Rightarrow> 't list coll_world mem_result" where
  "multimap_drop c w =
     (case c of CollFree (Some p) \<Rightarrow> bind_mem (coll_load p w) (\<lambda>_. Val (coll_store p [] w)) | _ \<Rightarrow> Val w)"

text \<open>An argument: a UTF-16 string made from the text, read by CEF and dropped.\<close>

definition string_argument :: "str_conv \<Rightarrow> utf8 \<Rightarrow> 't coll_world \<Rightarrow> (utf16 \<times> 't coll_world) mem_result" where
  "string_argument cv t w =
     bind_mem (utf16_from_str cv t (cw_utf16 w)) (\<lambda>(d, m).
       bind_mem (str_as_slice d m) (\<lambda>arg.
         bind_mem (str_drop d m) (\<lambda>m. Val (case arg of None \<Rightarrow> [] | Some u \<Rightarrow> u, w\<lparr>cw_utf16 := m\<rparr>))))"

text \<open>\<^verbatim>\<open>CefString::from(ptr::from_ref(&value)).to_string()\<close>: the string is borrowed and never cleared.\<close>

definition to_string :: "str_conv \<Rightarrow> cef_string_t \<Rightarrow> 't coll_world \<Rightarrow> (utf8 \<times> 't coll_world) mem_result" where
  "to_string cv value w =
     bind_mem (utf16_display cv (Borrowed (Some value)) (cw_utf16 w) (cw_utf8 w)) (\<lambda>(s, m). Val (s, w\<lparr>cw_utf8 := m\<rparr>))"

definition list_append :: "str_conv \<Rightarrow> cef_string_collection \<Rightarrow> utf8 \<Rightarrow> list_object coll_world \<Rightarrow> (bool \<times> list_object coll_world) mem_result" where
  "list_append cv c value w =
     (case coll_mut c of
        None \<Rightarrow> Val (False, w)
      | Some p \<Rightarrow>
          bind_mem (string_argument cv value w) (\<lambda>(u, w).
            bind_mem (cef_string_list_append p u w) (\<lambda>w. Val (True, w))))"

fun list_loop :: "str_conv \<Rightarrow> nat \<Rightarrow> usize list \<Rightarrow> list_object coll_world \<Rightarrow> (utf8 list \<times> list_object coll_world) mem_result" where
  "list_loop cv p [] w = Val ([], w)"
| "list_loop cv p (i # is) w =
     bind_mem (cef_string_list_value p i w) (\<lambda>(found, value, w).
       if found
       then bind_mem (to_string cv value w) (\<lambda>(s, w). bind_mem (list_loop cv p is w) (\<lambda>(ss, w). Val (s # ss, w)))
       else list_loop cv p is w)"

definition list_into_iter :: "str_conv \<Rightarrow> cef_string_collection \<Rightarrow> list_object coll_world \<Rightarrow> (utf8 list \<times> list_object coll_world) mem_result" where
  "list_into_iter cv c w =
     (case coll_mut c of
        None \<Rightarrow> bind_mem (coll_drop c w) (\<lambda>w. Val ([], w))
      | Some p \<Rightarrow>
          bind_mem (coll_load p w) (\<lambda>xs.
            bind_mem (list_loop cv p [0..<length xs] w) (\<lambda>(ss, w).
              bind_mem (coll_drop c w) (\<lambda>w. Val (ss, w)))))"

definition pair_append ::
  "(nat \<Rightarrow> utf16 \<Rightarrow> utf16 \<Rightarrow> map_object coll_world \<Rightarrow> (bool \<times> map_object coll_world) mem_result) \<Rightarrow>
    str_conv \<Rightarrow> cef_string_collection \<Rightarrow> utf8 \<Rightarrow> utf8 \<Rightarrow> map_object coll_world \<Rightarrow> (bool \<times> map_object coll_world) mem_result" where
  "pair_append insert_pair cv c key value w =
     (case coll_mut c of
        None \<Rightarrow> Val (False, w)
      | Some p \<Rightarrow>
          bind_mem (string_argument cv key w) (\<lambda>(k, w).
            bind_mem (string_argument cv value w) (\<lambda>(v, w). insert_pair p k v w)))"

definition map_append :: "str_conv \<Rightarrow> cef_string_collection \<Rightarrow> utf8 \<Rightarrow> utf8 \<Rightarrow> map_object coll_world \<Rightarrow> (bool \<times> map_object coll_world) mem_result" where
  "map_append = pair_append cef_string_map_append"

definition multimap_append :: "str_conv \<Rightarrow> cef_string_collection \<Rightarrow> utf8 \<Rightarrow> utf8 \<Rightarrow> map_object coll_world \<Rightarrow> (bool \<times> map_object coll_world) mem_result" where
  "multimap_append = pair_append cef_string_multimap_append"

fun map_loop :: "str_conv \<Rightarrow> nat \<Rightarrow> usize list \<Rightarrow> map_object coll_world \<Rightarrow> ((utf8 \<times> utf8) list \<times> map_object coll_world) mem_result" where
  "map_loop cv p [] w = Val ([], w)"
| "map_loop cv p (i # is) w =
     bind_mem (cef_string_map_key p i w) (\<lambda>(found, key, w).
       bind_mem (if found then cef_string_map_value p i w else Val (False, zeroed, w)) (\<lambda>(found, value, w).
         if found
         then bind_mem (to_string cv key w) (\<lambda>(k, w).
                bind_mem (to_string cv value w) (\<lambda>(v, w).
                  bind_mem (map_loop cv p is w) (\<lambda>(es, w). Val ((k, v) # es, w))))
         else map_loop cv p is w))"

definition map_into_iter :: "str_conv \<Rightarrow> cef_string_collection \<Rightarrow> map_object coll_world \<Rightarrow> ((utf8 \<times> utf8) list \<times> map_object coll_world) mem_result" where
  "map_into_iter cv c w =
     (case coll_mut c of
        None \<Rightarrow> bind_mem (coll_drop c w) (\<lambda>w. Val ([], w))
      | Some p \<Rightarrow>
          bind_mem (coll_load p w) (\<lambda>xs.
            bind_mem (map_loop cv p [0..<length xs] w) (\<lambda>(es, w).
              bind_mem (coll_drop c w) (\<lambda>w. Val (es, w)))))"

text \<open>The values of one key, and the keys that have not been visited.\<close>

fun values_loop :: "str_conv \<Rightarrow> nat \<Rightarrow> utf16 \<Rightarrow> usize list \<Rightarrow> map_object coll_world \<Rightarrow> (utf8 list \<times> map_object coll_world) mem_result" where
  "values_loop cv p key [] w = Val ([], w)"
| "values_loop cv p key (i # is) w =
     bind_mem (cef_string_multimap_enumerate p key i w) (\<lambda>(found, value, w).
       if found
       then bind_mem (to_string cv value w) (\<lambda>(s, w). bind_mem (values_loop cv p key is w) (\<lambda>(ss, w). Val (s # ss, w)))
       else values_loop cv p key is w)"

definition key_text :: "cef_string_t \<Rightarrow> 't coll_world \<Rightarrow> utf16 mem_result" where
  "key_text key w =
     bind_mem (str_as_slice (Borrowed (Some key)) (cw_utf16 w)) (\<lambda>arg. Val (case arg of None \<Rightarrow> [] | Some u \<Rightarrow> u))"

fun multimap_loop ::
  "str_conv \<Rightarrow> nat \<Rightarrow> usize list \<Rightarrow> utf8 list \<Rightarrow> map_object coll_world \<Rightarrow> ((utf8 \<times> utf8 list) list \<times> map_object coll_world) mem_result" where
  "multimap_loop cv p [] visited w = Val ([], w)"
| "multimap_loop cv p (i # is) visited w =
     bind_mem (cef_string_multimap_key p i w) (\<lambda>(found, key, w).
       if found
       then bind_mem (to_string cv key w) (\<lambda>(key_string, w).
              if key_string \<in> set visited then multimap_loop cv p is visited w
              else
                bind_mem (key_text key w) (\<lambda>k.
                  bind_mem (cef_string_multimap_find_count p k w) (\<lambda>n.
                    bind_mem (values_loop cv p k [0..<n] w) (\<lambda>(vs, w).
                      bind_mem (multimap_loop cv p is (key_string # visited) w)
                        (\<lambda>(es, w). Val ((key_string, vs) # es, w))))))
       else multimap_loop cv p is visited w)"

definition multimap_into_iter ::
  "str_conv \<Rightarrow> cef_string_collection \<Rightarrow> map_object coll_world \<Rightarrow> ((utf8 \<times> utf8 list) list \<times> map_object coll_world) mem_result" where
  "multimap_into_iter cv c w =
     (case coll_mut c of
        None \<Rightarrow> bind_mem (multimap_drop c w) (\<lambda>w. Val ([], w))
      | Some p \<Rightarrow>
          bind_mem (coll_load p w) (\<lambda>xs.
            bind_mem (multimap_loop cv p [0..<length xs] [] w) (\<lambda>(es, w).
              bind_mem (multimap_drop c w) (\<lambda>w. Val (es, w)))))"

section \<open>Texts that convert there and back\<close>

definition text_ok :: "str_conv \<Rightarrow> utf8 \<Rightarrow> bool" where
  "text_ok cv t \<longleftrightarrow>
     (case cv_utf8_utf16 cv t of (u, ok) \<Rightarrow> ok \<and> cv_utf16_utf8 cv u = (t, True) \<and> (u = [] \<longleftrightarrow> t = []))"

definition u16_of :: "str_conv \<Rightarrow> utf8 \<Rightarrow> utf16" where
  "u16_of cv t = fst (cv_utf8_utf16 cv t)"

lemma text_okD:
  assumes "text_ok cv t"
  shows "cv_utf8_utf16 cv t = (u16_of cv t, True)" "cv_utf16_utf8 cv (u16_of cv t) = (t, True)" "u16_of cv t = [] \<longleftrightarrow> t = []"
  using assms by (auto simp: text_ok_def u16_of_def split: prod.splits)

lemma u16_of_inj: "text_ok cv s \<Longrightarrow> text_ok cv t \<Longrightarrow> u16_of cv s = u16_of cv t \<longleftrightarrow> s = t"
  by (metis text_okD(2) fst_conv)

definition fresh_world :: "'t coll_world \<Rightarrow> bool" where
  "fresh_world w \<longleftrightarrow> (\<forall>a\<ge>sm_next (cw_utf16 w). sm_buffers (cw_utf16 w) a = None) \<and> (\<forall>a\<ge>sm_next (cw_utf8 w). sm_buffers (cw_utf8 w) a = None)"

text \<open>
  Going from one world to the next with the same objects and no memory given back, and with
  a copy of each text of \<open>us\<close> that is not empty left behind.
\<close>

definition leaves :: "utf16 list \<Rightarrow> 't coll_world \<Rightarrow> 't coll_world \<Rightarrow> bool" where
  "leaves us w w' \<longleftrightarrow> cw_objects w' = cw_objects w \<and> cw_next w' = cw_next w \<and> fresh_world w'
     \<and> (\<forall>a t. sm_buffers (cw_utf16 w) a = Some t \<longrightarrow> sm_buffers (cw_utf16 w') a = Some t)
     \<and> (\<forall>u\<in>set us. u \<noteq> [] \<longrightarrow> (\<exists>a. sm_buffers (cw_utf16 w) a = None \<and> sm_buffers (cw_utf16 w') a = Some u))"

lemma leaves_refl: "fresh_world w \<Longrightarrow> leaves [] w w"
  by (simp add: leaves_def)

lemma leaves_trans: "leaves us w w1 \<Longrightarrow> leaves vs w1 w2 \<Longrightarrow> leaves (us @ vs) w w2"
  unfolding leaves_def by (simp add: ball_Un) (metis not_Some_eq)

lemma leaves_world: "leaves us w w' \<Longrightarrow> fresh_world w'" "leaves us w w' \<Longrightarrow> cw_objects w' = cw_objects w"
  by (simp_all add: leaves_def)

lemma string_argument_ok:
  assumes "text_ok cv t" "fresh_world w"
  obtains w' where "string_argument cv t w = Val (u16_of cv t, w')" "leaves [] w w'"
proof -
  obtain v m' where v: "made (u16_of cv t) (cw_utf16 w) = (v, m')" by fastforce
  obtain m'' where m'': "cef_string_clear v m' = Val m''" "sm_buffers m'' = sm_buffers (cw_utf16 w)" "sm_next (cw_utf16 w) \<le> sm_next m''"
    using v by (rule made_clear) (use assms(2) in \<open>simp add: fresh_world_def\<close>)
  have "string_argument cv t w = Val (u16_of cv t, w\<lparr>cw_utf16 := m''\<rparr>)"
    using converted_made [of "cv_utf8_utf16 cv" t "u16_of cv t" "cw_utf16 w" v m', OF text_okD(1) [OF assms(1)] v] made_slice(1) [OF v] m''(1)
    by (simp add: string_argument_def utf16_from_str_def str_drop_def)
  then show thesis by (rule that) (use assms(2) m''(2,3) in \<open>simp add: leaves_def fresh_world_def\<close>)
qed

text \<open>A text that is given out and shown: it is the text that was put in.\<close>

lemma copy_out_ok:
  assumes "i < length xs" "fresh_world w"
  obtains v w' where "copy_out xs i w = Val (True, v, w')" "leaves [xs ! i] w w'"
    "str_as_slice (Borrowed (Some v)) (cw_utf16 w') = Val (if xs ! i = [] then None else Some (xs ! i))"
proof -
  obtain v m' where v: "made (xs ! i) (cw_utf16 w) = (v, m')" by fastforce
  have "copy_out xs i w = Val (True, v, w\<lparr>cw_utf16 := m'\<rparr>)"
    using assms(1) v by (auto simp: copy_out_def cef_string_copy_def made_def split: if_splits)
  then show thesis
    by (rule that) (use assms(2) v made_slice(2) [OF v] in \<open>auto simp: leaves_def fresh_world_def made_def split: if_splits\<close>)
qed

lemma to_string_ok:
  assumes "text_ok cv t" "fresh_world w"
    "str_as_slice (Borrowed (Some v)) (cw_utf16 w) = Val (if u16_of cv t = [] then None else Some (u16_of cv t))"
  obtains w' where "to_string cv v w = Val (t, w')" "leaves [] w w'" "cw_utf16 w' = cw_utf16 w"
proof -
  have "sm_buffers (cw_utf8 w) (sm_next (cw_utf8 w)) = None" using assms(2) by (simp add: fresh_world_def)
  from display_back [where reverse = "cv_utf16_utf8 cv", OF assms(3) [unfolded text_okD(3) [OF assms(1)]] text_okD(2) [OF assms(1)] this]
  obtain m8 where "utf16_display cv (Borrowed (Some v)) (cw_utf16 w) (cw_utf8 w) = Val (t, m8)"
      "sm_buffers m8 = sm_buffers (cw_utf8 w)" "sm_next (cw_utf8 w) \<le> sm_next m8"
    by (auto simp: utf16_display_def utf8_from_utf16_def)
  then show thesis using assms(2)
    by (intro that [of "w\<lparr>cw_utf8 := m8\<rparr>"]) (auto simp: to_string_def leaves_def fresh_world_def)
qed

lemma shown_ok:
  assumes "i < length xs" "fresh_world w" "text_ok cv t" "xs ! i = u16_of cv t"
  obtains v w1 w2 where "copy_out xs i w = Val (True, v, w1)" "to_string cv v w1 = Val (t, w2)" "leaves [xs ! i] w w2"
    "cw_utf16 w2 = cw_utf16 w1" "str_as_slice (Borrowed (Some v)) (cw_utf16 w1) = Val (if xs ! i = [] then None else Some (xs ! i))"
    "cw_objects w1 = cw_objects w"
proof -
  obtain v w1 where v: "copy_out xs i w = Val (True, v, w1)" "leaves [xs ! i] w w1"
    "str_as_slice (Borrowed (Some v)) (cw_utf16 w1) = Val (if xs ! i = [] then None else Some (xs ! i))"
    using assms(1,2) by (rule copy_out_ok)
  obtain w2 where w2: "to_string cv v w1 = Val (t, w2)" "leaves [] w1 w2" "cw_utf16 w2 = cw_utf16 w1"
    using assms(3) leaves_world(1) [OF v(2)] v(3) [unfolded assms(4)] by (rule to_string_ok)
  from leaves_trans [OF v(2) w2(2)] have "leaves [xs ! i] w w2" by simp
  from that [OF v(1) w2(1) this w2(3) v(3) leaves_world(2) [OF v(2)]] show thesis .
qed

section \<open>Iterating\<close>

lemma coll_load_ok: "cw_objects w p = Some x \<Longrightarrow> coll_load p w = Val x"
  by (simp add: coll_load_def)

text \<open>A text that could be read can still be read when nothing was given back.\<close>

lemma slice_kept:
  assumes "str_as_slice (Borrowed (Some v)) (cw_utf16 w) = Val r" "leaves us w w'"
  shows "str_as_slice (Borrowed (Some v)) (cw_utf16 w') = Val r"
proof (cases "st_str v")
  case (Some a)
  show ?thesis
  proof (cases "sm_buffers (cw_utf16 w) a")
    case None
    with Some assms(1) show ?thesis by (auto simp: str_as_slice_def data_ref_def split: if_splits)
  next
    case (Some t)
    with assms(2) have "sm_buffers (cw_utf16 w') a = Some t" by (simp add: leaves_def)
    with Some \<open>st_str v = Some a\<close> assms(1) show ?thesis by (auto simp: str_as_slice_def data_ref_def split: if_splits)
  qed
qed (use assms(1) in \<open>simp add: str_as_slice_def data_ref_def\<close>)

lemma list_loop_ok:
  assumes "\<And>t. t \<in> set ts \<Longrightarrow> text_ok cv t"
  shows "\<forall>i\<in>set is. i < length ts \<Longrightarrow> cw_objects w p = Some (map (u16_of cv) ts) \<Longrightarrow> fresh_world w \<Longrightarrow>
    \<exists>w'. list_loop cv p is w = Val (map (\<lambda>i. ts ! i) is, w') \<and> leaves (map (\<lambda>i. u16_of cv (ts ! i)) is) w w'"
proof (induction "is" arbitrary: w)
  case (Cons i "is")
  have i: "i < length (map (u16_of cv) ts)" "text_ok cv (ts ! i)" "map (u16_of cv) ts ! i = u16_of cv (ts ! i)"
    using Cons.prems(1) assms by simp_all
  obtain v w1 w2 where w: "copy_out (map (u16_of cv) ts) i w = Val (True, v, w1)" "to_string cv v w1 = Val (ts ! i, w2)"
      "leaves [map (u16_of cv) ts ! i] w w2"
    using i(1) Cons.prems(3) i(2,3) by (rule shown_ok)
  have "cw_objects w2 p = Some (map (u16_of cv) ts)" using leaves_world(2) [OF w(3)] Cons.prems(2) by simp
  with Cons.IH [of w2] Cons.prems(1) leaves_world(1) [OF w(3)] obtain w3 where
    w3: "list_loop cv p is w2 = Val (map (\<lambda>i. ts ! i) is, w3)" "leaves (map (\<lambda>i. u16_of cv (ts ! i)) is) w2 w3" by auto
  have "list_loop cv p (i # is) w = Val (map (\<lambda>i. ts ! i) (i # is), w3)"
    using w(1,2) w3(1) by (simp add: cef_string_list_value_def coll_load_ok [OF Cons.prems(2)])
  moreover have "leaves (map (\<lambda>i. u16_of cv (ts ! i)) (i # is)) w w3"
    using leaves_trans [OF w(3) w3(2)] i(3) by simp
  ultimately show ?case by blast
qed (simp add: leaves_refl)

lemma values_loop_ok:
  assumes "\<And>t. t \<in> set ts \<Longrightarrow> text_ok cv t"
  shows "\<forall>i\<in>set js. i < length ts \<Longrightarrow> cw_objects w p = Some xs \<Longrightarrow> values_of key xs = map (u16_of cv) ts \<Longrightarrow> fresh_world w \<Longrightarrow>
    \<exists>w' us. values_loop cv p key js w = Val (map (\<lambda>i. ts ! i) js, w') \<and> leaves us w w'"
proof (induction js arbitrary: w)
  case (Cons i js)
  have i: "i < length (map (u16_of cv) ts)" "text_ok cv (ts ! i)" "map (u16_of cv) ts ! i = u16_of cv (ts ! i)"
    using Cons.prems(1) assms by simp_all
  obtain v w1 w2 where w: "copy_out (map (u16_of cv) ts) i w = Val (True, v, w1)" "to_string cv v w1 = Val (ts ! i, w2)"
      "leaves [map (u16_of cv) ts ! i] w w2"
    using i(1) Cons.prems(4) i(2,3) by (rule shown_ok)
  have "cw_objects w2 p = Some xs" using leaves_world(2) [OF w(3)] Cons.prems(2) by simp
  with Cons.IH [of w2] Cons.prems(1,3) leaves_world(1) [OF w(3)] obtain w3 us where
    w3: "values_loop cv p key js w2 = Val (map (\<lambda>i. ts ! i) js, w3)" "leaves us w2 w3" by auto
  have "values_loop cv p key (i # js) w = Val (map (\<lambda>i. ts ! i) (i # js), w3)"
    using w(1,2) w3(1) by (simp add: cef_string_multimap_enumerate_def coll_load_ok [OF Cons.prems(2)] Cons.prems(3))
  then show ?case using leaves_trans [OF w(3) w3(2)] by blast
qed (auto intro: leaves_refl)

lemma map_loop_ok:
  assumes "\<And>k v. (k, v) \<in> set ts \<Longrightarrow> text_ok cv k \<and> text_ok cv v"
  shows "\<forall>i\<in>set is. i < length ts \<Longrightarrow> cw_objects w p = Some (map (map_prod (u16_of cv) (u16_of cv)) ts) \<Longrightarrow> fresh_world w \<Longrightarrow>
    \<exists>w' us. map_loop cv p is w = Val (map (\<lambda>i. ts ! i) is, w') \<and> leaves us w w'"
proof (induction "is" arbitrary: w)
  case (Cons i "is")
  let ?xs = "map (map_prod (u16_of cv) (u16_of cv)) ts"
  obtain k v where kv: "ts ! i = (k, v)" by fastforce
  have i: "i < length ts" "text_ok cv k" "text_ok cv v"
    using Cons.prems(1) assms [of k v] kv [symmetric] by simp_all
  have nth: "map fst ?xs ! i = u16_of cv k" "map snd ?xs ! i = u16_of cv v" using i(1) kv by simp_all
  have len: "i < length (map fst ?xs)" "i < length (map snd ?xs)" using i(1) by simp_all
  obtain s1 w1 where w1: "copy_out (map fst ?xs) i w = Val (True, s1, w1)" "leaves [map fst ?xs ! i] w w1"
      "str_as_slice (Borrowed (Some s1)) (cw_utf16 w1) = Val (if map fst ?xs ! i = [] then None else Some (map fst ?xs ! i))"
    using len(1) Cons.prems(3) by (rule copy_out_ok)
  obtain s2 w2 where w2: "copy_out (map snd ?xs) i w1 = Val (True, s2, w2)" "leaves [map snd ?xs ! i] w1 w2"
      "str_as_slice (Borrowed (Some s2)) (cw_utf16 w2) = Val (if map snd ?xs ! i = [] then None else Some (map snd ?xs ! i))"
    using len(2) leaves_world(1) [OF w1(2)] by (rule copy_out_ok)
  have slice1: "str_as_slice (Borrowed (Some s1)) (cw_utf16 w2) = Val (if map fst ?xs ! i = [] then None else Some (map fst ?xs ! i))"
    using slice_kept [OF w1(3) w2(2)] .
  obtain w3 where w3: "to_string cv s1 w2 = Val (k, w3)" "leaves [] w2 w3" "cw_utf16 w3 = cw_utf16 w2"
    using i(2) leaves_world(1) [OF w2(2)] slice1 [unfolded nth] by (rule to_string_ok)
  obtain w4 where w4: "to_string cv s2 w3 = Val (v, w4)" "leaves [] w3 w4"
    using i(3) leaves_world(1) [OF w3(2)] w2(3) [unfolded nth, folded w3(3)] by (rule to_string_ok)
  have all: "leaves ([map fst ?xs ! i] @ [map snd ?xs ! i] @ [] @ []) w w4"
    using leaves_trans [OF w1(2) leaves_trans [OF w2(2) leaves_trans [OF w3(2) w4(2)]]] .
  have "cw_objects w1 p = Some ?xs" "cw_objects w4 p = Some ?xs"
    using leaves_world(2) [OF w1(2)] leaves_world(2) [OF all] Cons.prems(2) by simp_all
  with Cons.IH [of w4] Cons.prems(1) leaves_world(1) [OF all] obtain w5 us where
    w5: "map_loop cv p is w4 = Val (map (\<lambda>i. ts ! i) is, w5)" "leaves us w4 w5" by auto
  have "map_loop cv p (i # is) w = Val (map (\<lambda>i. ts ! i) (i # is), w5)"
    using w1(1) w2(1) w3(1) w4(1) w5(1) kv \<open>cw_objects w1 p = Some ?xs\<close>
    by (simp add: cef_string_map_key_def cef_string_map_value_def coll_load_ok [OF Cons.prems(2)] coll_load_ok del: map_map)
  then show ?case using leaves_trans [OF all w5(2)] by blast
qed (auto intro: leaves_refl)

text \<open>The keys of a multimap, each once, in the order of their first entries.\<close>

fun first_keys :: "'k list \<Rightarrow> 'k list" where
  "first_keys [] = []"
| "first_keys (k # ks) = k # filter (\<lambda>j. j \<noteq> k) (first_keys ks)"

lemma set_first_keys: "set (first_keys ks) = set ks"
  by (induction ks) auto

lemma distinct_first_keys: "distinct (first_keys ks)"
  by (induction ks) auto

lemma first_keys_visited:
  "filter (\<lambda>j. j \<notin> set visited) (first_keys (k # ks)) =
    (if k \<in> set visited then filter (\<lambda>j. j \<notin> set visited) (first_keys ks)
     else k # filter (\<lambda>j. j \<notin> set (k # visited)) (first_keys ks))"
proof -
  have "filter (\<lambda>j. j \<noteq> k \<and> j \<notin> set visited) js = filter (\<lambda>j. j \<notin> set visited) js" if "k \<in> set visited" for js
    using that by (intro filter_cong) auto
  then show ?thesis by (simp add: conj_commute)
qed

lemma values_of_u16:
  assumes "\<And>k v. (k, v) \<in> set ts \<Longrightarrow> text_ok cv k" "text_ok cv key"
  shows "values_of (u16_of cv key) (map (map_prod (u16_of cv) (u16_of cv)) ts) = map (u16_of cv) (values_of key ts)"
  using assms(1)
proof (induction ts)
  case (Cons e ts)
  obtain k v where "e = (k, v)" by fastforce
  with Cons u16_of_inj [OF _ assms(2), of k] show ?case by (auto simp: values_of_def)
qed (simp add: values_of_def)

lemma multimap_loop_ok:
  assumes ok: "\<And>k v. (k, v) \<in> set ts \<Longrightarrow> text_ok cv k \<and> text_ok cv v"
  shows "\<forall>i\<in>set is. i < length ts \<Longrightarrow> cw_objects w p = Some (map (map_prod (u16_of cv) (u16_of cv)) ts) \<Longrightarrow> fresh_world w \<Longrightarrow>
    \<exists>w' us. multimap_loop cv p is visited w =
        Val (map (\<lambda>k. (k, values_of k ts)) (filter (\<lambda>j. j \<notin> set visited) (first_keys (map (\<lambda>i. fst (ts ! i)) is))), w') \<and> leaves us w w'"
proof (induction "is" arbitrary: w visited)
  case (Cons i "is")
  let ?xs = "map (map_prod (u16_of cv) (u16_of cv)) ts" and ?keys = "first_keys (map (\<lambda>i. fst (ts ! i)) is)"
  obtain k v where kv: "ts ! i = (k, v)" by fastforce
  have len: "i < length ts" using Cons.prems(1) by simp
  then have "(k, v) \<in> set ts" using kv nth_mem by fastforce
  with ok have i: "i < length (map fst ?xs)" "text_ok cv k" "map fst ?xs ! i = u16_of cv k"
    using len by (auto simp: kv)
  obtain s w1 w2 where w: "copy_out (map fst ?xs) i w = Val (True, s, w1)" "to_string cv s w1 = Val (k, w2)"
      "leaves [map fst ?xs ! i] w w2" "cw_utf16 w2 = cw_utf16 w1"
      "str_as_slice (Borrowed (Some s)) (cw_utf16 w1) = Val (if map fst ?xs ! i = [] then None else Some (map fst ?xs ! i))"
    using i(1) Cons.prems(3) i(2,3) by (rule shown_ok)
  have w2: "fresh_world w2" "cw_objects w2 p = Some ?xs"
    using leaves_world [OF w(3)] Cons.prems(2) by simp_all
  note step = cef_string_multimap_key_def coll_load_ok [OF Cons.prems(2)] w(1,2)
  show ?case
  proof (cases "k \<in> set visited")
    case True
    obtain w3 us where w3: "multimap_loop cv p is visited w2 =
        Val (map (\<lambda>k. (k, values_of k ts)) (filter (\<lambda>j. j \<notin> set visited) ?keys), w3)" "leaves us w2 w3"
      using Cons.IH [of w2 visited] Cons.prems(1) w2 by auto
    have "multimap_loop cv p (i # is) visited w =
        Val (map (\<lambda>k. (k, values_of k ts)) (filter (\<lambda>j. j \<notin> set visited) (first_keys (map (\<lambda>i. fst (ts ! i)) (i # is)))), w3)"
      using True w3(1) kv by (simp only: list.map fst_conv first_keys_visited if_True) (simp add: step del: map_map)
    then show ?thesis using leaves_trans [OF w(3) w3(2)] by blast
  next
    case False
    have key: "key_text s w2 = Val (u16_of cv k)"
      using w(4,5) i(3) by (auto simp: key_text_def)
    have vals: "values_of (u16_of cv k) ?xs = map (u16_of cv) (values_of k ts)"
      by (rule values_of_u16) (use ok i(2) in auto)
    have vok: "text_ok cv t" if "t \<in> set (values_of k ts)" for t
      using that ok by (auto simp: values_of_def)
    let ?n = "length (values_of k ts)"
    obtain w3 us where w3: "values_loop cv p (u16_of cv k) [0..<?n] w2 = Val (values_of k ts, w3)" "leaves us w2 w3"
      using values_loop_ok [where ts = "values_of k ts" and cv = cv and w = w2 and p = p and xs = ?xs and key = "u16_of cv k" and js = "[0..<?n]",
          OF vok _ w2(2) vals w2(1)] by (auto simp: map_nth)
    have w3': "fresh_world w3" "cw_objects w3 p = Some ?xs"
      using leaves_world [OF w3(2)] w2(2) by simp_all
    obtain w4 vs where w4: "multimap_loop cv p is (k # visited) w3 =
        Val (map (\<lambda>k. (k, values_of k ts)) (filter (\<lambda>j. j \<notin> set (k # visited)) ?keys), w4)" "leaves vs w3 w4"
      using Cons.IH [of w3 "k # visited"] Cons.prems(1) w3' by auto
    have "multimap_loop cv p (i # is) visited w =
        Val (map (\<lambda>k. (k, values_of k ts)) (filter (\<lambda>j. j \<notin> set visited) (first_keys (map (\<lambda>i. fst (ts ! i)) (i # is)))), w4)"
      using False w3(1) w4(1) kv key
      by (simp only: list.map fst_conv first_keys_visited if_False) (simp add: step cef_string_multimap_find_count_def coll_load_ok [OF w2(2)] vals del: map_map)
    then show ?thesis using leaves_trans [OF w(3) leaves_trans [OF w3(2) w4(2)]] by blast
  qed
qed (auto intro: leaves_refl)

section \<open>Filling a collection\<close>

fun list_extend :: "str_conv \<Rightarrow> cef_string_collection \<Rightarrow> utf8 list \<Rightarrow> list_object coll_world \<Rightarrow> list_object coll_world mem_result" where
  "list_extend cv c [] w = Val w"
| "list_extend cv c (t # ts) w =
     bind_mem (list_append cv c t w) (\<lambda>(ok, w). if ok then list_extend cv c ts w else Undefined)"

fun pair_extend ::
  "(cef_string_collection \<Rightarrow> utf8 \<Rightarrow> utf8 \<Rightarrow> map_object coll_world \<Rightarrow> (bool \<times> map_object coll_world) mem_result) \<Rightarrow>
    cef_string_collection \<Rightarrow> (utf8 \<times> utf8) list \<Rightarrow> map_object coll_world \<Rightarrow> map_object coll_world mem_result" where
  "pair_extend add c [] w = Val w"
| "pair_extend add c ((k, v) # ts) w =
     bind_mem (add c k v w) (\<lambda>(ok, w). if ok then pair_extend add c ts w else Undefined)"

text \<open>An object that is filled: it alone changes, and no text stays behind.\<close>

definition filled :: "nat \<Rightarrow> 't \<Rightarrow> 't coll_world \<Rightarrow> 't coll_world \<Rightarrow> bool" where
  "filled p x w w' \<longleftrightarrow> cw_objects w' = (cw_objects w)(p \<mapsto> x) \<and> fresh_world w'"

lemma list_append_ok:
  assumes "text_ok cv t" "fresh_world w" "cw_objects w p = Some xs"
  shows "\<exists>w'. list_append cv (CollFree (Some p)) t w = Val (True, w') \<and> filled p (xs @ [u16_of cv t]) w w'"
proof -
  obtain w1 where w1: "string_argument cv t w = Val (u16_of cv t, w1)" "leaves [] w w1"
    using assms(1,2) by (rule string_argument_ok)
  then have "cw_objects w1 = cw_objects w" "fresh_world w1" by (simp_all add: leaves_def)
  with w1 assms(3) show ?thesis
    by (simp add: list_append_def coll_mut_def cef_string_list_append_def coll_load_def coll_store_def filled_def fresh_world_def)
qed

lemma pair_append_ok:
  assumes "text_ok cv k" "text_ok cv v" "fresh_world w" "cw_objects w p = Some xs"
    and "\<And>w. cw_objects w p = Some xs \<Longrightarrow> insert_pair p (u16_of cv k) (u16_of cv v) w = Val (True, coll_store p ys w)"
  shows "\<exists>w'. pair_append insert_pair cv (CollFree (Some p)) k v w = Val (True, w') \<and> filled p ys w w'"
proof -
  obtain w1 where w1: "string_argument cv k w = Val (u16_of cv k, w1)" "leaves [] w w1"
    using assms(1,3) by (rule string_argument_ok)
  then have "fresh_world w1" by (simp add: leaves_def)
  with assms(2) obtain w2 where w2: "string_argument cv v w1 = Val (u16_of cv v, w2)" "leaves [] w1 w2"
    by (rule string_argument_ok)
  with w1 have "cw_objects w2 = cw_objects w" "fresh_world w2" by (simp_all add: leaves_def)
  with w1 w2 assms(4,5) show ?thesis
    by (simp add: pair_append_def coll_mut_def coll_store_def filled_def fresh_world_def)
qed

lemma list_extend_ok:
  assumes "\<And>t. t \<in> set ts \<Longrightarrow> text_ok cv t" "fresh_world w" "cw_objects w p = Some xs"
  shows "\<exists>w'. list_extend cv (CollFree (Some p)) ts w = Val w' \<and> filled p (xs @ map (u16_of cv) ts) w w'"
  using assms
proof (induction ts arbitrary: w xs)
  case (Cons t ts)
  obtain w1 where w1: "list_append cv (CollFree (Some p)) t w = Val (True, w1)" "filled p (xs @ [u16_of cv t]) w w1"
    using list_append_ok [OF Cons.prems(1) Cons.prems(2,3)] by auto
  then show ?case using Cons.IH [of w1 "xs @ [u16_of cv t]"] Cons.prems(1) by (auto simp: filled_def)
qed (auto simp: filled_def fun_upd_idem)

text \<open>A map keeps the first value of each key.\<close>

definition first_values :: "('k \<times> 'v) list \<Rightarrow> ('k \<times> 'v) list" where
  "first_values ts = map (\<lambda>k. (k, hd (values_of k ts))) (first_keys (map fst ts))"

lemma first_keys_snoc: "first_keys (ks @ [k]) = first_keys ks @ (if k \<in> set ks then [] else [k])"
  by (induction ks) auto

lemma values_of_Nil_iff: "values_of k ts = [] \<longleftrightarrow> k \<notin> fst ` set ts"
  by (force simp: values_of_def filter_empty_conv)

lemma first_values_snoc:
  "first_values (ts @ [(k, v)]) = (if k \<in> fst ` set ts then first_values ts else first_values ts @ [(k, v)])"
proof -
  have "hd (values_of j (ts @ [(k, v)])) = hd (values_of j ts)" if "j \<in> fst ` set ts" for j
    using that values_of_Nil_iff [of j ts] by (simp add: values_of_def)
  then show ?thesis using values_of_Nil_iff [of k ts]
    by (auto simp: first_values_def first_keys_snoc set_first_keys values_of_def)
qed

lemma first_values_keys: "fst ` set (first_values ts) = fst ` set ts"
  by (auto simp: first_values_def set_first_keys image_image)

lemma set_first_values: "(k, v) \<in> set (first_values ts) \<Longrightarrow> (k, v) \<in> set ts"
proof -
  assume "(k, v) \<in> set (first_values ts)"
  then have "v = hd (values_of k ts)" "values_of k ts \<noteq> []"
    unfolding values_of_Nil_iff by (auto simp: first_values_def set_first_keys)
  then have "v \<in> set (values_of k ts)" by simp
  then show ?thesis by (force simp: values_of_def)
qed

abbreviation pair_u16 :: "str_conv \<Rightarrow> utf8 \<times> utf8 \<Rightarrow> utf16 \<times> utf16" where
  "pair_u16 cv \<equiv> map_prod (u16_of cv) (u16_of cv)"

lemma map_extend_ok:
  assumes "\<And>k v. (k, v) \<in> set (us @ ts) \<Longrightarrow> text_ok cv k \<and> text_ok cv v" "fresh_world w"
    "cw_objects w p = Some (map (pair_u16 cv) (first_values us))"
  shows "\<exists>w'. pair_extend (map_append cv) (CollFree (Some p)) ts w = Val w'
    \<and> filled p (map (pair_u16 cv) (first_values (us @ ts))) w w'"
  using assms
proof (induction ts arbitrary: w us)
  case (Cons e ts)
  obtain k v where e: "e = (k, v)" by fastforce
  have ok: "text_ok cv k" "text_ok cv v" using Cons.prems(1) [of k v] e by auto
  have "u16_of cv k \<in> fst ` set (map (pair_u16 cv) (first_values us)) \<longleftrightarrow> u16_of cv k \<in> u16_of cv ` fst ` set us"
    by (simp add: image_image first_values_keys [of us, symmetric])
  also have "\<dots> \<longleftrightarrow> k \<in> fst ` set us"
  proof
    assume "u16_of cv k \<in> u16_of cv ` fst ` set us"
    then obtain j u where j: "(j, u) \<in> set us" "u16_of cv k = u16_of cv j" by auto
    then have "text_ok cv j" using Cons.prems(1) [of j u] by simp
    with u16_of_inj [OF ok(1)] j show "k \<in> fst ` set us" by force
  qed simp
  finally have mem: "u16_of cv k \<in> fst ` set (map (pair_u16 cv) (first_values us)) \<longleftrightarrow> k \<in> fst ` set us" .
  have "cef_string_map_append p (u16_of cv k) (u16_of cv v) w =
      Val (True, coll_store p (map (pair_u16 cv) (first_values (us @ [(k, v)]))) w)"
    if "cw_objects w p = Some (map (pair_u16 cv) (first_values us))" for w
    using mem by (simp only: cef_string_map_append_def coll_load_ok [OF that] bind_mem.simps first_values_snoc) (simp del: set_map)
  from pair_append_ok [where insert_pair = cef_string_map_append, OF ok Cons.prems(2,3) this] obtain w1 where
    w1: "map_append cv (CollFree (Some p)) k v w = Val (True, w1)" "filled p (map (pair_u16 cv) (first_values (us @ [(k, v)]))) w w1"
    by (auto simp: map_append_def)
  then show ?case using Cons.IH [of "us @ [(k, v)]" w1] Cons.prems(1) by (auto simp: e filled_def)
qed (auto simp: filled_def fun_upd_idem)

lemma multimap_extend_ok:
  assumes "\<And>k v. (k, v) \<in> set ts \<Longrightarrow> text_ok cv k \<and> text_ok cv v" "fresh_world w" "cw_objects w p = Some xs"
  shows "\<exists>w'. pair_extend (multimap_append cv) (CollFree (Some p)) ts w = Val w' \<and> filled p (xs @ map (pair_u16 cv) ts) w w'"
  using assms
proof (induction ts arbitrary: w xs)
  case (Cons e ts)
  obtain k v where e: "e = (k, v)" by fastforce
  have ok: "text_ok cv k" "text_ok cv v" using Cons.prems(1) [of k v] e by auto
  have "cef_string_multimap_append p (u16_of cv k) (u16_of cv v) w = Val (True, coll_store p (xs @ [pair_u16 cv (k, v)]) w)"
    if "cw_objects w p = Some xs" for w
    by (simp add: cef_string_multimap_append_def coll_load_ok [OF that])
  from pair_append_ok [where insert_pair = cef_string_multimap_append, OF ok Cons.prems(2,3) this] obtain w1 where
    w1: "multimap_append cv (CollFree (Some p)) k v w = Val (True, w1)" "filled p (xs @ [pair_u16 cv (k, v)]) w w1"
    by (auto simp: multimap_append_def)
  then show ?case using Cons.IH [of w1 "xs @ [pair_u16 cv (k, v)]"] Cons.prems(1) by (auto simp: e filled_def)
qed (auto simp: filled_def fun_upd_idem)

section \<open>Properties\<close>

lemma coll_new_ok:
  assumes "fresh_world w" "coll_new w = (c, w0)"
  shows "c = CollFree (Some (cw_next w))" "cw_objects w0 = (cw_objects w)(cw_next w \<mapsto> [])" "fresh_world w0"
  using assms by (auto simp: coll_new_def coll_alloc_def fresh_world_def)

text \<open>
  Property C23. The texts appended to a new list come out of its iteration in order, and the
  list is freed; but a copy of every text that is not empty stays allocated, since the
  strings that \<^verbatim>\<open>cef_string_list_value\<close> fills are only borrowed. A clone of the list is empty
  when it is iterated, and appending to it fails.
\<close>

theorem string_list_roundtrip:
  assumes "\<And>t. t \<in> set ts \<Longrightarrow> text_ok cv t" "fresh_world w" "cw_objects w (cw_next w) = None" "coll_new w = (c, w0)"
  shows "\<exists>w1 w2. list_extend cv c ts w0 = Val w1 \<and> list_into_iter cv c w1 = Val (ts, w2) \<and> cw_objects w2 = cw_objects w
    \<and> (\<forall>t\<in>set ts. t \<noteq> [] \<longrightarrow> (\<exists>a. sm_buffers (cw_utf16 w1) a = None \<and> sm_buffers (cw_utf16 w2) a = Some (u16_of cv t)))
    \<and> list_into_iter cv (coll_clone c) w1 = Val ([], w1) \<and> list_append cv (coll_clone c) t w1 = Val (False, w1)"
proof -
  note new = coll_new_ok [OF assms(2,4)]
  let ?p = "cw_next w"
  have "cw_objects w0 ?p = Some []" using new(2) by simp
  from list_extend_ok [where ts = ts and cv = cv, OF assms(1) new(3) this] obtain w1 where
    w1: "list_extend cv c ts w0 = Val w1" "filled ?p (map (u16_of cv) ts) w0 w1"
    using new(1) by auto
  then have obj: "cw_objects w1 ?p = Some (map (u16_of cv) ts)" and "fresh_world w1" by (simp_all add: filled_def)
  with list_loop_ok [where ts = ts and cv = cv, OF assms(1), of "[0..<length ts]" w1 ?p] obtain w2 where
    w2: "list_loop cv ?p [0..<length ts] w1 = Val (ts, w2)" "leaves (map (\<lambda>i. u16_of cv (ts ! i)) [0..<length ts]) w1 w2"
    by (auto simp: map_nth)
  have map: "map (\<lambda>i. u16_of cv (ts ! i)) [0..<length ts] = map (u16_of cv) ts" by (rule nth_equalityI) simp_all
  let ?w3 = "w2\<lparr>cw_objects := (cw_objects w2)(?p := None)\<rparr>"
  have "list_into_iter cv c w1 = Val (ts, ?w3)"
    using w2 leaves_world(2) [OF w2(2)] obj
    by (simp add: list_into_iter_def coll_mut_def new(1) coll_load_ok coll_drop_def coll_delete_def)
  moreover have "cw_objects ?w3 = cw_objects w"
    using leaves_world(2) [OF w2(2)] w1(2) new(2) assms(3) by (auto simp: filled_def)
  moreover have "\<exists>a. sm_buffers (cw_utf16 w1) a = None \<and> sm_buffers (cw_utf16 ?w3) a = Some (u16_of cv t)"
    if "t \<in> set ts" "t \<noteq> []" for t
    using w2(2) that text_okD(3) [OF assms(1) [OF that(1)]] unfolding leaves_def map by auto
  moreover have "list_into_iter cv (coll_clone c) w1 = Val ([], w1)" "list_append cv (coll_clone c) t w1 = Val (False, w1)"
    by (simp_all add: list_into_iter_def list_append_def coll_mut_def coll_clone_def coll_drop_def)
  ultimately show ?thesis using w1(1) by blast
qed

definition sample_coll :: "'t list coll_world" where
  "sample_coll = \<lparr>cw_objects = Map.empty, cw_next = 0, cw_utf16 = mem_empty, cw_utf8 = mem_empty\<rparr>"

lemma sample_text_ok: "text_ok sample_conv t"
proof -
  have "map (\<lambda>b. ucast (ucast b :: u16) :: u8) t = t"
    by (intro map_idI) (simp add: unsigned_ucast_eq word_eq_iff_unsigned take_bit_word_eq_self)
  then show ?thesis by (simp add: text_ok_def sample_conv_def comp_def)
qed

lemma sample_coll_ok: "fresh_world (sample_coll :: 't list coll_world)" "cw_objects (sample_coll :: 't list coll_world) (cw_next (sample_coll :: 't list coll_world)) = None"
  by (simp_all add: sample_coll_def fresh_world_def mem_empty_def)

theorem string_list_roundtrip_witness:
  "\<exists>c w0 w1 w2. coll_new sample_coll = (c, w0) \<and> list_extend sample_conv c [[104], [105]] w0 = Val w1
    \<and> list_into_iter sample_conv c w1 = Val ([[104], [105]], w2)"
proof -
  obtain c and w0 :: "list_object coll_world" where new: "coll_new sample_coll = (c, w0)" by fastforce
  from string_list_roundtrip [where ts = "[[104], [105]]" and cv = sample_conv, OF sample_text_ok sample_coll_ok new, of "[]"] new
  show ?thesis by blast
qed

text \<open>
  A map filled with pairs gives back each key once, in the order in which the
  keys first came, with the first value that was appended for it, although every append
  reports success. A multimap gives each key once, in the same order, with all its values
  in order. Dropping the map frees it; dropping the multimap only empties it.
\<close>

lemma string_maps_roundtrip:
  assumes "\<And>k v. (k, v) \<in> set ts \<Longrightarrow> text_ok cv k \<and> text_ok cv v" "fresh_world w" "cw_objects w (cw_next w) = None" "coll_new w = (c, w0)"
  shows "(\<exists>w1 w2. pair_extend (map_append cv) c ts w0 = Val w1
      \<and> map_into_iter cv c w1 = Val (map (\<lambda>k. (k, hd (values_of k ts))) (first_keys (map fst ts)), w2)
      \<and> cw_objects w2 = cw_objects w)
    \<and> (\<exists>w1 w2. pair_extend (multimap_append cv) c ts w0 = Val w1
      \<and> multimap_into_iter cv c w1 = Val (map (\<lambda>k. (k, values_of k ts)) (first_keys (map fst ts)), w2)
      \<and> cw_objects w2 = (cw_objects w)(cw_next w \<mapsto> []))"
proof
  note new = coll_new_ok [OF assms(2,4)]
  let ?p = "cw_next w" and ?fs = "first_values ts"
  have empty: "cw_objects w0 ?p = Some []" using new(2) by simp
  have "first_values ([] :: (utf8 \<times> utf8) list) = []" by (simp add: first_values_def)
  with map_extend_ok [of "[]" ts cv w0 ?p] assms(1) new empty obtain w1 where
    w1: "pair_extend (map_append cv) c ts w0 = Val w1" "filled ?p (map (pair_u16 cv) ?fs) w0 w1" by auto
  then have obj: "cw_objects w1 ?p = Some (map (pair_u16 cv) ?fs)" and "fresh_world w1" by (simp_all add: filled_def)
  have ok: "text_ok cv k \<and> text_ok cv v" if "(k, v) \<in> set ?fs" for k v
    using assms(1) set_first_values [OF that] .
  from map_loop_ok [where ts = ?fs and cv = cv, OF ok, of "[0..<length ?fs]" w1 ?p] obj \<open>fresh_world w1\<close> obtain w2 us where
    w2: "map_loop cv ?p [0..<length ?fs] w1 = Val (?fs, w2)" "leaves us w1 w2" by (auto simp: map_nth)
  have "map_into_iter cv c w1 = Val (?fs, w2\<lparr>cw_objects := (cw_objects w2)(?p := None)\<rparr>)"
    using w2 leaves_world(2) [OF w2(2)] obj
    by (simp add: map_into_iter_def coll_mut_def new(1) coll_load_ok coll_drop_def coll_delete_def)
  moreover have "(cw_objects w2)(?p := None) = cw_objects w"
    using leaves_world(2) [OF w2(2)] w1(2) new(2) assms(3) by (auto simp: filled_def)
  ultimately show "\<exists>w1 w2. pair_extend (map_append cv) c ts w0 = Val w1
      \<and> map_into_iter cv c w1 = Val (map (\<lambda>k. (k, hd (values_of k ts))) (first_keys (map fst ts)), w2) \<and> cw_objects w2 = cw_objects w"
    using w1(1) unfolding first_values_def [symmetric] by auto
next
  note new = coll_new_ok [OF assms(2,4)]
  let ?p = "cw_next w"
  have empty: "cw_objects w0 ?p = Some []" using new(2) by simp
  from multimap_extend_ok [where ts = ts and cv = cv, OF assms(1) new(3) empty] obtain w1 where
    w1: "pair_extend (multimap_append cv) c ts w0 = Val w1" "filled ?p (map (pair_u16 cv) ts) w0 w1"
    using new(1) by auto
  then have obj: "cw_objects w1 ?p = Some (map (pair_u16 cv) ts)" and "fresh_world w1" by (simp_all add: filled_def)
  have keys: "map (\<lambda>i. fst (ts ! i)) [0..<length ts] = map fst ts" by (rule nth_equalityI) simp_all
  from multimap_loop_ok [where ts = ts and cv = cv, OF assms(1), of "[0..<length ts]" w1 ?p "[]"] obj \<open>fresh_world w1\<close> obtain w2 us where
    w2: "multimap_loop cv ?p [0..<length ts] [] w1 = Val (map (\<lambda>k. (k, values_of k ts)) (first_keys (map fst ts)), w2)" "leaves us w1 w2"
    unfolding keys by auto
  have "multimap_into_iter cv c w1 =
      Val (map (\<lambda>k. (k, values_of k ts)) (first_keys (map fst ts)), w2\<lparr>cw_objects := (cw_objects w2)(?p \<mapsto> [])\<rparr>)"
    using w2 leaves_world(2) [OF w2(2)] obj
    by (simp add: multimap_into_iter_def coll_mut_def new(1) coll_load_ok multimap_drop_def coll_store_def)
  moreover have "(cw_objects w2)(?p \<mapsto> []) = (cw_objects w)(?p \<mapsto> [])"
    using leaves_world(2) [OF w2(2)] w1(2) new(2) by (simp add: filled_def)
  ultimately show "\<exists>w1 w2. pair_extend (multimap_append cv) c ts w0 = Val w1
      \<and> multimap_into_iter cv c w1 = Val (map (\<lambda>k. (k, values_of k ts)) (first_keys (map fst ts)), w2)
      \<and> cw_objects w2 = (cw_objects w)(?p \<mapsto> [])"
    using w1(1) by auto
qed

end
