(* ===== verification/Message_Pump.thy ===== *)
theory Message_Pump
  imports Prelude
begin

text \<open>
  \<^verbatim>\<open>examples/tests_shared/src/browser/main_message_loop_external_pump\<close>, the message pump that
  runs CEF's work from a GLib main loop on Linux (\<^verbatim>\<open>mod.rs\<close> and \<^verbatim>\<open>linux.rs\<close>). CEF asks for
  work with a delay, which is written to a pipe; GLib calls the source of the pipe when
  there is something to read or when a timer of the source has expired. The pump is behind
  a mutex that the source holds while it runs and that \<^verbatim>\<open>run\<close>, which takes \<^verbatim>\<open>&mut self\<close>, needs for
  as long as its loop goes on; the time of the next work is behind another. Times are whole microseconds, where the code has floating point seconds; a
  message in the pipe is the eight bytes of a delay, written and read as a whole.
\<close>

section \<open>State\<close>






section \<open>The timer\<close>







section \<open>Work\<close>









section \<open>Running the loop\<close>












section \<open>What the pump does\<close>



























section \<open>Properties\<close>




end
