(* ===== verification/Binding_Tree.thy ===== *)
theory Binding_Tree
  imports Prelude "HOL-Library.Char_ord" "HOL-Library.List_Lexorder"
begin

text \<open>
  The front end of the binding generator, \<^verbatim>\<open>update-bindings/src/parse_tree.rs\<close>: the items of
  the C bindings that \<^verbatim>\<open>syn\<close> has parsed become a tree of aliases, enums, structures and
  functions (\<open>tree_from\<close>), types are resolved through aliases and split into pointer
  modifiers and an element type, and the parameters of a function are merged: a count and a
  pointer, or a buffer and its size, become one slice. The crates it calls are parameters:
  \<open>ge_tokens\<close> is the text of a type (\<^verbatim>\<open>proc_macro2\<close>), \<open>ge_upper_camel\<close> and \<open>ge_snake\<close> convert
  the case of names (\<^verbatim>\<open>convert_case\<close>). Writing the bindings out is not modelled.
\<close>

section \<open>Types and items\<close>

text \<open>
  Types as \<^verbatim>\<open>syn\<close> has them. \<open>TSeq\<close> is what resolving makes of a tuple of other than one
  element: its elements with commas and no parentheses, which is not a type.
\<close>

datatype rty =
    TPath string
  | TTuple "rty list"
  | TArray rty string
  | TSlice rty
  | TPtr bool rty
  | TRef bool rty
  | TOther string
  | TSeq "rty list"

record gen_env =
  ge_tokens :: "rty \<Rightarrow> string"
  ge_upper_camel :: "string \<Rightarrow> string"
  ge_snake :: "string \<Rightarrow> string"

definition C_VOID :: string where
  "C_VOID = '':: std :: os :: raw :: c_void''"

record type_alias_ref =
  ta_name :: string
  ta_ty :: rty

record field_ref =
  fr_name :: string
  fr_ty :: rty

record fn_arg_ref =
  fa_name :: string
  fa_ty :: rty

record signature_ref =
  sg_name :: string
  sg_inputs :: "fn_arg_ref list"
  sg_output :: "rty option"

record struct_declaration_ref =
  sd_name :: string
  sd_fields :: "field_ref list"
  sd_methods :: "signature_ref list"
  sd_is_sealed :: bool

datatype name_map_type = TypeAlias | EnumName | StructDeclaration bool

record name_map_entry =
  nm_name :: string
  nm_ty :: name_map_type

text \<open>
  A field of a structure: its name and its type, which may be a path with generic arguments
  that are function pointers or anything else.
\<close>

record bare_fn =
  bf_unsafety :: bool
  bf_abi :: "string option"
  bf_inputs :: "(string option \<times> rty) list"
  bf_variadic :: bool
  bf_output :: "rty option"

datatype generic_arg = GBareFn bare_fn | GOther

record rs_field =
  rf_ident :: "string option"
  rf_segments :: "(string \<times> generic_arg list option) list"
  rf_ty :: rty

datatype fn_arg = ArgReceiver | ArgIdent string rty | ArgPattern

datatype foreign_item = ForeignFn string "fn_arg list" "rty option" | ForeignOther

datatype rs_item =
    ItemType string rty
  | ItemEnum string
  | ItemTupleStruct string nat
  | ItemStruct string "string list" "rs_field list"
  | ItemForeignMod bool "string option" "foreign_item list"
  | ItemOther

text \<open>
  \<^verbatim>\<open>TryFrom<&syn::Field> for SignatureRef\<close>: a field of type \<^verbatim>\<open>std::option::Option\<close> of an unsafe
  function pointer of the C interface is a method.
\<close>

definition signature_try_from :: "rs_field \<Rightarrow> signature_ref option" where
  "signature_try_from field =
     (case rf_ident field of
        None \<Rightarrow> None
      | Some name \<Rightarrow>
          (case rf_segments field of
             [(ident_std, None), (ident_option, None), (ident_type, Some args)] \<Rightarrow>
               if ident_std \<noteq> ''std'' \<or> ident_option \<noteq> ''option'' \<or> ident_type \<noteq> ''Option'' \<or> length args \<noteq> 1 then None
               else
                 (case args of
                    [GBareFn f] \<Rightarrow>
                      if bf_unsafety f \<and> bf_abi f = Some ''C'' \<and> \<not> bf_variadic f
                      then Some \<lparr>sg_name = name,
                                 sg_inputs = List.map_filter (\<lambda>(n, ty). map_option (\<lambda>n. \<lparr>fa_name = n, fa_ty = ty\<rparr>) n) (bf_inputs f),
                                 sg_output = bf_output f\<rparr>
                      else None
                  | _ \<Rightarrow> None)
           | _ \<Rightarrow> None))"

definition field_try_from :: "rs_field \<Rightarrow> field_ref option" where
  "field_try_from field = map_option (\<lambda>n. \<lparr>fr_name = n, fr_ty = rf_ty field\<rparr>) (rf_ident field)"

section \<open>Names\<close>

definition is_custom_string_userfree_alias :: "string \<Rightarrow> bool" where
  "is_custom_string_userfree_alias name \<longleftrightarrow>
     name = ''cef_string_t'' \<or> name = ''cef_string_userfree_t''
     \<or> name \<in> set [''cef_string_userfree_utf8_t'', ''cef_string_userfree_utf16_t'', ''cef_string_userfree_wide_t'']"

definition word_char :: "char \<Rightarrow> bool" where
  "word_char c \<longleftrightarrow> c = CHR ''_'' \<or> c \<in> set ''abcdefghijklmnopqrstuvwxyzABCDEFGHIJKLMNOPQRSTUVWXYZ0123456789''"

definition strip_affix :: "string \<Rightarrow> string \<Rightarrow> string \<Rightarrow> string option" where
  "strip_affix pre post name =
     (let mid = drop (length pre) (take (length name - length post) name)
      in if length pre + length post < length name \<and> name = pre @ mid @ post then Some mid else None)"

text \<open>The group of the pattern \<^verbatim>\<open>^_?cef_(\w+)_t$\<close>, for names of ASCII characters.\<close>

definition cef_type_name :: "string \<Rightarrow> string option" where
  "cef_type_name name =
     (case strip_affix ''cef_'' ''_t'' (if take 1 name = ''_'' then drop 1 name else name) of
        None \<Rightarrow> None
      | Some mid \<Rightarrow> if list_all word_char mid then Some mid else None)"

definition make_rust_type_name :: "gen_env \<Rightarrow> string \<Rightarrow> string option" where
  "make_rust_type_name env name =
     map_option (\<lambda>n. let n = ge_upper_camel env n in if take 6 n = ''String'' then ''Cef'' @ n else n) (cef_type_name name)"

definition make_wrap_type_macro_name :: "string \<Rightarrow> string" where
  "make_wrap_type_macro_name name =
     ''wrap_'' @ (case cef_type_name name of None \<Rightarrow> name | Some n \<Rightarrow> n)"

text \<open>\<^verbatim>\<open>str::trim_start_matches\<close> removes the prefix as often as it is there.\<close>

function trim_start_matches :: "string \<Rightarrow> string \<Rightarrow> string" where
  "trim_start_matches pre name =
     (if pre \<noteq> [] \<and> take (length pre) name = pre then trim_start_matches pre (drop (length pre) name) else name)"
  by auto
termination
proof (relation "measure (\<lambda>(pre, name). length name)")
  fix pre name :: string
  assume "pre \<noteq> [] \<and> take (length pre) name = pre"
  moreover from this have "length pre \<le> length name" by (metis length_take min.cobounded1)
  ultimately show "((pre, drop (length pre) name), pre, name) \<in> measure (\<lambda>(pre, name). length name)"
    by (cases pre) auto
qed simp

declare trim_start_matches.simps [simp del]

definition make_rust_method_name :: "string \<Rightarrow> string" where
  "make_rust_method_name name =
     (if name \<in> set [''get_type'', ''get_layout''] then name else trim_start_matches ''get_'' name)"

section \<open>The tree\<close>

record parse_tree =
  type_aliases :: "type_alias_ref list"
  enum_names :: "string list"
  struct_declarations :: "struct_declaration_ref list"
  global_function_declarations :: "signature_ref list"
  cef_name_map :: "string \<Rightarrow> name_map_entry option"
  rust_name_map :: "string \<Rightarrow> name_map_entry option"
  lookup_type_alias :: "string \<Rightarrow> nat option"
  lookup_enum_name :: "string \<Rightarrow> nat option"
  lookup_struct_declaration :: "string \<Rightarrow> nat option"
  lookup_global_function_declaration :: "string \<Rightarrow> nat option"
  base_types :: "string \<Rightarrow> string option"

text \<open>
  Resolving follows aliases without end if they are cyclic; the first argument bounds the
  depth, and \<^const>\<open>None\<close> says it was not enough. A tuple of one element becomes the element.
\<close>

definition seq_of :: "rty list \<Rightarrow> rty" where
  "seq_of ts = (case ts of [t] \<Rightarrow> t | _ \<Rightarrow> TSeq ts)"

definition alias_type :: "parse_tree \<Rightarrow> string \<Rightarrow> rty option" where
  "alias_type tree name =
     (case cef_name_map tree name of
        Some entry \<Rightarrow>
          if nm_ty entry = TypeAlias
          then (case lookup_type_alias tree name of
                  None \<Rightarrow> None
                | Some i \<Rightarrow> if i < length (type_aliases tree) then Some (ta_ty (type_aliases tree ! i)) else None)
          else None
      | None \<Rightarrow> None)"

definition resolve_step :: "parse_tree \<Rightarrow> (rty \<Rightarrow> rty option) \<Rightarrow> rty \<Rightarrow> rty option" where
  "resolve_step tree resolve ty =
     (case ty of
        TPath name \<Rightarrow>
          if is_custom_string_userfree_alias name then Some ty
          else (case alias_type tree name of None \<Rightarrow> Some ty | Some alias \<Rightarrow> resolve alias)
      | TTuple elems \<Rightarrow> map_option seq_of (those (map resolve elems))
      | TArray elem len \<Rightarrow> map_option (\<lambda>e. TArray e len) (resolve elem)
      | TSlice elem \<Rightarrow> map_option TSlice (resolve elem)
      | TPtr c elem \<Rightarrow> map_option (TPtr c) (resolve elem)
      | _ \<Rightarrow> Some ty)"

primrec resolve_type_aliases :: "nat \<Rightarrow> parse_tree \<Rightarrow> rty \<Rightarrow> rty option" where
  "resolve_type_aliases 0 tree ty = None"
| "resolve_type_aliases (Suc n) tree ty = resolve_step tree (resolve_type_aliases n tree) ty"

datatype type_modifier = MutPtr | ConstPtr | MutSlice | MutRef | SliceMod | RefMod | ArrayMod string

record modified_type =
  mt_modifiers :: "type_modifier list"
  mt_ty :: rty

text \<open>Whether the tokens of a resolved type are those of a type.\<close>

fun is_type :: "rty \<Rightarrow> bool" where
  "is_type (TSeq _) = False"
| "is_type (TPtr _ t) = is_type t"
| "is_type (TArray t _) = is_type t"
| "is_type (TSlice t) = is_type t"
| "is_type _ = True"

definition add_modifier :: "type_modifier \<Rightarrow> modified_type \<Rightarrow> modified_type" where
  "add_modifier m t = t\<lparr>mt_modifiers := m # mt_modifiers t\<rparr>"

definition modified :: "type_modifier list \<Rightarrow> rty \<Rightarrow> modified_type option" where
  "modified ms t = (if is_type t then Some \<lparr>mt_modifiers = ms, mt_ty = t\<rparr> else None)"

fun parse_modified :: "rty \<Rightarrow> modified_type option" where
  "parse_modified (TPtr c t) = map_option (add_modifier (if c then ConstPtr else MutPtr)) (parse_modified t)"
| "parse_modified (TRef m (TSlice t)) = modified [if m then MutSlice else SliceMod] t"
| "parse_modified (TRef m (TArray t len)) = None"
| "parse_modified (TRef m t) = map_option (add_modifier (if m then MutRef else RefMod)) (parse_modified t)"
| "parse_modified (TArray t len) = modified [ArrayMod len] t"
| "parse_modified (TSlice t) = None"
| "parse_modified (TSeq ts) = None"
| "parse_modified t = modified [] t"

definition resolve_modified_type :: "nat \<Rightarrow> parse_tree \<Rightarrow> rty \<Rightarrow> modified_type option option" where
  "resolve_modified_type n tree ty = map_option parse_modified (resolve_type_aliases n tree ty)"

text \<open>The base of a structure, and the first one that has none.\<close>

definition base_type :: "parse_tree \<Rightarrow> string \<Rightarrow> string option" where
  "base_type tree name = base_types tree name"

partial_function (option) root :: "parse_tree \<Rightarrow> string \<Rightarrow> string option" where
  "root tree name = (case base_type tree name of None \<Rightarrow> Some name | Some b \<Rightarrow> root tree b)"

section \<open>Making the tree\<close>

definition struct_of :: "rs_item \<Rightarrow> struct_declaration_ref option" where
  "struct_of item =
     (case item of
        ItemStruct name docs named \<Rightarrow>
          let methods = List.map_filter signature_try_from named;
              fields = List.map_filter (\<lambda>f. case signature_try_from f of Some _ \<Rightarrow> None | None \<Rightarrow> field_try_from f) named;
              note_text = ''NOTE: This struct is allocated DLL-side.'' @ [CHR 0x5C, CHR ''n'', CHR 0x22]
          in Some \<lparr>sd_name = name, sd_fields = fields, sd_methods = methods,
                   sd_is_sealed = (case docs of [] \<Rightarrow> False | d # _ \<Rightarrow> drop (length d - length note_text) d = note_text)\<rparr>
      | _ \<Rightarrow> None)"

definition enum_of :: "rs_item \<Rightarrow> string option" where
  "enum_of item =
     (case item of ItemEnum name \<Rightarrow> Some name | ItemTupleStruct name n \<Rightarrow> if n = 1 then Some name else None | _ \<Rightarrow> None)"

definition alias_of :: "rs_item \<Rightarrow> type_alias_ref option" where
  "alias_of item = (case item of ItemType name ty \<Rightarrow> Some \<lparr>ta_name = name, ta_ty = ty\<rparr> | _ \<Rightarrow> None)"

text \<open>Functions of the C interface; a receiver or a pattern as an argument is unreachable and panics.\<close>

fun global_args :: "fn_arg list \<Rightarrow> fn_arg_ref list option" where
  "global_args [] = Some []"
| "global_args (ArgIdent name ty # args) = map_option (\<lambda>as. \<lparr>fa_name = name, fa_ty = ty\<rparr> # as) (global_args args)"
| "global_args (_ # args) = None"

definition functions_of :: "rs_item \<Rightarrow> signature_ref option list" where
  "functions_of item =
     (case item of
        ItemForeignMod unsafety abi items \<Rightarrow>
          if unsafety \<and> abi = Some ''C''
          then List.map_filter
                 (\<lambda>i. case i of
                    ForeignFn name args out \<Rightarrow>
                      Some (map_option (\<lambda>inputs. \<lparr>sg_name = name, sg_inputs = inputs, sg_output = out\<rparr>) (global_args args))
                  | ForeignOther \<Rightarrow> None) items
          else []
      | _ \<Rightarrow> [])"

text \<open>Collecting pairs into a \<^verbatim>\<open>BTreeMap\<close>: of equal keys the last entry stays.\<close>

definition collect_map :: "('k \<times> 'v) list \<Rightarrow> 'k \<Rightarrow> 'v option" where
  "collect_map kvs = map_of (rev kvs)"

definition named_kinds :: "parse_tree \<Rightarrow> (string \<times> name_map_type) list" where
  "named_kinds tree =
     map (\<lambda>a. (ta_name a, TypeAlias)) (type_aliases tree) @ map (\<lambda>e. (e, EnumName)) (enum_names tree)
     @ map (\<lambda>s. (sd_name s, StructDeclaration (sd_is_sealed s))) (struct_declarations tree)"

definition name_entries :: "gen_env \<Rightarrow> parse_tree \<Rightarrow> (string \<times> name_map_entry) list" where
  "name_entries env tree =
     List.map_filter
       (\<lambda>(cef_name, ty).
          case make_rust_type_name env cef_name of
            None \<Rightarrow> None
          | Some rust_name \<Rightarrow> if cef_name = rust_name then None else Some (cef_name, \<lparr>nm_name = rust_name, nm_ty = ty\<rparr>))
       (named_kinds tree)"

definition index_map :: "string list \<Rightarrow> string \<Rightarrow> nat option" where
  "index_map names = collect_map (zip names [0..<length names])"

text \<open>
  The Rust names back to the C ones, in the order of the C names: of equal Rust names the
  greatest C name stays.
\<close>

definition invert_names :: "(string \<times> name_map_entry) list \<Rightarrow> (string \<times> name_map_entry) list" where
  "invert_names entries =
     (let keys = remdups (map fst entries);
          sorted_keys = sort keys
      in map (\<lambda>k. let e = the (collect_map entries k) in (nm_name e, \<lparr>nm_name = k, nm_ty = nm_ty e\<rparr>)) sorted_keys)"

definition base_entry :: "gen_env \<Rightarrow> nat \<Rightarrow> parse_tree \<Rightarrow> struct_declaration_ref \<Rightarrow> (string \<times> string) option option" where
  "base_entry env n tree s =
     (case sd_fields s of
        [f] \<Rightarrow>
          if fr_name f = ''base''
          then map_option (\<lambda>t. Some (sd_name s, ge_tokens env t)) (resolve_type_aliases n tree (fr_ty f))
          else Some None
      | _ \<Rightarrow> Some None)"

definition tree_named :: "gen_env \<Rightarrow> rs_item list \<Rightarrow> signature_ref list \<Rightarrow> parse_tree" where
  "tree_named env items functions =
     (let tree = \<lparr>type_aliases = List.map_filter alias_of items, enum_names = List.map_filter enum_of items,
                  struct_declarations = List.map_filter struct_of items, global_function_declarations = functions,
                  cef_name_map = Map.empty, rust_name_map = Map.empty, lookup_type_alias = Map.empty, lookup_enum_name = Map.empty,
                  lookup_struct_declaration = Map.empty, lookup_global_function_declaration = Map.empty, base_types = Map.empty\<rparr>;
          entries = name_entries env tree
      in tree\<lparr>cef_name_map := collect_map entries, rust_name_map := collect_map (invert_names entries),
              lookup_type_alias := index_map (map ta_name (type_aliases tree)), lookup_enum_name := index_map (enum_names tree),
              lookup_struct_declaration := index_map (map sd_name (struct_declarations tree)),
              lookup_global_function_declaration := index_map (map sg_name functions)\<rparr>)"

text \<open>\<^const>\<open>None\<close>: a function with an unreachable argument, or aliases deeper than the bound.\<close>

definition tree_from :: "gen_env \<Rightarrow> nat \<Rightarrow> rs_item list \<Rightarrow> parse_tree option" where
  "tree_from env n items =
     (case those (concat (map functions_of items)) of
        None \<Rightarrow> None
      | Some functions \<Rightarrow>
          let tree = tree_named env items functions
          in map_option (\<lambda>bases. tree\<lparr>base_types := collect_map (List.map_filter (\<lambda>b. b) bases)\<rparr>)
               (those (map (base_entry env n tree) (struct_declarations tree))))"

section \<open>Resolving types\<close>

text \<open>
  The names of a type that resolving looks up, and when a type has no name left to resolve.
\<close>

fun type_paths :: "rty \<Rightarrow> string set" where
  "type_paths (TPath name) = {name}"
| "type_paths (TTuple ts) = (\<Union>t\<in>set ts. type_paths t)"
| "type_paths (TArray t _) = type_paths t"
| "type_paths (TSlice t) = type_paths t"
| "type_paths (TPtr _ t) = type_paths t"
| "type_paths _ = {}"

fun resolved :: "parse_tree \<Rightarrow> rty \<Rightarrow> bool" where
  "resolved tree (TPath name) \<longleftrightarrow> is_custom_string_userfree_alias name \<or> alias_type tree name = None"
| "resolved tree (TTuple ts) \<longleftrightarrow> False"
| "resolved tree (TArray t _) \<longleftrightarrow> resolved tree t"
| "resolved tree (TSlice t) \<longleftrightarrow> resolved tree t"
| "resolved tree (TPtr _ t) \<longleftrightarrow> resolved tree t"
| "resolved tree _ \<longleftrightarrow> True"

definition alias_rel :: "parse_tree \<Rightarrow> (string \<times> string) set" where
  "alias_rel tree =
     {(b, a). \<not> is_custom_string_userfree_alias a \<and> (\<exists>t. alias_type tree a = Some t \<and> b \<in> type_paths t)}"

lemma those_map_Some: "those (map f xs) = Some ys \<longleftrightarrow> list_all2 (\<lambda>x y. f x = Some y) xs ys"
proof (induction xs arbitrary: ys)
  case (Cons x xs)
  show ?case by (cases ys) (auto simp: Cons.IH split: option.splits)
qed auto

lemma those_map_ne_None: "those (map f xs) \<noteq> None \<longleftrightarrow> (\<forall>x\<in>set xs. f x \<noteq> None)"
  by (induction xs) (auto split: option.splits)

lemma resolve_step_mono:
  assumes "\<And>t r. f t = Some r \<Longrightarrow> g t = Some r" "resolve_step tree f t = Some r"
  shows "resolve_step tree g t = Some r"
proof (cases t)
  case (TTuple ts)
  with assms(2) obtain rs where rs: "list_all2 (\<lambda>t r. f t = Some r) ts rs" "r = seq_of rs"
    by (auto simp: resolve_step_def those_map_Some)
  from rs(1) have "list_all2 (\<lambda>t r. g t = Some r) ts rs" by (rule list_all2_mono) (rule assms(1))
  with TTuple rs(2) show ?thesis by (auto simp: resolve_step_def those_map_Some [symmetric])
qed (use assms in \<open>auto simp: resolve_step_def split: if_splits option.splits\<close>)

lemma resolve_Suc: "resolve_type_aliases n tree t = Some r \<Longrightarrow> resolve_type_aliases (Suc n) tree t = Some r"
proof (induction n arbitrary: t r)
  case (Suc n)
  then show ?case
    using resolve_step_mono [of "resolve_type_aliases n tree" "resolve_type_aliases (Suc n) tree"] by simp
qed simp

lemma resolve_mono: "resolve_type_aliases n tree t = Some r \<Longrightarrow> n \<le> m \<Longrightarrow> resolve_type_aliases m tree t = Some r"
  by (induction m) (auto simp: le_Suc_eq simp del: resolve_type_aliases.simps dest: resolve_Suc)

lemma resolve_mono_None: "resolve_type_aliases n tree t \<noteq> None \<Longrightarrow> n \<le> m \<Longrightarrow> resolve_type_aliases m tree t \<noteq> None"
  using resolve_mono by (metis option.exhaust)

lemma resolve_resolved: "resolve_type_aliases n tree t = Some r \<Longrightarrow> resolved tree r"
proof (induction n arbitrary: t r)
  case (Suc n)
  show ?case
  proof (cases t)
    case (TTuple ts)
    with Suc.prems obtain rs where rs: "list_all2 (\<lambda>t r. resolve_type_aliases n tree t = Some r) ts rs" "r = seq_of rs"
      by (auto simp: resolve_step_def those_map_Some)
    then show ?thesis by (auto simp: seq_of_def list_all2_Cons2 intro: Suc.IH split: list.splits)
  qed (use Suc in \<open>auto simp: resolve_step_def split: if_splits option.splits\<close>)
qed simp

lemma resolve_ends_type:
  assumes "\<And>b. b \<in> type_paths t \<Longrightarrow> \<exists>n. resolve_type_aliases n tree (TPath b) \<noteq> None"
  shows "\<exists>n. resolve_type_aliases n tree t \<noteq> None"
  using assms
proof (induction t)
  case (TTuple ts)
  then have "\<forall>t\<in>set ts. \<exists>n. resolve_type_aliases n tree t \<noteq> None" by force
  then obtain f where f: "\<forall>t\<in>set ts. resolve_type_aliases (f t) tree t \<noteq> None" by metis
  have "resolve_type_aliases (Max (f ` set ts)) tree t \<noteq> None" if "t \<in> set ts" for t
    by (rule resolve_mono_None [of "f t"]) (use f that in auto)
  then have "resolve_type_aliases (Suc (Max (f ` set ts))) tree (TTuple ts) \<noteq> None"
    by (simp add: resolve_step_def those_map_ne_None del: not_None_eq)
  then show ?case by blast
next
  case (TArray t len)
  then obtain n where "resolve_type_aliases n tree t \<noteq> None" by auto
  then show ?case by (intro exI [of _ "Suc n"]) (auto simp: resolve_step_def)
next
  case (TSlice t)
  then obtain n where "resolve_type_aliases n tree t \<noteq> None" by auto
  then show ?case by (intro exI [of _ "Suc n"]) (auto simp: resolve_step_def)
next
  case (TPtr c t)
  then obtain n where "resolve_type_aliases n tree t \<noteq> None" by auto
  then show ?case by (intro exI [of _ "Suc n"]) (auto simp: resolve_step_def)
qed (auto simp: resolve_step_def intro: exI [of _ "Suc 0"])

lemma resolve_ends_name:
  assumes "wf (alias_rel tree)"
  shows "\<exists>n. resolve_type_aliases n tree (TPath a) \<noteq> None"
  using assms
proof (induction a rule: wf_induct_rule)
  case (less a)
  show ?case
  proof (cases "is_custom_string_userfree_alias a \<or> alias_type tree a = None")
    case True
    then show ?thesis by (intro exI [of _ "Suc 0"]) (auto simp: resolve_step_def)
  next
    case False
    then obtain t where t: "alias_type tree a = Some t" "\<not> is_custom_string_userfree_alias a" by auto
    then have "\<exists>n. resolve_type_aliases n tree t \<noteq> None"
      by (intro resolve_ends_type [of t tree]) (rule less.IH, auto simp: alias_rel_def)
    then obtain n where "resolve_type_aliases n tree t \<noteq> None" ..
    then show ?thesis using t by (intro exI [of _ "Suc n"]) (auto simp: resolve_step_def)
  qed
qed

lemma resolve_path_of: "resolve_type_aliases n tree t \<noteq> None \<Longrightarrow> b \<in> type_paths t \<Longrightarrow> resolve_type_aliases n tree (TPath b) \<noteq> None"
proof (induction n arbitrary: t)
  case (Suc n)
  from Suc.prems show ?case
  proof (cases t)
    case (TTuple ts)
    with Suc.prems obtain u where u: "u \<in> set ts" "b \<in> type_paths u" by auto
    from TTuple Suc.prems(1) u(1) have "resolve_type_aliases n tree u \<noteq> None"
      by (simp add: resolve_step_def those_map_ne_None del: not_None_eq)
    from resolve_mono_None [OF Suc.IH [OF this u(2)], of "Suc n"] show ?thesis by simp
  qed (use Suc resolve_mono_None [of n tree "TPath b" "Suc n"] in \<open>auto simp: resolve_step_def\<close>)
qed simp

lemma resolve_ends_wf:
  assumes "\<forall>t. \<exists>n. resolve_type_aliases n tree t \<noteq> None"
  shows "wf (alias_rel tree)"
proof -
  define rank where "rank a = (LEAST n. resolve_type_aliases n tree (TPath a) \<noteq> None)" for a
  have rank: "resolve_type_aliases (rank a) tree (TPath a) \<noteq> None" for a
    unfolding rank_def using assms by (metis (mono_tags, lifting) LeastI_ex)
  have "alias_rel tree \<subseteq> measure rank"
  proof (clarsimp simp: alias_rel_def)
    fix a b t
    assume t: "\<not> is_custom_string_userfree_alias a" "alias_type tree a = Some t" "b \<in> type_paths t"
    obtain m where m: "rank a = Suc m" using rank [of a] by (cases "rank a") auto
    with rank [of a] t have "resolve_type_aliases m tree t \<noteq> None" by (auto simp: resolve_step_def)
    from resolve_path_of [OF this t(3)] have "rank b \<le> m" unfolding rank_def by (rule Least_le)
    with m show "rank b < rank a" by simp
  qed
  then show ?thesis by (rule wf_subset [OF wf_measure])
qed

section \<open>The maps of the tree\<close>

lemma collect_map_simps [simp]:
  "collect_map [] = Map.empty"
  "collect_map (kvs @ [(k, v)]) = (collect_map kvs)(k \<mapsto> v)"
  by (auto simp: collect_map_def)

lemma collect_map_append: "collect_map (xs @ ys) = collect_map xs ++ collect_map ys"
  by (simp add: collect_map_def map_add_def fun_eq_iff split: option.splits)

lemma collect_map_in: "collect_map kvs k = Some v \<Longrightarrow> (k, v) \<in> set kvs"
  by (auto simp: collect_map_def dest: map_of_SomeD)

lemma collect_map_dom: "k \<in> fst ` set kvs \<Longrightarrow> \<exists>v. collect_map kvs k = Some v"
  using weak_map_of_SomeI [of k _ "rev kvs"] by (fastforce simp: collect_map_def)

lemma index_map_simps [simp]:
  "index_map [] = Map.empty"
  "index_map (xs @ [x]) = (index_map xs)(x \<mapsto> length xs)"
  by (simp_all add: index_map_def)

lemma index_map_bound: "index_map xs x = Some i \<Longrightarrow> i < length xs \<and> xs ! i = x"
  by (induction xs rule: rev_induct) (auto simp: nth_append split: if_splits)

lemma index_map_dom: "x \<in> set xs \<Longrightarrow> \<exists>i. index_map xs x = Some i"
  by (induction xs rule: rev_induct) auto

lemma collect_map_index:
  "collect_map (map (\<lambda>x. (key x, val x)) xs) k = map_option (\<lambda>i. val (xs ! i)) (index_map (map key xs) k)"
proof (induction xs rule: rev_induct)
  case (snoc x xs)
  show ?case
  proof (cases "index_map (map key xs) k")
    case (Some i)
    with index_map_bound [OF Some] snoc show ?thesis by (auto simp: nth_append)
  qed (use snoc in \<open>auto simp: nth_append\<close>)
qed simp

text \<open>Entries that are dropped or rewritten by their key alone keep the order of the others.\<close>

lemma collect_map_filter:
  "collect_map (List.map_filter (\<lambda>(k, v). map_option (\<lambda>f. (k, f v)) (g k)) kvs) k
     = (case g k of None \<Rightarrow> None | Some f \<Rightarrow> map_option f (collect_map kvs k))"
proof (induction kvs rule: rev_induct)
  case (snoc kv kvs)
  obtain k' v where kv: "kv = (k', v)" by (cases kv)
  show ?case
    using snoc by (cases "g k'") (auto simp: kv List.map_filter_def split: option.splits)
qed (simp add: List.map_filter_def split: option.splits)

text \<open>What a name stands for: a structure before an enum before an alias, the last of its kind.\<close>

definition kind_of_name :: "parse_tree \<Rightarrow> string \<Rightarrow> name_map_type option" where
  "kind_of_name tree name =
     (case lookup_struct_declaration tree name of
        Some i \<Rightarrow> Some (StructDeclaration (sd_is_sealed (struct_declarations tree ! i)))
      | None \<Rightarrow>
          (case lookup_enum_name tree name of
             Some i \<Rightarrow> Some EnumName
           | None \<Rightarrow> map_option (\<lambda>i. TypeAlias) (lookup_type_alias tree name)))"

definition rust_name_of :: "gen_env \<Rightarrow> string \<Rightarrow> string option" where
  "rust_name_of env name = (case make_rust_type_name env name of None \<Rightarrow> None | Some r \<Rightarrow> if name = r then None else Some r)"

definition names_consistent :: "gen_env \<Rightarrow> parse_tree \<Rightarrow> bool" where
  "names_consistent env tree \<longleftrightarrow>
     lookup_type_alias tree = index_map (map ta_name (type_aliases tree))
     \<and> lookup_enum_name tree = index_map (enum_names tree)
     \<and> lookup_struct_declaration tree = index_map (map sd_name (struct_declarations tree))
     \<and> lookup_global_function_declaration tree = index_map (map sg_name (global_function_declarations tree))
     \<and> (\<forall>name. cef_name_map tree name =
          (case rust_name_of env name of
             None \<Rightarrow> None
           | Some r \<Rightarrow> map_option (\<lambda>ty. \<lparr>nm_name = r, nm_ty = ty\<rparr>) (kind_of_name tree name)))"

lemma collect_name_entries:
  "collect_map (name_entries env tree) name =
     (case rust_name_of env name of
        None \<Rightarrow> None
      | Some r \<Rightarrow> map_option (\<lambda>ty. \<lparr>nm_name = r, nm_ty = ty\<rparr>) (collect_map (named_kinds tree) name))"
proof -
  define g where "g k = map_option (\<lambda>r ty. \<lparr>nm_name = r, nm_ty = ty\<rparr>) (rust_name_of env k)" for k
  have "name_entries env tree = List.map_filter (\<lambda>(k, v). map_option (\<lambda>f. (k, f v)) (g k)) (named_kinds tree)"
    unfolding name_entries_def
    by (rule arg_cong [where f = "\<lambda>f. List.map_filter f (named_kinds tree)"])
      (auto simp: fun_eq_iff g_def rust_name_of_def split: option.splits)
  then show ?thesis by (simp add: collect_map_filter) (simp add: g_def split: option.splits)
qed

lemma collect_named_kinds:
  "collect_map (named_kinds tree) name =
     (case map_option (\<lambda>i. StructDeclaration (sd_is_sealed (struct_declarations tree ! i)))
             (index_map (map sd_name (struct_declarations tree)) name) of
        Some k \<Rightarrow> Some k
      | None \<Rightarrow>
          (case index_map (enum_names tree) name of
             Some i \<Rightarrow> Some EnumName
           | None \<Rightarrow> map_option (\<lambda>i. TypeAlias) (index_map (map ta_name (type_aliases tree)) name)))"
  by (simp add: named_kinds_def collect_map_append map_add_def collect_map_index [of "\<lambda>e. e", simplified]
      collect_map_index split: option.splits)

lemma tree_named_consistent: "names_consistent env (tree_named env items functions)"
  unfolding names_consistent_def
  by (simp add: tree_named_def Let_def collect_name_entries collect_named_kinds kind_of_name_def split: option.splits)

lemma tree_from_SomeE:
  assumes "tree_from env n items = Some tree"
  obtains fns bases where "tree = (tree_named env items fns)\<lparr>base_types := bases\<rparr>"
  using assms by (auto simp: tree_from_def Let_def split: option.splits)

lemma tree_from_consistent: "tree_from env n items = Some tree \<Longrightarrow> names_consistent env tree"
proof (elim tree_from_SomeE)
  fix fns bases
  assume "tree = (tree_named env items fns)\<lparr>base_types := bases\<rparr>"
  with tree_named_consistent [of env items fns] show ?thesis
    by (simp add: names_consistent_def kind_of_name_def cong: option.case_cong)
qed

lemma consistent_alias_known:
  assumes "names_consistent env tree" "cef_name_map tree name = Some entry" "nm_ty entry = TypeAlias"
  shows "\<exists>t. alias_type tree name = Some t"
proof -
  from assms have "kind_of_name tree name = Some TypeAlias"
    by (auto simp: names_consistent_def split: option.splits)
  then obtain i where "lookup_type_alias tree name = Some i" by (auto simp: kind_of_name_def split: option.splits)
  with assms show ?thesis
    by (auto simp: alias_type_def names_consistent_def dest!: index_map_bound)
qed

lemma invert_names_in:
  assumes "(r, e') \<in> set (invert_names entries)"
  shows "\<exists>e. collect_map entries (nm_name e') = Some e \<and> nm_name e = r \<and> nm_ty e = nm_ty e'"
proof -
  from assms obtain k where k: "k \<in> fst ` set entries" "r = nm_name (the (collect_map entries k))"
      "e' = \<lparr>nm_name = k, nm_ty = nm_ty (the (collect_map entries k))\<rparr>"
    by (auto simp: invert_names_def Let_def)
  with collect_map_dom [OF k(1)] show ?thesis by auto
qed

section \<open>Properties of the tree\<close>

text \<open>
  Types are resolved without end exactly when the aliases are cyclic: every type
  resolves, at some depth, if and only if the relation from an alias to the names in its
  definition is well-founded. The depth does not change the result, and a resolved type has
  no name left that stands for an alias, other than the string types that are kept.
\<close>

lemma resolve_ends:
  "((\<forall>t. \<exists>n r. resolve_type_aliases n tree t = Some r) \<longleftrightarrow> wf (alias_rel tree))
   \<and> (resolve_type_aliases n tree t = Some r \<longrightarrow>
        (\<forall>m\<ge>n. resolve_type_aliases m tree t = Some r) \<and> resolved tree r)"
proof -
  have "(\<forall>t. \<exists>n. resolve_type_aliases n tree t \<noteq> None) \<longleftrightarrow> wf (alias_rel tree)"
    using resolve_ends_wf [of tree] resolve_ends_type [OF resolve_ends_name] by blast
  then show ?thesis by (auto intro: resolve_mono resolve_resolved)
qed

text \<open>
  The maps of a tree made from parsed items agree with its lists: the name of a C
  type maps to its Rust name and to what it was declared as, a structure before an enum before
  an alias and the last declaration of the name, with the seal of that very structure; and a
  Rust name maps back to a C name that has it, with the same kind.
\<close>

lemma tree_names:
  assumes "tree_from env n items = Some tree"
  shows "names_consistent env tree
    \<and> (rust_name_map tree r = Some b \<longrightarrow>
         (\<exists>e. cef_name_map tree (nm_name b) = Some e \<and> nm_name e = r \<and> nm_ty e = nm_ty b))"
proof -
  obtain fns bases where tree: "tree = (tree_named env items fns)\<lparr>base_types := bases\<rparr>"
    using assms by (rule tree_from_SomeE)
  define T where "T = tree_named env items fns"
  have maps: "\<exists>entries. cef_name_map T = collect_map entries \<and> rust_name_map T = collect_map (invert_names entries)"
    by (simp add: T_def tree_named_def Let_def) blast
  then have "\<exists>e. cef_name_map tree (nm_name b) = Some e \<and> nm_name e = r \<and> nm_ty e = nm_ty b"
    if "rust_name_map tree r = Some b"
    using that invert_names_in [OF collect_map_in] by (auto simp: tree T_def [symmetric])
  with tree_from_consistent [OF assms] show ?thesis by blast
qed

definition plain_tokens :: "rty \<Rightarrow> string" where
  "plain_tokens t = (case t of TPath name \<Rightarrow> name | TOther s \<Rightarrow> ''<'' @ s | _ \<Rightarrow> ''<>'')"

definition plain_env :: gen_env where
  "plain_env = \<lparr>ge_tokens = plain_tokens, ge_upper_camel = (\<lambda>s. s), ge_snake = (\<lambda>s. s)\<rparr>"

definition example_items :: "rs_item list" where
  "example_items =
     [ItemType ''cef_id_t'' (TPath ''cef_num_t''), ItemType ''cef_num_t'' (TPath ''u64''),
      ItemStruct ''_cef_frame_t'' [] [\<lparr>rf_ident = Some ''base'', rf_segments = [], rf_ty = TPath ''_cef_base_ref_counted_t''\<rparr>]]"

definition example_tree :: parse_tree where
  "example_tree = the (tree_from plain_env 3 example_items)"

lemma example_tree_from: "tree_from plain_env 3 example_items = Some example_tree"
proof -
  have "\<not> Option.is_none (tree_from plain_env 3 example_items)" by code_simp
  then show ?thesis by (simp add: example_tree_def Option.is_none_def)
qed

end
