(* ===== verification/Binding_Signatures.thy ===== *)
theory Binding_Signatures
  imports Binding_Tree
begin

text \<open>
  The signatures the binding generator gives to the functions of the C interface
  (\<^verbatim>\<open>update-bindings/src/parse_tree.rs\<close>): \<open>merge_params\<close> replaces neighbouring parameters, a count and a
  pointer or a buffer and its size, by one slice in a loop that updates the list of parameters
  in place; \<open>get_argument_type\<close> and \<open>get_output_type\<close> choose the Rust types. The types are a
  datatype here, where the generator has tokens. A result of \<^const>\<open>None\<close> on the outside says
  the generator does not return: cyclic aliases or cyclic bases.
\<close>

section \<open>Merging parameters\<close>

datatype merged_param =
    Receiver
  | Single string "modified_type option"
  | Bounded string modified_type string modified_type
  | Buffer string modified_type string modified_type

definition has_tokens :: "gen_env \<Rightarrow> modified_type \<Rightarrow> string \<Rightarrow> bool" where
  "has_tokens env t s \<longleftrightarrow> ge_tokens env (mt_ty t) = s"

text \<open>The modifiers of the slice a count and an element pointer become.\<close>

definition bounded_modifiers :: "bool \<Rightarrow> type_modifier list \<Rightarrow> type_modifier list \<Rightarrow> type_modifier list option" where
  "bounded_modifiers is_struct count_ms elem_ms =
     (if count_ms = [] \<and> elem_ms = [ConstPtr] then Some [SliceMod]
      else if is_struct \<and> count_ms = [] \<and> elem_ms = [ConstPtr, MutPtr] then Some [SliceMod, MutPtr]
      else if count_ms = [MutPtr] \<and> elem_ms = [MutPtr] then Some [MutSlice]
      else if is_struct \<and> count_ms = [MutPtr] \<and> elem_ms = [MutPtr, MutPtr] then Some [MutSlice, MutPtr]
      else None)"

definition buffer_modifiers :: "type_modifier list \<Rightarrow> type_modifier list \<Rightarrow> type_modifier list option" where
  "buffer_modifiers size_ms elem_ms =
     (if size_ms = [] \<and> elem_ms = [ConstPtr] then Some [SliceMod]
      else if size_ms = [] \<and> elem_ms = [MutPtr] then Some [MutSlice]
      else if size_ms = [MutPtr] \<and> elem_ms = [MutPtr, MutPtr] then Some [MutSlice]
      else None)"

definition is_struct_name :: "parse_tree \<Rightarrow> string \<Rightarrow> bool" where
  "is_struct_name tree name \<longleftrightarrow>
     (case cef_name_map tree name of
        Some entry \<Rightarrow> (case nm_ty entry of StructDeclaration _ \<Rightarrow> True | _ \<Rightarrow> False)
      | None \<Rightarrow> False)"

text \<open>
  The replacement of two neighbours; \<^const>\<open>None\<close> leaves them as they are. The first rule that
  applies to the names decides, whether or not the types fit it.
\<close>

definition merge_singles ::
  "gen_env \<Rightarrow> parse_tree \<Rightarrow> string \<Rightarrow> modified_type \<Rightarrow> string \<Rightarrow> modified_type \<Rightarrow> merged_param option" where
  "merge_singles env tree n1 t1 n2 t2 =
     (if n1 = n2 @ ''_count''
      then (if has_tokens env t1 ''usize''
            then map_option (\<lambda>ms. Bounded n1 t1 n2 (t2\<lparr>mt_modifiers := ms\<rparr>))
                   (bounded_modifiers (is_struct_name tree (ge_tokens env (mt_ty t2))) (mt_modifiers t1) (mt_modifiers t2))
            else None)
      else if has_tokens env t1 C_VOID
      then (if n2 = n1 @ ''_size'' \<and> has_tokens env t2 ''usize''
            then map_option (\<lambda>ms. Buffer n1 (t1\<lparr>mt_modifiers := ms\<rparr>) n2 t2) (buffer_modifiers (mt_modifiers t2) (mt_modifiers t1))
            else None)
      else if (n2 = n1 @ ''_size'' \<or> n2 = n1 @ ''_len'') \<and> has_tokens env t2 ''usize''
      then map_option (\<lambda>ms. Buffer n1 (t1\<lparr>mt_modifiers := ms\<rparr>) n2 t2) (buffer_modifiers (mt_modifiers t2) (mt_modifiers t1))
      else None)"

definition merge_pair :: "gen_env \<Rightarrow> parse_tree \<Rightarrow> merged_param option \<Rightarrow> merged_param option \<Rightarrow> merged_param option" where
  "merge_pair env tree a b =
     (case (a, b) of
        (Some (Single n1 (Some t1)), Some (Single n2 (Some t2))) \<Rightarrow> merge_singles env tree n1 t1 n2 t2
      | _ \<Rightarrow> None)"

definition merge_step :: "gen_env \<Rightarrow> parse_tree \<Rightarrow> merged_param option list \<Rightarrow> nat \<Rightarrow> merged_param option list" where
  "merge_step env tree args i =
     (case merge_pair env tree (args ! (i - 1)) (args ! i) of
        None \<Rightarrow> args
      | Some replacement \<Rightarrow> args[i - 1 := Some replacement, i := None])"

definition merge_loop :: "gen_env \<Rightarrow> parse_tree \<Rightarrow> merged_param option list \<Rightarrow> merged_param option list" where
  "merge_loop env tree args = foldl (merge_step env tree) args [1..<length args]"

definition as_receiver :: "merged_param \<Rightarrow> merged_param" where
  "as_receiver arg = (case arg of Single name ty \<Rightarrow> if name = ''self_'' then Receiver else arg | _ \<Rightarrow> arg)"

definition single_param :: "gen_env \<Rightarrow> nat \<Rightarrow> parse_tree \<Rightarrow> fn_arg_ref \<Rightarrow> merged_param option" where
  "single_param env n tree arg =
     map_option (Single (ge_snake env (fa_name arg))) (resolve_modified_type n tree (fa_ty arg))"

definition merge_params :: "gen_env \<Rightarrow> nat \<Rightarrow> parse_tree \<Rightarrow> signature_ref \<Rightarrow> merged_param list option" where
  "merge_params env n tree sig =
     map_option (\<lambda>args. map as_receiver (List.map_filter (\<lambda>a. a) (merge_loop env tree (map Some args))))
       (those (map (single_param env n tree) (sg_inputs sig)))"

section \<open>Rust types\<close>

text \<open>
  \<open>RSplice\<close> is the element type with its pointers as the C interface has it, \<open>RUnbalanced\<close> the tokens
  of a type followed by a closing angle bracket nothing opened.
\<close>

datatype rs_ty =
    RIdent string
  | RImpl string
  | RSplice "bool list" rty
  | RU8Ptr "bool list"
  | RU8
  | ROption rs_ty
  | RRef rs_ty
  | RRefMut rs_ty
  | RSlice rs_ty
  | RVec rs_ty
  | RUnbalanced rs_ty

definition BASE_REF_COUNTED :: string where
  "BASE_REF_COUNTED = ''_cef_base_ref_counted_t''"

definition pointer_modifiers :: "type_modifier list \<Rightarrow> bool list option" where
  "pointer_modifiers ms = those (map (\<lambda>m. case m of MutPtr \<Rightarrow> Some False | ConstPtr \<Rightarrow> Some True | _ \<Rightarrow> None) ms)"

definition argument_pointer :: "type_modifier list \<Rightarrow> rty \<Rightarrow> rs_ty option" where
  "argument_pointer ms ty = map_option (\<lambda>ps. RSplice ps ty) (pointer_modifiers ms)"

text \<open>Structures: \<open>shared\<close> is how a borrowed one is named.\<close>

definition argument_struct :: "rs_ty \<Rightarrow> rs_ty \<Rightarrow> type_modifier list \<Rightarrow> rs_ty option" where
  "argument_struct name shared ms =
     (if ms = [ConstPtr] then Some (ROption (RRef shared))
      else if ms = [MutPtr] then Some (ROption (RRefMut name))
      else if ms = [MutPtr, MutPtr] then Some (ROption (RRefMut (ROption name)))
      else if ms = [SliceMod] then Some (ROption (RRef (RSlice shared)))
      else if ms = [SliceMod, MutPtr] then Some (ROption (RRef (RSlice (ROption shared))))
      else if ms = [MutSlice] then Some (ROption (RRefMut (RVec name)))
      else if ms = [MutSlice, MutPtr] then Some (ROption (RRefMut (RVec (ROption name))))
      else None)"

definition argument_string :: "rs_ty \<Rightarrow> type_modifier list \<Rightarrow> rs_ty option" where
  "argument_string name ms =
     (if ms = [] then Some name
      else if ms = [ConstPtr] then Some (ROption (RRef name))
      else if ms = [MutPtr] then Some (ROption (RRefMut name))
      else if ms = [MutPtr, MutPtr] then Some (ROption (RRefMut (ROption name)))
      else if ms = [SliceMod, MutPtr] then Some (RRef (RSlice (ROption name)))
      else if ms = [MutSlice, MutPtr] then Some (ROption (RRefMut (RVec (ROption name))))
      else None)"

definition argument_enum :: "rs_ty \<Rightarrow> type_modifier list \<Rightarrow> rs_ty option" where
  "argument_enum name ms =
     (if ms = [] then Some name
      else if ms = [MutPtr] then Some (ROption (RRefMut name))
      else if ms = [SliceMod] then Some (ROption (RRef (RSlice name)))
      else if ms = [MutSlice] then Some (ROption (RRefMut (RVec name)))
      else None)"

definition argument_other :: "bool \<Rightarrow> rty \<Rightarrow> type_modifier list \<Rightarrow> rs_ty option" where
  "argument_other is_void ty ms =
     (let elem = (if is_void then RU8 else RSplice [] ty)
      in if ms = [ConstPtr] \<and> \<not> is_void then Some (ROption (RRef elem))
         else if ms = [MutPtr] \<and> \<not> is_void then Some (ROption (RRefMut elem))
         else if ms = [SliceMod] then Some (ROption (RRef (RSlice elem)))
         else if ms = [MutSlice] then Some (ROption (RRefMut (RVec elem)))
         else map_option (\<lambda>ps. if is_void then RU8Ptr ps else RSplice ps ty) (pointer_modifiers ms))"

definition get_argument_type :: "gen_env \<Rightarrow> parse_tree \<Rightarrow> modified_type \<Rightarrow> rs_ty option option" where
  "get_argument_type env tree t =
     (let elem_string = ge_tokens env (mt_ty t); ms = mt_modifiers t
      in case cef_name_map tree elem_string of
           None \<Rightarrow> Some (argument_other (elem_string = C_VOID) (mt_ty t) ms)
         | Some entry \<Rightarrow>
             (case nm_ty entry of
                StructDeclaration is_sealed \<Rightarrow>
                  map_option
                    (\<lambda>r. if BASE_REF_COUNTED = r \<and> r \<noteq> elem_string
                         then argument_struct (RIdent (nm_name entry))
                                (if is_sealed then RIdent (nm_name entry) else RImpl (''Impl'' @ nm_name entry)) ms
                         else argument_struct (RIdent (nm_name entry)) (RIdent (nm_name entry)) ms)
                    (root tree elem_string)
              | TypeAlias \<Rightarrow>
                  Some (if is_custom_string_userfree_alias elem_string then argument_string (RIdent (nm_name entry)) ms
                        else argument_pointer ms (mt_ty t))
              | EnumName \<Rightarrow> Some (argument_enum (RIdent (nm_name entry)) ms)))"

definition output_struct :: "rs_ty \<Rightarrow> type_modifier list \<Rightarrow> rs_ty option" where
  "output_struct name ms =
     (if ms = [] then Some name
      else if ms = [MutPtr] then Some (ROption name)
      else if ms = [ConstPtr] then Some (ROption (RRef name))
      else if ms = [ConstPtr, MutPtr] then Some (ROption (RRefMut (RSlice (RUnbalanced name))))
      else if ms = [ConstPtr, ConstPtr] then Some (ROption (RRef (RSlice name)))
      else None)"

definition get_output_type :: "gen_env \<Rightarrow> parse_tree \<Rightarrow> modified_type \<Rightarrow> rs_ty option" where
  "get_output_type env tree t =
     (let elem_name = ge_tokens env (mt_ty t); ms = mt_modifiers t; elem = RSplice [] (mt_ty t)
      in case cef_name_map tree elem_name of
           None \<Rightarrow> None
         | Some entry \<Rightarrow>
             (let name = RIdent (nm_name entry);
                  other = (if ms = [MutPtr] then Some (ROption (RRefMut elem))
                           else if ms = [ConstPtr] then Some (ROption (RRef (RSlice elem)))
                           else if ms = [MutPtr, MutPtr] then Some (ROption (RRefMut (RVec elem)))
                           else None)
              in case nm_ty entry of
                   StructDeclaration _ \<Rightarrow> output_struct name ms
                 | TypeAlias \<Rightarrow> if is_custom_string_userfree_alias elem_name then output_struct name ms else other
                 | EnumName \<Rightarrow>
                     (if ms = [] then Some name
                      else if ms = [ConstPtr] then Some (ROption (RRef (RSlice name)))
                      else if ms = [MutPtr] then Some (ROption (RRefMut (RSlice name)))
                      else None)))"

section \<open>Signatures\<close>

datatype rust_param = SelfRef | RustParam string rs_ty

text \<open>
  A parameter whose type has no Rust form is declared with its element type alone, and one
  that could not be parsed is left out of the signature.
\<close>

definition named_argument :: "gen_env \<Rightarrow> parse_tree \<Rightarrow> string \<Rightarrow> modified_type \<Rightarrow> rust_param option" where
  "named_argument env tree name t =
     map_option (\<lambda>a. RustParam name (case a of Some ty \<Rightarrow> ty | None \<Rightarrow> RSplice [] (mt_ty t))) (get_argument_type env tree t)"

definition rust_arg :: "gen_env \<Rightarrow> parse_tree \<Rightarrow> merged_param \<Rightarrow> rust_param option option" where
  "rust_arg env tree arg =
     (case arg of
        Receiver \<Rightarrow> Some (Some SelfRef)
      | Single name None \<Rightarrow> Some None
      | Single name (Some ty) \<Rightarrow> map_option Some (named_argument env tree name ty)
      | Bounded count_name count_ty slice_name slice_ty \<Rightarrow> map_option Some (named_argument env tree slice_name slice_ty)
      | Buffer slice_name slice_ty size_name size_ty \<Rightarrow> map_option Some (named_argument env tree slice_name slice_ty))"

definition get_rust_args :: "gen_env \<Rightarrow> nat \<Rightarrow> parse_tree \<Rightarrow> signature_ref \<Rightarrow> rust_param list option" where
  "get_rust_args env n tree sig =
     (case merge_params env n tree sig of
        None \<Rightarrow> None
      | Some params \<Rightarrow> map_option (List.map_filter (\<lambda>a. a)) (those (map (rust_arg env tree) params)))"

definition get_rust_output :: "gen_env \<Rightarrow> nat \<Rightarrow> parse_tree \<Rightarrow> signature_ref \<Rightarrow> rs_ty option option" where
  "get_rust_output env n tree sig =
     (case sg_output sig of
        None \<Rightarrow> Some None
      | Some output \<Rightarrow>
          map_option
            (\<lambda>t. Some (case Option.bind t (get_output_type env tree) of Some ty \<Rightarrow> ty | None \<Rightarrow> RSplice [] output))
            (resolve_modified_type n tree output))"

definition get_signature :: "gen_env \<Rightarrow> nat \<Rightarrow> parse_tree \<Rightarrow> signature_ref \<Rightarrow> (string \<times> rust_param list \<times> rs_ty option) option" where
  "get_signature env n tree sig =
     (case get_rust_args env n tree sig of
        None \<Rightarrow> None
      | Some args \<Rightarrow> map_option (\<lambda>out. (make_rust_method_name (sg_name sig), args, out)) (get_rust_output env n tree sig))"

section \<open>The loop is a greedy merge\<close>

text \<open>Merging from the left, where a merged pair takes no further part.\<close>

fun merge_greedy :: "gen_env \<Rightarrow> parse_tree \<Rightarrow> merged_param list \<Rightarrow> merged_param list" where
  "merge_greedy env tree (a # b # rest) =
     (case merge_pair env tree (Some a) (Some b) of
        Some r \<Rightarrow> r # merge_greedy env tree rest
      | None \<Rightarrow> a # merge_greedy env tree (b # rest))"
| "merge_greedy env tree args = args"

lemma merge_pair_None [simp]: "merge_pair env tree None b = None"
  by (simp add: merge_pair_def)

lemma merge_step_at:
  "merge_step env tree (pre @ a # b # rest) (Suc (length pre)) =
     (case merge_pair env tree a b of None \<Rightarrow> pre @ a # b # rest | Some r \<Rightarrow> pre @ Some r # None # rest)"
  by (simp add: merge_step_def nth_append list_update_append split: option.splits)

lemma foldl_merge_greedy:
  "List.map_filter (\<lambda>a. a)
       (foldl (merge_step env tree) (pre @ map Some xs) [Suc (length pre)..<length pre + length xs])
   = List.map_filter (\<lambda>a. a) pre @ merge_greedy env tree xs"
proof (induction env tree xs arbitrary: pre rule: merge_greedy.induct)
  case (1 env tree a b rest)
  let ?n = "length pre"
  have upt: "[Suc ?n..<?n + length (a # b # rest)] = Suc ?n # [Suc (Suc ?n)..<Suc (Suc ?n) + length rest]"
    by (simp add: upt_conv_Cons [of "Suc ?n"] del: upt_Suc)
  show ?case
  proof (cases "merge_pair env tree (Some a) (Some b)")
    case None
    from 1(1) [OF None, of "pre @ [Some a]"] None show ?thesis
      unfolding upt by (simp add: merge_step_at List.map_filter_def del: upt_Suc)
  next
    case (Some r)
    let ?pre = "pre @ [Some r, None]"
    have skip: "foldl (merge_step env tree) (?pre @ map Some rest) [Suc (Suc ?n)..<Suc (Suc ?n) + length rest]
        = foldl (merge_step env tree) (?pre @ map Some rest) [Suc (length ?pre)..<length ?pre + length rest]"
    proof (cases rest)
      case (Cons c rest')
      then show ?thesis
        using merge_step_at [of env tree "pre @ [Some r]" None "Some c" "map Some rest'"]
        by (simp add: upt_conv_Cons [of "Suc (Suc ?n)"] del: upt_Suc)
    qed simp
    from 1(2) [OF Some, of ?pre] skip Some show ?thesis
      unfolding upt by (simp add: merge_step_at List.map_filter_def del: upt_Suc)
  qed
qed (simp_all add: List.map_filter_def)

lemma merge_loop_greedy: "List.map_filter (\<lambda>a. a) (merge_loop env tree (map Some args)) = merge_greedy env tree args"
  using foldl_merge_greedy [of env tree "[]" args] by (simp add: merge_loop_def List.map_filter_def)

lemmas merge_params_greedy = merge_params_def [unfolded merge_loop_greedy]

fun param_names :: "merged_param \<Rightarrow> string list" where
  "param_names Receiver = [''self_'']"
| "param_names (Single name _) = [name]"
| "param_names (Bounded count_name _ slice_name _) = [count_name, slice_name]"
| "param_names (Buffer slice_name _ size_name _) = [slice_name, size_name]"

lemma merge_pair_SomeE:
  assumes "merge_pair env tree (Some a) (Some b) = Some r"
  obtains n1 t1 n2 t2 where "a = Single n1 (Some t1)" "b = Single n2 (Some t2)" "merge_singles env tree n1 t1 n2 t2 = Some r"
  using assms unfolding merge_pair_def by (auto split: option.splits merged_param.splits)

lemma merge_greedy_names: "concat (map param_names (merge_greedy env tree args)) = concat (map param_names args)"
  by (induction env tree args rule: merge_greedy.induct)
    (auto simp: merge_singles_def elim!: merge_pair_SomeE split: option.splits if_splits)

lemma as_receiver_names [simp]: "param_names (as_receiver p) = param_names p"
  by (cases p) (auto simp: as_receiver_def)

section \<open>Slices have a Rust type\<close>

lemma parse_modified_resolved:
  assumes "parse_modified r = Some t" "resolved tree r" "set (mt_modifiers t) \<subseteq> {MutPtr, ConstPtr}"
  shows "resolved tree (mt_ty t)"
  using assms
  by (induction r arbitrary: t rule: parse_modified.induct)
    (auto simp: modified_def add_modifier_def split: if_splits)

text \<open>A parameter whose element type is resolved when only pointers lead to it.\<close>

definition single_resolved :: "parse_tree \<Rightarrow> merged_param \<Rightarrow> bool" where
  "single_resolved tree p \<longleftrightarrow>
     (\<exists>name ty. p = Single name ty \<and>
        (\<forall>t. ty = Some t \<longrightarrow> set (mt_modifiers t) \<subseteq> {MutPtr, ConstPtr} \<longrightarrow> resolved tree (mt_ty t)))"

lemma single_param_resolved: "single_param env n tree arg = Some p \<Longrightarrow> single_resolved tree p"
  by (auto simp: single_param_def resolve_modified_type_def single_resolved_def
      intro: parse_modified_resolved resolve_resolved)

fun slice_param :: "merged_param \<Rightarrow> (string \<times> modified_type) option" where
  "slice_param (Bounded _ _ name t) = Some (name, t)"
| "slice_param (Buffer name t _ _) = Some (name, t)"
| "slice_param _ = None"

definition slice_modifiers :: "bool \<Rightarrow> type_modifier list list" where
  "slice_modifiers is_struct =
     [[SliceMod], [MutSlice]] @ (if is_struct then [[SliceMod, MutPtr], [MutSlice, MutPtr]] else [])"

lemma bounded_modifiers_slice:
  "bounded_modifiers s cs es = Some ms \<Longrightarrow> ms \<in> set (slice_modifiers s) \<and> set es \<subseteq> {MutPtr, ConstPtr}"
  by (auto simp: bounded_modifiers_def slice_modifiers_def split: if_splits)

lemma buffer_modifiers_slice:
  "buffer_modifiers cs es = Some ms \<Longrightarrow> ms \<in> set (slice_modifiers s) \<and> set es \<subseteq> {MutPtr, ConstPtr}"
  by (auto simp: buffer_modifiers_def slice_modifiers_def split: if_splits)

definition slice_resolved :: "gen_env \<Rightarrow> parse_tree \<Rightarrow> merged_param \<Rightarrow> bool" where
  "slice_resolved env tree p \<longleftrightarrow>
     (\<forall>name t. slice_param p = Some (name, t) \<longrightarrow>
        resolved tree (mt_ty t)
        \<and> mt_modifiers t \<in> set (slice_modifiers (is_struct_name tree (ge_tokens env (mt_ty t)))))"

lemma merge_singles_cases:
  assumes "merge_singles env tree n1 t1 n2 t2 = Some r"
  obtains (Bounded) ms where "r = Bounded n1 t1 n2 (t2\<lparr>mt_modifiers := ms\<rparr>)"
      "ms \<in> set (slice_modifiers (is_struct_name tree (ge_tokens env (mt_ty t2))))"
      "set (mt_modifiers t2) \<subseteq> {MutPtr, ConstPtr}"
    | (Buffer) ms where "r = Buffer n1 (t1\<lparr>mt_modifiers := ms\<rparr>) n2 t2"
      "ms \<in> set (slice_modifiers (is_struct_name tree (ge_tokens env (mt_ty t1))))"
      "set (mt_modifiers t1) \<subseteq> {MutPtr, ConstPtr}"
  using assms bounded_modifiers_slice buffer_modifiers_slice
  unfolding merge_singles_def by (fastforce split: if_splits)

lemma merge_pair_resolved:
  assumes "merge_pair env tree (Some a) (Some b) = Some r" "single_resolved tree a" "single_resolved tree b"
  shows "slice_resolved env tree r"
proof -
  from assms(1) obtain n1 t1 n2 t2 where ab: "a = Single n1 (Some t1)" "b = Single n2 (Some t2)"
      and r: "merge_singles env tree n1 t1 n2 t2 = Some r"
    by (rule merge_pair_SomeE)
  from r show ?thesis
    by (cases rule: merge_singles_cases) (use assms(2,3) ab in \<open>auto simp: single_resolved_def slice_resolved_def\<close>)
qed

lemma merge_greedy_resolved:
  "list_all (single_resolved tree) args \<Longrightarrow> list_all (slice_resolved env tree) (merge_greedy env tree args)"
proof (induction env tree args rule: merge_greedy.induct)
  case (1 env tree a b rest)
  moreover from 1 have "slice_resolved env tree a" by (auto simp: single_resolved_def slice_resolved_def)
  ultimately show ?case by (auto dest: merge_pair_resolved split: option.splits)
qed (auto simp: single_resolved_def slice_resolved_def)

lemma merge_params_resolved:
  assumes "merge_params env n tree sig = Some params" "p \<in> set params"
  shows "slice_resolved env tree p"
proof -
  from assms(1) obtain args where args: "those (map (single_param env n tree) (sg_inputs sig)) = Some args"
      and params: "params = map as_receiver (merge_greedy env tree args)"
    by (auto simp: merge_params_greedy)
  have "list_all (single_resolved tree) args"
    using args by (auto simp: those_map_Some list_all2_conv_all_nth list_all_length intro: single_param_resolved)
  then have all: "list_all (slice_resolved env tree) (merge_greedy env tree args)" by (rule merge_greedy_resolved)
  have "slice_resolved env tree (as_receiver q) \<longleftrightarrow> slice_resolved env tree q" for q
    by (cases q) (auto simp: as_receiver_def slice_resolved_def)
  with all assms(2) show ?thesis by (auto simp: params list_all_iff)
qed

definition is_slice_type :: "rs_ty \<Rightarrow> bool" where
  "is_slice_type t \<longleftrightarrow>
     (case t of ROption (RRef (RSlice _)) \<Rightarrow> True | ROption (RRefMut (RVec _)) \<Rightarrow> True | _ \<Rightarrow> False)"

lemma slice_argument_type:
  assumes "ms \<in> set (slice_modifiers s)"
  shows "\<exists>t. argument_struct name shared ms = Some t \<and> is_slice_type t"
    and "\<not> s \<Longrightarrow> \<exists>t. argument_enum name ms = Some t \<and> is_slice_type t"
    and "\<not> s \<Longrightarrow> \<exists>t. argument_other is_void ty ms = Some t \<and> is_slice_type t"
  using assms
  by (auto simp: slice_modifiers_def argument_struct_def argument_enum_def argument_other_def is_slice_type_def split: if_splits)

lemma argument_type_struct:
  assumes "cef_name_map tree (ge_tokens env (mt_ty t)) = Some entry" "nm_ty entry = StructDeclaration b"
    and "root tree (ge_tokens env (mt_ty t)) \<noteq> None"
  obtains shared where "get_argument_type env tree t = Some (argument_struct (RIdent (nm_name entry)) shared (mt_modifiers t))"
proof -
  from assms(3) obtain r where r: "root tree (ge_tokens env (mt_ty t)) = Some r" by blast
  define shared where "shared =
    (if BASE_REF_COUNTED = r \<and> r \<noteq> ge_tokens env (mt_ty t) \<and> \<not> b then RImpl (''Impl'' @ nm_name entry) else RIdent (nm_name entry))"
  have "get_argument_type env tree t = Some (argument_struct (RIdent (nm_name entry)) shared (mt_modifiers t))"
    using assms(1,2) r by (auto simp: get_argument_type_def Let_def shared_def)
  then show thesis by (rule that)
qed

text \<open>
  Property C24. The loop that merges parameters in place, by index and leaving holes, is the greedy
  merge from the left; and no parameter of the C function is lost, duplicated or moved: the
  names of the merged parameters, a count or a size beside its slice, are those of the
  parameters in their order.
\<close>

theorem merge_params_correct:
  assumes "merge_params env n tree sig = Some params"
  shows "(\<exists>args. those (map (single_param env n tree) (sg_inputs sig)) = Some args
      \<and> params = map as_receiver (merge_greedy env tree args))
    \<and> concat (map param_names params) = map (\<lambda>arg. ge_snake env (fa_name arg)) (sg_inputs sig)"
proof -
  from assms obtain args where args: "those (map (single_param env n tree) (sg_inputs sig)) = Some args"
      and params: "params = map as_receiver (merge_greedy env tree args)"
    by (auto simp: merge_params_greedy)
  from args have "list_all2 (\<lambda>arg p. single_param env n tree arg = Some p) (sg_inputs sig) args"
    by (simp only: those_map_Some)
  then have "concat (map param_names args) = map (\<lambda>arg. ge_snake env (fa_name arg)) (sg_inputs sig)"
    by (induction rule: list_all2_induct) (auto simp: single_param_def)
  then have "concat (map param_names params) = map (\<lambda>arg. ge_snake env (fa_name arg)) (sg_inputs sig)"
    by (simp add: params comp_def merge_greedy_names)
  with args params show ?thesis by blast
qed

text \<open>
  Property C25. In the signature of a function every merged slice is declared with the type of a
  slice: an optional borrowed slice or an optional mutable vector, whatever its element is,
  unless the element is one of the string types that are kept as aliases (the generator then
  declares the element alone). Of the printing of types it is relied on that only a path is
  printed as a name of the form of the C types.
\<close>

theorem merged_slices_typed:
  assumes "tree_from env n items = Some tree" "merge_params env m tree sig = Some params" "p \<in> set params"
    and "slice_param p = Some (name, t)" "\<not> is_custom_string_userfree_alias (ge_tokens env (mt_ty t))"
    and "root tree (ge_tokens env (mt_ty t)) \<noteq> None"
    and tokens: "\<And>t. cef_type_name (ge_tokens env t) \<noteq> None \<Longrightarrow> t = TPath (ge_tokens env t)"
  shows "\<exists>rt. rust_arg env tree p = Some (Some (RustParam name rt)) \<and> is_slice_type rt"
proof -
  let ?elem = "ge_tokens env (mt_ty t)"
  have con: "names_consistent env tree" using assms(1) by (rule tree_from_consistent)
  have slice: "resolved tree (mt_ty t)" "mt_modifiers t \<in> set (slice_modifiers (is_struct_name tree ?elem))"
    using merge_params_resolved [OF assms(2,3)] assms(4) by (auto simp: slice_resolved_def)
  have "\<exists>rt. get_argument_type env tree t = Some (Some rt) \<and> is_slice_type rt"
  proof (cases "cef_name_map tree ?elem")
    case None
    with slice_argument_type(3) [OF slice(2)] show ?thesis by (auto simp: get_argument_type_def is_struct_name_def)
  next
    case (Some entry)
    with con have "cef_type_name ?elem \<noteq> None"
      by (auto simp: names_consistent_def rust_name_of_def make_rust_type_name_def split: option.splits)
    with slice(1) assms(5) tokens [of "mt_ty t"] have "alias_type tree ?elem = None" by (metis resolved.simps(1))
    with consistent_alias_known [OF con Some] have "nm_ty entry \<noteq> TypeAlias" by auto
    then consider "nm_ty entry = EnumName" | b where "nm_ty entry = StructDeclaration b" by (cases "nm_ty entry") auto
    then show ?thesis
    proof cases
      case 1
      with slice_argument_type(2) [OF slice(2)] Some show ?thesis by (auto simp: get_argument_type_def is_struct_name_def)
    next
      case 2
      with Some assms(6) obtain shared
        where "get_argument_type env tree t = Some (argument_struct (RIdent (nm_name entry)) shared (mt_modifiers t))"
        using argument_type_struct by blast
      with slice_argument_type(1) [OF slice(2)] show ?thesis by auto
    qed
  qed
  with assms(4) show ?thesis by (cases p) (auto simp: rust_arg_def named_argument_def)
qed

definition example_signature :: signature_ref where
  "example_signature = \<lparr>sg_name = ''get_frames'',
     sg_inputs = [\<lparr>fa_name = ''self_'', fa_ty = TPtr False (TPath ''_cef_frame_t'')\<rparr>,
                  \<lparr>fa_name = ''ids_count'', fa_ty = TPtr False (TPath ''usize'')\<rparr>,
                  \<lparr>fa_name = ''ids'', fa_ty = TPtr False (TPath ''cef_id_t'')\<rparr>,
                  \<lparr>fa_name = ''last'', fa_ty = TPath ''i32''\<rparr>],
     sg_output = None\<rparr>"

definition example_params :: "merged_param list" where
  "example_params =
     [Receiver,
      Bounded ''ids_count'' \<lparr>mt_modifiers = [MutPtr], mt_ty = TPath ''usize''\<rparr>
        ''ids'' \<lparr>mt_modifiers = [MutSlice], mt_ty = TPath ''u64''\<rparr>,
      Single ''last'' (Some \<lparr>mt_modifiers = [], mt_ty = TPath ''i32''\<rparr>)]"

lemma example_merge: "merge_params plain_env 5 example_tree example_signature = Some example_params"
  by code_simp

lemma example_root: "root example_tree ''u64'' = Some ''u64''"
proof -
  have "base_type example_tree ''u64'' = None" by code_simp
  then show ?thesis by (simp add: root.simps)
qed

lemma plain_tokens_path: "cef_type_name (plain_tokens t) \<noteq> None \<Longrightarrow> t = TPath (plain_tokens t)"
  by (cases t) (auto simp: plain_tokens_def cef_type_name_def strip_affix_def split: option.splits if_splits)

theorem merge_params_correct_witness:
  "concat (map param_names example_params) = map (\<lambda>arg. ge_snake plain_env (fa_name arg)) (sg_inputs example_signature)"
  using merge_params_correct [OF example_merge] by blast

theorem merged_slices_typed_witness:
  "\<exists>rt. rust_arg plain_env example_tree (example_params ! 1) = Some (Some (RustParam ''ids'' rt)) \<and> is_slice_type rt"
proof (rule merged_slices_typed [OF example_tree_from example_merge])
  show "example_params ! 1 \<in> set example_params" by (simp add: example_params_def)
  show "slice_param (example_params ! 1) = Some (''ids'', \<lparr>mt_modifiers = [MutSlice], mt_ty = TPath ''u64''\<rparr>)"
    by (simp add: example_params_def)
  show "\<not> is_custom_string_userfree_alias (ge_tokens plain_env (mt_ty \<lparr>mt_modifiers = [MutSlice], mt_ty = TPath ''u64''\<rparr>))"
    by code_simp
  show "root example_tree (ge_tokens plain_env (mt_ty \<lparr>mt_modifiers = [MutSlice], mt_ty = TPath ''u64''\<rparr>)) \<noteq> None"
    using example_root by (simp add: plain_env_def plain_tokens_def)
  show "t = TPath (ge_tokens plain_env t)" if "cef_type_name (ge_tokens plain_env t) \<noteq> None" for t
    using plain_tokens_path that by (simp add: plain_env_def)
qed

text \<open>
  What a function returns is typed with an unbalanced bracket exactly where a structure or a
  string is behind two pointers, the first constant and the second not.
\<close>

fun balanced :: "rs_ty \<Rightarrow> bool" where
  "balanced (RUnbalanced t) = False"
| "balanced (ROption t) = balanced t"
| "balanced (RRef t) = balanced t"
| "balanced (RRefMut t) = balanced t"
| "balanced (RSlice t) = balanced t"
| "balanced (RVec t) = balanced t"
| "balanced _ = True"

lemma output_unbalanced:
  assumes "get_output_type env tree t = Some ty"
  shows "\<not> balanced ty \<Longrightarrow> mt_modifiers t = [ConstPtr, MutPtr]"
    and "is_struct_name tree (ge_tokens env (mt_ty t)) \<Longrightarrow> mt_modifiers t = [ConstPtr, MutPtr] \<Longrightarrow> \<not> balanced ty"
  using assms
  by (auto simp: get_output_type_def output_struct_def is_struct_name_def Let_def
      split: option.splits name_map_type.splits if_splits)

end
