(* ===== verification/Binding_Slices.thy ===== *)
theory Binding_Slices
  imports Binding_Signatures
begin

text \<open>
  What the generated bindings do with a merged slice when a call crosses the C interface
  (the templates of \<^verbatim>\<open>unwrap_rust_args\<close>, \<^verbatim>\<open>rewrap_rust_args\<close>, \<^verbatim>\<open>wrap_cef_args\<close> and \<^verbatim>\<open>unwrap_cef_args\<close> of
  \<^verbatim>\<open>update-bindings/src/parse_tree.rs\<close>). From Rust to C a slice becomes a pointer, null when there is nothing
  behind it, and its length; from C to Rust a pointer and a length become a slice or a
  vector, copied back afterwards. References to counted objects are followed in a ledger of
  counts. The other side of the call is an argument; \<^const>\<open>None\<close> on the outside is a read
  beyond the end of a C array, which is undefined.
\<close>

text \<open>A C array: the null pointer, or the elements it may be read up to.\<close>

type_synonym 'a c_array = "'a list option"

datatype c_size = ByValue nat | ByPointer "nat option"

definition size_value :: "c_size \<Rightarrow> nat" where
  "size_value s = (case s of ByValue n \<Rightarrow> n | ByPointer p \<Rightarrow> (case p of Some n \<Rightarrow> n | None \<Rightarrow> 0))"

definition set_size :: "nat \<Rightarrow> c_size \<Rightarrow> c_size" where
  "set_size n s = (case s of ByValue m \<Rightarrow> ByValue m | ByPointer p \<Rightarrow> ByPointer (map_option (\<lambda>m. n) p))"

definition from_raw_parts :: "'a list \<Rightarrow> nat \<Rightarrow> 'a list option" where
  "from_raw_parts arr n = (if n \<le> length arr then Some (take n arr) else None)"

definition slice_len :: "'a list option \<Rightarrow> nat" where
  "slice_len arg = (case arg of Some xs \<Rightarrow> length xs | None \<Rightarrow> 0)"

section \<open>Buffers\<close>

text \<open>\<^verbatim>\<open>Vec::resize\<close>.\<close>

definition vec_resize :: "nat \<Rightarrow> 'a \<Rightarrow> 'a list \<Rightarrow> 'a list" where
  "vec_resize n d xs = take n xs @ replicate (n - length xs) d"

definition unwrap_buffer :: "'a list option \<Rightarrow> 'a c_array" where
  "unwrap_buffer arg = (case arg of Some xs \<Rightarrow> if xs = [] then None else Some xs | None \<Rightarrow> None)"

text \<open>
  A buffer that C may write: the pointer is into the caller's vector, so what the callee
  leaves in the array is in the vector. With the size behind a pointer the vector takes the
  size the callee has set.
\<close>

definition call_with_buffer ::
  "bool \<Rightarrow> 'a \<Rightarrow> ('a c_array \<Rightarrow> c_size \<Rightarrow> ('a c_array \<times> c_size) option) \<Rightarrow> 'a list option \<Rightarrow> 'a list option option" where
  "call_with_buffer by_pointer d callee out =
     (let n = slice_len out
      in map_option
           (\<lambda>(arr, s).
              let out' = (case arr of Some xs \<Rightarrow> Some xs | None \<Rightarrow> out)
              in if by_pointer then map_option (vec_resize (size_value s) d) out' else out')
           (callee (unwrap_buffer out) (if by_pointer then ByPointer (Some n) else ByValue n)))"

definition wrap_buffer :: "'a c_array \<Rightarrow> c_size \<Rightarrow> 'a list option option" where
  "wrap_buffer arr s =
     (case arr of
        Some xs \<Rightarrow> if 0 < size_value s then map_option Some (from_raw_parts xs (size_value s)) else Some None
      | None \<Rightarrow> Some None)"

definition unwrap_cef_buffer :: "'a c_array \<Rightarrow> c_size \<Rightarrow> 'a list option \<Rightarrow> 'a c_array \<times> c_size" where
  "unwrap_cef_buffer arr s vec =
     (case vec of
        Some ys \<Rightarrow>
          let n = min (length ys) (size_value s)
          in (map_option (\<lambda>xs. take n ys @ drop n xs) arr, set_size n s)
      | None \<Rightarrow> (arr, s))"

text \<open>A method implemented in Rust, called from C: \<open>impl\<close> is what it does to the vector it gets.\<close>

definition cef_buffer_method :: "('a list \<Rightarrow> 'a list) \<Rightarrow> 'a c_array \<Rightarrow> c_size \<Rightarrow> ('a c_array \<times> c_size) option" where
  "cef_buffer_method impl arr s = map_option (\<lambda>vec. unwrap_cef_buffer arr s (map_option impl vec)) (wrap_buffer arr s)"

section \<open>Counted slices\<close>

definition vec_pointer :: "'c list \<Rightarrow> 'c c_array" where
  "vec_pointer vec = (if vec = [] then None else Some vec)"

definition unwrap_bounded :: "('a \<Rightarrow> 'c) \<Rightarrow> 'a list option \<Rightarrow> nat \<times> 'c list" where
  "unwrap_bounded get_raw arg = (slice_len arg, case arg of Some xs \<Rightarrow> map get_raw xs | None \<Rightarrow> [])"

definition wrap_bounded :: "('c \<Rightarrow> 'a) \<Rightarrow> nat \<Rightarrow> 'c c_array \<Rightarrow> 'a list option option" where
  "wrap_bounded into count arr =
     (case arr of Some cs \<Rightarrow> map_option (\<lambda>xs. Some (map into xs)) (from_raw_parts cs count) | None \<Rightarrow> Some None)"

definition rewrap_bounded :: "('c \<Rightarrow> 'a) \<Rightarrow> nat \<Rightarrow> 'c list \<Rightarrow> 'a list option \<Rightarrow> 'a list option" where
  "rewrap_bounded wrap_result count vec out = map_option (\<lambda>old. map wrap_result (take count vec)) out"

definition call_with_bounded ::
  "('a \<Rightarrow> 'c) \<Rightarrow> ('c \<Rightarrow> 'a) \<Rightarrow> (nat \<Rightarrow> 'c c_array \<Rightarrow> nat \<times> 'c c_array) \<Rightarrow> 'a list option \<Rightarrow> 'a list option" where
  "call_with_bounded get_raw wrap_result callee out =
     (let (count, vec) = unwrap_bounded get_raw out;
          (count', arr) = callee count (vec_pointer vec)
      in rewrap_bounded wrap_result count' (case arr of Some cs \<Rightarrow> cs | None \<Rightarrow> vec) out)"

section \<open>Slices of counted objects\<close>

text \<open>How many references each object has.\<close>

type_synonym 'o ledger = "'o \<Rightarrow> int"

definition add_refs :: "'o list \<Rightarrow> 'o ledger \<Rightarrow> 'o ledger" where
  "add_refs os rc = (\<lambda>x. rc x + int (count_list os x))"

definition release_refs :: "'o list \<Rightarrow> 'o ledger \<Rightarrow> 'o ledger" where
  "release_refs os rc = (\<lambda>x. rc x - int (count_list os x))"

definition present :: "'o option list \<Rightarrow> 'o list" where
  "present xs = List.map_filter (\<lambda>x. x) xs"

definition unwrap_bounded_refs :: "'o option list option \<Rightarrow> 'o ledger \<Rightarrow> (nat \<times> 'o option list) \<times> 'o ledger" where
  "unwrap_bounded_refs arg rc =
     (let vec = (case arg of Some xs \<Rightarrow> xs | None \<Rightarrow> [])
      in ((slice_len arg, vec), add_refs (present vec) rc))"

text \<open>
  A method implemented in Rust that gets objects: every pointer becomes a guard that owns one
  reference, released when the method has returned; \<open>impl\<close> is the effect of the method
  itself on the counts.
\<close>

definition cef_refs_method ::
  "('o option list option \<Rightarrow> 'o ledger \<Rightarrow> 'o ledger) \<Rightarrow> nat \<Rightarrow> 'o option c_array \<Rightarrow> 'o ledger \<Rightarrow> 'o ledger option" where
  "cef_refs_method impl count arr rc =
     map_option (\<lambda>arg. release_refs (case arg of Some xs \<Rightarrow> present xs | None \<Rightarrow> []) (impl arg rc))
       (wrap_bounded (\<lambda>p. p) count arr)"

definition call_with_refs ::
  "(nat \<Rightarrow> 'o option c_array \<Rightarrow> 'o ledger \<Rightarrow> 'o ledger option) \<Rightarrow> 'o option list option \<Rightarrow> 'o ledger \<Rightarrow> 'o ledger option" where
  "call_with_refs callee arg rc =
     (let ((count, vec), rc1) = unwrap_bounded_refs arg rc in callee count (vec_pointer vec) rc1)"

text \<open>
  Objects passed in and out: the assignment to the caller's vector drops its old elements,
  and the pointers in the array beyond the count the callee has set are left alone.
\<close>

definition call_with_refs_out ::
  "(nat \<Rightarrow> 'o option c_array \<Rightarrow> 'o ledger \<Rightarrow> (nat \<times> 'o option c_array) \<times> 'o ledger)
     \<Rightarrow> 'o option list option \<Rightarrow> 'o ledger \<Rightarrow> 'o option list option \<times> 'o ledger" where
  "call_with_refs_out callee out rc =
     (let ((count, vec), rc1) = unwrap_bounded_refs out rc;
          ((count', arr), rc2) = callee count (vec_pointer vec) rc1;
          vec' = (case arr of Some cs \<Rightarrow> cs | None \<Rightarrow> vec)
      in case out of
           Some old \<Rightarrow> (Some (take count' vec'), release_refs (present old) rc2)
         | None \<Rightarrow> (None, rc2))"

section \<open>Two callers and callees in libcef\<close>

text \<open>
  Reading the elements of post data: the references in the array are taken over by a list, which
  the elements of the post data replace; as many of them as fit are stored in the array with
  a reference each. \<open>objs\<close> are the elements.
\<close>

definition post_data_get_elements ::
  "'o list \<Rightarrow> nat \<Rightarrow> 'o option c_array \<Rightarrow> 'o ledger \<Rightarrow> (nat \<times> 'o option c_array) \<times> 'o ledger" where
  "post_data_get_elements objs count arr rc =
     (if 0 < count \<and> arr = None then ((count, arr), rc)
      else
        (case arr of
           None \<Rightarrow> ((count, arr), rc)
         | Some cs \<Rightarrow>
             let rc1 = release_refs (present (take count cs)) rc;
                 count' = min (length objs) count
             in ((count', Some (map Some (take count' objs) @ drop count' cs)), add_refs (take count' objs) rc1)))"

text \<open>
  Asking the resource bundle handler for data: a null pointer of eight bytes to be replaced and a size
  of zero. The result is the size of the data the application provides.
\<close>

definition get_raw_data_resource :: "bool \<Rightarrow> (u8 list \<Rightarrow> u8 list) \<Rightarrow> nat option" where
  "get_raw_data_resource handled impl =
     map_option (\<lambda>(data, data_size). if handled then size_value data_size else 0)
       (cef_buffer_method impl (Some (replicate 8 0)) (ByPointer (Some 0)))"

section \<open>Properties\<close>

lemmas buffer_defs = call_with_buffer_def cef_buffer_method_def wrap_buffer_def unwrap_buffer_def unwrap_cef_buffer_def
  from_raw_parts_def slice_len_def size_value_def set_size_def vec_resize_def

lemma refs_cancel: "release_refs os (\<lambda>x. add_refs os rc x + f x) = (\<lambda>x. rc x + f x)"
  by (simp add: release_refs_def add_refs_def fun_eq_iff)

lemma buffer_call_exact:
  "call_with_buffer by_pointer d (cef_buffer_method impl) out =
     Some (if slice_len out = 0 then out
           else map_option (\<lambda>xs. take (length xs) (impl xs) @ (if by_pointer then [] else drop (length (impl xs)) xs)) out)"
proof (cases out)
  case (Some xs)
  show ?thesis
  proof (cases "length (impl xs) \<le> length xs")
    case True
    then show ?thesis by (cases xs; cases by_pointer) (simp_all add: Some buffer_defs Let_def)
  next
    case False
    then show ?thesis by (cases xs; cases by_pointer) (simp_all add: Some buffer_defs Let_def min_def)
  qed
qed (simp add: buffer_defs Let_def)

lemma bounded_arrives:
  assumes "\<And>x. into (get_raw x) = x"
  shows "(case unwrap_bounded get_raw arg of (count, vec) \<Rightarrow> wrap_bounded into count (vec_pointer vec))
     = Some (if slice_len arg = 0 then None else arg)"
  using assms
  by (cases arg) (auto simp: unwrap_bounded_def wrap_bounded_def vec_pointer_def from_raw_parts_def slice_len_def comp_def)

text \<open>
  Property C26. A slice that crosses the C interface from a caller in Rust to a method in Rust
  arrives as it was sent, for buffers as for counted slices, except that an empty slice arrives
  as none; no read leaves the array. A vector the method may change comes back with the
  method's elements, as many as fit in what the caller provided: cut to them where the size is
  passed by pointer, followed by the caller's own remaining elements where it is passed by
  value. Objects passed by reference keep their counts but for what the method itself does.
\<close>

theorem slices_cross_c:
  assumes "\<And>x. into (get_raw x) = x"
  shows "wrap_buffer (unwrap_buffer arg) (ByValue (slice_len arg)) = Some (if slice_len arg = 0 then None else arg)
    \<and> (case unwrap_bounded get_raw elems of (count, vec) \<Rightarrow> wrap_bounded into count (vec_pointer vec))
        = Some (if slice_len elems = 0 then None else elems)
    \<and> call_with_buffer by_pointer d (cef_buffer_method impl) out =
        Some (if slice_len out = 0 then out
              else map_option (\<lambda>xs. take (length xs) (impl xs) @ (if by_pointer then [] else drop (length (impl xs)) xs)) out)
    \<and> call_with_refs (cef_refs_method (\<lambda>a rc x. rc x + effect a x)) objects rc
        = Some (\<lambda>x. rc x + effect (if slice_len objects = 0 then None else objects) x)"
proof -
  have "call_with_refs (cef_refs_method (\<lambda>a rc x. rc x + effect a x)) objects rc
        = Some (\<lambda>x. rc x + effect (if slice_len objects = 0 then None else objects) x)"
    by (cases objects)
      (auto simp: call_with_refs_def unwrap_bounded_refs_def cef_refs_method_def wrap_bounded_def vec_pointer_def
        from_raw_parts_def slice_len_def refs_cancel present_def List.map_filter_def add_refs_def release_refs_def)
  moreover have "wrap_buffer (unwrap_buffer arg) (ByValue (slice_len arg)) = Some (if slice_len arg = 0 then None else arg)"
    by (cases arg) (auto simp: buffer_defs)
  ultimately show ?thesis
    using bounded_arrives [of into get_raw elems, OF assms] buffer_call_exact [of by_pointer d impl out] by (intro conjI)
qed

theorem slices_cross_c_witness:
  "wrap_buffer (unwrap_buffer (Some [1, 2, 3 :: nat])) (ByValue 3) = Some (Some [1, 2, 3])
   \<and> call_with_buffer True (0 :: nat) (cef_buffer_method (\<lambda>xs. [7, 8])) (Some [1, 2, 3]) = Some (Some [7, 8])"
  using slices_cross_c [of "\<lambda>x :: nat. x" "\<lambda>x. x" "Some [1, 2, 3 :: nat]" "Some [1]" True "0 :: nat" "\<lambda>xs. [7, 8]" "Some [1, 2, 3]"
      "\<lambda>a (x :: nat). 0" None "\<lambda>x. 0"]
  by (simp add: slice_len_def numeral_3_eq_3)

text \<open>
  The elements of post data read from Rust: whatever the vector the caller passes
  holds, it is the first elements of the post data afterwards, as many as the vector had room
  for, and the counts are those of a caller that has given up the old elements and owns the
  new ones, once each; nothing is leaked or released twice on the way through C.
\<close>

lemma post_data_elements_exact:
  "call_with_refs_out (post_data_get_elements objs) out rc =
     (map_option (\<lambda>xs. map Some (take (length xs) objs)) out,
      \<lambda>x. rc x - int (count_list (case out of Some xs \<Rightarrow> present xs | None \<Rightarrow> []) x)
            + int (count_list (take (slice_len out) objs) x))"
proof (cases out)
  case (Some xs)
  show ?thesis
    by (cases "xs = []")
      (auto simp: Some call_with_refs_out_def unwrap_bounded_refs_def post_data_get_elements_def vec_pointer_def slice_len_def
        add_refs_def release_refs_def present_def List.map_filter_def Let_def min_def)
qed (simp add: call_with_refs_out_def unwrap_bounded_refs_def post_data_get_elements_def vec_pointer_def slice_len_def
    add_refs_def release_refs_def present_def List.map_filter_def Let_def)

text \<open>
  The data of a resource bundle can never come from a handler in Rust: libcef asks with a null
  pointer to fill in and a size of zero, so the method is given no vector.
\<close>

lemma resource_bundle_data_lost:
  "wrap_buffer (Some data) (ByPointer (Some 0)) = Some None"
  "get_raw_data_resource handled impl = Some 0"
  by (simp_all add: get_raw_data_resource_def buffer_defs)

end
