(* ===== verification/Binding_Objects.thy ===== *)
theory Binding_Objects
  imports Binding_Slices Ref_Count
begin

text \<open>
  Single parameters of the generated bindings: which conversion the generator writes for a
  parameter (\<^verbatim>\<open>unwrap_rust_args\<close> and \<^verbatim>\<open>rewrap_rust_args\<close> for calls from Rust, \<^verbatim>\<open>wrap_cef_args\<close> and
  \<^verbatim>\<open>unwrap_cef_args\<close> for methods implemented in Rust, \<^verbatim>\<open>update-bindings/src/parse_tree.rs\<close>), and what
  the conversions do to references and structures when a call crosses the C interface.
  The other side is libcef's glue: \<^verbatim>\<open>libcef_dll/cpptoc\<close> where Rust calls, \<^verbatim>\<open>libcef_dll/ctocpp\<close>
  where libcef calls.
\<close>

section \<open>Which conversion is written\<close>

datatype rust_conversion =
    ObjectInOut
  | BaseObject
  | ObjectIn "string option"
  | CopyConst
  | CopyMut
  | RawOrNull
  | RawOrNullMut
  | RawOrDefault
  | RawValue
  | PointerMut
  | PointerConst
  | PointerCast

definition BASE_SCOPED :: string where
  "BASE_SCOPED = ''_cef_base_scoped_t''"

definition CUSTOM_STRING_TYPES :: "string list" where
  "CUSTOM_STRING_TYPES =
     [''_cef_string_utf8_t'', ''_cef_string_utf16_t'', ''_cef_string_wide_t'',
      ''_cef_string_list_t'', ''_cef_string_map_t'', ''_cef_string_multimap_t'']"

text \<open>A structure of fields alone, which the bindings copy.\<close>

definition is_plain_struct :: "parse_tree \<Rightarrow> string \<Rightarrow> bool" where
  "is_plain_struct tree name \<longleftrightarrow>
     (case lookup_struct_declaration tree name of
        None \<Rightarrow> False
      | Some i \<Rightarrow>
          i < length (struct_declarations tree)
          \<and> (let s = struct_declarations tree ! i
             in sd_methods s = [] \<and> sd_fields s \<noteq> [] \<and> map fr_name (sd_fields s) \<noteq> [''_unused'']))"

definition raw_or_default :: "type_modifier list \<Rightarrow> rust_conversion" where
  "raw_or_default ms = (if ms = [ConstPtr] then RawOrNull else if ms = [MutPtr] then RawOrNullMut else RawOrDefault)"

text \<open>A parameter of a type without a name in CEF; \<^const>\<open>None\<close> passes it as it is.\<close>

definition unwrap_unnamed :: "bool \<Rightarrow> type_modifier list \<Rightarrow> rust_conversion option" where
  "unwrap_unnamed is_void ms =
     (if ms = [MutPtr] \<and> \<not> is_void then Some PointerMut
      else if ms = [ConstPtr] \<and> \<not> is_void then Some PointerConst
      else (case ms of
              MutPtr # _ \<Rightarrow> Some PointerCast
            | ConstPtr # _ \<Rightarrow> Some PointerCast
            | _ \<Rightarrow> None))"

definition unwrap_named :: "parse_tree \<Rightarrow> string \<Rightarrow> name_map_entry \<Rightarrow> type_modifier list \<Rightarrow> rust_conversion option" where
  "unwrap_named tree ty_string entry ms =
     (case nm_ty entry of
        StructDeclaration _ \<Rightarrow>
          (if is_plain_struct tree ty_string
           then (if ms = [ConstPtr] then Some CopyConst else if ms = [MutPtr] then Some CopyMut else None)
           else Some (raw_or_default ms))
      | TypeAlias \<Rightarrow> if ty_string = ''cef_string_t'' then Some (raw_or_default ms) else Some RawValue
      | EnumName \<Rightarrow> Some RawValue)"

definition unwrap_object :: "string \<Rightarrow> name_map_entry option \<Rightarrow> type_modifier list \<Rightarrow> rust_conversion" where
  "unwrap_object ty_string entry ms =
     (if ms = [MutPtr, MutPtr] then ObjectInOut
      else if ty_string = BASE_REF_COUNTED then BaseObject
      else ObjectIn (map_option (\<lambda>e. ''Impl'' @ nm_name e) entry))"

definition unwrap_rust_single :: "gen_env \<Rightarrow> parse_tree \<Rightarrow> modified_type \<Rightarrow> rust_conversion option option" where
  "unwrap_rust_single env tree t =
     (let ty_string = ge_tokens env (mt_ty t); ms = mt_modifiers t; entry = cef_name_map tree ty_string
      in map_option
           (\<lambda>r. if r = BASE_REF_COUNTED then Some (unwrap_object ty_string entry ms)
                else (case entry of
                        Some e \<Rightarrow> unwrap_named tree ty_string e ms
                      | None \<Rightarrow> unwrap_unnamed (ty_string = C_VOID) ms))
           (root tree ty_string))"

text \<open>After the call: whether the parameter is written back.\<close>

definition rewrap_rust_single :: "gen_env \<Rightarrow> parse_tree \<Rightarrow> modified_type \<Rightarrow> bool option" where
  "rewrap_rust_single env tree t =
     (if mt_modifiers t = [MutPtr, MutPtr]
      then map_option (\<lambda>r. r = BASE_REF_COUNTED) (root tree (ge_tokens env (mt_ty t)))
      else Some False)"

datatype cef_conversion =
    Guard bool
  | GuardInOut
  | Scoped bool
  | StringParam bool
  | CastParam
  | AsIs
  | ParamRef bool
  | IntoRaw

definition wrap_object :: "name_map_entry option \<Rightarrow> type_modifier list \<Rightarrow> cef_conversion option" where
  "wrap_object entry ms =
     (case entry of
        Some e \<Rightarrow>
          (case nm_ty e of
             StructDeclaration _ \<Rightarrow>
               (if ms = [ConstPtr] then Some (Guard False)
                else if ms = [MutPtr] then Some (Guard True)
                else if ms = [MutPtr, MutPtr] then Some GuardInOut
                else None)
           | _ \<Rightarrow> None)
      | None \<Rightarrow> None)"

definition pointer_conversion :: "(bool \<Rightarrow> cef_conversion) \<Rightarrow> type_modifier list \<Rightarrow> cef_conversion option" where
  "pointer_conversion c ms = (if ms = [MutPtr] then Some (c True) else if ms = [ConstPtr] then Some (c False) else None)"

definition wrap_other :: "string \<Rightarrow> string \<Rightarrow> name_map_entry option \<Rightarrow> type_modifier list \<Rightarrow> cef_conversion option" where
  "wrap_other r ty_string entry ms =
     (if r = BASE_SCOPED
      then (case entry of
              Some e \<Rightarrow> (case nm_ty e of StructDeclaration _ \<Rightarrow> pointer_conversion Scoped ms | _ \<Rightarrow> None)
            | None \<Rightarrow> None)
      else if ty_string = ''cef_string_t'' \<or> ty_string \<in> set CUSTOM_STRING_TYPES
      then pointer_conversion StringParam ms
      else if (case entry of Some e \<Rightarrow> nm_name e | None \<Rightarrow> ty_string) = C_VOID
      then (if ms = [MutPtr] \<or> ms = [ConstPtr] then Some CastParam else Some AsIs)
      else pointer_conversion ParamRef ms)"

definition wrap_cef_single :: "gen_env \<Rightarrow> parse_tree \<Rightarrow> modified_type \<Rightarrow> cef_conversion option" where
  "wrap_cef_single env tree t =
     (let ty_string = ge_tokens env (mt_ty t); ms = mt_modifiers t; entry = cef_name_map tree ty_string
      in map_option
           (\<lambda>r. case (if r = BASE_REF_COUNTED then wrap_object entry ms else None) of
                   Some c \<Rightarrow> c
                 | None \<Rightarrow> (case wrap_other r ty_string entry ms of Some c \<Rightarrow> c | None \<Rightarrow> IntoRaw))
           (root tree ty_string))"

definition unwrap_cef_single :: "gen_env \<Rightarrow> parse_tree \<Rightarrow> modified_type \<Rightarrow> bool option" where
  "unwrap_cef_single env tree t =
     (if mt_modifiers t = [MutPtr, MutPtr]
      then map_option (\<lambda>r. r = BASE_REF_COUNTED) (root tree (ge_tokens env (mt_ty t)))
      else Some False)"

section \<open>Objects passed in\<close>

text \<open>
  A call from Rust adds a reference for the callee; a method in Rust owns the reference it is
  passed and releases it when it returns. \<^const>\<open>None\<close> is the null pointer.
\<close>

definition call_with_object :: "('o option \<Rightarrow> 'o ledger \<Rightarrow> 'o ledger) \<Rightarrow> 'o option \<Rightarrow> 'o ledger \<Rightarrow> 'o ledger" where
  "call_with_object callee arg rc = callee arg (add_refs (present [arg]) rc)"

definition cef_object_method :: "('o option \<Rightarrow> 'o ledger \<Rightarrow> 'o ledger) \<Rightarrow> 'o option \<Rightarrow> 'o ledger \<Rightarrow> 'o ledger" where
  "cef_object_method impl arg rc = release_refs (present [arg]) (impl arg rc)"

section \<open>Objects passed in and out\<close>

text \<open>
  A body, in Rust or in C++, may assign to the slot it is given: \<^term>\<open>Some v\<close> assigns \<open>v\<close>,
  and the slot drops the reference it had and owns one to \<open>v\<close>; \<^const>\<open>None\<close> leaves it alone.
\<close>

definition assigned :: "'o option option \<Rightarrow> 'o option \<Rightarrow> 'o option" where
  "assigned act old = (case act of Some v \<Rightarrow> v | None \<Rightarrow> old)"

definition exchange :: "'o option \<Rightarrow> 'o option \<Rightarrow> 'o ledger \<Rightarrow> 'o ledger" where
  "exchange old new rc = release_refs (present [old]) (add_refs (present [new]) rc)"

definition run_body :: "('o option \<Rightarrow> 'o option option) \<Rightarrow> 'o option \<Rightarrow> 'o ledger \<Rightarrow> 'o option \<times> 'o ledger" where
  "run_body body slot rc = (let new = assigned (body slot) slot in (new, exchange slot new rc))"

text \<open>
  A call from Rust. \<open>out\<close> is the argument \<^verbatim>\<open>Option<&mut Option<T>>\<close>; the callee is given a pointer
  to a pointer, null when there is no argument, and returns what is there afterwards.
\<close>

definition call_with_object_out ::
  "('o option option \<Rightarrow> 'o ledger \<Rightarrow> 'o option option \<times> 'o ledger) \<Rightarrow> 'o option option \<Rightarrow> 'o ledger
     \<Rightarrow> 'o option option \<times> 'o ledger" where
  "call_with_object_out callee out rc =
     (case out of
        None \<Rightarrow> (None, snd (callee None rc))
      | Some arg \<Rightarrow>
          let (cell, rc') = callee (Some arg) (add_refs (present [arg]) rc)
          in (Some (case cell of Some p \<Rightarrow> p | None \<Rightarrow> arg), release_refs (present [arg]) rc'))"

text \<open>A method in Rust: the result is written back only when it is an object.\<close>

definition cef_object_out_method ::
  "('o option \<Rightarrow> 'o option option) \<Rightarrow> 'o option option \<Rightarrow> 'o ledger \<Rightarrow> 'o option option \<times> 'o ledger" where
  "cef_object_out_method impl cell rc =
     (case cell of
        None \<Rightarrow> let (wrap, rc') = run_body impl None rc in (None, release_refs (present [wrap]) rc')
      | Some p \<Rightarrow>
          let (wrap, rc') = run_body impl p rc
          in (case wrap of Some x \<Rightarrow> (Some (Some x), rc') | None \<Rightarrow> (Some p, rc')))"

section \<open>The two sides in libcef\<close>

text \<open>
  libcef as the callee: the smart pointer takes over the reference behind the pointer; after
  the body a changed pointer is returned with a reference of its own, an unchanged one is left
  as it is, and the smart pointer releases what it holds. A null argument ends the call.
\<close>

definition cpptoc_object_out ::
  "('o option \<Rightarrow> 'o option option) \<Rightarrow> 'o option option \<Rightarrow> 'o ledger \<Rightarrow> 'o option option \<times> 'o ledger" where
  "cpptoc_object_out body cell rc =
     (case cell of
        None \<Rightarrow> (None, rc)
      | Some orig \<Rightarrow>
          let (ptr, rc1) = run_body body orig rc
          in (case ptr of
                Some x \<Rightarrow>
                  (if ptr \<noteq> orig then (Some (Some x), release_refs [x] (add_refs [x] rc1))
                   else (Some orig, release_refs [x] rc1))
              | None \<Rightarrow> (Some None, rc1)))"

text \<open>
  libcef as the caller: a reference is added for the callee; afterwards a changed pointer is
  taken over with its reference, an unchanged one is not looked at again.
\<close>

definition ctocpp_object_out ::
  "('o option option \<Rightarrow> 'o ledger \<Rightarrow> 'o option option \<times> 'o ledger) \<Rightarrow> 'o option \<Rightarrow> 'o ledger \<Rightarrow> 'o option \<times> 'o ledger" where
  "ctocpp_object_out callee client rc =
     (let (cell, rc1) = callee (Some client) (add_refs (present [client]) rc)
      in case Option.bind cell (\<lambda>p. p) of
           Some s \<Rightarrow> if Some s \<noteq> client then (Some s, release_refs (present [client]) rc1) else (client, rc1)
         | None \<Rightarrow> (None, release_refs (present [client]) rc1))"

section \<open>Structures\<close>

text \<open>
  A structure passed by pointer from Rust is a copy, converted; nothing reads the copy after
  the call. \<open>into_c\<close> is the conversion.
\<close>

definition call_with_struct :: "('t \<Rightarrow> 'c) \<Rightarrow> ('c option \<Rightarrow> 'c option \<times> 'r) \<Rightarrow> 't option \<Rightarrow> 't option \<times> 'r" where
  "call_with_struct into_c callee arg = (let (cell, result) = callee (map_option into_c arg) in (arg, result))"

text \<open>A method in Rust: the structure is moved into a wrapper, which writes it back when dropped.\<close>

definition cef_struct_method :: "'c \<Rightarrow> 't \<Rightarrow> ('c \<Rightarrow> 't) \<Rightarrow> ('t \<Rightarrow> 'c) \<Rightarrow> ('t \<Rightarrow> 't) \<Rightarrow> 'c option \<Rightarrow> 'c option" where
  "cef_struct_method zero_c zero_t of_c into_c impl cell =
     (case cell of
        None \<Rightarrow> None
      | Some _ \<Rightarrow>
          let (w, cell') = wp_from_mut zero_c zero_t of_c cell in wp_drop into_c (wp_as_mut impl w) cell')"

section \<open>What a callee promises about the slot\<close>

lemmas ledger_defs = exchange_def add_refs_def release_refs_def present_def List.map_filter_def fun_eq_iff

lemma present_simps [simp]: "present [None] = []" "present [Some x] = [x]"
  by (simp_all add: present_def List.map_filter_def)

lemma refs_Nil [simp]: "add_refs [] rc = rc" "release_refs [] rc = rc"
  by (simp_all add: add_refs_def release_refs_def)

lemma exchange_same [simp]: "exchange p p rc = rc"
  by (simp add: ledger_defs)

lemma release_exchange_passed: "release_refs (present [p]) (exchange p q (add_refs (present [p]) rc)) = exchange p q rc"
  by (simp add: ledger_defs)

text \<open>
  Two conventions. An owning callee takes over the reference it is passed and hands over one to
  whatever it leaves in the slot; a callee by the rule of libcef hands one over only when the
  slot has changed.
\<close>

locale owning_callee =
  fixes callee :: "'o option option \<Rightarrow> 'o ledger \<Rightarrow> 'o option option \<times> 'o ledger"
    and result :: "'o option \<Rightarrow> 'o option"
  assumes owning: "callee (Some p) rc = (Some (result p), exchange p (result p) rc)"
begin

lemma rust_caller_exact: "call_with_object_out callee (Some arg) rc = (Some (result arg), exchange arg (result arg) rc)"
  by (simp only: call_with_object_out_def owning option.case prod.case release_exchange_passed Let_def)

lemma libcef_caller:
  "ctocpp_object_out callee client rc =
     (if result client = client then (client, add_refs (present [client]) rc)
      else (result client, exchange client (result client) rc))"
proof (cases "result client")
  case None
  then show ?thesis by (cases client) (simp_all add: ctocpp_object_out_def owning ledger_defs)
next
  case (Some s)
  then show ?thesis by (cases client) (auto simp: ctocpp_object_out_def owning ledger_defs)
qed

end

locale changing_callee =
  fixes callee :: "'o option option \<Rightarrow> 'o ledger \<Rightarrow> 'o option option \<times> 'o ledger"
    and result :: "'o option \<Rightarrow> 'o option"
  assumes changing:
    "callee (Some p) rc =
       (Some (result p), if result p = p then release_refs (present [p]) rc else exchange p (result p) rc)"
begin

lemma libcef_caller_exact: "ctocpp_object_out callee client rc = (result client, exchange client (result client) rc)"
proof (cases "result client")
  case None
  then show ?thesis by (cases client) (simp_all add: ctocpp_object_out_def changing ledger_defs)
next
  case (Some s)
  then show ?thesis by (cases client) (auto simp: ctocpp_object_out_def changing ledger_defs)
qed

lemma rust_caller:
  "call_with_object_out callee (Some arg) rc =
     (Some (result arg), if result arg = arg then release_refs (present [arg]) rc else exchange arg (result arg) rc)"
  by (cases "result arg = arg") (simp_all add: call_with_object_out_def changing ledger_defs)

end

text \<open>The body of a method in Rust that never leaves the slot empty keeps the first, libcef the second.\<close>

lemma cef_object_out_method_owning:
  assumes "assigned (impl p) p \<noteq> None \<or> p = None"
  shows "cef_object_out_method impl (Some p) rc = (Some (assigned (impl p) p), exchange p (assigned (impl p) p) rc)"
  using assms by (cases "assigned (impl p) p") (auto simp: cef_object_out_method_def run_body_def Let_def)

lemma cef_object_out_method_cleared:
  assumes "assigned (impl (Some x)) (Some x) = None"
  shows "cef_object_out_method impl (Some (Some x)) rc = (Some (Some x), release_refs [x] rc)"
  using assms by (simp add: cef_object_out_method_def run_body_def ledger_defs)

interpretation rust_assigns: owning_callee "cef_object_out_method (\<lambda>p. Some (Some (new p)))" "\<lambda>p. Some (new p)"
  for new :: "'o option \<Rightarrow> 'o"
  by unfold_locales (simp add: cef_object_out_method_owning assigned_def)

interpretation rust_keeps: owning_callee "cef_object_out_method (\<lambda>p. None)" "\<lambda>p. p"
proof unfold_locales
  fix p :: "'o option" and rc
  show "cef_object_out_method (\<lambda>p. None) (Some p) rc = (Some p, exchange p p rc)"
    using cef_object_out_method_owning [of "\<lambda>p. None" p rc] by (cases p) (simp_all add: assigned_def)
qed

interpretation libcef_body: changing_callee "cpptoc_object_out body" "\<lambda>p. assigned (body p) p"
  for body :: "'o option \<Rightarrow> 'o option option"
proof unfold_locales
  fix p :: "'o option" and rc
  show "cpptoc_object_out body (Some p) rc =
      (Some (assigned (body p) p),
       if assigned (body p) p = p then release_refs (present [p]) rc else exchange p (assigned (body p) p) rc)"
  proof (cases "assigned (body p) p")
    case None
    then show ?thesis by (cases p) (simp_all add: cpptoc_object_out_def run_body_def ledger_defs)
  next
    case (Some x)
    then show ?thesis by (auto simp: cpptoc_object_out_def run_body_def ledger_defs)
  qed
qed

section \<open>Properties\<close>

definition adds_reference :: "rust_conversion \<Rightarrow> bool" where
  "adds_reference c \<longleftrightarrow> (case c of ObjectInOut \<Rightarrow> True | BaseObject \<Rightarrow> True | ObjectIn _ \<Rightarrow> True | _ \<Rightarrow> False)"

definition owns_reference :: "cef_conversion \<Rightarrow> bool" where
  "owns_reference c \<longleftrightarrow> (case c of Guard _ \<Rightarrow> True | GuardInOut \<Rightarrow> True | _ \<Rightarrow> False)"

lemmas single_defs = unwrap_rust_single_def wrap_cef_single_def unwrap_object_def wrap_object_def wrap_other_def unwrap_named_def
  pointer_conversion_def raw_or_default_def

text \<open>
  For a parameter of a structure of CEF behind a pointer, the two sides of the
  bindings agree on who owns the reference: a call from Rust adds one exactly when the method
  in Rust makes a guard of it, which is when the type derives from the counted base. The
  parameters passed in and out are the same on both sides, before and after the call, and those are declared
  \<^verbatim>\<open>Option<&mut Option<T>>\<close>.
\<close>

lemma conversions_agree:
  assumes "cef_name_map tree (ge_tokens env (mt_ty t)) = Some \<lparr>nm_name = name, nm_ty = StructDeclaration is_sealed\<rparr>"
    and "root tree (ge_tokens env (mt_ty t)) = Some r"
    and "mt_modifiers t \<in> {[ConstPtr], [MutPtr], [MutPtr, MutPtr]}"
  shows "(\<exists>c. unwrap_rust_single env tree t = Some c
              \<and> (case c of Some c \<Rightarrow> adds_reference c | None \<Rightarrow> False) = (r = BASE_REF_COUNTED))
    \<and> (\<exists>c. wrap_cef_single env tree t = Some c \<and> owns_reference c = (r = BASE_REF_COUNTED))
    \<and> (unwrap_rust_single env tree t = Some (Some ObjectInOut) \<longleftrightarrow> rewrap_rust_single env tree t = Some True)
    \<and> (wrap_cef_single env tree t = Some GuardInOut \<longleftrightarrow> unwrap_cef_single env tree t = Some True)
    \<and> (unwrap_rust_single env tree t = Some (Some ObjectInOut) \<longleftrightarrow> wrap_cef_single env tree t = Some GuardInOut)
    \<and> (wrap_cef_single env tree t = Some GuardInOut \<longrightarrow>
         get_argument_type env tree t = Some (Some (ROption (RRefMut (ROption (RIdent name))))))"
proof -
  consider "mt_modifiers t = [ConstPtr]" | "mt_modifiers t = [MutPtr]" | "mt_modifiers t = [MutPtr, MutPtr]"
    using assms(3) by auto
  then show ?thesis
    by cases
      (use assms(1,2) in \<open>auto simp: single_defs adds_reference_def owns_reference_def rewrap_rust_single_def
        unwrap_cef_single_def get_argument_type_def argument_struct_def Let_def\<close>)
qed

text \<open>
  Property C28. A body that assigns a new object to a slot passed in and out gives the same
  result and the same counts whether the caller is Rust or libcef and whether the body is in Rust
  or in libcef: the caller's slot holds the new object and owns one reference to it, and the
  reference to the old one is given up. Objects passed in keep their counts but for what the
  method does.
\<close>

theorem new_object_crosses:
  assumes "body slot = Some (Some new)" and "slot \<noteq> Some new"
  shows "ctocpp_object_out (cpptoc_object_out body) slot rc = (Some new, exchange slot (Some new) rc)
    \<and> ctocpp_object_out (cef_object_out_method body) slot rc = (Some new, exchange slot (Some new) rc)
    \<and> call_with_object_out (cpptoc_object_out body) (Some slot) rc = (Some (Some new), exchange slot (Some new) rc)
    \<and> call_with_object_out (cef_object_out_method body) (Some slot) rc = (Some (Some new), exchange slot (Some new) rc)
    \<and> call_with_object (cef_object_method (\<lambda>a rc x. rc x + effect a x)) arg rc = (\<lambda>x. rc x + effect arg x)"
proof -
  have result: "assigned (body slot) slot = Some new" by (simp add: assms(1) assigned_def)
  have same: "cef_object_out_method body (Some slot) rc' = cef_object_out_method (\<lambda>p. Some (Some new)) (Some slot) rc'" for rc'
    by (simp add: cef_object_out_method_def run_body_def assms(1))
  have "ctocpp_object_out (cef_object_out_method body) slot rc = (Some new, exchange slot (Some new) rc)"
    using rust_assigns.libcef_caller [of "\<lambda>p. new" slot rc] assms(2) by (simp add: ctocpp_object_out_def same)
  moreover have "call_with_object_out (cef_object_out_method body) (Some slot) rc = (Some (Some new), exchange slot (Some new) rc)"
    using rust_assigns.rust_caller_exact [of "\<lambda>p. new" slot rc] by (simp add: call_with_object_out_def same)
  moreover have "call_with_object (cef_object_method (\<lambda>a rc x. rc x + effect a x)) arg rc = (\<lambda>x. rc x + effect arg x)"
    by (simp add: call_with_object_def cef_object_method_def add_refs_def release_refs_def)
  ultimately show ?thesis
    using libcef_body.libcef_caller_exact [of body slot rc] libcef_body.rust_caller [of body slot rc] assms(2)
    unfolding result by simp
qed

theorem new_object_crosses_witness:
  "ctocpp_object_out (cef_object_out_method (\<lambda>p. Some (Some 2))) (Some (1 :: nat)) ((\<lambda>x. 0)(1 := 3)) =
     (Some 2, exchange (Some 1) (Some 2) ((\<lambda>x. 0)(1 := 3)))"
  using new_object_crosses [of "\<lambda>p. Some (Some 2)" "Some (1 :: nat)" 2 "(\<lambda>x. 0)(1 := 3)" "\<lambda>a x. 0" None] by simp

text \<open>
  What becomes of a slot that the body leaves alone or clears, for each caller and body. The
  conventions of libcef fit each other; a method in Rust called by libcef costs a reference
  when it leaves an object alone and cannot clear the slot; a body in libcef that leaves an
  object alone takes the reference of a caller in Rust, as does a method in Rust that clears.
\<close>

lemma unchanged_slot:
  assumes "assigned (body (Some x)) (Some x) = Some x"
  shows "ctocpp_object_out (cpptoc_object_out body) (Some x) rc = (Some x, rc)"
    and "ctocpp_object_out (cef_object_out_method body) (Some x) rc = (Some x, add_refs [x] rc)"
    and "call_with_object_out (cpptoc_object_out body) (Some (Some x)) rc = (Some (Some x), release_refs [x] rc)"
    and "call_with_object_out (cef_object_out_method body) (Some (Some x)) rc = (Some (Some x), rc)"
proof -
  have same: "cef_object_out_method body (Some (Some x)) rc' = cef_object_out_method (\<lambda>p. None) (Some (Some x)) rc'" for rc'
    using assms by (simp add: cef_object_out_method_def run_body_def assigned_def)
  show "ctocpp_object_out (cpptoc_object_out body) (Some x) rc = (Some x, rc)"
    and "call_with_object_out (cpptoc_object_out body) (Some (Some x)) rc = (Some (Some x), release_refs [x] rc)"
    using libcef_body.libcef_caller_exact [of body "Some x" rc] libcef_body.rust_caller [of body "Some x" rc]
    unfolding assms by simp_all
  show "ctocpp_object_out (cef_object_out_method body) (Some x) rc = (Some x, add_refs [x] rc)"
    and "call_with_object_out (cef_object_out_method body) (Some (Some x)) rc = (Some (Some x), rc)"
    using rust_keeps.libcef_caller [of "Some x" rc] rust_keeps.rust_caller_exact [of "Some x" rc]
    by (simp_all add: ctocpp_object_out_def call_with_object_out_def same)
qed

lemma cleared_slot:
  assumes "assigned (body (Some x)) (Some x) = None"
  shows "ctocpp_object_out (cpptoc_object_out body) (Some x) rc = (None, release_refs [x] rc)"
    and "ctocpp_object_out (cef_object_out_method body) (Some x) rc = (Some x, rc)"
    and "call_with_object_out (cpptoc_object_out body) (Some (Some x)) rc = (Some None, release_refs [x] rc)"
    and "call_with_object_out (cef_object_out_method body) (Some (Some x)) rc = (Some (Some x), release_refs [x] rc)"
proof -
  show "ctocpp_object_out (cpptoc_object_out body) (Some x) rc = (None, release_refs [x] rc)"
    and "call_with_object_out (cpptoc_object_out body) (Some (Some x)) rc = (Some None, release_refs [x] rc)"
    using libcef_body.libcef_caller_exact [of body "Some x" rc] libcef_body.rust_caller [of body "Some x" rc]
    unfolding assms by (simp_all add: exchange_def)
  show "ctocpp_object_out (cef_object_out_method body) (Some x) rc = (Some x, rc)"
    and "call_with_object_out (cef_object_out_method body) (Some (Some x)) rc = (Some (Some x), release_refs [x] rc)"
    using assms
    by (simp_all add: ctocpp_object_out_def call_with_object_out_def cef_object_out_method_cleared ledger_defs)
qed

text \<open>
  Property C29. Every popup costs a reference: when libcef asks a handler in Rust about a popup
  and the handler leaves the client of the popup as it is, which is what a handler does that
  does not look at it, the opener's client has one reference more after the call, and after
  \<open>n\<close> popups it has \<open>n\<close> more, which nobody owns; it is never freed. The same body in C++ leaves the counts as they were.
\<close>

theorem popup_leaks_client:
  "((\<lambda>(client, rc). ctocpp_object_out (cef_object_out_method (\<lambda>p. None)) client rc) ^^ n) (Some x, rc)
     = (Some x, rc(x := rc x + int n))
   \<and> ((\<lambda>(client, rc). ctocpp_object_out (cpptoc_object_out (\<lambda>p. None)) client rc) ^^ n) (Some x, rc) = (Some x, rc)"
proof (induction n)
  case (Suc n)
  have "add_refs [x] (rc(x := rc x + int n)) = rc(x := rc x + int (Suc n))"
    by (auto simp: add_refs_def)
  with Suc show ?case
    using unchanged_slot [of "\<lambda>p. None" x "rc(x := rc x + int n)"] unchanged_slot [of "\<lambda>p. None" x rc]
    by (simp add: assigned_def fun_upd_def)
qed simp

text \<open>
  The value a script gives: \<^verbatim>\<open>eval\<close> called from Rust gives up the reference to the object the
  caller had and leaves it with one to the result, or with nothing when the script fails; the
  result is a new object.
\<close>

lemma eval_exact:
  assumes "result \<noteq> slot \<or> slot = None"
  shows "call_with_object_out (cpptoc_object_out (\<lambda>p. Some result)) (Some slot) rc = (Some result, exchange slot result rc)"
  using assms libcef_body.rust_caller [of "\<lambda>p. Some result" slot rc]
  by (auto simp: assigned_def)

text \<open>
  What a callee writes to a structure passed from Rust does not come back, whoever the callee
  is; a method in Rust does hand its changes over to libcef.
\<close>

lemma struct_changes:
  "fst (call_with_struct into_c callee arg) = arg"
  "fst (call_with_struct into_c (\<lambda>cell. (cef_struct_method zero_c zero_t of_c into_c impl cell, ())) arg) = arg"
  "cef_struct_method zero_c zero_t of_c into_c impl cell = map_option (\<lambda>c. into_c (impl (of_c c))) cell"
  using wrap_param_writes_back [of zero_c zero_t of_c cell into_c impl]
  by (cases cell; simp add: call_with_struct_def cef_struct_method_def split: prod.split)+

end
