(* ===== verification/Build_Cef_Dir.thy ===== *)
theory Build_Cef_Dir
  imports Export_Cef_Dir
begin

text \<open>
  Which directory of CEF is used: the build script \<^verbatim>\<open>sys/build.rs\<close> chooses one when the crate is
  compiled, downloading a build where there is none, and \<^verbatim>\<open>get_cef_dir\<close> of \<^verbatim>\<open>sys/src/lib.rs\<close> looks for it
  again when an application is bundled; \<open>check_archive_json\<close> of \<^verbatim>\<open>download-cef/src/lib.rs\<close> compares the
  version of a build with the one the crate is for. The file system is that of the extraction
  (absolute paths without links); the download is the argument \<open>ee_fetch\<close>, versions (\<^verbatim>\<open>semver\<close>), the
  regular expression and JSON are parameters. Compiling the wrapper library and the messages to
  Cargo are not modelled.
\<close>

record 'v build_env =
  be_dl :: "'v dl_env"
  be_export :: export_env
  be_archive_version :: "string \<Rightarrow> string"
  be_parse_json :: "u8 list \<Rightarrow> cef_file option"

text \<open>The variables of the environment; \<open>bv_out_dir\<close> and \<open>bv_version\<close> are fixed when the crate is compiled.\<close>

record build_vars =
  bv_flatpak :: bool
  bv_cef_path :: "fs_path option"
  bv_out_dir :: fs_path
  bv_target :: string
  bv_version :: string

definition path_text :: "fs_path \<Rightarrow> string" where
  "path_text p = concat (map (\<lambda>c. ''/'' @ c) p)"

definition archive_json_path :: "fs_path \<Rightarrow> fs_path" where
  "archive_json_path location = location @ [''archive.json'']"

definition dl_then :: "(dl_error + 'a) \<Rightarrow> ('a \<Rightarrow> dl_error + 'b) \<Rightarrow> dl_error + 'b" where
  "dl_then r f = (case r of Inl e \<Rightarrow> Inl e | Inr a \<Rightarrow> f a)"

definition parse_version :: "'v build_env \<Rightarrow> string \<Rightarrow> dl_error + 'v" where
  "parse_version env s = (case dl_parse (be_dl env) s of None \<Rightarrow> Inl InvalidVersion | Some v \<Rightarrow> Inr v)"

definition check_archive_json :: "'v::linorder build_env \<Rightarrow> string \<Rightarrow> fs_path \<Rightarrow> fs \<Rightarrow> dl_error + unit" where
  "check_archive_json env version location fs =
     dl_then (fst (unwrap_cef_version (be_dl env) version Map.empty)) (\<lambda>text.
     dl_then (parse_version env text) (\<lambda>expected.
       case fs_get fs (archive_json_path location) of
         Some (FsFile bytes) \<Rightarrow>
           (case be_parse_json env bytes of
              None \<Rightarrow> Inl JsonError
            | Some archive_json \<Rightarrow>
                (let archive_version = be_archive_version env (cf_name archive_json)
                 in dl_then (parse_version env archive_version) (\<lambda>archive.
                      if archive \<le> expected then Inr ()
                      else Inl (VersionMismatch (path_text location) archive_version text))))
       | _ \<Rightarrow> Inl IoError))"

section \<open>The build script\<close>

definition be_query :: "'v build_env \<Rightarrow> (fs \<Rightarrow> 'a) \<Rightarrow> xe_world \<Rightarrow> 'a export_result" where
  "be_query env f w = ex_bind (ex_io (xe_io (\<lambda>n fs. (\<not> xe_fails (ee_xe (be_export env)) n, fs)) w)) (\<lambda>_ w. (Inr (f (xw_fs w)), w))"

definition be_exists :: "'v build_env \<Rightarrow> fs_path \<Rightarrow> xe_world \<Rightarrow> bool export_result" where
  "be_exists env p = be_query env (\<lambda>fs. fs_get fs p \<noteq> None)"

definition check_archive :: "'v::linorder build_env \<Rightarrow> build_vars \<Rightarrow> fs_path \<Rightarrow> xe_world \<Rightarrow> unit export_result" where
  "check_archive env vars path w =
     ex_bind (be_query env (check_archive_json env (bv_version vars) path) w) (\<lambda>r w. ex_download (r, w))"

definition fetch_build :: "'v build_env \<Rightarrow> build_vars \<Rightarrow> fs_path \<Rightarrow> fs_path \<Rightarrow> xe_world \<Rightarrow> fs_path export_result" where
  "fetch_build env vars location cef_dir w =
     (let (fetched, fs) = ee_fetch (be_export env) location (xw_fs w)
      in ex_bind (ex_download (fetched, w\<lparr>xw_fs := fs\<rparr>)) (\<lambda>(archive, entry) w.
         ex_bind (ex_download (extract_target_archive (ee_xe (be_export env)) (bv_target vars) archive location w)) (\<lambda>extracted_dir w.
         ex_bind (be_exists env extracted_dir w) (\<lambda>extracted_there w.
         ex_bind (be_exists env cef_dir w) (\<lambda>cef_there w.
           if \<not> extracted_there \<or> \<not> cef_there then (Inl (ExDownload IoError), w)
           else if extracted_dir \<noteq> cef_dir then (Inl ExDirectoryMismatch, w)
           else ex_bind (write_archive_json (be_export env) entry extracted_dir w) (\<lambda>_ w. (Inr cef_dir, w)))))))"

definition resolve_cef_dir :: "'v build_env \<Rightarrow> build_vars \<Rightarrow> string \<times> string \<Rightarrow> fs_path \<Rightarrow> xe_world \<Rightarrow> fs_path export_result" where
  "resolve_cef_dir env vars os_arch location w =
     (let cef_dir = location @ [os_and_arch_display os_arch]
      in ex_bind (be_exists env cef_dir w) (\<lambda>there w.
           if there then (Inr cef_dir, w) else fetch_build env vars location cef_dir w))"

definition cef_version_text :: "'v build_env \<Rightarrow> build_vars \<Rightarrow> string" where
  "cef_version_text env vars = fst (default_version (be_dl env) (bv_version vars) Map.empty)"

definition resolve_from_versioned ::
  "'v::linorder build_env \<Rightarrow> build_vars \<Rightarrow> string \<times> string \<Rightarrow> fs_path \<Rightarrow> xe_world \<Rightarrow> fs_path export_result" where
  "resolve_from_versioned env vars os_arch configured_path w =
     ex_bind (resolve_cef_dir env vars os_arch (configured_path @ [cef_version_text env vars]) w) (\<lambda>resolved w.
     ex_bind (check_archive env vars resolved w) (\<lambda>_ w. (Inr resolved, w)))"

definition download_to_versioned :: "'v build_env \<Rightarrow> build_vars \<Rightarrow> string \<times> string \<Rightarrow> fs_path \<Rightarrow> xe_world \<Rightarrow> fs_path export_result" where
  "download_to_versioned env vars os_arch configured_path w =
     resolve_cef_dir env vars os_arch (configured_path @ [cef_version_text env vars]) w"

text \<open>A configured directory without one for the version: it is used if its build is fit, and otherwise one is downloaded.\<close>

definition use_configured ::
  "'v::linorder build_env \<Rightarrow> build_vars \<Rightarrow> string \<times> string \<Rightarrow> fs_path \<Rightarrow> xe_world \<Rightarrow> fs_path export_result" where
  "use_configured env vars os_arch configured_path w =
     (case check_archive env vars configured_path w of
        (Inr _, w) \<Rightarrow> (Inr configured_path, w)
      | (Inl _, w) \<Rightarrow> download_to_versioned env vars os_arch configured_path w)"

definition FLATPAK_PATH :: fs_path where
  "FLATPAK_PATH = [''usr'', ''lib'']"

definition build_cef_dir :: "'v::linorder build_env \<Rightarrow> build_vars \<Rightarrow> xe_world \<Rightarrow> fs_path export_result" where
  "build_cef_dir env vars w =
     (case os_and_arch (bv_target vars) of
        Inl e \<Rightarrow> (Inl (ExDownload e), w)
      | Inr os_arch \<Rightarrow>
          if bv_flatpak vars
          then ex_bind (check_archive env vars FLATPAK_PATH w) (\<lambda>_ w. (Inr FLATPAK_PATH, w))
          else
            (case bv_cef_path vars of
               Some configured_path \<Rightarrow>
                 ex_bind (be_exists env configured_path w) (\<lambda>there w.
                   if there
                   then ex_bind (be_exists env (configured_path @ [cef_version_text env vars]) w) (\<lambda>versioned w.
                          if versioned then resolve_from_versioned env vars os_arch configured_path w
                          else use_configured env vars os_arch configured_path w)
                   else download_to_versioned env vars os_arch configured_path w)
             | None \<Rightarrow> resolve_cef_dir env vars os_arch (bv_out_dir vars) w))"

text \<open>
  The whole script: with \<^verbatim>\<open>CEF_SKIP_DLL_WRAPPER_BUILD\<close> set it looks for no directory and leaves the
  linking to the user.
\<close>

definition build_script ::
  "'v::linorder build_env \<Rightarrow> bool \<Rightarrow> build_vars \<Rightarrow> xe_world \<Rightarrow> fs_path option export_result" where
  "build_script env skip vars w =
     (if skip then (Inr None, w) else ex_bind (build_cef_dir env vars w) (\<lambda>dir w. (Inr (Some dir), w)))"

lemma build_script_dir:
  "build_script env skip vars w = (Inr (Some dir), w') \<longleftrightarrow> \<not> skip \<and> build_cef_dir env vars w = (Inr dir, w')"
  by (cases "build_cef_dir env vars w"; cases "fst (build_cef_dir env vars w)") (auto simp: build_script_def ex_bind_def)

section \<open>Looking for the directory again\<close>

definition after_plus :: "string \<Rightarrow> string" where
  "after_plus version =
     (case dropWhile (\<lambda>c. c \<noteq> CHR ''+'') version of [] \<Rightarrow> version | c # rest \<Rightarrow> rest)"

text \<open>
  \<open>denied\<close> says which paths cannot be looked at; \<open>os_arch\<close> are the constants of the platform. A path that is there
  but has no canonical form ends the search.
\<close>

definition first_existing :: "(fs_path \<Rightarrow> bool) \<Rightarrow> (fs_path \<Rightarrow> bool) \<Rightarrow> fs \<Rightarrow> fs_path list \<Rightarrow> fs_path option" where
  "first_existing denied uncanonical fs ps =
     (case List.find (\<lambda>p. \<not> denied p \<and> fs_get fs p \<noteq> None) ps of
        None \<Rightarrow> None
      | Some p \<Rightarrow> if uncanonical p then None else Some p)"

definition get_cef_dir ::
  "build_vars \<Rightarrow> string \<times> string \<Rightarrow> (fs_path \<Rightarrow> bool) \<Rightarrow> (fs_path \<Rightarrow> bool) \<Rightarrow> fs \<Rightarrow> fs_path option" where
  "get_cef_dir vars os_arch denied uncanonical fs =
     (let cef_dir = os_and_arch_display os_arch
      in case (if bv_flatpak vars then Some FLATPAK_PATH else bv_cef_path vars) of
           Some configured_path \<Rightarrow>
             first_existing denied uncanonical fs
               [configured_path @ [after_plus (bv_version vars), cef_dir], configured_path]
         | None \<Rightarrow>
             (let dir = bv_out_dir vars @ [cef_dir]
              in if fs_get fs dir = None \<or> uncanonical dir \<or> denied dir then None else Some dir))"

section \<open>Properties\<close>

lemma be_query_Inr:
  "be_query env f w = (Inr a, w') \<Longrightarrow> xw_fs w' = xw_fs w \<and> a = f (xw_fs w)"
  by (auto simp: be_query_def ex_bind_Inr ex_io_Inr xe_io_def)

lemma be_query_fs: "xw_fs (snd (be_query env f w)) = xw_fs w"
  by (auto simp: be_query_def ex_bind_def ex_io_def xe_io_def split: sum.splits)

lemma be_exists_Inr: "be_exists env p w = (Inr there, w') \<Longrightarrow> xw_fs w' = xw_fs w \<and> there = (fs_get (xw_fs w) p \<noteq> None)"
  by (auto simp: be_exists_def dest!: be_query_Inr)

lemma check_archive_fs: "xw_fs (snd (check_archive env vars path w)) = xw_fs w"
  using be_query_fs [of env "check_archive_json env (bv_version vars) path" w]
  by (auto simp: check_archive_def ex_bind_def ex_download_def split: sum.splits prod.splits)

lemma check_archive_Inr:
  "check_archive env vars path w = (Inr u, w') \<Longrightarrow>
     xw_fs w' = xw_fs w \<and> check_archive_json env (bv_version vars) path (xw_fs w) = Inr ()"
  by (auto simp: check_archive_def ex_bind_Inr ex_download_Inr dest!: be_query_Inr)

lemma check_archive_json_file:
  "check_archive_json env version location fs = Inr () \<Longrightarrow> fs_get fs (archive_json_path location) \<noteq> None"
  by (auto simp: check_archive_json_def dl_then_def split: sum.splits option.splits)

lemma fetch_build_Inr:
  assumes "fetch_build env vars location cef_dir w = (Inr dir, w')"
  shows "dir = cef_dir \<and> fs_get (xw_fs w') cef_dir = Some FsDir"
proof -
  obtain fetched fs where fetched: "ee_fetch (be_export env) location (xw_fs w) = (fetched, fs)" by fastforce
  from assms obtain a e w2 where
      "ex_download (fetched, w\<lparr>xw_fs := fs\<rparr>) = (Inr (a, e), w2)"
    and rest: "ex_bind (ex_download (extract_target_archive (ee_xe (be_export env)) (bv_target vars) a location w2)) (\<lambda>extracted_dir w.
         ex_bind (be_exists env extracted_dir w) (\<lambda>extracted_there w.
         ex_bind (be_exists env cef_dir w) (\<lambda>cef_there w.
           if \<not> extracted_there \<or> \<not> cef_there then (Inl (ExDownload IoError), w)
           else if extracted_dir \<noteq> cef_dir then (Inl ExDirectoryMismatch, w)
           else ex_bind (write_archive_json (be_export env) e extracted_dir w) (\<lambda>_ w. (Inr cef_dir, w))))) = (Inr dir, w')"
    by (auto simp: fetch_build_def fetched ex_bind_Inr [where b = dir])
  then obtain w3 where "ex_bind (write_archive_json (be_export env) e cef_dir w3) (\<lambda>_ w. (Inr cef_dir, w)) = (Inr dir, w')"
    by (auto simp: ex_bind_Inr [where b = dir] split: if_splits)
  then have dir: "dir = cef_dir" and "write_archive_json (be_export env) e cef_dir w3 = (Inr (), w')"
    by (auto simp: ex_bind_Inr)
  then have "xe_write_file (ee_xe (be_export env)) (cef_dir @ [''archive.json'']) (ee_json (be_export env) e) w3 = (True, w')"
    by (simp add: write_archive_json_def ex_io_Inr)
  then have "fs_get (xw_fs w3) cef_dir = Some FsDir" "fs_get (xw_fs w') cef_dir = fs_get (xw_fs w3) cef_dir"
    by (auto simp: xe_write_file_def xe_io_def butlast_append fs_write_def fs_get_Cons split: if_splits)
  then show ?thesis by (simp add: dir)
qed

lemma resolve_cef_dir_Inr:
  assumes "resolve_cef_dir env vars oa location w = (Inr dir, w')"
  shows "dir = location @ [os_and_arch_display oa] \<and> fs_get (xw_fs w') dir \<noteq> None"
  using assms
  by (auto simp: resolve_cef_dir_def Let_def ex_bind_Inr [where b = dir] dest!: fetch_build_Inr be_exists_Inr split: if_splits)

lemma use_configured_Inr:
  assumes "use_configured env vars oa c w = (Inr dir, w')"
  shows "(dir = c \<and> xw_fs w' = xw_fs w) \<or> (\<exists>w1. resolve_cef_dir env vars oa (c @ [cef_version_text env vars]) w1 = (Inr dir, w'))"
proof (cases "check_archive env vars c w")
  case (Pair r w1)
  with assms check_archive_fs [of env vars c w] show ?thesis
    by (cases r) (auto simp: use_configured_def download_to_versioned_def)
qed

text \<open>
  Property C30. The directory the build script has chosen is the one found again when an application
  is bundled with the same environment, whether it was configured, found under its version,
  downloaded there because the configured one did not fit, or downloaded by default. It has to
  be the same version text on both sides, which holds when the parsed version gives the part after the
  plus sign as its build, and for a Flatpak nothing may be under the version in the directory
  of the libraries.
\<close>

theorem bundle_finds_build:
  assumes "build_cef_dir env vars w = (Inr dir, w')" "os_and_arch (bv_target vars) = Inr oa"
    and "dl_parse (be_dl env) (bv_version vars) = Some v"
    and "if CHR ''+'' \<in> set (bv_version vars) then dl_build (be_dl env) v = after_plus (bv_version vars) \<and> after_plus (bv_version vars) \<noteq> []
         else dl_build (be_dl env) v = []"
    and "\<And>p n. fs_get (xw_fs w) (p @ [n]) \<noteq> None \<Longrightarrow> fs_get (xw_fs w) p \<noteq> None"
    and "bv_flatpak vars \<Longrightarrow> fs_get (xw_fs w) (FLATPAK_PATH @ [after_plus (bv_version vars), os_and_arch_display oa]) = None"
  shows "get_cef_dir vars oa (\<lambda>p. False) (\<lambda>p. False) (xw_fs w') = Some dir"
proof -
  let ?ver = "after_plus (bv_version vars)"
  have "dropWhile (\<lambda>c. c \<noteq> CHR ''+'') (bv_version vars) = []" if "CHR ''+'' \<notin> set (bv_version vars)"
    using that by (auto simp: dropWhile_eq_Nil_conv)
  then have "after_plus (bv_version vars) = bv_version vars" if "CHR ''+'' \<notin> set (bv_version vars)"
    using that unfolding after_plus_def by (metis (no_types, lifting) list.simps(4))
  with assms(3,4) have ver: "cef_version_text env vars = ?ver"
    by (auto simp: cef_version_text_def default_version_def unwrap_cef_version_def Let_def split: if_splits)
  have versioned: ?thesis
    if "bv_flatpak vars = False" "bv_cef_path vars = Some c" "dir = c @ [?ver, os_and_arch_display oa]" "fs_get (xw_fs w') dir \<noteq> None" for c
    using that by (simp add: get_cef_dir_def first_existing_def)
  consider (flatpak) "bv_flatpak vars" | (configured) c where "\<not> bv_flatpak vars" "bv_cef_path vars = Some c"
    | (default) "\<not> bv_flatpak vars" "bv_cef_path vars = None" by (cases "bv_cef_path vars") auto
  then show ?thesis
  proof cases
    case flatpak
    with assms(1,2) have "check_archive env vars FLATPAK_PATH w = (Inr (), w')" "dir = FLATPAK_PATH"
      by (auto simp: build_cef_dir_def ex_bind_Inr)
    with check_archive_Inr [of env vars FLATPAK_PATH w "()" w'] check_archive_json_file assms(5) [of FLATPAK_PATH "''archive.json''"]
      assms(6) flatpak
    show ?thesis by (fastforce simp: get_cef_dir_def first_existing_def archive_json_path_def)
  next
    case default
    with assms(1,2) have "resolve_cef_dir env vars oa (bv_out_dir vars) w = (Inr dir, w')" by (simp add: build_cef_dir_def)
    with resolve_cef_dir_Inr [OF this] default show ?thesis by (auto simp: get_cef_dir_def Let_def)
  next
    case configured
    have again: ?thesis if "resolve_cef_dir env vars oa (c @ [cef_version_text env vars]) w1 = (Inr dir, w2)" "xw_fs w' = xw_fs w2" for w1 w2
      using resolve_cef_dir_Inr [OF that(1)] that(2) versioned [of c] configured by (auto simp: ver)
    from assms(1,2) configured obtain there w1 where there: "be_exists env c w = (Inr there, w1)"
        and step: "(if there
           then ex_bind (be_exists env (c @ [cef_version_text env vars]) w1) (\<lambda>versioned w.
                  if versioned then resolve_from_versioned env vars oa c w else use_configured env vars oa c w)
           else download_to_versioned env vars oa c w1) = (Inr dir, w')"
      by (auto simp: build_cef_dir_def ex_bind_Inr [where b = dir])
    show ?thesis
    proof (cases there)
      case False
      with step again [of w1 w'] show ?thesis by (simp add: download_to_versioned_def)
    next
      case True
      with step obtain vers w2 where vers: "be_exists env (c @ [cef_version_text env vars]) w1 = (Inr vers, w2)"
          and step2: "(if vers then resolve_from_versioned env vars oa c w2 else use_configured env vars oa c w2) = (Inr dir, w')"
        by (auto simp: ex_bind_Inr [where b = dir])
      show ?thesis
      proof (cases vers)
        case True
        with step2 obtain w3 where "resolve_cef_dir env vars oa (c @ [cef_version_text env vars]) w2 = (Inr dir, w3)"
            "check_archive env vars dir w3 = (Inr (), w')"
          by (auto simp: resolve_from_versioned_def ex_bind_Inr)
        with again check_archive_Inr show ?thesis by blast
      next
        case False
        with vers there True have fs: "xw_fs w2 = xw_fs w" "fs_get (xw_fs w) c \<noteq> None" "fs_get (xw_fs w) (c @ [?ver]) = None"
          using be_exists_Inr [OF there] be_exists_Inr [OF vers] by (auto simp: ver)
        have "fs_get (xw_fs w) (c @ [?ver, os_and_arch_display oa]) = None"
          using fs(3) assms(5) [of "c @ [?ver]" "os_and_arch_display oa"] by fastforce
        then have "?thesis" if "dir = c" "xw_fs w' = xw_fs w2"
          using that fs configured by (auto simp: get_cef_dir_def first_existing_def Let_def)
        with use_configured_Inr [of env vars oa c w2 dir w'] step2 False again [of _ w'] show ?thesis by auto
      qed
    qed
  qed
qed

definition sample_build_env :: "nat build_env" where
  "sample_build_env =
     \<lparr>be_dl = sample_dl_env,
      be_export = sample_export_env\<lparr>ee_fetch := (\<lambda>location fs. (Inr (location @ [''b.tar.bz2''], \<lparr>cf_type = ''minimal'', cf_name = ''b'', cf_sha1 = ''ok''\<rparr>), fs))\<rparr>,
      be_archive_version = (\<lambda>name. name), be_parse_json = (\<lambda>bytes. None)\<rparr>"

definition sample_build_vars :: build_vars where
  "sample_build_vars =
     \<lparr>bv_flatpak = False, bv_cef_path = None, bv_out_dir = [''w''], bv_target = ''x86_64-unknown-linux-gnu'', bv_version = ''1.2.3''\<rparr>"

definition sample_xe_world0 :: xe_world where
  "sample_xe_world0 = sample_xe_world\<lparr>xw_fs := ([], FsDir) # xw_fs sample_xe_world\<rparr>"

theorem bundle_finds_build_witness:
  "\<exists>w'. build_cef_dir sample_build_env sample_build_vars sample_xe_world0 = (Inr [''w'', ''cef_linux_x86_64''], w')
     \<and> get_cef_dir sample_build_vars (''linux'', ''x86_64'') (\<lambda>p. False) (\<lambda>p. False) (xw_fs w') = Some [''w'', ''cef_linux_x86_64'']"
proof -
  let ?r = "build_cef_dir sample_build_env sample_build_vars sample_xe_world0"
  let ?w = "sample_xe_world0\<lparr>xw_ops := 1\<rparr>" and ?d = "[''w'', ''cef_linux_x86_64'']"
  let ?x = "extract_target_archive sample_xe_env ''x86_64-unknown-linux-gnu'' [''w'', ''b.tar.bz2''] [''w''] ?w"
  have "fst ?x = Inr ?d" "fs_get (xw_fs (snd ?x)) ?d = Some FsDir" "fs_get (xw_fs (snd ?x)) (?d @ [''archive.json'']) = None"
    by code_simp+
  then obtain w3 where w3: "?x = (Inr ?d, w3)" "fs_get (xw_fs w3) ?d = Some FsDir" "fs_get (xw_fs w3) (?d @ [''archive.json'']) = None"
    by (cases ?x) auto
  have none: "fs_get (xw_fs sample_xe_world0) ?d = None" by code_simp
  have "fst (resolve_cef_dir sample_build_env sample_build_vars (''linux'', ''x86_64'') [''w''] sample_xe_world0) = Inr ?d"
    using w3 none
    by (simp add: resolve_cef_dir_def fetch_build_def be_exists_def be_query_def xe_io_def ex_bind_def ex_io_def ex_download_def
        write_archive_json_def xe_write_file_def os_and_arch_display_def sample_build_env_def sample_export_env_def sample_build_vars_def
        sample_xe_env_def [THEN arg_cong [where f = xe_fails], simplified] sample_xe_world0_def sample_xe_world_def)
  then have "fst ?r = Inr [''w'', ''cef_linux_x86_64'']"
    by (simp add: build_cef_dir_def os_and_arch_def sample_build_vars_def)
  then obtain w' where r: "?r = (Inr [''w'', ''cef_linux_x86_64''], w')" by (cases ?r) auto
  have "os_and_arch (bv_target sample_build_vars) = Inr (''linux'', ''x86_64'')" by code_simp
  moreover have "dl_parse (be_dl sample_build_env) (bv_version sample_build_vars) = Some 5" by code_simp
  moreover have "if CHR ''+'' \<in> set (bv_version sample_build_vars)
      then dl_build (be_dl sample_build_env) 5 = after_plus (bv_version sample_build_vars) \<and> after_plus (bv_version sample_build_vars) \<noteq> []
      else dl_build (be_dl sample_build_env) 5 = []" by code_simp
  ultimately have "get_cef_dir sample_build_vars (''linux'', ''x86_64'') (\<lambda>p. False) (\<lambda>p. False) (xw_fs w') = Some [''w'', ''cef_linux_x86_64'']"
    by (rule bundle_finds_build [OF r])
      (auto simp: sample_xe_world0_def sample_xe_world_def sample_build_vars_def fs_get_Cons append_eq_Cons_conv split: if_splits)
  with r show ?thesis by blast
qed

text \<open>
  A directory that is there is taken as it is: with neither variable set the build script looks at
  nothing in it. When an extraction stops after the first move, the next build takes what is
  there for a build of CEF, though most of its parts and the file that describes it are missing; under a configured path the same directory is refused,
  and never replaced by a new download.
\<close>

lemma interrupted_build_kept:
  assumes "os_and_arch (bv_target vars) = Inr oa" "\<not> bv_flatpak vars" "\<And>n. \<not> xe_fails (ee_xe (be_export env)) n"
    and "fs_get (xw_fs w) (location @ [os_and_arch_display oa]) = Some FsDir"
    and "fs_get (xw_fs w) (location @ [os_and_arch_display oa, ''archive.json'']) = None"
  shows "bv_cef_path vars = None \<Longrightarrow> bv_out_dir vars = location \<Longrightarrow>
      \<exists>w'. build_cef_dir env vars w = (Inr (location @ [os_and_arch_display oa]), w') \<and> xw_fs w' = xw_fs w"
    and "bv_cef_path vars = Some c \<Longrightarrow> location = c @ [cef_version_text env vars] \<Longrightarrow>
      fs_get (xw_fs w) c \<noteq> None \<Longrightarrow> fs_get (xw_fs w) location \<noteq> None \<Longrightarrow>
      \<exists>e w'. build_cef_dir env vars w = (Inl e, w') \<and> xw_fs w' = xw_fs w"
proof -
  show "\<exists>w'. build_cef_dir env vars w = (Inr (location @ [os_and_arch_display oa]), w') \<and> xw_fs w' = xw_fs w"
    if "bv_cef_path vars = None" "bv_out_dir vars = location"
    using that assms
    by (simp add: build_cef_dir_def resolve_cef_dir_def be_exists_def be_query_def xe_io_def ex_bind_def ex_io_def)
  have "check_archive_json env (bv_version vars) (location @ [os_and_arch_display oa]) (xw_fs w) \<noteq> Inr ()"
    using assms(5) check_archive_json_file by (force simp: archive_json_path_def)
  then show "\<exists>e w'. build_cef_dir env vars w = (Inl e, w') \<and> xw_fs w' = xw_fs w"
    if "bv_cef_path vars = Some c" "location = c @ [cef_version_text env vars]" "fs_get (xw_fs w) c \<noteq> None" "fs_get (xw_fs w) location \<noteq> None"
    using that assms
    by (auto simp: build_cef_dir_def resolve_from_versioned_def resolve_cef_dir_def check_archive_def be_exists_def be_query_def
        xe_io_def ex_bind_def ex_io_def ex_download_def split: sum.splits)
qed

text \<open>Such a directory is left by a build in which one operation on the files fails, here the fourth one.\<close>

definition failing_build_env :: "nat build_env" where
  "failing_build_env =
     sample_build_env\<lparr>be_export := (be_export sample_build_env)\<lparr>ee_xe := sample_xe_env\<lparr>xe_fails := (\<lambda>n. n = 3)\<rparr>\<rparr>\<rparr>"

lemma interrupted_build:
  "\<exists>w'. build_cef_dir failing_build_env sample_build_vars sample_xe_world0 = (Inl (ExDownload IoError), w')
     \<and> fs_get (xw_fs w') [''w'', ''cef_linux_x86_64''] = Some FsDir
     \<and> fs_get (xw_fs w') [''w'', ''cef_linux_x86_64'', ''archive.json''] = None
     \<and> fs_get (xw_fs w') [''w'', ''cef_linux_x86_64'', ''include''] = None"
proof -
  let ?w = "sample_xe_world0\<lparr>xw_ops := 1\<rparr>" and ?d = "[''w'', ''cef_linux_x86_64'']"
  let ?x = "extract_target_archive (sample_xe_env\<lparr>xe_fails := (\<lambda>n. n = 3)\<rparr>) ''x86_64-unknown-linux-gnu'' [''w'', ''b.tar.bz2''] [''w''] ?w"
  have "fst ?x = Inl IoError" "fs_get (xw_fs (snd ?x)) ?d = Some FsDir" "fs_get (xw_fs (snd ?x)) (?d @ [''archive.json'']) = None"
      "fs_get (xw_fs (snd ?x)) (?d @ [''include'']) = None"
    by code_simp+
  moreover have "fs_get (xw_fs sample_xe_world0) ?d = None" by code_simp
  ultimately show ?thesis
    by (cases ?x)
      (simp add: build_cef_dir_def os_and_arch_def resolve_cef_dir_def fetch_build_def be_exists_def be_query_def xe_io_def ex_bind_def
        ex_io_def ex_download_def os_and_arch_display_def failing_build_env_def sample_build_env_def sample_export_env_def
        sample_build_vars_def sample_xe_world0_def sample_xe_world_def)
qed

end
