(* ===== verification/Bundle.thy ===== *)
theory Bundle
  imports Build_Cef_Dir
begin

text \<open>
  \<^verbatim>\<open>cef/src/build_util\<close>: putting an application and the files of CEF into one directory, for Linux and
  Windows (\<^verbatim>\<open>linux.rs\<close>, \<^verbatim>\<open>win/mod.rs\<close>) a flat copy and for macOS (\<^verbatim>\<open>mac.rs\<close>) bundles with the framework
  and five helper applications. The file system is that of the extraction; every operation on it may fail.
  Copying a file onto itself empties it, as the documentation of \<^verbatim>\<open>std::fs::copy\<close> says, and is
  refused on Windows. Cargo, the compiler of interface files and the writer of property lists are
  parameters. Names of executables are not empty and have no separator.
\<close>

section \<open>Operations on files\<close>

definition fs_missing :: "fs_path \<Rightarrow> fs \<Rightarrow> fs_path list" where
  "fs_missing dir fs = filter (\<lambda>q. fs_get fs q = None) (tl (prefixes dir))"

definition fs_make :: "fs_path list \<Rightarrow> fs \<Rightarrow> fs" where
  "fs_make dirs fs = map (\<lambda>q. (q, FsDir)) dirs @ fs"

definition is_file_at :: "fs \<Rightarrow> fs_path \<Rightarrow> bool" where
  "is_file_at fs p \<longleftrightarrow> (case fs_get fs p of Some (FsFile _) \<Rightarrow> True | _ \<Rightarrow> False)"

definition xe_create_dir_all :: "xe_env \<Rightarrow> fs_path \<Rightarrow> xe_world \<Rightarrow> bool \<times> xe_world" where
  "xe_create_dir_all env dir =
     xe_io (\<lambda>n fs.
       if \<exists>q\<in>set (prefixes dir). is_file_at fs q then (False, fs)
       else if xe_fails env n then (False, fs_make (takeWhile (xe_left env n) (fs_missing dir fs)) fs)
       else (True, fs_make (fs_missing dir fs) fs))"

definition xe_copy :: "bool \<Rightarrow> xe_env \<Rightarrow> fs_path \<Rightarrow> fs_path \<Rightarrow> xe_world \<Rightarrow> bool \<times> xe_world" where
  "xe_copy windows env src dst =
     xe_io (\<lambda>n fs. case fs_get fs src of
       Some (FsFile bytes) \<Rightarrow>
         (if dst = [] \<or> fs_get fs (butlast dst) \<noteq> Some FsDir \<or> fs_get fs dst = Some FsDir \<or> windows \<and> src = dst then (False, fs)
          else if xe_fails env n then (False, if xe_left env n dst then fs_write dst [] fs else fs)
          else (True, fs_write dst (if src = dst then [] else bytes) fs))
     | _ \<Rightarrow> (False, fs))"

text \<open>The next entry of a directory and its type.\<close>

definition xe_entry :: "xe_env \<Rightarrow> xe_world \<Rightarrow> bool \<times> xe_world" where
  "xe_entry env = xe_io (\<lambda>n fs. (\<not> xe_fails env n, fs))"

definition rsplit_dot :: "string \<Rightarrow> (string \<times> string) option" where
  "rsplit_dot name =
     (case dropWhile (\<lambda>c. c \<noteq> CHR ''.'') (rev name) of
        [] \<Rightarrow> None
      | _ # before \<Rightarrow> Some (rev before, rev (takeWhile (\<lambda>c. c \<noteq> CHR ''.'') (rev name))))"

definition path_extension :: "string \<Rightarrow> string option" where
  "path_extension name =
     (if name = ''..'' then None
      else (case rsplit_dot name of Some (before, after) \<Rightarrow> if before = [] then None else Some after | None \<Rightarrow> None))"

definition path_stem :: "string \<Rightarrow> string" where
  "path_stem name =
     (if name = ''..'' then name
      else (case rsplit_dot name of Some (before, after) \<Rightarrow> if before = [] then name else before | None \<Rightarrow> name))"

definition with_extension :: "string \<Rightarrow> string \<Rightarrow> string" where
  "with_extension ext name = path_stem name @ ''.'' @ ext"

section \<open>Linux and Windows\<close>

fun copy_entries :: "bool \<Rightarrow> (string \<Rightarrow> bool) \<Rightarrow> xe_env \<Rightarrow> fs_path \<Rightarrow> fs_path \<Rightarrow> string list \<Rightarrow> xe_world \<Rightarrow> bool \<times> xe_world" where
  "copy_entries windows keep env src dst [] w = (True, w)"
| "copy_entries windows keep env src dst (n # ns) w =
     xe_then
       (xe_then (xe_entry env w)
          (\<lambda>w. if is_file_at (xw_fs w) (src @ [n]) \<and> keep n then xe_copy windows env (src @ [n]) (dst @ [n]) w else (True, w)))
       (copy_entries windows keep env src dst ns)"

definition copy_directory_linux :: "xe_env \<Rightarrow> fs_path \<Rightarrow> fs_path \<Rightarrow> xe_world \<Rightarrow> bool \<times> xe_world" where
  "copy_directory_linux env src dst w =
     xe_then (xe_create_dir_all env dst w) (xe_read_dir env src (copy_entries False (\<lambda>n. True) env src dst))"

definition copy_directory_win :: "xe_env \<Rightarrow> fs_path \<Rightarrow> fs_path \<Rightarrow> xe_world \<Rightarrow> bool \<times> xe_world" where
  "copy_directory_win env src dst w =
     xe_then (xe_create_dir_all env dst w)
       (xe_read_dir env src (copy_entries True (\<lambda>n. path_extension n \<noteq> Some ''exe'') env src dst))"

datatype bundle_error = BuIo | BuMetadata | BuMissingPackageMetadata string | BuPanicked

type_synonym bundle_result = "(bundle_error + fs_path) \<times> xe_world"

definition bundled :: "fs_path \<Rightarrow> bool \<times> xe_world \<Rightarrow> bundle_result" where
  "bundled path r = (if fst r then Inr path else Inl BuIo, snd r)"

definition copy_app_linux :: "xe_env \<Rightarrow> fs_path \<Rightarrow> fs_path \<Rightarrow> string \<Rightarrow> xe_world \<Rightarrow> bool \<times> xe_world" where
  "copy_app_linux env app_path target_path executable_name =
     xe_copy False env (target_path @ [executable_name]) (app_path @ [executable_name])"

text \<open>\<open>cef\<close> is what \<^verbatim>\<open>get_cef_dir\<close> gives.\<close>

definition bundle_linux :: "xe_env \<Rightarrow> fs_path option \<Rightarrow> fs_path \<Rightarrow> fs_path \<Rightarrow> string \<Rightarrow> xe_world \<Rightarrow> bundle_result" where
  "bundle_linux env cef app_path target_path executable_name w =
     (case cef of
        None \<Rightarrow> (Inl BuPanicked, w)
      | Some cef_path \<Rightarrow>
          bundled (app_path @ [executable_name])
            (xe_then
               (xe_then (copy_directory_linux env cef_path app_path w)
                  (copy_directory_linux env (cef_path @ [''locales'']) (app_path @ [''locales''])))
               (copy_app_linux env app_path target_path executable_name)))"

definition copy_app_win ::
  "xe_env \<Rightarrow> bool \<Rightarrow> u8 list \<Rightarrow> fs_path \<Rightarrow> fs_path \<Rightarrow> fs_path \<Rightarrow> string \<Rightarrow> xe_world \<Rightarrow> bool \<times> xe_world" where
  "copy_app_win env sandbox manifest_content cef_path app_path target_path executable_name w =
     xe_then (xe_write_file env (app_path @ [executable_name @ ''.exe.manifest'']) manifest_content w)
       (\<lambda>w. if sandbox
            then xe_then
                   (xe_then (xe_copy True env (target_path @ [executable_name @ ''.dll'']) (app_path @ [executable_name @ ''.dll'']) w)
                      (xe_copy True env (target_path @ [executable_name @ ''.pdb'']) (app_path @ [executable_name @ ''.pdb''])))
                   (xe_copy True env (cef_path @ [''bootstrap.exe'']) (app_path @ [executable_name @ ''.exe'']))
            else xe_copy True env (target_path @ [executable_name @ ''.exe'']) (app_path @ [executable_name @ ''.exe'']) w)"

definition bundle_win ::
  "xe_env \<Rightarrow> bool \<Rightarrow> u8 list \<Rightarrow> fs_path option \<Rightarrow> fs_path \<Rightarrow> fs_path \<Rightarrow> string \<Rightarrow> xe_world \<Rightarrow> bundle_result" where
  "bundle_win env sandbox manifest_content cef app_path target_path executable_name w =
     (case cef of
        None \<Rightarrow> (Inl BuPanicked, w)
      | Some cef_path \<Rightarrow>
          bundled (app_path @ [executable_name @ ''.exe''])
            (xe_then
               (xe_then (copy_directory_win env cef_path app_path w)
                  (copy_directory_win env (cef_path @ [''locales'']) (app_path @ [''locales''])))
               (copy_app_win env sandbox manifest_content cef_path app_path target_path executable_name)))"

text \<open>
  Building first: \<open>target_directory\<close> is what \<^verbatim>\<open>cargo metadata\<close> says, \<open>cargo_build\<close> runs \<^verbatim>\<open>cargo build\<close> and
  changes the files.
\<close>

definition build_bundle ::
  "fs_path option \<Rightarrow> (string \<Rightarrow> bool \<Rightarrow> fs \<Rightarrow> bool \<times> fs) \<Rightarrow> (fs_path \<Rightarrow> fs_path \<Rightarrow> string \<Rightarrow> xe_world \<Rightarrow> bundle_result)
     \<Rightarrow> fs_path \<Rightarrow> string \<Rightarrow> bool \<Rightarrow> xe_world \<Rightarrow> bundle_result" where
  "build_bundle target_directory cargo_build bundle app_path executable_name in_release w =
     (case target_directory of
        None \<Rightarrow> (Inl BuMetadata, w)
      | Some dir \<Rightarrow>
          (case cargo_build executable_name in_release (xw_fs w) of
             (False, fs) \<Rightarrow> (Inl BuIo, w\<lparr>xw_fs := fs\<rparr>)
           | (True, fs) \<Rightarrow>
               bundle app_path (dir @ [if in_release then ''release'' else ''debug'']) executable_name (w\<lparr>xw_fs := fs\<rparr>)))"

section \<open>macOS\<close>

record semver =
  sv_major :: nat
  sv_minor :: nat
  sv_patch :: nat
  sv_pre :: string
  sv_build :: string

record bundle_info =
  bi_name :: string
  bi_identifier :: string
  bi_display_name :: string
  bi_development_region :: string
  bi_version :: semver

record info_plist =
  ip_bundle_info :: bundle_info
  ip_executable_name :: string
  ip_bundle_info_dictionary_version :: string
  ip_bundle_package_type :: string
  ip_icon_file :: string
  ip_bundle_signature :: string
  ip_short_version :: semver
  ip_environment :: "(string \<times> string) list"
  ip_file_quarantine_enabled :: bool
  ip_minimum_system_version :: string
  ip_ui_element :: "string option"
  ip_bluetooth_always_usage_description :: string
  ip_supports_automatic_graphics_switching :: bool
  ip_web_browser_publickey_credential_usage_description :: string
  ip_camera_usage_description :: string
  ip_microphone_usage_description :: string

definition info_plist_new :: "string \<Rightarrow> bool \<Rightarrow> string option \<Rightarrow> bundle_info \<Rightarrow> info_plist" where
  "info_plist_new executable_name is_helper icon_file info =
     \<lparr>ip_bundle_info = info,
      ip_executable_name = executable_name,
      ip_bundle_info_dictionary_version = ''6.0'',
      ip_bundle_package_type = ''APPL'',
      ip_icon_file = (case icon_file of Some s \<Rightarrow> s | None \<Rightarrow> []),
      ip_bundle_signature = ''????'',
      ip_short_version =
        \<lparr>sv_major = sv_major (bi_version info), sv_minor = sv_minor (bi_version info), sv_patch = sv_patch (bi_version info),
         sv_pre = [], sv_build = []\<rparr>,
      ip_environment = [(''MallocNanoZone'', ''0'')],
      ip_file_quarantine_enabled = True,
      ip_minimum_system_version = ''11.0'',
      ip_ui_element = (if is_helper then Some ''1'' else None),
      ip_bluetooth_always_usage_description = executable_name,
      ip_supports_automatic_graphics_switching = True,
      ip_web_browser_publickey_credential_usage_description = executable_name,
      ip_camera_usage_description = executable_name,
      ip_microphone_usage_description = executable_name\<rparr>"

definition EXEC_PATH :: fs_path where
  "EXEC_PATH = [''Contents'', ''MacOS'']"

definition FRAMEWORKS_PATH :: fs_path where
  "FRAMEWORKS_PATH = [''Contents'', ''Frameworks'']"

definition RESOURCES_PATH :: fs_path where
  "RESOURCES_PATH = [''Contents'', ''Resources'']"

definition FRAMEWORK :: string where
  "FRAMEWORK = ''Chromium Embedded Framework.framework''"

definition HELPERS :: "string list" where
  "HELPERS = [''Helper (GPU)'', ''Helper (Renderer)'', ''Helper (Plugin)'', ''Helper (Alerts)'', ''Helper'']"

record mac_env =
  me_xe :: xe_env
  me_plist :: "info_plist \<Rightarrow> u8 list option"
  me_ibtool :: "fs_path \<Rightarrow> fs_path \<Rightarrow> fs \<Rightarrow> bool \<times> fs"

definition create_app_layout :: "xe_env \<Rightarrow> fs_path \<Rightarrow> xe_world \<Rightarrow> bool \<times> xe_world" where
  "create_app_layout env app_path w =
     xe_then (xe_then (xe_create_dir_all env (app_path @ EXEC_PATH) w) (xe_create_dir_all env (app_path @ RESOURCES_PATH)))
       (xe_create_dir_all env (app_path @ FRAMEWORKS_PATH))"

text \<open>A list of properties that cannot be written leaves the file as it was or empty.\<close>

definition create_info_plist :: "mac_env \<Rightarrow> fs_path \<Rightarrow> string \<Rightarrow> bundle_info \<Rightarrow> bool \<Rightarrow> string option \<Rightarrow> xe_world \<Rightarrow> bool \<times> xe_world" where
  "create_info_plist env contents_path executable_name info is_helper icon_file w =
     (case me_plist env (info_plist_new executable_name is_helper icon_file info) of
        Some bytes \<Rightarrow> xe_write_file (me_xe env) (contents_path @ [''Info.plist'']) bytes w
      | None \<Rightarrow> (False, snd (xe_write_file (me_xe env) (contents_path @ [''Info.plist'']) [] w)))"

definition icon_for :: "fs_path option \<Rightarrow> string \<Rightarrow> fs \<Rightarrow> string option" where
  "icon_for resources_path executable_name fs =
     (case resources_path of
        None \<Rightarrow> None
      | Some path \<Rightarrow>
          (let icon_file = executable_name @ ''.icns''
           in if fs_get fs (path @ [''mac'', icon_file]) \<noteq> None then Some icon_file else None))"

definition app_bundle :: "fs_path \<Rightarrow> string \<Rightarrow> fs_path" where
  "app_bundle dir executable_name = dir @ [with_extension ''app'' executable_name]"

definition create_app ::
  "mac_env \<Rightarrow> fs_path \<Rightarrow> string \<Rightarrow> bool \<Rightarrow> fs_path option \<Rightarrow> bundle_info \<Rightarrow> fs_path \<Rightarrow> xe_world \<Rightarrow> bool \<times> xe_world" where
  "create_app env dir executable_name is_helper resources_path info bin w =
     (let app_path = app_bundle dir executable_name
      in xe_then
           (xe_then (create_app_layout (me_xe env) app_path w)
              (\<lambda>w. create_info_plist env (app_path @ [''Contents'']) executable_name info is_helper
                     (icon_for resources_path executable_name (xw_fs w)) w))
           (xe_copy False (me_xe env) bin (app_path @ EXEC_PATH @ [executable_name])))"

text \<open>
  The two recursive copies visit the directories in the same way and differ in what they do with a file
  (\<open>leaf\<close>). The number bounds the depth; \<^const>\<open>None\<close> says it was not enough.
\<close>

primrec walk_each ::
  "xe_env \<Rightarrow> (string \<Rightarrow> xe_world \<Rightarrow> (bool \<times> xe_world) option) \<Rightarrow> string list \<Rightarrow> xe_world \<Rightarrow> (bool \<times> xe_world) option" where
  "walk_each env f [] w = Some (True, w)"
| "walk_each env f (n # ns) w =
     (case xe_entry env w of
        (False, w) \<Rightarrow> Some (False, w)
      | (True, w) \<Rightarrow>
          (case f n w of
             None \<Rightarrow> None
           | Some (False, w) \<Rightarrow> Some (False, w)
           | Some (True, w) \<Rightarrow> walk_each env f ns w))"

primrec walk_tree ::
  "xe_env \<Rightarrow> (fs_path \<Rightarrow> fs_path \<Rightarrow> string \<Rightarrow> xe_world \<Rightarrow> bool \<times> xe_world) \<Rightarrow> nat \<Rightarrow> fs_path \<Rightarrow> fs_path \<Rightarrow> xe_world
     \<Rightarrow> (bool \<times> xe_world) option" where
  "walk_tree env leaf 0 src dst w = None"
| "walk_tree env leaf (Suc k) src dst w =
     (case xe_create_dir_all env dst w of
        (False, w) \<Rightarrow> Some (False, w)
      | (True, w) \<Rightarrow>
          (case xe_io (\<lambda>n fs. (\<not> xe_fails env n \<and> fs_get fs src = Some FsDir, fs)) w of
             (False, w) \<Rightarrow> Some (False, w)
           | (True, w) \<Rightarrow>
               walk_each env
                 (\<lambda>n w. if fs_get (xw_fs w) (src @ [n]) = Some FsDir then walk_tree env leaf k (src @ [n]) (dst @ [n]) w
                        else Some (leaf src dst n w))
                 (fs_children src (xw_fs w)) w))"

definition copy_directory_mac :: "xe_env \<Rightarrow> nat \<Rightarrow> fs_path \<Rightarrow> fs_path \<Rightarrow> xe_world \<Rightarrow> (bool \<times> xe_world) option" where
  "copy_directory_mac env = walk_tree env (\<lambda>src dst n. xe_copy False env (src @ [n]) (dst @ [n]))"

definition copy_resource :: "mac_env \<Rightarrow> fs_path \<Rightarrow> fs_path \<Rightarrow> string \<Rightarrow> xe_world \<Rightarrow> bool \<times> xe_world" where
  "copy_resource env src dst n w =
     (if path_extension n = Some ''xib''
      then xe_io (\<lambda>k. me_ibtool env (dst @ [with_extension ''nib'' n]) (src @ [n])) w
      else xe_copy False (me_xe env) (src @ [n]) (dst @ [n]) w)"

definition copy_app_resources :: "mac_env \<Rightarrow> nat \<Rightarrow> fs_path \<Rightarrow> fs_path \<Rightarrow> xe_world \<Rightarrow> (bool \<times> xe_world) option" where
  "copy_app_resources env = walk_tree (me_xe env) (copy_resource env)"

fun create_helpers :: "mac_env \<Rightarrow> fs_path \<Rightarrow> string \<Rightarrow> bundle_info \<Rightarrow> fs_path \<Rightarrow> string list \<Rightarrow> xe_world \<Rightarrow> bool \<times> xe_world" where
  "create_helpers env dir executable_name info bin [] w = (True, w)"
| "create_helpers env dir executable_name info bin (h # hs) w =
     xe_then (create_app env dir (executable_name @ '' '' @ h) True None info bin w)
       (create_helpers env dir executable_name info bin hs)"

definition after_io :: "bool \<times> xe_world \<Rightarrow> (xe_world \<Rightarrow> bundle_result option) \<Rightarrow> bundle_result option" where
  "after_io r f = (if fst r then f (snd r) else Some (Inl BuIo, snd r))"

definition bundle_mac ::
  "mac_env \<Rightarrow> nat \<Rightarrow> fs_path option \<Rightarrow> fs_path \<Rightarrow> fs_path \<Rightarrow> string \<Rightarrow> string \<Rightarrow> fs_path option \<Rightarrow> bundle_info \<Rightarrow> xe_world
     \<Rightarrow> bundle_result option" where
  "bundle_mac env depth cef app_path target_path executable_name helper_name resources_path info w =
     (let main_app_path = app_bundle app_path executable_name; to = main_app_path @ FRAMEWORKS_PATH @ [FRAMEWORK]
      in after_io (create_app env app_path executable_name False resources_path info (target_path @ [executable_name]) w) (\<lambda>w.
           case cef of
             None \<Rightarrow> Some (Inl BuPanicked, w)
           | Some cef_path \<Rightarrow>
               (case (if fs_get (xw_fs w) to \<noteq> None then xe_remove_dir_all (me_xe env) to w else (True, w)) of
                  (False, w) \<Rightarrow> Some (Inl BuPanicked, w)
                | (True, w) \<Rightarrow>
                    Option.bind (copy_directory_mac (me_xe env) depth (cef_path @ [FRAMEWORK]) to w) (\<lambda>r.
                    after_io r (\<lambda>w.
                    after_io (create_helpers env (main_app_path @ FRAMEWORKS_PATH) executable_name info (target_path @ [helper_name]) HELPERS w) (\<lambda>w.
                      case resources_path of
                        None \<Rightarrow> Some (Inr main_app_path, w)
                      | Some resources \<Rightarrow>
                          Option.bind (copy_app_resources env depth (resources @ [''mac'']) (main_app_path @ RESOURCES_PATH) w) (\<lambda>r.
                          after_io r (\<lambda>w. Some (Inr main_app_path, w)))))))))"

text \<open>
  The configuration in the manifest of the package that has the executable: the name of the helper
  and the directory of resources below that of the manifest. \<open>cp_bundle\<close> is the section of the
  metadata, \<^const>\<open>None\<close> when it is not there or does not parse.
\<close>

record cargo_package =
  cp_targets :: "string list"
  cp_manifest_path :: fs_path
  cp_bundle :: "(string \<times> fs_path option) option"

definition bundle_metadata_parse :: "string \<Rightarrow> cargo_package list \<Rightarrow> (string \<times> fs_path option) option" where
  "bundle_metadata_parse executable packages =
     (case List.find (\<lambda>p. executable \<in> set (cp_targets p)) packages of
        None \<Rightarrow> None
      | Some package \<Rightarrow>
          map_option
            (\<lambda>(helper_name, resources_path).
               (helper_name,
                Option.bind resources_path
                  (\<lambda>path. if cp_manifest_path package = [] then None else Some (butlast (cp_manifest_path package) @ path))))
            (cp_bundle package))"

definition build_bundle_mac ::
  "mac_env \<Rightarrow> nat \<Rightarrow> fs_path option \<Rightarrow> (fs_path \<times> cargo_package list) option \<Rightarrow> (string \<Rightarrow> fs \<Rightarrow> bool \<times> fs)
     \<Rightarrow> fs_path \<Rightarrow> string \<Rightarrow> bundle_info \<Rightarrow> xe_world \<Rightarrow> bundle_result option" where
  "build_bundle_mac env depth cef metadata cargo_build app_path executable_name info w =
     (case metadata of
        None \<Rightarrow> Some (Inl BuMetadata, w)
      | Some (target_directory, packages) \<Rightarrow>
          (case bundle_metadata_parse executable_name packages of
             None \<Rightarrow> Some (Inl (BuMissingPackageMetadata executable_name), w)
           | Some (helper_name, resources_path) \<Rightarrow>
               after_io (xe_io (\<lambda>n. cargo_build executable_name) w) (\<lambda>w.
               after_io (xe_io (\<lambda>n. cargo_build helper_name) w) (\<lambda>w.
                 bundle_mac env depth cef app_path (target_directory @ [''debug'']) executable_name helper_name resources_path info w))))"

section \<open>What the operations do\<close>

lemma xe_entry_True: "xe_entry env w = (True, w') \<Longrightarrow> xw_fs w' = xw_fs w"
  by (auto simp: xe_entry_def xe_io_def)

lemma fs_get_make: "fs_get (fs_make dirs fs) p = (if p \<in> set dirs then Some FsDir else fs_get fs p)"
  by (induction dirs) (auto simp: fs_make_def fs_get_Cons)

lemma in_tl_prefixes: "q \<in> set (tl (prefixes dir)) \<longleftrightarrow> q \<noteq> [] \<and> prefix q dir"
proof -
  have "prefixes dir = [] # tl (prefixes dir)" "distinct (prefixes dir)" by (cases dir) auto
  then have "[] \<notin> set (tl (prefixes dir))" "set (prefixes dir) = insert [] (set (tl (prefixes dir)))"
    by (metis distinct.simps(2), metis list.simps(15))
  then show ?thesis using in_set_prefixes [of q dir] by (metis insert_iff)
qed

lemma create_dir_all_True:
  assumes "xe_create_dir_all env dir w = (True, w')"
  shows "fs_get (xw_fs w') p = (if p \<noteq> [] \<and> prefix p dir \<and> fs_get (xw_fs w) p = None then Some FsDir else fs_get (xw_fs w) p)"
    and "prefix p dir \<Longrightarrow> \<not> is_file_at (xw_fs w) p"
  using assms
  by (auto simp: xe_create_dir_all_def xe_io_def fs_get_make fs_missing_def in_tl_prefixes split: if_splits)

lemma copy_True:
  assumes "xe_copy windows env src dst w = (True, w')"
  obtains bytes where "fs_get (xw_fs w) src = Some (FsFile bytes)"
    and "\<And>p. fs_get (xw_fs w') p = (if p = dst then Some (FsFile (if src = dst then [] else bytes)) else fs_get (xw_fs w) p)"
  using assms by (auto simp: xe_copy_def xe_io_def fs_write_def fs_get_Cons split: option.splits fs_node.splits if_splits)

lemma copy_into_dir: "xe_copy windows env src (dir @ [n]) w = (True, w') \<Longrightarrow> fs_get (xw_fs w) dir = Some FsDir"
  by (auto simp: xe_copy_def xe_io_def split: option.splits fs_node.splits if_splits)

lemma read_dir_True:
  assumes "xe_read_dir env dir f w = (True, w')"
  obtains w1 where "xw_fs w1 = xw_fs w" "fs_get (xw_fs w) dir = Some FsDir" "f (fs_children dir (xw_fs w)) w1 = (True, w')"
  using assms that [of "w\<lparr>xw_ops := Suc (xw_ops w)\<rparr>"] by (auto simp: xe_read_dir_def xe_then_True xe_io_def)

lemma copy_entries_True:
  assumes "copy_entries windows keep env src dst ns w = (True, w')" "src \<noteq> dst"
  shows "fs_get (xw_fs w') p =
    (if \<exists>n\<in>set ns. p = dst @ [n] \<and> keep n \<and> is_file_at (xw_fs w) (src @ [n]) then fs_get (xw_fs w) (src @ [last p])
     else fs_get (xw_fs w) p)"
  using assms(1)
proof (induction ns arbitrary: w)
  case (Cons n ns)
  from Cons.prems obtain w1 w2 where w1: "xe_entry env w = (True, w1)"
    and w2: "(if is_file_at (xw_fs w1) (src @ [n]) \<and> keep n then xe_copy windows env (src @ [n]) (dst @ [n]) w1 else (True, w1)) = (True, w2)"
    and rest: "copy_entries windows keep env src dst ns w2 = (True, w')"
    by (auto simp: xe_then_True)
  have fs1: "xw_fs w1 = xw_fs w" using w1 by (rule xe_entry_True)
  have fs2: "fs_get (xw_fs w2) q =
      (if q = dst @ [n] \<and> keep n \<and> is_file_at (xw_fs w) (src @ [n]) then fs_get (xw_fs w) (src @ [n]) else fs_get (xw_fs w) q)" for q
  proof (cases "is_file_at (xw_fs w1) (src @ [n]) \<and> keep n")
    case True
    with w2 have "xe_copy windows env (src @ [n]) (dst @ [n]) w1 = (True, w2)" by simp
    then show ?thesis by (rule copy_True) (use True assms(2) fs1 in auto)
  qed (use w2 fs1 in auto)
  then have src2: "fs_get (xw_fs w2) (src @ [m]) = fs_get (xw_fs w) (src @ [m])" for m using assms(2) by auto
  show ?case using Cons.IH [OF rest] by (auto simp: fs2 src2 is_file_at_def [of "xw_fs w2"] is_file_at_def [of "xw_fs w"])
qed simp

text \<open>A flat copy: the regular files, into a directory made if need be.\<close>

definition flat_copy :: "(string \<Rightarrow> bool) \<Rightarrow> fs_path \<Rightarrow> fs_path \<Rightarrow> fs \<Rightarrow> fs_path \<Rightarrow> fs_node option" where
  "flat_copy keep src dst fs p =
     (if p \<noteq> [] \<and> butlast p = dst \<and> keep (last p) \<and> is_file_at fs (src @ [last p]) then fs_get fs (src @ [last p])
      else if p \<noteq> [] \<and> prefix p dst \<and> fs_get fs p = None then Some FsDir
      else fs_get fs p)"

lemma flat_copy_True:
  assumes "xe_then (xe_create_dir_all env dst w) (xe_read_dir env src (copy_entries windows keep env src dst)) = (True, w')"
    and "src \<noteq> dst"
  shows "fs_get (xw_fs w') = flat_copy keep src dst (xw_fs w)"
proof
  fix p
  from assms(1) obtain w1 where w1: "xe_create_dir_all env dst w = (True, w1)"
      and "xe_read_dir env src (copy_entries windows keep env src dst) w1 = (True, w')"
    by (auto simp: xe_then_True)
  from this(2) obtain w2 where w2: "xw_fs w2 = xw_fs w1"
      "copy_entries windows keep env src dst (fs_children src (xw_fs w1)) w2 = (True, w')" by (rule read_dir_True)
  have made: "fs_get (xw_fs w1) q = (if q \<noteq> [] \<and> prefix q dst \<and> fs_get (xw_fs w) q = None then Some FsDir else fs_get (xw_fs w) q)" for q
    by (rule create_dir_all_True [OF w1])
  have file1: "is_file_at (xw_fs w1) q = is_file_at (xw_fs w) q" for q
    by (simp add: is_file_at_def made split: option.split fs_node.split)
  have get1: "fs_get (xw_fs w1) q = fs_get (xw_fs w) q" if "is_file_at (xw_fs w) q" for q
    using that by (auto simp: is_file_at_def made split: option.splits)
  have child: "n \<in> set (fs_children src (xw_fs w1))" if "is_file_at (xw_fs w) (src @ [n])" for n
    using that get1 by (auto simp: in_fs_children is_file_at_def split: option.splits)
  have "(\<exists>n\<in>set (fs_children src (xw_fs w1)). p = dst @ [n] \<and> keep n \<and> is_file_at (xw_fs w) (src @ [n]))
      \<longleftrightarrow> p \<noteq> [] \<and> butlast p = dst \<and> keep (last p) \<and> is_file_at (xw_fs w) (src @ [last p])" (is "?copied \<longleftrightarrow> ?file")
    using child by (cases p rule: rev_cases) auto
  with copy_entries_True [OF w2(2) assms(2), of p] have
      get: "fs_get (xw_fs w') p = (if ?file then fs_get (xw_fs w1) (src @ [last p]) else fs_get (xw_fs w1) p)"
    by (simp only: w2(1) file1)
  show "fs_get (xw_fs w') p = flat_copy keep src dst (xw_fs w) p"
  proof (cases ?file)
    case True
    then show ?thesis using get1 by (simp add: get flat_copy_def)
  next
    case False
    show ?thesis unfolding get flat_copy_def if_not_P [OF False] by (rule made)
  qed
qed

lemmas copy_directory_linux_True = flat_copy_True [where windows = False and keep = "\<lambda>n. True", folded copy_directory_linux_def]
lemmas copy_directory_win_True =
  flat_copy_True [where windows = True and keep = "\<lambda>n. path_extension n \<noteq> Some ''exe''", folded copy_directory_win_def]

lemma flat_copy_at:
  "flat_copy keep src dst fs (dst @ [n]) = (if keep n \<and> is_file_at fs (src @ [n]) then fs_get fs (src @ [n]) else fs_get fs (dst @ [n]))"
  "flat_copy keep src dst fs (dst @ n # m # r) = fs_get fs (dst @ n # m # r)"
  "\<not> prefix dst p \<Longrightarrow>
     flat_copy keep src dst fs p = (if p \<noteq> [] \<and> prefix p dst \<and> fs_get fs p = None then Some FsDir else fs_get fs p)"
proof -
  show "flat_copy keep src dst fs (dst @ [n]) = (if keep n \<and> is_file_at fs (src @ [n]) then fs_get fs (src @ [n]) else fs_get fs (dst @ [n]))"
    by (auto simp: flat_copy_def dest: prefix_length_le)
  show "flat_copy keep src dst fs (dst @ n # m # r) = fs_get fs (dst @ n # m # r)"
    by (auto simp: flat_copy_def butlast_append dest: prefix_length_le)
  show "flat_copy keep src dst fs p = (if p \<noteq> [] \<and> prefix p dst \<and> fs_get fs p = None then Some FsDir else fs_get fs p)" if "\<not> prefix dst p"
    using that by (cases p rule: rev_cases) (auto simp: flat_copy_def)
qed

lemma bundled_Inr: "bundled path r = (Inr p, w') \<longleftrightarrow> p = path \<and> r = (True, w')"
  by (cases r) (auto simp: bundled_def)

section \<open>Properties\<close>

text \<open>
  Property C31. A bundle for Linux that succeeds, made in a directory apart from that of CEF and not around that
  of the executable: it gives the path of the executable, which is a copy of the one
  built; every regular file directly in the directory of CEF and every one in its locales is there with
  its contents under the same name, and no other directory of CEF is copied; what is
  outside the directory of the application is as before, but for directories that had to be made on
  the way to it.
\<close>

theorem bundle_linux_complete:
  assumes "bundle_linux env (Some cef) app target exe w = (Inr path, w')" "cef \<parallel> app" "\<not> prefix app target"
  shows "path = app @ [exe] \<and> fs_get (xw_fs w') path = fs_get (xw_fs w) (target @ [exe]) \<and> is_file_at (xw_fs w') path
    \<and> (\<forall>n. n \<noteq> exe \<and> is_file_at (xw_fs w) (cef @ [n]) \<longrightarrow> fs_get (xw_fs w') (app @ [n]) = fs_get (xw_fs w) (cef @ [n]))
    \<and> (\<forall>n. is_file_at (xw_fs w) (cef @ [''locales'', n]) \<longrightarrow>
         fs_get (xw_fs w') (app @ [''locales'', n]) = fs_get (xw_fs w) (cef @ [''locales'', n]))
    \<and> (\<forall>n r. n \<noteq> ''locales'' \<and> r \<noteq> [] \<longrightarrow> fs_get (xw_fs w') (app @ n # r) = fs_get (xw_fs w) (app @ n # r))
    \<and> (\<forall>p. \<not> prefix app p \<longrightarrow> fs_get (xw_fs w') p =
         (if p \<noteq> [] \<and> prefix p app \<and> fs_get (xw_fs w) p = None then Some FsDir else fs_get (xw_fs w) p))"
proof -
  from assms(1) obtain w1 w2 where w1: "copy_directory_linux env cef app w = (True, w1)"
    and w2: "copy_directory_linux env (cef @ [''locales'']) (app @ [''locales'']) w1 = (True, w2)"
    and w3: "xe_copy False env (target @ [exe]) (app @ [exe]) w2 = (True, w')" and path: "path = app @ [exe]"
    by (auto simp: bundle_linux_def bundled_Inr copy_app_linux_def xe_then_True)
  have ne: "cef \<noteq> app" "cef @ [''locales''] \<noteq> app @ [''locales'']" "target @ [exe] \<noteq> app @ [exe]" using assms(2,3) by auto
  note f1 = copy_directory_linux_True [OF w1 ne(1)] and f2 = copy_directory_linux_True [OF w2 ne(2)]
  obtain bytes where bytes: "fs_get (xw_fs w2) (target @ [exe]) = Some (FsFile bytes)"
    and f3: "\<And>p. fs_get (xw_fs w') p = (if p = app @ [exe] then Some (FsFile bytes) else fs_get (xw_fs w2) p)"
    using w3 by (rule copy_True) (use ne(3) in auto)
  have apart: "\<not> prefix (cef @ x) app" "\<not> prefix app (cef @ x)" "\<not> prefix (app @ [l]) (cef @ x)" "\<not> prefix (cef @ x) (app @ [l])" for x l
    using assms(2) prefix_both [of cef "cef @ x" app] prefix_both [of cef "app @ [l]" app] by (auto dest: append_prefixD prefix_order.trans)
  have cef1: "fs_get (xw_fs w1) (cef @ x) = fs_get (xw_fs w) (cef @ x)" for x
    using apart by (simp add: f1 flat_copy_at)
  have file1: "is_file_at (xw_fs w1) (cef @ x) = is_file_at (xw_fs w) (cef @ x)" for x
    by (simp add: is_file_at_def cef1)
  have outside: "fs_get (xw_fs w2) p = (if p \<noteq> [] \<and> prefix p app \<and> fs_get (xw_fs w) p = None then Some FsDir else fs_get (xw_fs w) p)"
    if "\<not> prefix app p" for p
  proof -
    have "\<not> prefix (app @ [''locales'']) p" "prefix p (app @ [''locales'']) \<longleftrightarrow> prefix p app"
      using that by (auto dest: append_prefixD simp: prefix_snoc)
    with that show ?thesis by (simp add: f2 f1 flat_copy_at)
  qed
  have target: "fs_get (xw_fs w) (target @ [exe]) = Some (FsFile bytes)"
  proof -
    have "app \<noteq> target @ [exe]" using bytes copy_into_dir [OF w3] by auto
    then have "\<not> prefix app (target @ [exe])" using assms(3) by (auto simp: prefix_snoc)
    with bytes outside show ?thesis by (auto split: if_splits)
  qed
  have "fs_get (xw_fs w') (app @ [n]) = fs_get (xw_fs w) (cef @ [n])" if "n \<noteq> exe" "is_file_at (xw_fs w) (cef @ [n])" for n
  proof -
    have "fs_get (xw_fs w1) (app @ [n]) = fs_get (xw_fs w) (cef @ [n])" using that by (simp add: f1 flat_copy_at)
    moreover have "n \<noteq> ''locales'' \<Longrightarrow> fs_get (xw_fs w2) (app @ [n]) = fs_get (xw_fs w1) (app @ [n])"
      by (simp add: f2 flat_copy_at)
    moreover have "fs_get (xw_fs w1) (cef @ [''locales'']) = Some FsDir"
      using w2 ne(1) apart(1) by (auto simp: copy_directory_linux_def xe_then_True xe_read_dir_def xe_io_def dest!: create_dir_all_True(1) [of _ _ _ _ "cef @ [''locales'']"]
          split: if_splits)
    ultimately show ?thesis using that cef1 [of "[''locales'']"] by (cases "n = ''locales''") (auto simp: f3 is_file_at_def)
  qed
  moreover have "fs_get (xw_fs w') (app @ [''locales'', n]) = fs_get (xw_fs w) (cef @ [''locales'', n])"
    if "is_file_at (xw_fs w) (cef @ [''locales'', n])" for n
    using that cef1 [of "[''locales'', n]"] file1 [of "[''locales'', n]"] flat_copy_at(1) [of _ "cef @ [''locales'']" "app @ [''locales'']"]
    by (simp add: f3 f2)
  moreover have "fs_get (xw_fs w') (app @ n # r) = fs_get (xw_fs w) (app @ n # r)" if "n \<noteq> ''locales''" "r \<noteq> []" for n r
    using that by (cases r) (auto simp: f3 f2 f1 flat_copy_at)
  moreover have "fs_get (xw_fs w') p = (if p \<noteq> [] \<and> prefix p app \<and> fs_get (xw_fs w) p = None then Some FsDir else fs_get (xw_fs w) p)"
    if "\<not> prefix app p" for p
    using that outside [OF that] by (auto simp: f3)
  ultimately show ?thesis using target by (simp add: path f3 is_file_at_def)
qed

text \<open>
  Copying onto itself: a bundle made in the directory of CEF empties every regular file it finds there before it
  comes to the one copied last.
\<close>

lemma copy_in_place_empties:
  assumes "copy_entries False (\<lambda>n. True) env dir dir ns w = (True, w')" "n \<in> set ns" "is_file_at (xw_fs w) (dir @ [n])"
  shows "fs_get (xw_fs w') (dir @ [n]) = Some (FsFile [])"
  using assms
proof (induction ns arbitrary: w)
  case (Cons m ns)
  from Cons.prems(1) obtain w1 w2 where w1: "xe_entry env w = (True, w1)"
    and w2: "(if is_file_at (xw_fs w1) (dir @ [m]) then xe_copy False env (dir @ [m]) (dir @ [m]) w1 else (True, w1)) = (True, w2)"
    and rest: "copy_entries False (\<lambda>n. True) env dir dir ns w2 = (True, w')"
    by (auto simp: xe_then_True)
  have fs1: "xw_fs w1 = xw_fs w" using w1 by (rule xe_entry_True)
  have fs2: "fs_get (xw_fs w2) q = (if q = dir @ [m] \<and> is_file_at (xw_fs w) q then Some (FsFile []) else fs_get (xw_fs w) q)" for q
  proof (cases "is_file_at (xw_fs w1) (dir @ [m])")
    case True
    with w2 have "xe_copy False env (dir @ [m]) (dir @ [m]) w1 = (True, w2)" by simp
    then show ?thesis by (rule copy_True) (use True fs1 in auto)
  qed (use w2 fs1 in auto)
  have kept: "fs_get (xw_fs w') q = Some (FsFile [])"
    if "copy_entries False (\<lambda>n. True) env dir dir ks x = (True, w')" "fs_get (xw_fs x) q = Some (FsFile [])" for ks x q
    using that
  proof (induction ks arbitrary: x)
    case (Cons k ks)
    from Cons.prems(1) obtain x1 x2 where x1: "xe_entry env x = (True, x1)"
      and x2: "(if is_file_at (xw_fs x1) (dir @ [k]) then xe_copy False env (dir @ [k]) (dir @ [k]) x1 else (True, x1)) = (True, x2)"
      and r: "copy_entries False (\<lambda>n. True) env dir dir ks x2 = (True, w')"
      by (auto simp: xe_then_True)
    have "fs_get (xw_fs x2) q = Some (FsFile [])"
      using x2 xe_entry_True [OF x1] Cons.prems(2) by (auto split: if_splits elim!: copy_True)
    with Cons.IH [OF r] show ?case .
  qed simp
  show ?case
  proof (cases "n = m")
    case True
    with kept [OF rest] fs2 Cons.prems(3) show ?thesis by simp
  next
    case False
    with Cons.IH [OF rest] Cons.prems(2,3) fs2 show ?thesis by (simp add: is_file_at_def)
  qed
qed simp

section \<open>Copying a tree\<close>

lemma walk_each_invariant:
  assumes "I S (xw_fs w)"
    and "\<And>S n x. I S (xw_fs x) \<Longrightarrow> n \<in> set ns \<Longrightarrow> \<exists>ok x'. f n x = Some (ok, x') \<and> (ok \<longrightarrow> I (insert n S) (xw_fs x'))"
  shows "\<exists>ok w'. walk_each env f ns w = Some (ok, w') \<and> (ok \<longrightarrow> I (S \<union> set ns) (xw_fs w'))"
  using assms
proof (induction ns arbitrary: S w)
  case (Cons n ns)
  obtain e w1 where w1: "xe_entry env w = (e, w1)" by fastforce
  show ?case
  proof (cases e)
    case True
    with w1 have "xw_fs w1 = xw_fs w" by (auto dest: xe_entry_True)
    with Cons.prems(1) have "I S (xw_fs w1)" by simp
    from Cons.prems(2) [OF this, of n] obtain ok w2 where w2: "f n w1 = Some (ok, w2)" "ok \<Longrightarrow> I (insert n S) (xw_fs w2)" by auto
    show ?thesis
    proof (cases ok)
      case True
      have "\<exists>ok' w'. walk_each env f ns w2 = Some (ok', w') \<and> (ok' \<longrightarrow> I (insert n S \<union> set ns) (xw_fs w'))"
        by (rule Cons.IH [OF w2(2) [OF True]]) (rule Cons.prems(2), auto)
      with w1 w2(1) True \<open>e\<close> show ?thesis by auto
    qed (use w1 w2(1) \<open>e\<close> in auto)
  qed (use w1 in auto)
qed auto

text \<open>What is below \<open>src\<close> is also below \<open>dst\<close>, which is a directory.\<close>

definition tree_copy :: "fs_path \<Rightarrow> fs_path \<Rightarrow> fs \<Rightarrow> fs_path \<Rightarrow> fs_node option" where
  "tree_copy src dst fs p =
     (if prefix dst p \<and> fs_get fs (src @ drop (length dst) p) \<noteq> None then fs_get fs (src @ drop (length dst) p)
      else if p \<noteq> [] \<and> prefix p dst \<and> fs_get fs p = None then Some FsDir
      else fs_get fs p)"

definition nested_below :: "fs_path \<Rightarrow> fs \<Rightarrow> bool" where
  "nested_below src fs \<longleftrightarrow> (\<forall>r m. fs_get fs (src @ r @ [m]) \<noteq> None \<longrightarrow> fs_get fs (src @ r) = Some FsDir)"

definition depth_below :: "nat \<Rightarrow> fs_path \<Rightarrow> fs \<Rightarrow> bool" where
  "depth_below k src fs \<longleftrightarrow> (\<forall>r. fs_get fs (src @ r) \<noteq> None \<longrightarrow> length r < k)"

text \<open>After the children in \<open>S\<close>; \<open>base\<close> are the files before the first one.\<close>

definition copied_children :: "fs_path \<Rightarrow> fs_path \<Rightarrow> fs \<Rightarrow> string set \<Rightarrow> fs \<Rightarrow> bool" where
  "copied_children src dst base S fs \<longleftrightarrow>
     (\<forall>p. fs_get fs p =
       (if \<exists>n r. n \<in> S \<and> p = dst @ n # r \<and> fs_get base (src @ n # r) \<noteq> None then fs_get base (src @ drop (length dst) p)
        else fs_get base p))"

lemma copied_children_src:
  assumes "copied_children src dst base S fs" "src \<parallel> dst"
  shows "fs_get fs (src @ r) = fs_get base (src @ r)"
proof -
  have "src @ r \<noteq> dst @ q" for q using assms(2) prefix_both [of src "src @ r" dst] by auto
  then show ?thesis using assms(1) by (simp add: copied_children_def)
qed

lemma copied_children_step:
  assumes "copied_children src dst base S fs" "src \<parallel> dst" "nested_below src base"
    and "\<And>q. q \<noteq> [] \<Longrightarrow> prefix q dst \<Longrightarrow> fs_get base q = Some FsDir"
    and "fs_get base (src @ [n]) \<noteq> None"
    and "fs_get fs' = tree_copy (src @ [n]) (dst @ [n]) fs
         \<or> fs_get base (src @ [n]) \<noteq> Some FsDir \<and> (\<forall>p. fs_get fs' p = (if p = dst @ [n] then fs_get base (src @ [n]) else fs_get fs p))"
  shows "copied_children src dst base (insert n S) fs'"
  unfolding copied_children_def
proof
  fix p
  have src: "fs_get fs (src @ r) = fs_get base (src @ r)" for r by (rule copied_children_src [OF assms(1,2)])
  have here: "fs_get fs p = (if \<exists>n r. n \<in> S \<and> p = dst @ n # r \<and> fs_get base (src @ n # r) \<noteq> None
      then fs_get base (src @ drop (length dst) p) else fs_get base p)"
    using assms(1) by (simp add: copied_children_def)
  have no_deeper: "fs_get base (src @ n # m # r) = None" if "fs_get base (src @ [n]) \<noteq> Some FsDir" for m r
  proof (induction r rule: rev_induct)
    case Nil
    from assms(3) that show ?case unfolding nested_below_def by (metis append.assoc append_Cons append_Nil)
  next
    case (snoc x r)
    then show ?case using assms(3) unfolding nested_below_def
      by (metis (no_types, lifting) append.assoc append_Cons option.distinct(1))
  qed
  have above: "fs_get fs p \<noteq> None" if "p \<noteq> []" "prefix p dst" using assms(4) [OF that] that here by (auto dest: prefix_length_le)
  show "fs_get fs' p =
      (if \<exists>m r. m \<in> insert n S \<and> p = dst @ m # r \<and> fs_get base (src @ m # r) \<noteq> None
       then fs_get base (src @ drop (length dst) p) else fs_get base p)"
  proof (cases "prefix (dst @ [n]) p")
    case True
    then obtain r where p: "p = dst @ n # r" by (auto simp: below_name)
    from assms(6) show ?thesis
    proof
      assume "fs_get fs' = tree_copy (src @ [n]) (dst @ [n]) fs"
      then show ?thesis using here src [of "n # r"] assms(5) by (cases r) (auto simp: p tree_copy_def dest: prefix_length_le)
    next
      assume "fs_get base (src @ [n]) \<noteq> Some FsDir \<and> (\<forall>p. fs_get fs' p = (if p = dst @ [n] then fs_get base (src @ [n]) else fs_get fs p))"
      then show ?thesis using here assms(5) no_deeper by (cases r) (auto simp: p)
    qed
  next
    case False
    then have "p \<noteq> dst @ n # r" for r by (auto simp: below_name)
    moreover have "fs_get fs' p = fs_get fs p"
      using assms(6) False above by (auto simp: tree_copy_def prefix_snoc)
    ultimately show ?thesis using here by auto
  qed
qed

lemma nested_child:
  assumes "nested_below src fs" "fs_get fs (src @ n # r) \<noteq> None"
  shows "fs_get fs (src @ [n]) \<noteq> None"
  using assms(2)
proof (induction r rule: rev_induct)
  case (snoc x r)
  with assms(1) have "fs_get fs (src @ n # r) = Some FsDir" unfolding nested_below_def by (metis append.assoc append_Cons)
  with snoc.IH show ?case by simp
qed simp

lemma copied_children_all:
  assumes "copied_children src dst base (set (fs_children src base)) fs'" "src \<parallel> dst" "nested_below src base" "fs_get base src = Some FsDir"
    and base: "\<And>q. fs_get base q = (if q \<noteq> [] \<and> prefix q dst \<and> fs_get fs q = None then Some FsDir else fs_get fs q)"
    and src: "\<And>r. fs_get base (src @ r) = fs_get fs (src @ r)"
    and above: "\<And>q. q \<noteq> [] \<Longrightarrow> prefix q dst \<Longrightarrow> fs_get base q = Some FsDir"
  shows "fs_get fs' = tree_copy src dst fs"
proof
  fix p
  have get: "fs_get fs' p = (if \<exists>n r. n \<in> set (fs_children src base) \<and> p = dst @ n # r \<and> fs_get base (src @ n # r) \<noteq> None
      then fs_get base (src @ drop (length dst) p) else fs_get base p)"
    using assms(1) by (simp add: copied_children_def)
  show "fs_get fs' p = tree_copy src dst fs p"
  proof (cases "prefix dst p \<and> fs_get fs (src @ drop (length dst) p) \<noteq> None")
    case False
    with get have "fs_get fs' p = fs_get base p" by (auto simp: src)
    then show ?thesis unfolding tree_copy_def if_not_P [OF False] by (simp only: base)
  next
    case True
    then obtain s where p: "p = dst @ s" by (auto simp: prefix_def)
    have "dst \<noteq> []" using assms(2) by auto
    show ?thesis
    proof (cases s)
      case Nil
      with True get above [of dst] assms(4) \<open>dst \<noteq> []\<close> src [of "[]"] show ?thesis by (simp add: p tree_copy_def)
    next
      case (Cons n r)
      with True have "fs_get base (src @ n # r) \<noteq> None" by (simp add: p src)
      with nested_child [OF assms(3) this] True get Cons show ?thesis by (auto simp: p tree_copy_def in_fs_children src)
    qed
  qed
qed

lemma walk_tree_copies:
  assumes "src \<parallel> dst" "nested_below src (xw_fs w)" "depth_below k src (xw_fs w)" "0 < k"
  shows "\<exists>ok w'. copy_directory_mac env k src dst w = Some (ok, w') \<and> (ok \<longrightarrow> fs_get (xw_fs w') = tree_copy src dst (xw_fs w))"
  using assms
proof (induction k arbitrary: src dst w)
  case (Suc k)
  let ?leaf = "\<lambda>src dst n. xe_copy False env (src @ [n]) (dst @ [n])"
  let ?f = "\<lambda>n x. if fs_get (xw_fs x) (src @ [n]) = Some FsDir then walk_tree env ?leaf k (src @ [n]) (dst @ [n]) x else Some (?leaf src dst n x)"
  obtain made w1 where w1: "xe_create_dir_all env dst w = (made, w1)" by fastforce
  define w2 where "w2 = w1\<lparr>xw_ops := Suc (xw_ops w1)\<rparr>"
  show ?case
  proof (cases "made \<and> \<not> xe_fails env (xw_ops w1) \<and> fs_get (xw_fs w1) src = Some FsDir")
    case False
    then show ?thesis by (auto simp: copy_directory_mac_def w1 xe_io_def split: bool.splits)
  next
    case True
    have base: "fs_get (xw_fs w1) q = (if q \<noteq> [] \<and> prefix q dst \<and> fs_get (xw_fs w) q = None then Some FsDir else fs_get (xw_fs w) q)"
        "prefix q dst \<Longrightarrow> \<not> is_file_at (xw_fs w) q" for q
      using create_dir_all_True w1 True by auto
    have "\<not> prefix (src @ r) dst" for r using Suc.prems(1) by (auto dest: append_prefixD)
    then have src: "fs_get (xw_fs w1) (src @ r) = fs_get (xw_fs w) (src @ r)" for r by (simp add: base(1))
    have above: "fs_get (xw_fs w1) q = Some FsDir" if "q \<noteq> []" "prefix q dst" for q
      using that base [of q] by (auto simp: is_file_at_def split: option.splits fs_node.splits)
    have nested: "nested_below src (xw_fs w1)" using Suc.prems(2) by (simp add: nested_below_def src)
    let ?ns = "fs_children src (xw_fs w1)" and ?I = "copied_children src dst (xw_fs w1)"
    have run: "copy_directory_mac env (Suc k) src dst w = walk_each env ?f ?ns w2"
      using True by (simp add: copy_directory_mac_def w1 xe_io_def w2_def)
    have "\<exists>ok w'. walk_each env ?f ?ns w2 = Some (ok, w') \<and> (ok \<longrightarrow> ?I ({} \<union> set ?ns) (xw_fs w'))"
    proof (rule walk_each_invariant)
      show "?I {} (xw_fs w2)" by (simp add: copied_children_def w2_def)
    next
      fix S n and x :: xe_world
      assume I: "?I S (xw_fs x)" and n: "n \<in> set ?ns"
      have srcx: "fs_get (xw_fs x) (src @ r) = fs_get (xw_fs w1) (src @ r)" for r by (rule copied_children_src [OF I Suc.prems(1)])
      from n have there: "fs_get (xw_fs w1) (src @ [n]) \<noteq> None" by (simp add: in_fs_children)
      have step: "?I (insert n S) fs'" if "fs_get fs' = tree_copy (src @ [n]) (dst @ [n]) (xw_fs x)
          \<or> fs_get (xw_fs w1) (src @ [n]) \<noteq> Some FsDir
            \<and> (\<forall>p. fs_get fs' p = (if p = dst @ [n] then fs_get (xw_fs w1) (src @ [n]) else fs_get (xw_fs x) p))" for fs'
        by (rule copied_children_step [OF I Suc.prems(1) nested _ there that]) (rule above)
      show "\<exists>ok x'. ?f n x = Some (ok, x') \<and> (ok \<longrightarrow> ?I (insert n S) (xw_fs x'))"
      proof (cases "fs_get (xw_fs w1) (src @ [n]) = Some FsDir")
        case dir: True
        have "nested_below (src @ [n]) (xw_fs x)" "depth_below k (src @ [n]) (xw_fs x)"
          using nested Suc.prems(3) srcx src by (auto simp: nested_below_def depth_below_def)
        moreover have "0 < k" using there Suc.prems(3) by (force simp: depth_below_def src)
        moreover have "(src @ [n]) \<parallel> (dst @ [n])" using Suc.prems(1) by (rule parallel_below)
        ultimately have "\<exists>ok x'. copy_directory_mac env k (src @ [n]) (dst @ [n]) x = Some (ok, x')
            \<and> (ok \<longrightarrow> fs_get (xw_fs x') = tree_copy (src @ [n]) (dst @ [n]) (xw_fs x))"
          by (intro Suc.IH)
        with dir show ?thesis using step by (auto simp: srcx copy_directory_mac_def)
      next
        case leaf: False
        obtain ok x' where x': "?leaf src dst n x = (ok, x')" by fastforce
        have "?I (insert n S) (xw_fs x')" if ok
        proof (rule step, rule disjI2)
          from x' that have "?leaf src dst n x = (True, x')" by simp
          then show "fs_get (xw_fs w1) (src @ [n]) \<noteq> Some FsDir
              \<and> (\<forall>p. fs_get (xw_fs x') p = (if p = dst @ [n] then fs_get (xw_fs w1) (src @ [n]) else fs_get (xw_fs x) p))"
            by (rule copy_True) (use leaf srcx Suc.prems(1) in auto)
        qed
        with x' leaf show ?thesis by (auto simp: srcx)
      qed
    qed
    then obtain ok w' where "walk_each env ?f ?ns w2 = Some (ok, w')" and I: "ok \<Longrightarrow> ?I (set ?ns) (xw_fs w')" by auto
    moreover have "fs_get (xw_fs w') = tree_copy src dst (xw_fs w)" if ok
      using copied_children_all [OF I [OF that] Suc.prems(1) nested _ base(1) src above] True by blast
    ultimately show ?thesis using run by auto
  qed
qed simp

text \<open>
  Property C32. Copying the framework ends and is exact: with the bound on the depth above that of the tree the recursion
  returns, and when it succeeds everything below the source, files and directories at every
  depth, is below the target with the same contents, what else was below the target is still
  there, and nothing outside it has changed but for directories made on the way.
\<close>

theorem framework_copied:
  assumes "src \<parallel> dst" "nested_below src (xw_fs w)" "depth_below k src (xw_fs w)" "0 < k"
  shows "\<exists>ok w'. copy_directory_mac env k src dst w = Some (ok, w')
    \<and> (ok \<longrightarrow> (\<forall>p. fs_get (xw_fs w') p =
         (if prefix dst p \<and> fs_get (xw_fs w) (src @ drop (length dst) p) \<noteq> None then fs_get (xw_fs w) (src @ drop (length dst) p)
          else if p \<noteq> [] \<and> prefix p dst \<and> fs_get (xw_fs w) p = None then Some FsDir
          else fs_get (xw_fs w) p)))"
  using walk_tree_copies [OF assms] by (auto simp: tree_copy_def fun_eq_iff)

definition sample_bundle_world :: xe_world where
  "sample_bundle_world =
     \<lparr>xw_fs = [([''c''], FsDir), ([''c'', ''libcef.so''], FsFile [1]), ([''c'', ''locales''], FsDir), ([''c'', ''locales'', ''de.pak''], FsFile [2]),
              ([''t''], FsDir), ([''t'', ''x''], FsFile [3])],
      xw_ops = 0\<rparr>"

theorem bundle_linux_complete_witness:
  "\<exists>w'. bundle_linux sample_xe_env (Some [''c'']) [''a''] [''t''] ''x'' sample_bundle_world = (Inr [''a'', ''x''], w')
     \<and> fs_get (xw_fs w') [''a'', ''x''] = Some (FsFile [3]) \<and> fs_get (xw_fs w') [''a'', ''locales'', ''de.pak''] = Some (FsFile [2])"
proof -
  let ?r = "bundle_linux sample_xe_env (Some [''c'']) [''a''] [''t''] ''x'' sample_bundle_world"
  have "fst ?r = Inr [''a'', ''x'']" by code_simp
  then obtain w' where r: "?r = (Inr [''a'', ''x''], w')" by (cases ?r) auto
  have "fs_get (xw_fs sample_bundle_world) [''t'', ''x''] = Some (FsFile [3])"
      "fs_get (xw_fs sample_bundle_world) [''c'', ''locales'', ''de.pak''] = Some (FsFile [2])" by code_simp+
  with bundle_linux_complete [OF r] r show ?thesis by (auto simp: parallel_def is_file_at_def)
qed

theorem framework_copied_witness:
  "\<exists>ok w'. copy_directory_mac sample_xe_env 3 [''c''] [''d''] sample_bundle_world = Some (ok, w')
     \<and> (ok \<longrightarrow> fs_get (xw_fs w') [''d'', ''locales'', ''de.pak''] = Some (FsFile [2]))"
proof -
  have get: "fs_get (xw_fs sample_bundle_world) p =
      (if p \<in> {[''c''], [''c'', ''locales''], [''t'']} then Some FsDir else if p = [''c'', ''libcef.so''] then Some (FsFile [1])
       else if p = [''c'', ''locales'', ''de.pak''] then Some (FsFile [2]) else if p = [''t'', ''x''] then Some (FsFile [3]) else None)" for p
    by (simp add: sample_bundle_world_def fs_get_Cons)
  have "nested_below [''c''] (xw_fs sample_bundle_world)"
    unfolding nested_below_def get by (auto simp: Cons_eq_append_conv append_eq_Cons_conv split: if_splits)
  moreover have "depth_below 3 [''c''] (xw_fs sample_bundle_world)"
    unfolding depth_below_def get by (auto split: if_splits)
  ultimately show ?thesis
    using framework_copied [of "[''c'']" "[''d'']" sample_bundle_world 3 sample_xe_env] by (auto simp: parallel_def get)
qed

text \<open>
  The bundles of the helpers. A dot in the name of the executable is taken for the start of its
  extension, and the five helpers are put into one bundle, where the last one's description
  replaces the others'.
\<close>

lemma rsplit_dot_last: "CHR ''.'' \<notin> set b \<Longrightarrow> rsplit_dot (a @ ''.'' @ b) = Some (a, b)"
  by (auto simp: rsplit_dot_def dropWhile_append takeWhile_append)

lemma rsplit_dot_none: "CHR ''.'' \<notin> set a \<Longrightarrow> rsplit_dot a = None"
  by (simp add: rsplit_dot_def) (smt (verit, ccfv_SIG) dropWhile_eq_Nil_conv list.simps(4) set_rev)

lemma helper_bundles:
  assumes "exe = a @ ''.'' @ b" "a \<noteq> []" "CHR ''.'' \<notin> set b" "h \<in> set HELPERS"
  shows "app_bundle dir (exe @ '' '' @ h) = dir @ [a @ ''.app'']"
proof -
  have "CHR ''.'' \<notin> set (b @ '' '' @ h)" using assms(3,4) by (auto simp: HELPERS_def)
  then have "rsplit_dot (a @ ''.'' @ (b @ '' '' @ h)) = Some (a, b @ '' '' @ h)" by (rule rsplit_dot_last)
  moreover have "exe @ '' '' @ h \<noteq> ''..''" using assms by (auto simp: append_eq_Cons_conv)
  ultimately show ?thesis using assms(2) by (simp add: app_bundle_def with_extension_def path_stem_def assms(1))
qed

lemma helper_bundles_apart:
  assumes "CHR ''.'' \<notin> set exe"
  shows "map (\<lambda>h. app_bundle dir (exe @ '' '' @ h)) HELPERS = map (\<lambda>h. dir @ [exe @ '' '' @ h @ ''.app'']) HELPERS"
    and "distinct (map (\<lambda>h. app_bundle dir (exe @ '' '' @ h)) HELPERS)"
proof -
  have "app_bundle dir (exe @ '' '' @ h) = dir @ [exe @ '' '' @ h @ ''.app'']" if "h \<in> set HELPERS" for h
  proof -
    have "CHR ''.'' \<notin> set (exe @ '' '' @ h)" using assms that by (auto simp: HELPERS_def)
    then show ?thesis using rsplit_dot_none [of "exe @ '' '' @ h"] by (auto simp: app_bundle_def with_extension_def path_stem_def)
  qed
  then show eq: "map (\<lambda>h. app_bundle dir (exe @ '' '' @ h)) HELPERS = map (\<lambda>h. dir @ [exe @ '' '' @ h @ ''.app'']) HELPERS"
    by simp
  show "distinct (map (\<lambda>h. app_bundle dir (exe @ '' '' @ h)) HELPERS)"
    unfolding eq by (simp add: HELPERS_def)
qed

end
