(* ===== verification/Texture_Import.thy ===== *)
theory Texture_Import
  imports Prelude
begin

text \<open>
  \<^verbatim>\<open>cef/src/osr_texture_import\<close>: the frames of an off-screen browser as textures of \<^verbatim>\<open>wgpu\<close>, for Linux
  from the file descriptors of a DMA buffer, for Windows from a shared handle and for macOS from
  a surface, with a texture filled by the processor as the way out. The drivers and \<^verbatim>\<open>wgpu\<close> are
  parameters: whether each call succeeds, by a clock that counts the calls, and what dropping a texture
  releases. The images, descriptors and memories the code has acquired and not released are in
  the state.
\<close>

unbundle bit_operations_syntax

type_synonym u32 = "32 word"
type_synonym u64 = "64 word"

section \<open>Formats and errors\<close>

datatype color_type = RGBA_8888 | BGRA_8888 | OtherColor nat

datatype texture_format = Bgra8Unorm | Rgba8Unorm

datatype texture_import_error =
    InvalidHandle string
  | UnsupportedFormat color_type
  | HardwareUnavailable string
  | VulkanError string
  | PlatformError string
  | UnsupportedPlatform

definition cef_to_wgpu :: "color_type \<Rightarrow> texture_import_error + texture_format" where
  "cef_to_wgpu f = (case f of BGRA_8888 \<Rightarrow> Inr Bgra8Unorm | RGBA_8888 \<Rightarrow> Inr Rgba8Unorm | _ \<Rightarrow> Inl (UnsupportedFormat f))"

datatype vk_format = B8G8R8A8_UNORM | R8G8B8A8_UNORM

definition cef_to_vulkan :: "color_type \<Rightarrow> texture_import_error + vk_format" where
  "cef_to_vulkan f = (case f of BGRA_8888 \<Rightarrow> Inr B8G8R8A8_UNORM | RGBA_8888 \<Rightarrow> Inr R8G8B8A8_UNORM | _ \<Rightarrow> Inl (UnsupportedFormat f))"

definition find_memory_type_index :: "u32 \<Rightarrow> u32 \<Rightarrow> u32 list \<Rightarrow> nat option" where
  "find_memory_type_index type_filter properties memory_types =
     List.find (\<lambda>i. type_filter AND push_bit i 1 \<noteq> 0 \<and> (memory_types ! i) AND properties = properties) [0..<length memory_types]"

section \<open>The driver\<close>

record gpu_env =
  gp_vulkan :: bool
  gp_d3d12 :: bool
  gp_metal :: bool
  gp_fd_valid :: "i32 \<Rightarrow> bool"
  gp_memory_type_bits :: u32
  gp_memory_types :: "u32 list"
  gp_succeeds :: "nat \<Rightarrow> bool"

record gpu_world =
  gw_clock :: nat
  gw_images :: "nat list"
  gw_fds :: "nat list"
  gw_memories :: "nat list"

text \<open>
  A texture of \<^verbatim>\<open>wgpu\<close> made from an image keeps what \<^verbatim>\<open>texture_from_raw\<close> was given: the image, whether
  there is a callback for the drop, and whether the memory of the image is \<^verbatim>\<open>wgpu\<close>'s to free.
\<close>

datatype texture_memory = External | Dedicated nat

datatype texture = CpuTexture texture_format | DmaBufTexture nat bool texture_memory | SharedTexture | SurfaceTexture

definition gpu_call :: "gpu_env \<Rightarrow> gpu_world \<Rightarrow> bool \<times> gpu_world" where
  "gpu_call env w = (gp_succeeds env (gw_clock w), w\<lparr>gw_clock := Suc (gw_clock w)\<rparr>)"

text \<open>A texture of the processor; \<^verbatim>\<open>wgpu\<close> owns what it has.\<close>

definition create_fallback :: "color_type \<Rightarrow> texture_import_error + texture" where
  "create_fallback format = (case cef_to_wgpu format of Inl e \<Rightarrow> Inl e | Inr f \<Rightarrow> Inr (CpuTexture f))"

section \<open>Linux\<close>

record pixmap_plane =
  pp_stride :: u32
  pp_offset :: u64
  pp_fd :: i32

record paint_info =
  pi_planes :: "pixmap_plane list"
  pi_plane_count :: i32
  pi_modifier :: u64
  pi_format :: color_type
  pi_width :: i32
  pi_height :: i32
  pi_shared_texture_handle :: "nat option"
  pi_shared_texture_io_surface :: "nat option"

record dma_buf_importer =
  db_fds :: "i32 list"
  db_format :: color_type
  db_modifier :: u64
  db_width :: u32
  db_height :: u32
  db_strides :: "u32 list"
  db_offsets :: "u32 list"

text \<open>The planes that are there, up to the count; a negative count is too large a capacity for a vector.\<close>

definition extract_planes :: "(pixmap_plane \<Rightarrow> 'a) \<Rightarrow> paint_info \<Rightarrow> 'a list outcome" where
  "extract_planes f info = (if pi_plane_count info < 0 then Panic else Ret (map f (take (nat (pi_plane_count info)) (pi_planes info))))"

definition extract_fds_from_info :: "paint_info \<Rightarrow> i32 list outcome" where
  "extract_fds_from_info = extract_planes pp_fd"

definition extract_strides_from_info :: "paint_info \<Rightarrow> u32 list outcome" where
  "extract_strides_from_info = extract_planes pp_stride"

definition extract_offsets_from_info :: "paint_info \<Rightarrow> u32 list outcome" where
  "extract_offsets_from_info = extract_planes (\<lambda>plane. ucast (pp_offset plane))"

definition dma_buf_new :: "paint_info \<Rightarrow> dma_buf_importer outcome" where
  "dma_buf_new info =
     bind_outcome (extract_fds_from_info info) (\<lambda>fds.
     bind_outcome (extract_strides_from_info info) (\<lambda>strides.
     bind_outcome (extract_offsets_from_info info) (\<lambda>offsets.
       Ret \<lparr>db_fds = fds, db_format = pi_format info, db_modifier = pi_modifier info, db_width = word_of_int (pi_width info),
            db_height = word_of_int (pi_height info), db_strides = strides, db_offsets = offsets\<rparr>)))"

record subresource_layout =
  sl_offset :: u64
  sl_size :: u64
  sl_row_pitch :: u64

definition get_or_zero :: "nat \<Rightarrow> u32 list \<Rightarrow> u64" where
  "get_or_zero i xs = (if i < length xs then ucast (xs ! i) else 0)"

definition create_subresource_layouts :: "dma_buf_importer \<Rightarrow> subresource_layout list" where
  "create_subresource_layouts imp =
     map (\<lambda>i. \<lparr>sl_offset = get_or_zero i (db_offsets imp), sl_size = 0, sl_row_pitch = get_or_zero i (db_strides imp)\<rparr>)
       [0..<length (db_fds imp)]"

definition db_supports_hardware_acceleration :: "gpu_env \<Rightarrow> dma_buf_importer \<Rightarrow> bool" where
  "db_supports_hardware_acceleration env imp \<longleftrightarrow>
     db_fds imp \<noteq> [] \<and> list_all (\<lambda>fd. 0 \<le> fd \<and> gp_fd_valid env fd) (db_fds imp) \<and> gp_vulkan env"

text \<open>
  An image, a duplicate of the first descriptor, a memory made from it, and the two bound
  together. The names of what is acquired are times of the clock. A descriptor belongs to
  the driver once the memory has been made.
\<close>

definition db_bind_memory :: "gpu_env \<Rightarrow> nat \<Rightarrow> gpu_world \<Rightarrow> (texture_import_error + nat) \<times> gpu_world" where
  "db_bind_memory env img w =
     (case gpu_call env w of
        (False, w) \<Rightarrow> (Inl (VulkanError ''Failed to bind memory to image''), w)
      | (True, w) \<Rightarrow> (Inr img, w))"

definition db_allocate :: "gpu_env \<Rightarrow> nat \<Rightarrow> nat \<Rightarrow> gpu_world \<Rightarrow> (texture_import_error + nat) \<times> gpu_world" where
  "db_allocate env img fd w =
     (case gpu_call env w of
        (False, w') \<Rightarrow> (Inl (VulkanError ''Failed to allocate memory for DMA-BUF''), w')
      | (True, w') \<Rightarrow>
          db_bind_memory env img (w'\<lparr>gw_fds := remove1 fd (gw_fds w'), gw_memories := gw_memories w' @ [gw_clock w]\<rparr>))"

definition db_import_memory :: "gpu_env \<Rightarrow> dma_buf_importer \<Rightarrow> nat \<Rightarrow> gpu_world \<Rightarrow> ((texture_import_error + nat) \<times> gpu_world) outcome" where
  "db_import_memory env imp img w =
     (if db_fds imp = [] then Panic
      else
        (case gpu_call env w of
           (False, w') \<Rightarrow> Ret (Inl (PlatformError ''Failed to duplicate DMA-BUF file descriptor''), w')
         | (True, w') \<Rightarrow>
             (let fd = gw_clock w; w'' = w'\<lparr>gw_fds := gw_fds w' @ [fd]\<rparr>
              in case find_memory_type_index (gp_memory_type_bits env) 0 (gp_memory_types env) of
                   None \<Rightarrow> Ret (Inl (VulkanError ''Failed to find suitable memory type for DMA-BUF''), w'')
                 | Some _ \<Rightarrow> Ret (db_allocate env img fd w''))))"

definition create_vulkan_image_from_dmabuf ::
  "gpu_env \<Rightarrow> dma_buf_importer \<Rightarrow> gpu_world \<Rightarrow> ((texture_import_error + nat) \<times> gpu_world) outcome" where
  "create_vulkan_image_from_dmabuf env imp w =
     (if db_width imp = 0 \<or> db_height imp = 0 then Ret (Inl (InvalidHandle ''Invalid DMA-BUF dimensions''), w)
      else
        (case cef_to_vulkan (db_format imp) of
           Inl e \<Rightarrow> Ret (Inl e, w)
         | Inr _ \<Rightarrow>
             (case gpu_call env w of
                (False, w') \<Rightarrow> Ret (Inl (VulkanError ''Failed to create Vulkan image''), w')
              | (True, w') \<Rightarrow> db_import_memory env imp (gw_clock w) (w'\<lparr>gw_images := gw_images w' @ [gw_clock w]\<rparr>))))"

definition db_import_via_vulkan :: "gpu_env \<Rightarrow> dma_buf_importer \<Rightarrow> gpu_world \<Rightarrow> ((texture_import_error + texture) \<times> gpu_world) outcome" where
  "db_import_via_vulkan env imp w =
     (if \<not> gp_vulkan env then Ret (Inl (HardwareUnavailable ''Device is not using Vulkan backend''), w)
      else
        bind_outcome (create_vulkan_image_from_dmabuf env imp w) (\<lambda>(img, w).
          case img of
            Inl e \<Rightarrow> Ret (Inl e, w)
          | Inr img \<Rightarrow>
              Ret (case cef_to_wgpu (db_format imp) of Inl e \<Rightarrow> Inl e | Inr _ \<Rightarrow> Inr (DmaBufTexture img False External), w)))"

definition db_import_to_wgpu :: "gpu_env \<Rightarrow> dma_buf_importer \<Rightarrow> gpu_world \<Rightarrow> ((texture_import_error + texture) \<times> gpu_world) outcome" where
  "db_import_to_wgpu env imp w =
     (if db_supports_hardware_acceleration env imp
      then bind_outcome (db_import_via_vulkan env imp w) (\<lambda>(r, w).
             case r of Inr texture \<Rightarrow> Ret (Inr texture, w) | Inl _ \<Rightarrow> Ret (create_fallback (db_format imp), w))
      else Ret (create_fallback (db_format imp), w))"

section \<open>Windows\<close>

record d3d11_importer =
  dx_handle :: "nat option"
  dx_format :: color_type
  dx_width :: u32
  dx_height :: u32

definition d3d11_new :: "paint_info \<Rightarrow> d3d11_importer" where
  "d3d11_new info =
     \<lparr>dx_handle = pi_shared_texture_handle info, dx_format = pi_format info, dx_width = word_of_int (pi_width info),
      dx_height = word_of_int (pi_height info)\<rparr>"

text \<open>Opening the handle may fail or give no resource, two calls of the clock.\<close>

definition import_d3d11_handle_to_d3d12 :: "gpu_env \<Rightarrow> d3d11_importer \<Rightarrow> gpu_world \<Rightarrow> (texture_import_error + unit) \<times> gpu_world" where
  "import_d3d11_handle_to_d3d12 env imp w =
     (if dx_width imp = 0 \<or> dx_height imp = 0 then (Inl (InvalidHandle ''Invalid D3D11 texture dimensions''), w)
      else
        (case gpu_call env w of
           (False, w) \<Rightarrow> (Inl (PlatformError ''Failed to open D3D11 shared handle on D3D12''), w)
         | (True, w) \<Rightarrow>
             (case gpu_call env w of
                (False, w) \<Rightarrow> (Inl (InvalidHandle ''Failed to get D3D12 resource from shared handle''), w)
              | (True, w) \<Rightarrow> (Inr (), w))))"

definition dx_import_via_d3d12 :: "gpu_env \<Rightarrow> d3d11_importer \<Rightarrow> gpu_world \<Rightarrow> (texture_import_error + texture) \<times> gpu_world" where
  "dx_import_via_d3d12 env imp w =
     (if \<not> gp_d3d12 env then (Inl (HardwareUnavailable ''Device is not using D3D12 backend''), w)
      else
        (case import_d3d11_handle_to_d3d12 env imp w of
           (Inl e, w) \<Rightarrow> (Inl e, w)
         | (Inr _, w) \<Rightarrow> (case cef_to_wgpu (dx_format imp) of Inl e \<Rightarrow> Inl e | Inr _ \<Rightarrow> Inr SharedTexture, w)))"

definition dx_import_via_vulkan :: "gpu_env \<Rightarrow> d3d11_importer \<Rightarrow> gpu_world \<Rightarrow> (texture_import_error + texture) \<times> gpu_world" where
  "dx_import_via_vulkan env imp w =
     (if \<not> gp_vulkan env then (Inl (HardwareUnavailable ''Device is not using Vulkan backend''), w)
      else
        (case cef_to_wgpu (dx_format imp) of
           Inl e \<Rightarrow> (Inl e, w)
         | Inr _ \<Rightarrow>
             (case gpu_call env w of
                (False, w) \<Rightarrow> (Inl (PlatformError ''Failed to import D3D11 shared handle into Vulkan''), w)
              | (True, w) \<Rightarrow> (Inr SharedTexture, w))))"

definition dx_supports_hardware_acceleration :: "gpu_env \<Rightarrow> d3d11_importer \<Rightarrow> bool" where
  "dx_supports_hardware_acceleration env imp \<longleftrightarrow> dx_handle imp \<noteq> None \<and> (gp_d3d12 env \<or> gp_vulkan env)"

definition try_import ::
  "bool \<Rightarrow> (gpu_world \<Rightarrow> (texture_import_error + texture) \<times> gpu_world) \<Rightarrow> (gpu_world \<Rightarrow> (texture_import_error + texture) \<times> gpu_world)
     \<Rightarrow> gpu_world \<Rightarrow> (texture_import_error + texture) \<times> gpu_world" where
  "try_import use_it attempt otherwise w =
     (if use_it
      then (case attempt w of (Inr texture, w) \<Rightarrow> (Inr texture, w) | (Inl _, w) \<Rightarrow> otherwise w)
      else otherwise w)"

definition dx_import_to_wgpu :: "gpu_env \<Rightarrow> d3d11_importer \<Rightarrow> gpu_world \<Rightarrow> (texture_import_error + texture) \<times> gpu_world" where
  "dx_import_to_wgpu env imp w =
     (let hardware = dx_supports_hardware_acceleration env imp
      in try_import (hardware \<and> gp_d3d12 env) (dx_import_via_d3d12 env imp)
           (try_import (hardware \<and> gp_vulkan env) (dx_import_via_vulkan env imp) (\<lambda>w. (create_fallback (dx_format imp), w))) w)"

section \<open>macOS\<close>

record io_surface_importer =
  io_handle :: "nat option"
  io_format :: color_type
  io_width :: u32
  io_height :: u32

definition io_surface_new :: "paint_info \<Rightarrow> io_surface_importer" where
  "io_surface_new info =
     \<lparr>io_handle = pi_shared_texture_io_surface info, io_format = pi_format info, io_width = word_of_int (pi_width info),
      io_height = word_of_int (pi_height info)\<rparr>"

text \<open>The description of the texture insists on a known format.\<close>

definition io_get_texture_desc :: "io_surface_importer \<Rightarrow> texture_format outcome" where
  "io_get_texture_desc imp = (case cef_to_wgpu (io_format imp) of Inl _ \<Rightarrow> Panic | Inr f \<Rightarrow> Ret f)"

definition io_import_via_metal :: "gpu_env \<Rightarrow> io_surface_importer \<Rightarrow> (texture_import_error + texture) outcome" where
  "io_import_via_metal env imp =
     (case io_handle imp of
        None \<Rightarrow> Ret (Inl (InvalidHandle ''Invalid IOSurface handle''))
      | Some _ \<Rightarrow>
          bind_outcome (io_get_texture_desc imp) (\<lambda>desc.
            Ret (if io_width imp = 0 \<or> io_height imp = 0 then Inl (InvalidHandle ''Invalid IOSurface texture dimensions'')
                 else if \<not> gp_metal env then Inl (InvalidHandle ''Failed to get Metal device from wgpu'')
                 else Inr SurfaceTexture)))"

definition io_import_to_wgpu :: "gpu_env \<Rightarrow> io_surface_importer \<Rightarrow> (texture_import_error + texture) outcome" where
  "io_import_to_wgpu env imp =
     (if io_handle imp \<noteq> None \<and> gp_metal env
      then bind_outcome (io_import_via_metal env imp) (\<lambda>r.
             case r of Inr texture \<Rightarrow> Ret (Inr texture) | Inl _ \<Rightarrow> Ret (create_fallback (io_format imp)))
      else Ret (create_fallback (io_format imp)))"

section \<open>The handle of the platform\<close>

datatype target_os = Linux | Windows | MacOs | OtherOs

datatype shared_texture_handle =
    DmaBuf dma_buf_importer
  | D3D11 d3d11_importer
  | IOSurface io_surface_importer
  | Unsupported

definition shared_texture_handle_new :: "target_os \<Rightarrow> paint_info \<Rightarrow> shared_texture_handle outcome" where
  "shared_texture_handle_new os info =
     (case os of
        Linux \<Rightarrow> bind_outcome (dma_buf_new info) (\<lambda>imp. Ret (DmaBuf imp))
      | Windows \<Rightarrow> Ret (D3D11 (d3d11_new info))
      | MacOs \<Rightarrow> Ret (IOSurface (io_surface_new info))
      | OtherOs \<Rightarrow> Ret Unsupported)"

definition import_texture :: "gpu_env \<Rightarrow> shared_texture_handle \<Rightarrow> gpu_world \<Rightarrow> ((texture_import_error + texture) \<times> gpu_world) outcome" where
  "import_texture env handle w =
     (case handle of
        DmaBuf importer \<Rightarrow> db_import_to_wgpu env importer w
      | D3D11 importer \<Rightarrow> Ret (dx_import_to_wgpu env importer w)
      | IOSurface importer \<Rightarrow> bind_outcome (io_import_to_wgpu env importer) (\<lambda>r. Ret (r, w))
      | Unsupported \<Rightarrow> Ret (Inl UnsupportedPlatform, w))"

section \<open>Properties\<close>

text \<open>\<^verbatim>\<open>List.find\<close> over an interval is the least index.\<close>

lemma find_upt_Some:
  "List.find P [m..<n] = Some i \<longleftrightarrow> m \<le> i \<and> i < n \<and> P i \<and> (\<forall>j. m \<le> j \<and> j < i \<longrightarrow> \<not> P j)"
proof (induction "n - m" arbitrary: m)
  case 0
  then show ?case by auto
next
  case (Suc k)
  then have mn: "m < n" by simp
  show ?case
  proof (cases "P m")
    case True
    with mn show ?thesis by (auto simp: upt_conv_Cons)
  next
    case False
    with mn Suc(1) [of "Suc m"] Suc(2) show ?thesis
      by (auto simp: upt_conv_Cons Suc_le_eq) (metis le_eq_less_or_eq)+
  qed
qed

lemma and_push_bit_one: "i < 32 \<Longrightarrow> (x :: u32) AND push_bit i 1 \<noteq> 0 \<longleftrightarrow> bit x i"
  by (simp add: and_exp_eq_0_iff_not_bit)

text \<open>
  The memory type is the first one the image allows that has the properties asked for, if there is any;
  a device has at most 32 types.
\<close>

lemma memory_type_first:
  assumes "length types \<le> 32"
  shows "find_memory_type_index type_filter properties types = Some i \<longleftrightarrow>
    i < length types \<and> bit type_filter i \<and> types ! i AND properties = properties
    \<and> (\<forall>j<i. \<not> (bit type_filter j \<and> types ! j AND properties = properties))"
proof -
  have "type_filter AND push_bit j 1 \<noteq> 0 \<longleftrightarrow> bit type_filter j" if "j < length types" for j
    using that assms by (intro and_push_bit_one) simp
  then show ?thesis unfolding find_memory_type_index_def find_upt_Some by (auto dest: order.strict_trans)
qed

text \<open>
  The layout of a plane has the offset of the plane in its lower 32 bits only: an offset of four
  gigabytes or more is changed.
\<close>

lemma layouts_of_planes:
  assumes "dma_buf_new info = Ret imp" "i < length (db_fds imp)"
  shows "unat (sl_offset (create_subresource_layouts imp ! i)) = unat (pp_offset (pi_planes info ! i)) mod 2 ^ 32
    \<and> sl_row_pitch (create_subresource_layouts imp ! i) = ucast (pp_stride (pi_planes info ! i))"
  using assms
  by (auto simp: dma_buf_new_def extract_fds_from_info_def extract_strides_from_info_def extract_offsets_from_info_def
      extract_planes_def create_subresource_layouts_def get_or_zero_def unsigned_ucast_eq take_bit_eq_mod
      bind_outcome_Ret_iff split: if_splits)

text \<open>Which formats there is a texture for.\<close>

definition known_format :: "color_type \<Rightarrow> bool" where
  "known_format f \<longleftrightarrow> f = BGRA_8888 \<or> f = RGBA_8888"

lemma cef_to_wgpu_known: "(\<exists>x. cef_to_wgpu f = Inr x) \<longleftrightarrow> known_format f"
  and cef_to_wgpu_unknown: "\<not> known_format f \<Longrightarrow> cef_to_wgpu f = Inl (UnsupportedFormat f)"
  and cef_to_vulkan_known: "(\<exists>x. cef_to_vulkan f = Inr x) \<longleftrightarrow> known_format f"
  and cef_to_vulkan_unknown: "\<not> known_format f \<Longrightarrow> cef_to_vulkan f = Inl (UnsupportedFormat f)"
  by (cases f; simp add: cef_to_wgpu_def cef_to_vulkan_def known_format_def)+

lemma create_fallback_known: "known_format f \<Longrightarrow> \<exists>x. create_fallback f = Inr (CpuTexture x)"
  and create_fallback_unknown: "\<not> known_format f \<Longrightarrow> create_fallback f = Inl (UnsupportedFormat f)"
  by (cases f; simp add: create_fallback_def cef_to_wgpu_def known_format_def)+

lemma try_import_cases:
  "(\<exists>t w1. use_it \<and> attempt w = (Inr t, w1) \<and> try_import use_it attempt otherwise w = (Inr t, w1))
   \<or> (\<exists>w1. try_import use_it attempt otherwise w = otherwise w1)"
  by (auto simp: try_import_def split: prod.splits sum.splits)

lemma dx_attempts_known:
  "dx_import_via_d3d12 env imp w = (Inr t, w') \<Longrightarrow> known_format (dx_format imp)"
  "dx_import_via_vulkan env imp w = (Inr t, w') \<Longrightarrow> known_format (dx_format imp)"
  by (auto simp: dx_import_via_d3d12_def dx_import_via_vulkan_def cef_to_wgpu_known [symmetric] split: if_splits prod.splits sum.splits)

lemma dx_import_result:
  "(known_format (dx_format imp) \<longrightarrow> (\<exists>t. fst (dx_import_to_wgpu env imp w) = Inr t))
   \<and> (\<not> known_format (dx_format imp) \<longrightarrow> fst (dx_import_to_wgpu env imp w) = Inl (UnsupportedFormat (dx_format imp)))"
proof -
  define vulkan where "vulkan = try_import (dx_supports_hardware_acceleration env imp \<and> gp_vulkan env) (dx_import_via_vulkan env imp)
      (\<lambda>w. (create_fallback (dx_format imp), w))"
  have via: "(known_format (dx_format imp) \<longrightarrow> (\<exists>t. fst (vulkan w) = Inr t))
      \<and> (\<not> known_format (dx_format imp) \<longrightarrow> fst (vulkan w) = Inl (UnsupportedFormat (dx_format imp)))" for w
    using try_import_cases [of "dx_supports_hardware_acceleration env imp \<and> gp_vulkan env" "dx_import_via_vulkan env imp" w
        "\<lambda>w. (create_fallback (dx_format imp), w)"] dx_attempts_known(2) create_fallback_known create_fallback_unknown
    by (fastforce simp: vulkan_def)
  show ?thesis
    using try_import_cases [of "dx_supports_hardware_acceleration env imp \<and> gp_d3d12 env" "dx_import_via_d3d12 env imp" w vulkan]
      dx_attempts_known(1) via
    unfolding dx_import_to_wgpu_def vulkan_def [symmetric] Let_def by fastforce
qed

lemma db_import_no_panic:
  assumes "db_supports_hardware_acceleration env imp"
  shows "\<exists>r w'. db_import_via_vulkan env imp w = Ret (r, w') \<and> (\<forall>t. r = Inr t \<longrightarrow> known_format (db_format imp))"
  using assms
  by (auto simp: db_supports_hardware_acceleration_def db_import_via_vulkan_def create_vulkan_image_from_dmabuf_def db_import_memory_def
      gpu_call_def cef_to_wgpu_known [symmetric] Let_def split: sum.splits option.splits bool.splits prod.splits if_splits)

lemma db_import_result:
  "(known_format (db_format imp) \<longrightarrow> (\<exists>t w'. db_import_to_wgpu env imp w = Ret (Inr t, w')))
   \<and> (\<not> known_format (db_format imp) \<longrightarrow> (\<exists>w'. db_import_to_wgpu env imp w = Ret (Inl (UnsupportedFormat (db_format imp)), w')))"
proof (cases "db_supports_hardware_acceleration env imp")
  case True
  from db_import_no_panic [OF True, of w] obtain r w' where
      r: "db_import_via_vulkan env imp w = Ret (r, w')" "\<And>t. r = Inr t \<Longrightarrow> known_format (db_format imp)" by auto
  from create_fallback_known [of "db_format imp"] create_fallback_unknown [of "db_format imp"] r(2) show ?thesis
    by (cases r) (auto simp: db_import_to_wgpu_def True r(1))
next
  case False
  with create_fallback_known [of "db_format imp"] create_fallback_unknown [of "db_format imp"] show ?thesis
    by (auto simp: db_import_to_wgpu_def)
qed

lemma io_import_result:
  "(known_format (io_format io) \<longrightarrow> (\<exists>t. io_import_to_wgpu env io = Ret (Inr t)))
   \<and> (\<not> known_format (io_format io) \<longrightarrow>
        io_import_to_wgpu env io =
          (if io_handle io \<noteq> None \<and> gp_metal env then Panic else Ret (Inl (UnsupportedFormat (io_format io)))))"
proof (cases "known_format (io_format io)")
  case True
  then obtain f x where "cef_to_wgpu (io_format io) = Inr f" "create_fallback (io_format io) = Inr (CpuTexture x)"
    using cef_to_wgpu_known [of "io_format io"] create_fallback_known [of "io_format io"] by auto
  with True show ?thesis by (auto simp: io_import_to_wgpu_def io_import_via_metal_def io_get_texture_desc_def split: option.splits)
next
  case False
  with cef_to_wgpu_unknown [OF False] create_fallback_unknown [OF False] show ?thesis
    by (auto simp: io_import_to_wgpu_def io_import_via_metal_def io_get_texture_desc_def)
qed

text \<open>
  The result of an import: with one of the two known formats there is a texture whatever
  the drivers answer, and with another one the error says so, without a panic, but for macOS,
  where a surface on a Metal device panics.
\<close>

lemma import_results:
  "(known_format (db_format imp) \<longrightarrow> (\<exists>t w'. db_import_to_wgpu env imp w = Ret (Inr t, w')))
   \<and> (\<not> known_format (db_format imp) \<longrightarrow> (\<exists>w'. db_import_to_wgpu env imp w = Ret (Inl (UnsupportedFormat (db_format imp)), w')))
   \<and> (known_format (dx_format dx) \<longrightarrow> (\<exists>t. fst (dx_import_to_wgpu env dx w) = Inr t))
   \<and> (\<not> known_format (dx_format dx) \<longrightarrow> fst (dx_import_to_wgpu env dx w) = Inl (UnsupportedFormat (dx_format dx)))
   \<and> (known_format (io_format io) \<longrightarrow> (\<exists>t. io_import_to_wgpu env io = Ret (Inr t)))
   \<and> (\<not> known_format (io_format io) \<longrightarrow>
        io_import_to_wgpu env io =
          (if io_handle io \<noteq> None \<and> gp_metal env then Panic else Ret (Inl (UnsupportedFormat (io_format io)))))"
  by (intro conjI; (rule db_import_result [THEN conjunct1] db_import_result [THEN conjunct2] dx_import_result [THEN conjunct1]
        dx_import_result [THEN conjunct2] io_import_result [THEN conjunct1] io_import_result [THEN conjunct2]))

text \<open>
  A frame of a known format becomes a texture on each of the three systems, from the
  information CEF gives to the texture, if there is no negative number of planes.
\<close>

lemma import_texture_known:
  assumes "known_format (pi_format info)" "os \<noteq> OtherOs" "0 \<le> pi_plane_count info"
  shows "\<exists>handle t w'. shared_texture_handle_new os info = Ret handle \<and> import_texture env handle w = Ret (Inr t, w')"
proof (cases os)
  case Linux
  from assms(3) obtain imp where imp: "dma_buf_new info = Ret imp" "db_format imp = pi_format info"
    by (simp add: dma_buf_new_def extract_fds_from_info_def extract_strides_from_info_def extract_offsets_from_info_def extract_planes_def)
  with assms(1) db_import_result [of imp env w] obtain t w' where "db_import_to_wgpu env imp w = Ret (Inr t, w')" by auto
  with imp(1) show ?thesis by (simp add: Linux shared_texture_handle_new_def import_texture_def)
next
  case Windows
  have "dx_format (d3d11_new info) = pi_format info" by (simp add: d3d11_new_def)
  with assms(1) dx_import_result [of "d3d11_new info" env w] obtain t where "fst (dx_import_to_wgpu env (d3d11_new info) w) = Inr t" by auto
  then show ?thesis by (simp add: Windows shared_texture_handle_new_def import_texture_def prod_eq_iff)
next
  case MacOs
  have "io_format (io_surface_new info) = pi_format info" by (simp add: io_surface_new_def)
  with assms(1) io_import_result [of "io_surface_new info" env] obtain t where "io_import_to_wgpu env (io_surface_new info) = Ret (Inr t)" by auto
  then show ?thesis by (simp add: MacOs shared_texture_handle_new_def import_texture_def)
qed (use assms in simp)

section \<open>Frame after frame\<close>

text \<open>Every frame is imported and its texture dropped later, which releases what \<open>drop_texture\<close> does.\<close>

fun paint_frames ::
  "gpu_env \<Rightarrow> (texture \<Rightarrow> gpu_world \<Rightarrow> gpu_world) \<Rightarrow> dma_buf_importer list \<Rightarrow> gpu_world \<Rightarrow> gpu_world outcome" where
  "paint_frames env drop_texture [] w = Ret w"
| "paint_frames env drop_texture (imp # imps) w =
     bind_outcome (db_import_to_wgpu env imp w) (\<lambda>(r, w).
       paint_frames env drop_texture imps (case r of Inr t \<Rightarrow> drop_texture t w | Inl _ \<Rightarrow> w))"

text \<open>
  What \<^verbatim>\<open>wgpu\<close> documents of dropping a texture: the image of one that was made from an image is
  destroyed unless there is a callback for the drop, and its memory is freed unless it is
  \<^verbatim>\<open>TextureMemory::External\<close>. Nothing else the code has acquired is released.
\<close>

definition wgpu_drops :: "(texture \<Rightarrow> gpu_world \<Rightarrow> gpu_world) \<Rightarrow> bool" where
  "wgpu_drops drop_texture \<longleftrightarrow>
     (\<forall>w f. drop_texture (CpuTexture f) w = w)
     \<and> (\<forall>w img guarded memory. drop_texture (DmaBufTexture img guarded memory) w =
          w\<lparr>gw_images := if guarded then gw_images w else remove1 img (gw_images w),
            gw_memories := case memory of External \<Rightarrow> gw_memories w | Dedicated m \<Rightarrow> remove1 m (gw_memories w)\<rparr>)"

text \<open>
  What is left behind of one frame that starts at the \<open>k\<close>-th call of the drivers: images,
  descriptors, memories, and how many calls it makes.
\<close>

definition usable :: "gpu_env \<Rightarrow> dma_buf_importer \<Rightarrow> bool" where
  "usable env imp \<longleftrightarrow> db_supports_hardware_acceleration env imp \<and> db_width imp \<noteq> 0 \<and> db_height imp \<noteq> 0 \<and> known_format (db_format imp)"

definition has_memory_type :: "gpu_env \<Rightarrow> bool" where
  "has_memory_type env \<longleftrightarrow> find_memory_type_index (gp_memory_type_bits env) 0 (gp_memory_types env) \<noteq> None"

definition frame_leak :: "gpu_env \<Rightarrow> dma_buf_importer \<Rightarrow> nat \<Rightarrow> nat \<times> nat \<times> nat \<times> nat" where
  "frame_leak env imp k =
     (if \<not> usable env imp then (0, 0, 0, 0)
      else if \<not> gp_succeeds env k then (0, 0, 0, 1)
      else if \<not> gp_succeeds env (k + 1) then (1, 0, 0, 2)
      else if \<not> has_memory_type env then (1, 1, 0, 2)
      else if \<not> gp_succeeds env (k + 2) then (1, 1, 0, 3)
      else if \<not> gp_succeeds env (k + 3) then (1, 0, 1, 4)
      else (0, 0, 1, 4))"

fun frames_leak :: "gpu_env \<Rightarrow> dma_buf_importer list \<Rightarrow> nat \<Rightarrow> nat \<times> nat \<times> nat" where
  "frames_leak env [] k = (0, 0, 0)"
| "frames_leak env (imp # imps) k =
     (let (i, f, m, c) = frame_leak env imp k; (i', f', m') = frames_leak env imps (k + c)
      in (i + i', f + f', m + m'))"

text \<open>The names of what has been acquired are times in the past.\<close>

definition world_ok :: "gpu_world \<Rightarrow> bool" where
  "world_ok w \<longleftrightarrow> (\<forall>x \<in> set (gw_images w) \<union> set (gw_fds w) \<union> set (gw_memories w). x < gw_clock w)"

lemma frame_unusable:
  assumes "\<not> usable env imp"
  shows "db_import_to_wgpu env imp w = Ret (create_fallback (db_format imp), w)"
proof (cases "db_supports_hardware_acceleration env imp")
  case True
  with assms have "db_width imp = 0 \<or> db_height imp = 0 \<or> \<not> known_format (db_format imp)" by (simp add: usable_def)
  with True cef_to_vulkan_unknown [of "db_format imp"] show ?thesis
    by (auto simp: db_import_to_wgpu_def db_import_via_vulkan_def create_vulkan_image_from_dmabuf_def
        db_supports_hardware_acceleration_def)
qed (simp add: db_import_to_wgpu_def)

lemma frame_usable:
  assumes "usable env imp"
  shows "db_import_to_wgpu env imp w =
    bind_outcome (create_vulkan_image_from_dmabuf env imp w) (\<lambda>(img, w).
      Ret (case img of Inl _ \<Rightarrow> create_fallback (db_format imp) | Inr img \<Rightarrow> Inr (DmaBufTexture img False External), w))"
    and "create_vulkan_image_from_dmabuf env imp w =
      (case gpu_call env w of
         (False, w') \<Rightarrow> Ret (Inl (VulkanError ''Failed to create Vulkan image''), w')
       | (True, w') \<Rightarrow> db_import_memory env imp (gw_clock w) (w'\<lparr>gw_images := gw_images w' @ [gw_clock w]\<rparr>))"
proof -
  obtain f v where fmt: "cef_to_wgpu (db_format imp) = Inr f" "cef_to_vulkan (db_format imp) = Inr v"
    using assms cef_to_wgpu_known [of "db_format imp"] cef_to_vulkan_known [of "db_format imp"] by (auto simp: usable_def)
  have hw: "db_supports_hardware_acceleration env imp" "gp_vulkan env" "db_width imp \<noteq> 0" "db_height imp \<noteq> 0"
    using assms by (auto simp: usable_def db_supports_hardware_acceleration_def)
  show "create_vulkan_image_from_dmabuf env imp w =
      (case gpu_call env w of
         (False, w') \<Rightarrow> Ret (Inl (VulkanError ''Failed to create Vulkan image''), w')
       | (True, w') \<Rightarrow> db_import_memory env imp (gw_clock w) (w'\<lparr>gw_images := gw_images w' @ [gw_clock w]\<rparr>))"
    using hw fmt by (simp add: create_vulkan_image_from_dmabuf_def)
  show "db_import_to_wgpu env imp w =
    bind_outcome (create_vulkan_image_from_dmabuf env imp w) (\<lambda>(img, w).
      Ret (case img of Inl _ \<Rightarrow> create_fallback (db_format imp) | Inr img \<Rightarrow> Inr (DmaBufTexture img False External), w))"
    using hw fmt
    by (cases "create_vulkan_image_from_dmabuf env imp w")
      (auto simp: db_import_to_wgpu_def db_import_via_vulkan_def split: sum.split)
qed

text \<open>One frame: the texture, or the fall back, and what is left after it is dropped.\<close>

definition frame_after :: "(texture \<Rightarrow> gpu_world \<Rightarrow> gpu_world) \<Rightarrow> (texture_import_error + texture) \<times> gpu_world \<Rightarrow> gpu_world" where
  "frame_after drop_texture x = (case fst x of Inr t \<Rightarrow> drop_texture t (snd x) | Inl _ \<Rightarrow> snd x)"

lemma fallback_dropped: "wgpu_drops drop_texture \<Longrightarrow> frame_after drop_texture (create_fallback f, w) = w"
  by (cases "create_fallback f") (auto simp: frame_after_def wgpu_drops_def create_fallback_def split: sum.splits)

lemma frame_step:
  assumes drops: "wgpu_drops drop_texture" and ok: "world_ok w"
  shows "\<exists>x. db_import_to_wgpu env imp w = Ret x \<and> world_ok (frame_after drop_texture x)
    \<and> frame_leak env imp (gw_clock w) =
        (length (gw_images (frame_after drop_texture x)) - length (gw_images w),
         length (gw_fds (frame_after drop_texture x)) - length (gw_fds w),
         length (gw_memories (frame_after drop_texture x)) - length (gw_memories w),
         gw_clock (frame_after drop_texture x) - gw_clock w)
    \<and> length (gw_images w) \<le> length (gw_images (frame_after drop_texture x))
    \<and> length (gw_fds w) \<le> length (gw_fds (frame_after drop_texture x))
    \<and> length (gw_memories w) \<le> length (gw_memories (frame_after drop_texture x))
    \<and> gw_clock w \<le> gw_clock (frame_after drop_texture x)"
proof (cases "usable env imp")
  case False
  with fallback_dropped [OF drops] ok show ?thesis by (simp add: frame_unusable frame_leak_def)
next
  case True
  have fds: "db_fds imp \<noteq> []" using True by (simp add: usable_def db_supports_hardware_acceleration_def)
  have fresh: "gw_clock w \<notin> set (gw_images w)" "Suc (gw_clock w) \<notin> set (gw_fds w)"
    using ok unfolding world_ok_def by (metis UnCI less_irrefl, metis UnCI not_less_eq order_less_irrefl less_SucI)
  have dropped: "frame_after drop_texture (Inr (DmaBufTexture img False External), v) = v\<lparr>gw_images := remove1 img (gw_images v)\<rparr>" for img v
    using drops by (simp add: frame_after_def wgpu_drops_def)
  note run = frame_usable [OF True] db_import_memory_def db_allocate_def db_bind_memory_def gpu_call_def fds Let_def
    frame_leak_def True has_memory_type_def fallback_dropped [OF drops] dropped remove1_append fresh world_ok_def
  consider "\<not> gp_succeeds env (gw_clock w)"
    | "gp_succeeds env (gw_clock w)" "\<not> gp_succeeds env (Suc (gw_clock w))"
    | "gp_succeeds env (gw_clock w)" "gp_succeeds env (Suc (gw_clock w))" "\<not> has_memory_type env"
    | "gp_succeeds env (gw_clock w)" "gp_succeeds env (Suc (gw_clock w))" "has_memory_type env"
        "\<not> gp_succeeds env (Suc (Suc (gw_clock w)))"
    | "gp_succeeds env (gw_clock w)" "gp_succeeds env (Suc (gw_clock w))" "has_memory_type env"
        "gp_succeeds env (Suc (Suc (gw_clock w)))" "\<not> gp_succeeds env (Suc (Suc (Suc (gw_clock w))))"
    | "gp_succeeds env (gw_clock w)" "gp_succeeds env (Suc (gw_clock w))" "has_memory_type env"
        "gp_succeeds env (Suc (Suc (gw_clock w)))" "gp_succeeds env (Suc (Suc (Suc (gw_clock w))))"
    by blast
  then show ?thesis
    using ok by cases (auto simp: run eval_nat_numeral less_SucI Suc_diff_le)
qed

lemma paint_frames_leak:
  assumes drops: "wgpu_drops drop_texture" and "world_ok w"
  shows "\<exists>w'. paint_frames env drop_texture imps w = Ret w'
    \<and> (case frames_leak env imps (gw_clock w) of (i, f, m) \<Rightarrow>
         length (gw_images w') = length (gw_images w) + i \<and> length (gw_fds w') = length (gw_fds w) + f
         \<and> length (gw_memories w') = length (gw_memories w) + m)"
  using assms(2)
proof (induction imps arbitrary: w)
  case (Cons imp imps)
  from frame_step [OF drops Cons.prems, of env imp] obtain x where
    x: "db_import_to_wgpu env imp w = Ret x" "world_ok (frame_after drop_texture x)"
    "frame_leak env imp (gw_clock w) =
        (length (gw_images (frame_after drop_texture x)) - length (gw_images w),
         length (gw_fds (frame_after drop_texture x)) - length (gw_fds w),
         length (gw_memories (frame_after drop_texture x)) - length (gw_memories w),
         gw_clock (frame_after drop_texture x) - gw_clock w)"
    "length (gw_images w) \<le> length (gw_images (frame_after drop_texture x))"
    "length (gw_fds w) \<le> length (gw_fds (frame_after drop_texture x))"
    "length (gw_memories w) \<le> length (gw_memories (frame_after drop_texture x))"
    "gw_clock w \<le> gw_clock (frame_after drop_texture x)" by blast
  have step: "paint_frames env drop_texture (imp # imps) w = paint_frames env drop_texture imps (frame_after drop_texture x)"
    using x(1) by (simp add: frame_after_def case_prod_beta)
  from Cons.IH [OF x(2)] x(3-7) show ?case
    unfolding step by (auto split: prod.splits)
qed simp

lemma frames_leak_succeeding:
  "(\<forall>imp \<in> set imps. usable env imp) \<Longrightarrow> has_memory_type env \<Longrightarrow> \<forall>k. gp_succeeds env k \<Longrightarrow>
   frames_leak env imps k = (0, 0, length imps)"
  by (induction imps arbitrary: k) (simp_all add: frame_leak_def)

lemma frames_leak_refused:
  "(\<forall>imp \<in> set imps. usable env imp) \<Longrightarrow> has_memory_type env \<Longrightarrow> \<forall>k. gp_succeeds env k \<longleftrightarrow> k mod 3 \<noteq> 2 \<Longrightarrow> k mod 3 = 0 \<Longrightarrow>
   frames_leak env imps k = (length imps, length imps, 0)"
proof (induction imps arbitrary: k)
  case (Cons imp imps)
  have "gp_succeeds env k" "gp_succeeds env (k + 1)" "\<not> gp_succeeds env (k + 2)" "(k + 3) mod 3 = 0"
    using Cons.prems(3,4) by (auto simp: mod_Suc)
  with Cons show ?case by (simp add: frame_leak_def)
qed simp

text \<open>
  Property C39. Frames leak on Linux, and exactly what: \<open>frames_leak\<close> counts, for any frames and
  any answers of the drivers, the images, descriptors and memories that are left when all
  textures have been dropped. A frame whose image was made always leaves something: its
  memory, when all goes well, since \<^verbatim>\<open>TextureMemory::External\<close> tells \<^verbatim>\<open>wgpu\<close> not to free it and no other code
  does; the image, with the descriptor or the memory if it came to that, when a later
  call fails. When every frame is imported, one memory stays with every frame; when the driver
  refuses the memory of every frame, which falls back to textures of the processor without
  an error, an image and a file descriptor stay with every frame.
\<close>

theorem frames_leak_flaw:
  assumes "wgpu_drops drop_texture" and w: "w = \<lparr>gw_clock = 0, gw_images = [], gw_fds = [], gw_memories = []\<rparr>"
  shows "(\<exists>w'. paint_frames env drop_texture imps w = Ret w'
        \<and> (length (gw_images w'), length (gw_fds w'), length (gw_memories w')) = frames_leak env imps 0)
    \<and> (\<forall>imp k. usable env imp \<and> gp_succeeds env k \<longrightarrow>
         (case frame_leak env imp k of (i, f, m, _) \<Rightarrow> i + f + m \<ge> 1))
    \<and> ((\<forall>imp \<in> set imps. usable env imp) \<and> has_memory_type env \<longrightarrow>
         ((\<forall>k. gp_succeeds env k) \<longrightarrow> frames_leak env imps 0 = (0, 0, length imps))
         \<and> ((\<forall>k. gp_succeeds env k \<longleftrightarrow> k mod 3 \<noteq> 2) \<longrightarrow> frames_leak env imps 0 = (length imps, length imps, 0)))"
proof (intro conjI impI allI)
  have "world_ok w" by (simp add: w world_ok_def)
  from paint_frames_leak [OF assms(1) this, of env imps]
  show "\<exists>w'. paint_frames env drop_texture imps w = Ret w'
      \<and> (length (gw_images w'), length (gw_fds w'), length (gw_memories w')) = frames_leak env imps 0"
    by (cases "frames_leak env imps 0") (auto simp: w)
  show "case frame_leak env imp k of (i, f, m, _) \<Rightarrow> i + f + m \<ge> 1" if "usable env imp \<and> gp_succeeds env k" for imp k
    using that by (simp add: frame_leak_def)
qed (simp_all add: frames_leak_succeeding frames_leak_refused)

definition sample_gpu_env :: gpu_env where
  "sample_gpu_env =
     \<lparr>gp_vulkan = True, gp_d3d12 = False, gp_metal = False, gp_fd_valid = \<lambda>fd. True, gp_memory_type_bits = 1, gp_memory_types = [0],
      gp_succeeds = \<lambda>n. True\<rparr>"

definition sample_dma_buf :: dma_buf_importer where
  "sample_dma_buf = \<lparr>db_fds = [5], db_format = BGRA_8888, db_modifier = 0, db_width = 2, db_height = 2, db_strides = [8], db_offsets = [0]\<rparr>"

definition sample_drop :: "texture \<Rightarrow> gpu_world \<Rightarrow> gpu_world" where
  "sample_drop t w =
     (case t of
        DmaBufTexture img guarded memory \<Rightarrow>
          w\<lparr>gw_images := if guarded then gw_images w else remove1 img (gw_images w),
            gw_memories := case memory of External \<Rightarrow> gw_memories w | Dedicated m \<Rightarrow> remove1 m (gw_memories w)\<rparr>
      | _ \<Rightarrow> w)"

theorem frames_leak_flaw_witness:
  "\<exists>w'. paint_frames sample_gpu_env sample_drop [sample_dma_buf, sample_dma_buf]
      \<lparr>gw_clock = 0, gw_images = [], gw_fds = [], gw_memories = []\<rparr> = Ret w'
    \<and> (length (gw_images w'), length (gw_fds w'), length (gw_memories w')) = (0, 0, 2)"
proof -
  have "wgpu_drops sample_drop" by (simp add: wgpu_drops_def sample_drop_def)
  moreover have "has_memory_type sample_gpu_env"
    by (simp add: has_memory_type_def find_memory_type_index_def sample_gpu_env_def)
  moreover have "usable sample_gpu_env sample_dma_buf" "\<forall>k. gp_succeeds sample_gpu_env k"
    by (simp_all add: usable_def db_supports_hardware_acceleration_def sample_gpu_env_def sample_dma_buf_def known_format_def)
  ultimately show ?thesis
    using frames_leak_flaw [of sample_drop _ sample_gpu_env "[sample_dma_buf, sample_dma_buf]", OF _ refl]
    by (auto simp del: paint_frames.simps frames_leak.simps)
qed

end
