(* ===== verification/Client_Utilities.thy ===== *)
theory Client_Utilities
  imports Process_Messages
begin

text \<open>
  Utilities of the sample clients, \<^verbatim>\<open>examples/tests_shared/src\<close>: the binary messages of the performance test
  (\<^verbatim>\<open>common/binary_value_utils.rs\<close>), reading and writing a file in pieces (\<^verbatim>\<open>browser/file_util.rs\<close>),
  keeping a window on its display (\<^verbatim>\<open>browser/geometry_util.rs\<close>) and the global message loop
  (\<^verbatim>\<open>browser/main_message_loop.rs\<close>, \<^verbatim>\<open>browser/main_message_loop_std.rs\<close>). The machines CEF runs on store the lowest
  byte first. A binary value of CEF is its bytes, and one without bytes cannot be made; the file
  is a parameter: the answers to the calls of read or write. The conversions with floating-point
  factors are not modelled.
\<close>

unbundle bit_operations_syntax

section \<open>Binary messages\<close>

definition to_ne_bytes :: "nat \<Rightarrow> 'a::len word \<Rightarrow> u8 list" where
  "to_ne_bytes k x = map (\<lambda>i. ucast (drop_bit (8 * i) x)) [0..<k]"

fun from_ne_bytes :: "u8 list \<Rightarrow> 'a::len word" where
  "from_ne_bytes [] = 0"
| "from_ne_bytes (b # bs) = ucast b + push_bit 8 (from_ne_bytes bs)"

record message_id =
  mi_id :: "32 word"

record elapsed_micros =
  em_duration :: "128 word"

definition message_id_from_bytes :: "u8 list \<Rightarrow> message_id outcome" where
  "message_id_from_bytes bytes = (if length bytes = 4 then Ret \<lparr>mi_id = from_ne_bytes bytes\<rparr> else Panic)"

definition message_id_bytes :: "message_id \<Rightarrow> u8 list" where
  "message_id_bytes m = to_ne_bytes 4 (mi_id m)"

definition elapsed_from_bytes :: "u8 list \<Rightarrow> elapsed_micros outcome" where
  "elapsed_from_bytes bytes = (if length bytes = 16 then Ret \<lparr>em_duration = from_ne_bytes bytes\<rparr> else Panic)"

definition elapsed_bytes :: "elapsed_micros \<Rightarrow> u8 list" where
  "elapsed_bytes e = to_ne_bytes 16 (em_duration e)"

record bv_browser_message =
  bm_test_id :: message_id
  bm_start_time :: elapsed_micros

record bv_renderer_message =
  rm_test_id :: message_id
  rm_duration :: elapsed_micros
  rm_start_time :: elapsed_micros

text \<open>\<^verbatim>\<open>data[a..b]\<close> and \<^verbatim>\<open>data[a..b].copy_from_slice\<close>.\<close>

definition slice_at :: "nat \<Rightarrow> nat \<Rightarrow> u8 list \<Rightarrow> u8 list" where
  "slice_at a b data = take (b - a) (drop a data)"

definition copy_into :: "nat \<Rightarrow> u8 list \<Rightarrow> u8 list \<Rightarrow> u8 list" where
  "copy_into a src data = take a data @ src @ drop (a + length src) data"

definition bv_browser_message_from :: "u8 list \<Rightarrow> bv_browser_message outcome" where
  "bv_browser_message_from data =
     (if length data \<noteq> 20 then Panic
      else
        bind_outcome (message_id_from_bytes (slice_at 0 4 data)) (\<lambda>test_id.
        bind_outcome (elapsed_from_bytes (slice_at 4 20 data)) (\<lambda>start_time.
          Ret \<lparr>bm_test_id = test_id, bm_start_time = start_time\<rparr>)))"

definition bv_browser_message_value :: "bv_browser_message \<Rightarrow> u8 list option" where
  "bv_browser_message_value m =
     binary_value_create
       (copy_into 4 (elapsed_bytes (bm_start_time m)) (copy_into 0 (message_id_bytes (bm_test_id m)) (replicate 20 0)))"

definition bv_renderer_message_from :: "u8 list \<Rightarrow> bv_renderer_message outcome" where
  "bv_renderer_message_from data =
     (if length data \<noteq> 36 then Panic
      else
        bind_outcome (message_id_from_bytes (slice_at 0 4 data)) (\<lambda>test_id.
        bind_outcome (elapsed_from_bytes (slice_at 4 20 data)) (\<lambda>duration.
        bind_outcome (elapsed_from_bytes (slice_at 20 36 data)) (\<lambda>start_time.
          Ret \<lparr>rm_test_id = test_id, rm_duration = duration, rm_start_time = start_time\<rparr>))))"

definition bv_renderer_message_value :: "bv_renderer_message \<Rightarrow> u8 list option" where
  "bv_renderer_message_value m =
     binary_value_create
       (copy_into 20 (elapsed_bytes (rm_start_time m))
         (copy_into 4 (elapsed_bytes (rm_duration m)) (copy_into 0 (message_id_bytes (rm_test_id m)) (replicate 36 0))))"

section \<open>Files in pieces\<close>

text \<open>
  Reading: the answers are the bytes read, none at the end of the file, or an error
  (\<^const>\<open>None\<close>). After the last answer the file is at its end.
\<close>

fun read_loop :: "nat \<Rightarrow> u8 list option list \<Rightarrow> u8 list option \<Rightarrow> nat \<Rightarrow> bool \<times> u8 list option" where
  "read_loop max_size [] contents pos = (True, contents)"
| "read_loop max_size (None # reads) contents pos = (True, contents)"
| "read_loop max_size (Some buffer # reads) contents pos =
     (if buffer = [] then (True, contents)
      else
        (let contents = map_option (\<lambda>c. c @ take (min (length buffer) (max_size - pos)) buffer) contents;
             pos = pos + length buffer
         in if pos > max_size then (False, contents) else read_loop max_size reads contents pos))"

definition read_file_to_buffer ::
  "bool \<Rightarrow> u8 list option list option \<Rightarrow> u8 list option \<Rightarrow> nat \<Rightarrow> bool \<times> u8 list option" where
  "read_file_to_buffer allow_file_io opened contents max_size =
     (if \<not> allow_file_io then (False, contents)
      else
        (let contents = map_option (\<lambda>c. []) contents
         in case opened of None \<Rightarrow> (False, contents) | Some reads \<Rightarrow> read_loop max_size reads contents 0))"

text \<open>Writing: the answers are how many bytes were taken, or an error; the file has what was taken.\<close>

fun write_loop :: "u8 list \<Rightarrow> nat option list \<Rightarrow> nat \<Rightarrow> u8 list \<Rightarrow> nat \<times> u8 list" where
  "write_loop contents [] pos written = (pos, written)"
| "write_loop contents (answer # writes) pos written =
     (if pos < length contents
      then (let n = min (case answer of Some n \<Rightarrow> n | None \<Rightarrow> 0) (length contents - pos)
            in if n = 0 then (pos, written) else write_loop contents writes (pos + n) (written @ take n (drop pos contents)))
      else (pos, written))"

definition util_write_file :: "bool \<Rightarrow> bool \<Rightarrow> nat option list \<Rightarrow> u8 list \<Rightarrow> nat option \<times> u8 list option" where
  "util_write_file allow_file_io created writes contents =
     (if \<not> allow_file_io \<or> \<not> created then (None, None)
      else (let (pos, written) = write_loop contents writes 0 [] in (Some pos, Some written)))"

section \<open>Windows on displays\<close>

record rect =
  rc_x :: i32
  rc_y :: i32
  rc_width :: i32
  rc_height :: i32

definition i32_clamp :: "i32 \<Rightarrow> i32 \<Rightarrow> i32 \<Rightarrow> i32 outcome" where
  "i32_clamp lo hi x = (if hi < lo then Panic else Ret (if x < lo then lo else if hi < x then hi else x))"

definition constrain_position :: "i32 \<Rightarrow> i32 \<Rightarrow> i32 \<Rightarrow> i32 \<Rightarrow> i32" where
  "constrain_position display_x display_width x width =
     (if i32_wrap (display_x + display_width) < i32_wrap (x + width)
      then i32_wrap (i32_wrap (display_x + display_width) - width) else x)"

definition constrain_window_bounds :: "rect \<Rightarrow> rect \<Rightarrow> rect outcome" where
  "constrain_window_bounds display window =
     (let x = max (rc_x window) (rc_x display); y = max (rc_y window) (rc_y display)
      in bind_outcome (i32_clamp 100 (rc_width display) (rc_width window)) (\<lambda>width.
         bind_outcome (i32_clamp 100 (rc_height display) (rc_height window)) (\<lambda>height.
           Ret \<lparr>rc_x = constrain_position (rc_x display) (rc_width display) x width,
                rc_y = constrain_position (rc_y display) (rc_height display) y height,
                rc_width = width, rc_height = height\<rparr>)))"

section \<open>The global message loop\<close>

text \<open>
  The loop behind the mutex and the loops that are dropped. Dropping a standard loop
  sets the global one to none, which drops the loop that was there.
\<close>

datatype message_loop = StdLoop nat

definition set_main_message_loop :: "message_loop option \<Rightarrow> message_loop option \<Rightarrow> message_loop option \<times> message_loop option" where
  "set_main_message_loop new instance = (instance, new)"

function drop_loop :: "message_loop option \<Rightarrow> message_loop option \<Rightarrow> message_loop option" where
  "drop_loop None instance = instance"
| "drop_loop (Some l) instance = (let (old, instance) = set_main_message_loop None instance in drop_loop old instance)"
  by pat_completeness auto
termination
  by (relation "measure (\<lambda>(l, i). (if l = None then 0 else 1) + (if i = None then 0 else 1))")
    (auto simp: set_main_message_loop_def split: option.splits)

definition new_message_loop_std :: "nat \<Rightarrow> message_loop option \<Rightarrow> message_loop option" where
  "new_message_loop_std k instance =
     (let (old, instance) = set_main_message_loop (Some (StdLoop k)) instance in drop_loop old instance)"

section \<open>Properties\<close>

lemma from_to_ne_bytes:
  assumes "LENGTH('a::len) \<le> 8 * k"
  shows "from_ne_bytes (to_ne_bytes k x) = (x :: 'a word)"
proof -
  have "from_ne_bytes (map (\<lambda>i. ucast (drop_bit (8 * i) x)) [j..<j + n]) = (take_bit (8 * n) (drop_bit (8 * j) x) :: 'a word)" for j n
  proof (induction n arbitrary: j)
    case (Suc n)
    have upt: "[j..<j + Suc n] = j # [Suc j..<Suc j + n]" by (simp add: upt_conv_Cons)
    have shift: "drop_bit (8 * Suc j) x = drop_bit 8 (drop_bit (8 * j) x)" by (simp add: drop_bit_drop_bit add.commute)
    have step: "ucast (ucast y :: u8) + push_bit 8 (take_bit (8 * n) (drop_bit 8 y)) = take_bit (8 * Suc n) y" for y :: "'a word"
    proof -
      have "ucast (ucast y :: u8) = take_bit 8 y" by (simp add: unsigned_ucast_eq)
      moreover have "take_bit 8 y + push_bit 8 (take_bit (8 * n) (drop_bit 8 y)) = take_bit 8 y OR push_bit 8 (take_bit (8 * n) (drop_bit 8 y))"
        by (rule disjunctive_add) (auto simp: bit_take_bit_iff bit_push_bit_iff)
      moreover have "\<dots> = take_bit (8 * Suc n) y"
        by (rule bit_eqI) (auto simp: bit_or_iff bit_take_bit_iff bit_push_bit_iff bit_drop_bit_eq)
      ultimately show ?thesis by simp
    qed
    show ?case unfolding upt list.map from_ne_bytes.simps Suc [of "Suc j"] shift by (rule step)
  qed simp
  from this [of 0 k] assms show ?thesis by (simp add: to_ne_bytes_def take_bit_word_eq_self)
qed

lemma to_ne_bytes_length [simp]: "length (to_ne_bytes k x) = k"
  by (simp add: to_ne_bytes_def)

lemma to_ne_bytes_Nil [simp]: "to_ne_bytes k x = [] \<longleftrightarrow> k = 0"
  using to_ne_bytes_length [of k x] by (metis length_0_conv)

lemmas codec_defs = message_id_from_bytes_def message_id_bytes_def elapsed_from_bytes_def elapsed_bytes_def
  slice_at_def copy_into_def binary_value_create_def

text \<open>
  The messages of the performance test come back as they were sent, from values of 20 and of 36
  bytes; a value of another size panics.
\<close>

lemma browser_message_roundtrip:
  "\<exists>value. bv_browser_message_value m = Some value \<and> length value = 20 \<and> bv_browser_message_from value = Ret m"
  by (simp add: bv_browser_message_value_def bv_browser_message_from_def codec_defs from_to_ne_bytes)

lemma renderer_message_roundtrip:
  "\<exists>value. bv_renderer_message_value m = Some value \<and> length value = 36 \<and> bv_renderer_message_from value = Ret m"
  by (simp add: bv_renderer_message_value_def bv_renderer_message_from_def codec_defs from_to_ne_bytes)

text \<open>What the file gives until it ends or fails.\<close>

fun readable :: "u8 list option list \<Rightarrow> u8 list" where
  "readable (Some buffer # reads) = (if buffer = [] then [] else buffer @ readable reads)"
| "readable _ = []"

lemma read_loop_exact:
  assumes "pos \<le> max_size"
  shows "read_loop max_size reads contents pos =
    (pos + length (readable reads) \<le> max_size, map_option (\<lambda>c. c @ take (max_size - pos) (readable reads)) contents)"
  using assms
proof (induction max_size reads contents pos rule: read_loop.induct)
  case (3 max_size buffer reads contents pos)
  show ?case
  proof (cases "buffer = []")
    case False
    show ?thesis
    proof (cases "pos + length buffer \<le> max_size")
      case True
      with 3 False show ?thesis by (cases contents) (auto simp: Let_def min_def)
    next
      case over: False
      with 3(2) False show ?thesis by (cases contents) (auto simp: Let_def min_def)
    qed
  qed (use 3(2) in \<open>cases contents; simp\<close>)
qed (auto simp: option.map_ident)

text \<open>
  Reading a file in pieces: the buffer holds what the file gave until its end or the
  first error, cut to the greatest size, and the result says whether that fits, whatever the
  sizes of the pieces; an error in the middle is not reported. Writing gives how many bytes were
  taken, and these are the first ones; an error is not reported either.
\<close>

lemma files_in_pieces:
  "read_file_to_buffer True (Some reads) (Some old) max_size =
     (length (readable reads) \<le> max_size, Some (take max_size (readable reads)))
   \<and> (\<exists>n. util_write_file True True writes contents = (Some n, Some (take n contents)) \<and> n \<le> length contents)"
proof -
  have "\<exists>n. write_loop contents writes pos (take pos contents) = (n, take n contents) \<and> n \<le> length contents"
    if "pos \<le> length contents" for writes pos
    using that
  proof (induction contents writes pos "take pos contents" rule: write_loop.induct)
    case (2 contents answer writes pos)
    let ?n = "min (case answer of Some n \<Rightarrow> n | None \<Rightarrow> 0) (length contents - pos)"
    have "take pos contents @ take ?n (drop pos contents) = take (pos + ?n) contents" by (rule take_add [symmetric])
    with 2 show ?case by (auto simp: Let_def)
  qed auto
  from this [of 0 writes] show ?thesis
    by (auto simp: read_file_to_buffer_def read_loop_exact util_write_file_def Let_def)
qed

definition within :: "rect \<Rightarrow> rect \<Rightarrow> bool" where
  "within display window \<longleftrightarrow>
     rc_x display \<le> rc_x window \<and> rc_x window + rc_width window \<le> rc_x display + rc_width display
     \<and> rc_y display \<le> rc_y window \<and> rc_y window + rc_height window \<le> rc_y display + rc_height display"

definition fits_i32 :: "rect \<Rightarrow> bool" where
  "fits_i32 r \<longleftrightarrow> is_i32 (rc_x r) \<and> is_i32 (rc_y r) \<and> is_i32 (rc_x r + rc_width r) \<and> is_i32 (rc_y r + rc_height r)"

lemma constrain_position_within:
  assumes "is_i32 dx" "is_i32 (dx + dw)" "dx \<le> x" "0 \<le> width" "width \<le> dw" "x + dw \<le> 2147483647"
  shows "dx \<le> constrain_position dx dw x width \<and> constrain_position dx dw x width + width \<le> dx + dw
    \<and> (x + width \<le> dx + dw \<longrightarrow> constrain_position dx dw x width = x)"
proof -
  have "is_i32 (x + width)" "is_i32 (dx + dw - width)" using assms by (auto simp: is_i32_def)
  then show ?thesis using assms by (auto simp: constrain_position_def i32_wrap_id)
qed

lemma clamp_Ret: "lo \<le> hi \<Longrightarrow> i32_clamp lo hi x = Ret (max lo (min hi x))"
  by (auto simp: i32_clamp_def max_def min_def)

text \<open>
  A window kept on its display: with a display of at least a hundred by a hundred
  whose edges are in the range of the coordinates, and a window whose position is not so far out
  that its edge leaves the range, the window lies within the display afterwards and is at least
  that large, and one that was is not changed. A smaller display panics.
\<close>

lemma window_constrained:
  assumes "fits_i32 display" "rc_x window + rc_width display \<le> 2147483647" "rc_y window + rc_height display \<le> 2147483647"
  shows "if rc_width display < 100 \<or> rc_height display < 100 then constrain_window_bounds display window = Panic
    else \<exists>r. constrain_window_bounds display window = Ret r \<and> within display r \<and> 100 \<le> rc_width r \<and> 100 \<le> rc_height r
           \<and> (within display window \<and> 100 \<le> rc_width window \<and> 100 \<le> rc_height window \<longrightarrow> r = window)"
proof (cases "rc_width display < 100 \<or> rc_height display < 100")
  case True
  then show ?thesis by (auto simp: constrain_window_bounds_def i32_clamp_def Let_def)
next
  case False
  let ?w = "max 100 (min (rc_width display) (rc_width window))" and ?h = "max 100 (min (rc_height display) (rc_height window))"
  have x: "rc_x display \<le> max (rc_x window) (rc_x display)" "max (rc_x window) (rc_x display) + rc_width display \<le> 2147483647"
    and y: "rc_y display \<le> max (rc_y window) (rc_y display)" "max (rc_y window) (rc_y display) + rc_height display \<le> 2147483647"
    using assms by (auto simp: fits_i32_def is_i32_def)
  have w: "0 \<le> ?w" "?w \<le> rc_width display" and h: "0 \<le> ?h" "?h \<le> rc_height display" using False by auto
  have run: "constrain_window_bounds display window =
      Ret \<lparr>rc_x = constrain_position (rc_x display) (rc_width display) (max (rc_x window) (rc_x display)) ?w,
           rc_y = constrain_position (rc_y display) (rc_height display) (max (rc_y window) (rc_y display)) ?h,
           rc_width = ?w, rc_height = ?h\<rparr>"
    using False by (simp add: constrain_window_bounds_def clamp_Ret Let_def)
  note px = constrain_position_within [OF _ _ x(1) w x(2)] and py = constrain_position_within [OF _ _ y(1) h y(2)]
  show ?thesis
    using assms(1) False px py unfolding run fits_i32_def by (auto simp: within_def intro!: rect.equality)
qed

text \<open>A window far to the right of its display stays there, since its edge wraps around.\<close>

lemma window_wraps_flaw:
  "constrain_window_bounds \<lparr>rc_x = 0, rc_y = 0, rc_width = 800, rc_height = 600\<rparr> \<lparr>rc_x = 2147483600, rc_y = 0, rc_width = 200, rc_height = 200\<rparr>
     = Ret \<lparr>rc_x = 2147483600, rc_y = 0, rc_width = 200, rc_height = 200\<rparr>"
  by (simp add: constrain_window_bounds_def constrain_position_def i32_clamp_def i32_wrap_def)

text \<open>
  Making a second standard loop leaves no loop: the first one, dropped, sets the global one to
  none, and with it the second.
\<close>

lemma second_loop_lost:
  "new_message_loop_std k None = Some (StdLoop k)" "new_message_loop_std k (Some (StdLoop j)) = None"
  by (simp_all add: new_message_loop_std_def set_main_message_loop_def)

end
