(* ===== verification/Main_Message_Loop.thy ===== *)
theory Main_Message_Loop
  imports Client_Utilities
begin

text \<open>
  Posting to the global message loop of the sample clients,
  \<^verbatim>\<open>examples/tests_shared/src/browser/main_message_loop.rs\<close>, with the standard loop of
  \<^verbatim>\<open>main_message_loop_std.rs\<close>: a task goes to the queue of the thread of the user interface, and a closure is wrapped into a
  task first, which keeps it behind a mutex. What a closure does is a parameter: what it posts. A closure runs with the lock of
  its task held. Tasks are numbers, places in a store; those that are not in it are the
  application's own.
\<close>

datatype 'c closure_task = OnceClosure "'c option mutex" | RepeatingClosure "'c option mutex"

record 'c loop_world =
  lw_instance :: "message_loop option mutex"
  lw_on_ui :: bool
  lw_store :: "'c closure_task list"
  lw_queue :: "nat list"
  lw_ran :: "nat list"

definition loop_world_new :: "'c loop_world" where
  "loop_world_new = \<lparr>lw_instance = mutex_new (Some (StdLoop 0)), lw_on_ui = True, lw_store = [], lw_queue = [], lw_ran = []\<rparr>"

definition currently_on_main_thread :: "'c loop_world \<Rightarrow> bool outcome" where
  "currently_on_main_thread w =
     with_lock (lw_instance w) (\<lambda>loop. Ret (case loop of None \<Rightarrow> False | Some _ \<Rightarrow> lw_on_ui w)) (Ret False)"

definition std_post_task :: "nat \<Rightarrow> 'c loop_world \<Rightarrow> 'c loop_world" where
  "std_post_task k w = w\<lparr>lw_queue := lw_queue w @ [k]\<rparr>"

definition post_closure :: "'c closure_task \<Rightarrow> 'c loop_world \<Rightarrow> 'c loop_world" where
  "post_closure t w = std_post_task (length (lw_store w)) (w\<lparr>lw_store := lw_store w @ [t]\<rparr>)"

definition post_once :: "'c \<Rightarrow> 'c loop_world \<Rightarrow> 'c loop_world" where
  "post_once c = post_closure (OnceClosure (mutex_new (Some c)))"

definition post_repeating :: "'c \<Rightarrow> 'c loop_world \<Rightarrow> 'c loop_world" where
  "post_repeating c = post_closure (RepeatingClosure (mutex_new (Some c)))"

definition with_instance :: "('c loop_world \<Rightarrow> 'c loop_world) \<Rightarrow> 'c loop_world \<Rightarrow> 'c loop_world outcome" where
  "with_instance f w = with_lock (lw_instance w) (\<lambda>loop. Ret (case loop of None \<Rightarrow> w | Some _ \<Rightarrow> f w)) (Ret w)"

definition main_post_task :: "nat \<Rightarrow> 'c loop_world \<Rightarrow> 'c loop_world outcome" where
  "main_post_task k = with_instance (std_post_task k)"

definition main_post_once :: "'c \<Rightarrow> 'c loop_world \<Rightarrow> 'c loop_world outcome" where
  "main_post_once c = with_instance (post_once c)"

definition main_post_repeating :: "'c \<Rightarrow> 'c loop_world \<Rightarrow> 'c loop_world outcome" where
  "main_post_repeating c = with_instance (post_repeating c)"

datatype 'c post = PostTask nat | PostOnce 'c | PostRepeating 'c

fun main_post :: "'c post \<Rightarrow> 'c loop_world \<Rightarrow> 'c loop_world outcome" where
  "main_post (PostTask k) = main_post_task k"
| "main_post (PostOnce c) = main_post_once c"
| "main_post (PostRepeating c) = main_post_repeating c"

text \<open>Calling a closure: it is noted which task ran, and what the closure posts is posted.\<close>

definition set_task :: "nat \<Rightarrow> 'c closure_task \<Rightarrow> 'c loop_world \<Rightarrow> 'c loop_world" where
  "set_task k t w = w\<lparr>lw_store := (lw_store w)[k := t]\<rparr>"

definition call_closure :: "('c \<Rightarrow> 'c post list) \<Rightarrow> nat \<Rightarrow> 'c \<Rightarrow> 'c loop_world \<Rightarrow> 'c loop_world outcome" where
  "call_closure body k c w = run_ops main_post (body c) (w\<lparr>lw_ran := lw_ran w @ [k]\<rparr>)"

definition once_execute :: "('c \<Rightarrow> 'c post list) \<Rightarrow> nat \<Rightarrow> 'c option mutex \<Rightarrow> 'c loop_world \<Rightarrow> 'c loop_world outcome" where
  "once_execute body k m w =
     with_lock m
       (\<lambda>closure. case closure of
          None \<Rightarrow> Ret w
        | Some c \<Rightarrow>
            bind_outcome (call_closure body k c (set_task k (OnceClosure (acquire (m\<lparr>m_data := None\<rparr>))) w))
              (\<lambda>w. Ret (set_task k (OnceClosure (release None m)) w)))
       (Ret w)"

definition repeating_execute :: "('c \<Rightarrow> 'c post list) \<Rightarrow> nat \<Rightarrow> 'c option mutex \<Rightarrow> 'c loop_world \<Rightarrow> 'c loop_world outcome" where
  "repeating_execute body k m w =
     with_lock m
       (\<lambda>closure. case closure of
          None \<Rightarrow> Ret w
        | Some c \<Rightarrow>
            bind_outcome (call_closure body k c (set_task k (RepeatingClosure (acquire m)) w))
              (\<lambda>w. Ret (set_task k (RepeatingClosure (release (Some c) m)) w)))
       (Ret w)"

text \<open>The thread takes the first task of its queue.\<close>

definition run_next :: "('c \<Rightarrow> 'c post list) \<Rightarrow> 'c loop_world \<Rightarrow> 'c loop_world outcome" where
  "run_next body w =
     (case lw_queue w of
        [] \<Rightarrow> Ret w
      | k # ks \<Rightarrow>
          (let w = w\<lparr>lw_queue := ks\<rparr>
           in if k < length (lw_store w)
              then (case lw_store w ! k of OnceClosure m \<Rightarrow> once_execute body k m w | RepeatingClosure m \<Rightarrow> repeating_execute body k m w)
              else Ret w))"

datatype 'c loop_op = Posting "'c post" | Running

fun loop_step :: "('c \<Rightarrow> 'c post list) \<Rightarrow> 'c loop_op \<Rightarrow> 'c loop_world \<Rightarrow> 'c loop_world outcome" where
  "loop_step body (Posting p) w = main_post p w"
| "loop_step body Running w = run_next body w"

section \<open>The invariant\<close>

definition task_counted :: "nat \<Rightarrow> 'c closure_task \<Rightarrow> bool" where
  "task_counted n t \<longleftrightarrow>
     (case t of
        OnceClosure m \<Rightarrow> lock_ok m \<and> n = (if m_data m = None then 1 else 0)
      | RepeatingClosure m \<Rightarrow> lock_ok m \<and> m_data m \<noteq> None)"

definition loop_inv :: "'c loop_world \<Rightarrow> bool" where
  "loop_inv w \<longleftrightarrow> lock_ok (lw_instance w) \<and> (\<forall>k\<in>set (lw_ran w). k < length (lw_store w))
     \<and> (\<forall>k<length (lw_store w). task_counted (count_list (lw_ran w) k) (lw_store w ! k))"

lemma posts_spec:
  assumes "lock_ok (lw_instance w)"
  shows "\<exists>ts ks. run_ops main_post ps w = Ret (w\<lparr>lw_store := lw_store w @ ts, lw_queue := lw_queue w @ ks\<rparr>) \<and> list_all (task_counted 0) ts"
  using assms
proof (induction ps arbitrary: w)
  case Nil
  show ?case by (intro exI [of _ "[]"]) simp
next
  case (Cons p ps)
  have "\<exists>ts ks. main_post p w = Ret (w\<lparr>lw_store := lw_store w @ ts, lw_queue := lw_queue w @ ks\<rparr>) \<and> list_all (task_counted 0) ts"
  proof (cases "m_data (lw_instance w)")
    case None
    then have "main_post p w = Ret w"
      by (cases p) (simp_all add: Cons.prems main_post_task_def main_post_once_def main_post_repeating_def with_instance_def with_lock_ok)
    then show ?thesis by (intro exI [of _ "[]"]) simp
  next
    case (Some l)
    note defs = main_post_task_def main_post_once_def main_post_repeating_def with_instance_def with_lock_ok [OF Cons.prems] Some
      post_once_def post_repeating_def post_closure_def std_post_task_def
    show ?thesis
    proof (cases p)
      case (PostTask k)
      then show ?thesis by (intro exI [of _ "[]"] exI [of _ "[k]"]) (simp add: defs)
    next
      case (PostOnce c)
      then show ?thesis
        by (intro exI [of _ "[OnceClosure (mutex_new (Some c))]"] exI [of _ "[length (lw_store w)]"])
          (simp add: defs task_counted_def mutex_new_def lock_ok_def)
    next
      case (PostRepeating c)
      then show ?thesis
        by (intro exI [of _ "[RepeatingClosure (mutex_new (Some c))]"] exI [of _ "[length (lw_store w)]"])
          (simp add: defs task_counted_def mutex_new_def lock_ok_def)
    qed
  qed
  then obtain ts ks where one: "main_post p w = Ret (w\<lparr>lw_store := lw_store w @ ts, lw_queue := lw_queue w @ ks\<rparr>)" "list_all (task_counted 0) ts"
    by blast
  from Cons.IH [of "w\<lparr>lw_store := lw_store w @ ts, lw_queue := lw_queue w @ ks\<rparr>"] Cons.prems obtain ts' ks' where
      "run_ops main_post ps (w\<lparr>lw_store := lw_store w @ ts, lw_queue := lw_queue w @ ks\<rparr>)
        = Ret (w\<lparr>lw_store := (lw_store w @ ts) @ ts', lw_queue := (lw_queue w @ ks) @ ks'\<rparr>)" "list_all (task_counted 0) ts'"
    by auto
  with one show ?case by (intro exI [of _ "ts @ ts'"] exI [of _ "ks @ ks'"]) simp
qed

text \<open>What calling the closure of a task leaves: the task released, noted once more, and new tasks at the end.\<close>

lemma call_spec:
  assumes "lock_ok (lw_instance w)" "k < length (lw_store w)"
  shows "\<exists>ts ks. bind_outcome (call_closure body k c (set_task k t w)) (\<lambda>w. Ret (set_task k t' w))
      = Ret (w\<lparr>lw_store := (lw_store w)[k := t'] @ ts, lw_queue := lw_queue w @ ks, lw_ran := lw_ran w @ [k]\<rparr>) \<and> list_all (task_counted 0) ts"
proof -
  let ?w = "w\<lparr>lw_store := (lw_store w)[k := t], lw_ran := lw_ran w @ [k]\<rparr>"
  obtain ts ks where "run_ops main_post (body c) ?w = Ret (?w\<lparr>lw_store := lw_store ?w @ ts, lw_queue := lw_queue ?w @ ks\<rparr>)" "list_all (task_counted 0) ts"
    using posts_spec [of ?w "body c"] assms(1) by auto
  with assms(2) show ?thesis
    by (intro exI [of _ ts] exI [of _ ks]) (simp add: call_closure_def set_task_def list_update_append)
qed

lemma loop_inv_called:
  assumes "loop_inv w" "k < length (lw_store w)" "task_counted (Suc (count_list (lw_ran w) k)) t'" "list_all (task_counted 0) ts"
  shows "loop_inv (w\<lparr>lw_store := (lw_store w)[k := t'] @ ts, lw_queue := qs, lw_ran := lw_ran w @ [k]\<rparr>)"
proof -
  have "count_list (lw_ran w) j = 0" if "length (lw_store w) \<le> j" for j
    using assms(1) that by (auto simp: loop_inv_def count_list_0_iff)
  with assms show ?thesis
    by (auto simp: loop_inv_def nth_append nth_list_update list_all_length)
qed

lemma run_next_spec:
  assumes "loop_inv w" "lw_queue w = k # ks" "k < length (lw_store w)"
  shows "\<exists>w'. run_next body w = Ret w' \<and> loop_inv w'
    \<and> lw_ran w' = lw_ran w @ (if case lw_store w ! k of OnceClosure m \<Rightarrow> m_data m = None | RepeatingClosure m \<Rightarrow> False then [] else [k])"
proof -
  let ?w = "w\<lparr>lw_queue := ks\<rparr>"
  have inv: "loop_inv ?w" "lock_ok (lw_instance ?w)" "task_counted (count_list (lw_ran w) k) (lw_store w ! k)"
    using assms(1,3) by (simp_all add: loop_inv_def)
  note call = call_spec [OF inv(2), of k] and keep = loop_inv_called [OF inv(1), of k]
  show ?thesis
  proof (cases "lw_store w ! k")
    case (OnceClosure m)
    then have m: "lock_ok m" "count_list (lw_ran w) k = (if m_data m = None then 1 else 0)" using inv(3) by (simp_all add: task_counted_def)
    show ?thesis
    proof (cases "m_data m")
      case None
      with inv(1) show ?thesis
        by (simp add: run_next_def assms(2,3) OnceClosure once_execute_def with_lock_ok [OF m(1)])
    next
      case (Some c)
      have "task_counted (Suc (count_list (lw_ran w) k)) (OnceClosure (release None m))"
        using m Some by (simp add: task_counted_def release_def lock_ok_def)
      with call [of body c "OnceClosure (acquire (m\<lparr>m_data := None\<rparr>))" "OnceClosure (release None m)"] keep [of "OnceClosure (release None m)"]
      show ?thesis
        using assms(3) Some by (auto simp: run_next_def assms(2) OnceClosure once_execute_def with_lock_ok [OF m(1)])
    qed
  next
    case (RepeatingClosure m)
    then obtain c where m: "lock_ok m" "m_data m = Some c" using inv(3) by (auto simp: task_counted_def)
    have "task_counted n (RepeatingClosure (release (Some c) m))" for n
      using m by (simp add: task_counted_def release_def lock_ok_def)
    with call [of body c "RepeatingClosure (acquire m)" "RepeatingClosure (release (Some c) m)"] keep [of "RepeatingClosure (release (Some c) m)"]
    show ?thesis
      using assms(3) by (auto simp: run_next_def assms(2) RepeatingClosure repeating_execute_def with_lock_ok [OF m(1)] m(2))
  qed
qed

lemma loop_step_spec:
  assumes "loop_inv w"
  shows "\<exists>w'. loop_step body x w = Ret w' \<and> loop_inv w'"
proof (cases x)
  case (Posting p)
  from assms posts_spec [of w "[p]"] obtain ts ks where
      "main_post p w = Ret (w\<lparr>lw_store := lw_store w @ ts, lw_queue := lw_queue w @ ks\<rparr>)" "list_all (task_counted 0) ts"
    by (auto simp: loop_inv_def bind_outcome_Ret_iff)
  moreover have "count_list (lw_ran w) j = 0" if "length (lw_store w) \<le> j" for j
    using assms that by (auto simp: loop_inv_def count_list_0_iff)
  ultimately show ?thesis using assms by (auto simp: Posting loop_inv_def nth_append list_all_length)
next
  case Running
  show ?thesis
  proof (cases "lw_queue w")
    case (Cons k ks)
    show ?thesis
    proof (cases "k < length (lw_store w)")
      case True
      with run_next_spec [OF assms Cons True, of body] show ?thesis by (auto simp: Running)
    next
      case False
      with assms show ?thesis by (simp add: Running run_next_def Cons loop_inv_def)
    qed
  qed (use assms in \<open>simp add: Running run_next_def\<close>)
qed

interpretation loop_machine: live_machine "loop_step body" loop_inv for body
proof unfold_locales
  fix s s' :: "'a loop_world" and x
  assume inv: "loop_inv s"
  from loop_step_spec [OF this, of body x] show "loop_step body x s \<noteq> Blocked" by auto
  show "loop_inv s'" if "loop_step body x s = Ret s'" using loop_step_spec [OF inv, of body x] that by auto
qed

section \<open>Properties\<close>

text \<open>
  Closures that are posted, by the application or by other closures, in any order: nothing
  waits for a lock; a closure posted once has run once if its task was taken, even if the task was posted again, and not
  otherwise; and every repeating closure at the front of the queue runs.
\<close>

lemma closures_run:
  assumes "run_ops (loop_step body) ops loop_world_new = Ret w"
  shows "k < length (lw_store w) \<Longrightarrow> lw_store w ! k = OnceClosure m \<Longrightarrow> count_list (lw_ran w) k = (if m_data m = None then 1 else 0)"
    and "lw_queue w = k # ks \<Longrightarrow> k < length (lw_store w) \<Longrightarrow>
      \<exists>w'. run_next body w = Ret w' \<and> (case lw_store w ! k of OnceClosure m \<Rightarrow> count_list (lw_ran w') k = 1
                                         | RepeatingClosure m \<Rightarrow> lw_ran w' = lw_ran w @ [k])"
    and "run_ops (loop_step body) ops' w \<noteq> Blocked"
proof -
  have "loop_inv (loop_world_new :: 'a loop_world)" by (simp add: loop_inv_def loop_world_new_def mutex_new_def lock_ok_def)
  with assms have inv: "loop_inv w" using loop_machine.run_inv by blast
  then show "run_ops (loop_step body) ops' w \<noteq> Blocked" by (rule loop_machine.run_live)
  show once: "count_list (lw_ran w) k = (if m_data m = None then 1 else 0)"
    if "k < length (lw_store w)" "lw_store w ! k = OnceClosure m" for k m
    using inv that by (auto simp: loop_inv_def task_counted_def dest!: spec [of _ k])
  show "\<exists>w'. run_next body w = Ret w' \<and> (case lw_store w ! k of OnceClosure m \<Rightarrow> count_list (lw_ran w') k = 1
                                         | RepeatingClosure m \<Rightarrow> lw_ran w' = lw_ran w @ [k])"
    if q: "lw_queue w = k # ks" and k: "k < length (lw_store w)"
    using run_next_spec [OF inv q k, of body] once [OF k] by (auto split: closure_task.splits if_splits)
qed

text \<open>
  The loop is run through the mutex that posting locks: while the caller of \<^verbatim>\<open>run\<close> holds it, a task that
  posts anything waits for ever for its own thread.
\<close>

lemma posting_in_run_blocks:
  assumes "m_held (lw_instance w)" "lw_queue w = k # ks" "k < length (lw_store w)"
    and "lw_store w ! k = OnceClosure (mutex_new (Some c))" "body c = p # ps"
  shows "run_next body w = Blocked"
proof -
  have "main_post p w' = Blocked" if "lw_instance w' = lw_instance w" for w' :: "'a loop_world"
    using assms(1) that
    by (cases p) (simp_all add: main_post_task_def main_post_once_def main_post_repeating_def with_instance_def with_lock_held)
  then show ?thesis
    using assms by (simp add: run_next_def once_execute_def mutex_new_def with_lock_def call_closure_def set_task_def)
qed

end
