(* ===== verification/Simple_Handler.thy ===== *)
theory Simple_Handler
  imports Prelude
begin

text \<open>
  The client of the sample application, \<^verbatim>\<open>examples/cefsimple/src/shared/simple_handler/mod.rs\<close>: the list of its
  browsers behind a mutex, the callbacks of their life, and the closing of all of them. The
  other side is closing a browser in \<^verbatim>\<open>libcef/browser/alloy/alloy_browser_host_impl.cc\<close>, which asks the
  handler while the caller waits. Browsers are numbers, the same one when \<^verbatim>\<open>is_same\<close> says so; views and
  windows are parameters.
\<close>

record simple_handler =
  sh_is_alloy_style :: bool
  sh_browser_list :: "nat list"
  sh_is_closing :: bool

datatype destruction_state = DestructionNone | DestructionPending | DestructionAccepted | DestructionCompleted

record browser_host =
  bh_state :: destruction_state
  bh_needs_unload :: bool
  bh_windowless :: bool
  bh_window_destroyed :: bool
  bh_alloy :: bool

datatype handler_task = CloseAllBrowsersTask bool | ShowMainWindowTask

record simple_world =
  sw_handler :: "simple_handler mutex"
  sw_hosts :: "nat \<Rightarrow> browser_host option"
  sw_on_ui :: bool
  sw_tasks :: "handler_task list"
  sw_quits :: nat
  sw_unloads :: "nat list"
  sw_window_closes :: "nat list"

definition simple_handler_new :: "bool \<Rightarrow> simple_handler" where
  "simple_handler_new is_alloy_style = \<lparr>sh_is_alloy_style = is_alloy_style, sh_browser_list = [], sh_is_closing = False\<rparr>"

text \<open>A callback of CEF: the lock, which panics when it is poisoned, and the method.\<close>

definition locked :: "(simple_handler \<Rightarrow> simple_world \<Rightarrow> ('a \<times> simple_handler \<times> simple_world) outcome) \<Rightarrow> simple_world \<Rightarrow> ('a \<times> simple_world) outcome" where
  "locked f w =
     with_lock (sw_handler w)
       (\<lambda>h. bind_outcome (f h (w\<lparr>sw_handler := acquire (sw_handler w)\<rparr>))
              (\<lambda>(a, h, w). Ret (a, w\<lparr>sw_handler := release h (sw_handler w)\<rparr>)))
       Panic"

definition on_after_created :: "nat \<Rightarrow> simple_world \<Rightarrow> (unit \<times> simple_world) outcome" where
  "on_after_created browser =
     locked (\<lambda>h w.
       case sw_hosts w browser of
         None \<Rightarrow> Panic
       | Some host \<Rightarrow>
           if bh_alloy host \<noteq> sh_is_alloy_style h then Panic
           else Ret ((), h\<lparr>sh_browser_list := sh_browser_list h @ [browser]\<rparr>, w))"

definition do_close :: "nat \<Rightarrow> simple_world \<Rightarrow> (bool \<times> simple_world) outcome" where
  "do_close browser =
     locked (\<lambda>h w. Ret (False, if length (sh_browser_list h) = 1 then h\<lparr>sh_is_closing := True\<rparr> else h, w))"

definition simple_on_before_close :: "nat \<Rightarrow> simple_world \<Rightarrow> (unit \<times> simple_world) outcome" where
  "simple_on_before_close browser =
     locked (\<lambda>h w.
       let h = h\<lparr>sh_browser_list := remove1 browser (sh_browser_list h)\<rparr>
       in Ret ((), h, if sh_browser_list h = [] then w\<lparr>sw_quits := Suc (sw_quits w)\<rparr> else w))"

section \<open>Closing a browser in libcef\<close>

definition set_state :: "nat \<Rightarrow> browser_host \<Rightarrow> destruction_state \<Rightarrow> simple_world \<Rightarrow> simple_world" where
  "set_state browser host st w = w\<lparr>sw_hosts := (sw_hosts w)(browser \<mapsto> host\<lparr>bh_state := st\<rparr>)\<rparr>"

definition close_contents :: "nat \<Rightarrow> simple_world \<Rightarrow> simple_world outcome" where
  "close_contents browser w =
     (case sw_hosts w browser of
        None \<Rightarrow> Ret w
      | Some host \<Rightarrow>
          if bh_state host = DestructionCompleted then Ret w
          else
            bind_outcome (if bh_windowless host \<or> \<not> bh_window_destroyed host then do_close browser w else Ret (False, w)) (\<lambda>(keep, w).
              if \<not> keep
              then (if \<not> bh_windowless host \<and> \<not> bh_window_destroyed host
                    then Ret (set_state browser host DestructionAccepted (w\<lparr>sw_window_closes := sw_window_closes w @ [browser]\<rparr>))
                    else bind_outcome (simple_on_before_close browser (set_state browser host DestructionCompleted w)) (\<lambda>(_, w). Ret w))
              else Ret (set_state browser host DestructionNone w)))"

definition close_pending :: "browser_host \<Rightarrow> bool" where
  "close_pending host \<longleftrightarrow> bh_state host \<noteq> DestructionNone \<and> (bh_windowless host \<or> \<not> bh_window_destroyed host)"

definition close_browser :: "nat \<Rightarrow> bool \<Rightarrow> simple_world \<Rightarrow> simple_world outcome" where
  "close_browser browser force_close w =
     (case sw_hosts w browser of
        None \<Rightarrow> Ret w
      | Some host \<Rightarrow>
          if close_pending host
          then Ret (if force_close \<and> bh_state host = DestructionPending then set_state browser host DestructionAccepted w else w)
          else
            (let w = (if bh_state host = DestructionNone \<or> bh_state host = DestructionPending
                      then set_state browser host (if force_close then DestructionAccepted else DestructionPending) w else w)
             in if bh_needs_unload host then Ret (w\<lparr>sw_unloads := sw_unloads w @ [browser]\<rparr>) else close_contents browser w))"

section \<open>Closing all browsers\<close>

fun close_each :: "bool \<Rightarrow> nat list \<Rightarrow> simple_world \<Rightarrow> simple_world outcome" where
  "close_each force_close [] w = Ret w"
| "close_each force_close (b # bs) w =
     (case sw_hosts w b of
        None \<Rightarrow> Panic
      | Some _ \<Rightarrow> bind_outcome (close_browser b force_close w) (close_each force_close bs))"

text \<open>Called with the lock held; away from the thread of the user interface a task does it.\<close>

definition close_all_browsers :: "bool \<Rightarrow> simple_handler \<Rightarrow> simple_world \<Rightarrow> (unit \<times> simple_handler \<times> simple_world) outcome" where
  "close_all_browsers force_close h w =
     (if \<not> sw_on_ui w then Ret ((), h, w\<lparr>sw_tasks := sw_tasks w @ [CloseAllBrowsersTask force_close]\<rparr>)
      else bind_outcome (close_each force_close (sh_browser_list h) w) (\<lambda>w. Ret ((), m_data (sw_handler w), w)))"

definition close_all_browsers_execute :: "bool \<Rightarrow> simple_world \<Rightarrow> (unit \<times> simple_world) outcome" where
  "close_all_browsers_execute force_close = locked (close_all_browsers force_close)"

text \<open>
  Showing the first window: \<open>view\<close> says whether the browser is in a view, and whether that has a window. On other systems than macOS
  a browser of the Alloy style without a view panics.
\<close>

definition show_main_window ::
  "bool \<Rightarrow> (nat \<Rightarrow> bool option) \<Rightarrow> simple_handler \<Rightarrow> simple_world \<Rightarrow> (nat option \<times> simple_handler \<times> simple_world) outcome" where
  "show_main_window macos view h w =
     (if \<not> sw_on_ui w then Ret (None, h, w\<lparr>sw_tasks := sw_tasks w @ [ShowMainWindowTask]\<rparr>)
      else
        (case sh_browser_list h of
           [] \<Rightarrow> Ret (None, h, w)
         | b # _ \<Rightarrow>
             (case view b of
                Some window \<Rightarrow> Ret (if window then Some b else None, h, w)
              | None \<Rightarrow> if sh_is_alloy_style h then (if macos then Ret (Some b, h, w) else Panic) else Ret (None, h, w))))"

section \<open>Properties\<close>

text \<open>Whether closing a browser asks the handler before it returns.\<close>

definition asks_handler :: "browser_host \<Rightarrow> bool" where
  "asks_handler host \<longleftrightarrow> bh_state host = DestructionNone \<and> \<not> bh_needs_unload host \<and> (bh_windowless host \<or> \<not> bh_window_destroyed host)"

lemma close_browser_locked:
  assumes "sw_hosts w b = Some host" "m_held (sw_handler w)" "bh_windowless host \<or> \<not> bh_window_destroyed host"
  shows "if asks_handler host then close_browser b force_close w = Blocked
    else \<exists>w'. close_browser b force_close w = Ret w' \<and> sw_handler w' = sw_handler w \<and> (\<forall>c. c \<noteq> b \<longrightarrow> sw_hosts w' c = sw_hosts w c)
           \<and> (\<exists>host'. sw_hosts w' b = Some host' \<and> \<not> asks_handler host' \<and> (bh_windowless host' \<or> \<not> bh_window_destroyed host'))"
  using assms
  by (cases "bh_state host")
    (auto simp: close_browser_def close_pending_def close_contents_def asks_handler_def set_state_def do_close_def locked_def
      with_lock_held Let_def)

lemma close_each_locked:
  assumes "m_held (sw_handler w)"
    and "\<And>b. b \<in> set bs \<Longrightarrow> \<exists>host. sw_hosts w b = Some host \<and> (bh_windowless host \<or> \<not> bh_window_destroyed host)"
  shows "if \<exists>b\<in>set bs. \<exists>host. sw_hosts w b = Some host \<and> asks_handler host then close_each force_close bs w = Blocked
    else \<exists>w'. close_each force_close bs w = Ret w' \<and> sw_handler w' = sw_handler w"
  using assms
proof (induction bs arbitrary: w)
  case (Cons b bs)
  from Cons.prems(2) [of b] obtain host where host: "sw_hosts w b = Some host" "bh_windowless host \<or> \<not> bh_window_destroyed host" by auto
  note step = close_browser_locked [OF host(1) Cons.prems(1) host(2), of force_close]
  show ?case
  proof (cases "asks_handler host")
    case True
    with step host show ?thesis by auto
  next
    case False
    with step obtain w1 host1 where w1: "close_browser b force_close w = Ret w1" "sw_handler w1 = sw_handler w"
        "\<forall>c. c \<noteq> b \<longrightarrow> sw_hosts w1 c = sw_hosts w c" "sw_hosts w1 b = Some host1" "\<not> asks_handler host1"
        "bh_windowless host1 \<or> \<not> bh_window_destroyed host1"
      by auto
    have hosts: "\<exists>host. sw_hosts w1 c = Some host \<and> (bh_windowless host \<or> \<not> bh_window_destroyed host)" if "c \<in> set bs" for c
      using that w1 Cons.prems(2) [of c] by (cases "c = b") auto
    have "(\<exists>c\<in>set (b # bs). \<exists>host. sw_hosts w c = Some host \<and> asks_handler host)
        \<longleftrightarrow> (\<exists>c\<in>set bs. \<exists>host. sw_hosts w1 c = Some host \<and> asks_handler host)"
      using w1(3-5) host(1) False by (metis list.set_intros(2) option.inject set_ConsD)
    moreover have "close_each force_close (b # bs) w = close_each force_close bs w1" by (simp add: host(1) w1(1))
    moreover have "if \<exists>c\<in>set bs. \<exists>host. sw_hosts w1 c = Some host \<and> asks_handler host then close_each force_close bs w1 = Blocked
        else \<exists>w'. close_each force_close bs w1 = Ret w' \<and> sw_handler w' = sw_handler w1"
      by (rule Cons.IH) (use Cons.prems(1) w1(2) hosts in auto)
    ultimately show ?thesis unfolding w1(2) by (simp only:)
  qed
qed simp

text \<open>
  Closing all browsers from the sample client never returns if one of them can be closed at
  once: the task holds the lock of the handler, and libcef asks the handler, which waits for
  that lock on the same thread. It returns only when every browser is being closed already or
  has a page that must be asked first.
\<close>

lemma closing_all_deadlocks_flaw:
  assumes "lock_ok (sw_handler w)" "sw_on_ui w"
    and "\<And>b. b \<in> set (sh_browser_list (m_data (sw_handler w))) \<Longrightarrow>
           \<exists>host. sw_hosts w b = Some host \<and> (bh_windowless host \<or> \<not> bh_window_destroyed host)"
  shows "close_all_browsers_execute force_close w = Blocked \<longleftrightarrow>
    (\<exists>b\<in>set (sh_browser_list (m_data (sw_handler w))). \<exists>host. sw_hosts w b = Some host \<and> asks_handler host)"
proof -
  let ?w = "w\<lparr>sw_handler := acquire (sw_handler w)\<rparr>"
  have each: "if \<exists>b\<in>set (sh_browser_list (m_data (sw_handler w))). \<exists>host. sw_hosts ?w b = Some host \<and> asks_handler host
      then close_each force_close (sh_browser_list (m_data (sw_handler w))) ?w = Blocked
      else \<exists>w'. close_each force_close (sh_browser_list (m_data (sw_handler w))) ?w = Ret w' \<and> sw_handler w' = sw_handler ?w"
    by (rule close_each_locked) (use assms(3) in auto)
  show ?thesis
    using each assms(1,2)
    by (auto simp: close_all_browsers_execute_def locked_def with_lock_ok close_all_browsers_def split: if_splits)
qed

text \<open>
  The list through the life of the browsers: the ones created and not closed, in their order, and
  the message loop is told to quit whenever the last of them closes.
\<close>

datatype life_event = Created nat | Closing nat | Closed nat

definition life_step :: "life_event \<Rightarrow> simple_world \<Rightarrow> simple_world outcome" where
  "life_step e w =
     (case e of
        Created b \<Rightarrow> bind_outcome (on_after_created b w) (\<lambda>(_, w). Ret w)
      | Closing b \<Rightarrow> bind_outcome (do_close b w) (\<lambda>(_, w). Ret w)
      | Closed b \<Rightarrow> bind_outcome (simple_on_before_close b w) (\<lambda>(_, w). Ret w))"

fun open_browsers :: "life_event list \<Rightarrow> nat list" where
  "open_browsers [] = []"
| "open_browsers (Created b # es) = open_browsers es @ [b]"
| "open_browsers (Closing b # es) = open_browsers es"
| "open_browsers (Closed b # es) = remove1 b (open_browsers es)"

fun quits :: "life_event list \<Rightarrow> nat" where
  "quits [] = 0"
| "quits (Closed b # es) = (if remove1 b (open_browsers es) = [] then 1 else 0) + quits es"
| "quits (_ # es) = quits es"

fun life_run :: "life_event list \<Rightarrow> simple_world \<Rightarrow> simple_world outcome" where
  "life_run [] w = Ret w"
| "life_run (e # es) w = bind_outcome (life_run es w) (life_step e)"

lemma life_of_browsers:
  assumes "sw_handler w = mutex_new (simple_handler_new alloy)" "sw_quits w = 0"
    and "\<And>b. Created b \<in> set es \<Longrightarrow> \<exists>host. sw_hosts w b = Some host \<and> bh_alloy host = alloy"
  shows "\<exists>w'. life_run es w = Ret w' \<and> lock_ok (sw_handler w') \<and> sh_is_alloy_style (m_data (sw_handler w')) = alloy
    \<and> sw_hosts w' = sw_hosts w \<and> sh_browser_list (m_data (sw_handler w')) = open_browsers es \<and> sw_quits w' = quits es"
  using assms(3)
proof (induction es)
  case Nil
  then show ?case by (simp add: assms(1,2) simple_handler_new_def)
next
  case (Cons e es)
  then obtain w' where w': "life_run es w = Ret w'" "lock_ok (sw_handler w')" "sh_is_alloy_style (m_data (sw_handler w')) = alloy"
      "sw_hosts w' = sw_hosts w" "sh_browser_list (m_data (sw_handler w')) = open_browsers es" "sw_quits w' = quits es" by auto
  note defs = life_step_def on_after_created_def do_close_def simple_on_before_close_def locked_def with_lock_ok Let_def
  show ?case
  proof (cases e)
    case (Created b)
    from Cons.prems [of b] Created obtain host where "sw_hosts w b = Some host" "bh_alloy host = alloy" by auto
    with w' show ?thesis by (auto simp: Created defs lock_ok_def release_def)
  qed (use w' in \<open>auto simp: defs lock_ok_def release_def\<close>)
qed

end
