(* ===== verification/Get_Latest.thy ===== *)
theory Get_Latest
  imports Download_Cef "HOL-Library.Char_ord" "HOL-Library.List_Lexorder" "HOL-Library.Countable"
begin

text \<open>
  \<^verbatim>\<open>get-latest/src/main.rs\<close>: the tool that finds the newest build there is for every target and gives the
  crates their next version. Versions (\<^verbatim>\<open>semver\<close>) are a parameter with their parts and their text;
  numbers of versions are taken not to overflow. The change logs and the calls of Git are
  not modelled.
\<close>

record 'v latest_env =
  le_dl :: "'v dl_env"
  le_major :: "'v \<Rightarrow> nat"
  le_minor :: "'v \<Rightarrow> nat"
  le_make :: "nat \<Rightarrow> nat \<Rightarrow> nat \<Rightarrow> string \<Rightarrow> string \<Rightarrow> 'v"
  le_pre :: "'v \<Rightarrow> string"
  le_text :: "'v \<Rightarrow> string"

definition all_targets :: "string list" where
  "all_targets =
     [''x86_64-unknown-linux-gnu'', ''arm-unknown-linux-gnueabi'', ''aarch64-unknown-linux-gnu'']
     @ [''aarch64-apple-darwin'', ''x86_64-apple-darwin'']
     @ [''x86_64-pc-windows-msvc'', ''aarch64-pc-windows-msvc'', ''i686-pc-windows-msvc'']"

fun all_results :: "('e + 'a) list \<Rightarrow> 'e + 'a list" where
  "all_results [] = Inr []"
| "all_results (r # rs) =
     (case r of
        Inl e \<Rightarrow> Inl e
      | Inr a \<Rightarrow> (case all_results rs of Inl e \<Rightarrow> Inl e | Inr as \<Rightarrow> Inr (a # as)))"

definition target_latest :: "'v::linorder latest_env \<Rightarrow> cef_index \<Rightarrow> channel \<Rightarrow> string \<Rightarrow> dl_error + string" where
  "target_latest env index chan target =
     (case ix_platform index target of
        Inl e \<Rightarrow> Inl e
      | Inr platform \<Rightarrow>
          (case pf_latest (le_dl env) platform chan of
             Inl e \<Rightarrow> Inl e
           | Inr version \<Rightarrow> Inr (dl_strip_build (le_dl env) (cv_version version))))"

definition latest_version :: "'v::linorder latest_env \<Rightarrow> cef_index \<Rightarrow> channel \<Rightarrow> dl_error + 'v" where
  "latest_version env index chan =
     (case all_results (map (target_latest env index chan) all_targets) of
        Inl e \<Rightarrow> Inl e
      | Inr texts \<Rightarrow>
          (case all_results (map (\<lambda>s. case dl_parse (le_dl env) s of None \<Rightarrow> Inl InvalidVersion | Some v \<Rightarrow> Inr v) texts) of
             Inl e \<Rightarrow> Inl e
           | Inr [] \<Rightarrow> Inl (VersionNotFound [])
           | Inr (v # vs) \<Rightarrow> Inr (foldl min v vs)))"

text \<open>The version after the one of the package (the list of targets is never empty above), and the one other crates ask for, without the build.\<close>

definition next_version :: "'v latest_env \<Rightarrow> 'v \<Rightarrow> 'v \<Rightarrow> 'v" where
  "next_version env package latest =
     (if le_major env package < le_major env latest then le_make env (le_major env latest) 0 0 (le_pre env package) (le_text env latest)
      else le_make env (le_major env package) (Suc (le_minor env package)) 0 (le_pre env package) (le_text env latest))"

definition workspace_version :: "'v latest_env \<Rightarrow> 'v \<Rightarrow> 'v" where
  "workspace_version env v = le_make env (le_major env v) (le_minor env v) 0 (le_pre env v) []"

definition update_version :: "'v::linorder latest_env \<Rightarrow> string \<Rightarrow> 'v \<Rightarrow> dl_error + (string \<times> string) option" where
  "update_version env package_version latest =
     (case dl_parse (le_dl env) (fst (default_version (le_dl env) package_version Map.empty)) of
        None \<Rightarrow> Inl InvalidVersion
      | Some current \<Rightarrow>
          if current < latest
          then (case dl_parse (le_dl env) package_version of
                  None \<Rightarrow> Inl InvalidVersion
                | Some package \<Rightarrow>
                    (let v = next_version env package latest in Inr (Some (le_text env v, le_text env (workspace_version env v)))))
          else Inr None)"

section \<open>Properties\<close>

lemma all_results_Inr: "all_results rs = Inr as \<longleftrightarrow> map Inr as = rs"
proof (induction rs arbitrary: as)
  case (Cons r rs)
  show ?case
  proof (cases r)
    case (Inr a)
    show ?thesis
    proof (cases "all_results rs")
      case (Inl e)
      with Cons.IH have "map Inr bs \<noteq> rs" for bs by (metis Inl_Inr_False)
      with Inl Inr show ?thesis by auto
    next
      case bs: (Inr bs)
      with Cons.IH [of bs] Inr show ?thesis by (cases as) (auto simp: inj_on_def inj_map_eq_map)
    qed
  qed auto
qed auto

lemma foldl_min_le: "foldl min v vs \<in> set (v # vs) \<and> (\<forall>x\<in>set (v # vs). foldl min v vs \<le> (x :: 'a::linorder))"
proof (induction vs arbitrary: v)
  case (Cons a vs)
  from Cons [of "min v a"] show ?case by (auto simp: min_def split: if_splits)
qed simp

text \<open>
  The version found is that of some target and no target's newest build is older. Updating gives
  the package a version whose numbers are greater than before and whose build names the version
  found, so that it is read back from the new version, and a second run with the same index
  updates nothing. The hypotheses are what \<^verbatim>\<open>semver\<close> says of parts and texts.
\<close>

lemma update_settles:
  assumes "latest_version env index chan = Inr latest" "update_version env package_version latest = Inr (Some (new, dependency))"
    and "dl_parse (le_dl env) package_version = Some package"
    and "\<And>a b c p s. le_major env (le_make env a b c p s) = a \<and> le_minor env (le_make env a b c p s) = b \<and> dl_build (le_dl env) (le_make env a b c p s) = s"
    and "\<And>v. dl_parse (le_dl env) (le_text env v) = Some v" "\<And>v. le_text env v \<noteq> []"
  shows "(\<exists>t\<in>set all_targets. \<exists>s. target_latest env index chan t = Inr s \<and> dl_parse (le_dl env) s = Some latest)
    \<and> (\<forall>t\<in>set all_targets. \<exists>s v. target_latest env index chan t = Inr s \<and> dl_parse (le_dl env) s = Some v \<and> latest \<le> v)
    \<and> (\<exists>v. dl_parse (le_dl env) new = Some v
         \<and> (le_major env package, le_minor env package) < (le_major env v, le_minor env v))
    \<and> fst (default_version (le_dl env) new Map.empty) = le_text env latest
    \<and> update_version env new latest = Inr None"
proof -
  let ?parse = "\<lambda>s. case dl_parse (le_dl env) s of None \<Rightarrow> Inl InvalidVersion | Some v \<Rightarrow> Inr v"
  from assms(1) obtain texts v vs where texts: "all_results (map (target_latest env index chan) all_targets) = Inr texts"
    and vs: "all_results (map ?parse texts) = Inr (v # vs)" and latest: "latest = foldl min v vs"
    by (auto simp: latest_version_def split: sum.splits list.splits)
  have target: "target_latest env index chan t \<in> Inr ` set texts" if "t \<in> set all_targets" for t
    using texts that unfolding all_results_Inr by (metis imageI list.set_map)
  have from_target: "\<exists>t\<in>set all_targets. target_latest env index chan t = Inr s" if "s \<in> set texts" for s
    using texts that unfolding all_results_Inr by (metis (no_types, lifting) imageE imageI list.set_map)
  have "?parse ` set texts = Inr ` set (v # vs)" using vs unfolding all_results_Inr by (metis list.set_map)
  then have parsed: "s \<in> set texts \<Longrightarrow> ?parse s \<in> Inr ` set (v # vs)"
    and origin_of: "x \<in> set (v # vs) \<Longrightarrow> \<exists>s\<in>set texts. ?parse s = Inr x" for s x
    by (blast, metis (no_types, lifting) imageE imageI)
  have min: "latest \<in> set (v # vs)" "\<And>x. x \<in> set (v # vs) \<Longrightarrow> latest \<le> x"
    using foldl_min_le [of v vs] by (auto simp: latest)
  have one: "\<exists>t\<in>set all_targets. \<exists>s. target_latest env index chan t = Inr s \<and> dl_parse (le_dl env) s = Some latest"
  proof -
    obtain s where "s \<in> set texts" "?parse s = Inr latest" using origin_of [OF min(1)] by blast
    with from_target [of s] show ?thesis by (auto split: option.splits)
  qed
  have all: "\<exists>s x. target_latest env index chan t = Inr s \<and> dl_parse (le_dl env) s = Some x \<and> latest \<le> x" if t: "t \<in> set all_targets" for t
  proof -
    obtain s where s: "s \<in> set texts" "target_latest env index chan t = Inr s" using target [OF t] by blast
    obtain x where "x \<in> set (v # vs)" "?parse s = Inr x" using parsed [OF s(1)] by blast
    with min(2) s(2) show ?thesis by (auto split: option.splits)
  qed
  have new: "new = le_text env (next_version env package latest)"
    using assms(2,3) by (auto simp: update_version_def Let_def split: option.splits if_splits)
  have build: "dl_build (le_dl env) (next_version env package latest) = le_text env latest"
    "(le_major env package, le_minor env package) < (le_major env (next_version env package latest), le_minor env (next_version env package latest))"
    using assms(4) by (auto simp: next_version_def)
  have default: "fst (default_version (le_dl env) new Map.empty) = le_text env latest"
    using assms(5,6) build(1) by (simp add: new default_version_def unwrap_cef_version_def Let_def)
  have "update_version env new latest = Inr None" using assms(5) by (simp add: update_version_def default)
  with one all default build(2) assms(5) new show ?thesis by blast
qed

type_synonym sample_version = "nat \<times> nat \<times> nat \<times> string \<times> string"

definition sample_text :: "sample_version \<Rightarrow> string" where
  "sample_text v = replicate (Suc (to_nat v)) (CHR ''1'')"

definition sample_latest_env :: "sample_version latest_env" where
  "sample_latest_env =
     \<lparr>le_dl = \<lparr>dl_parse = \<lambda>s. Some (from_nat (length s - 1)), dl_build = \<lambda>(a, b, c, p, s). s, dl_strip_build = \<lambda>s. s,
               dl_parse_u64 = \<lambda>s. None, dl_sha1 = \<lambda>bytes. [], dl_http_get = \<lambda>n url. None, dl_io_error = \<lambda>n. False\<rparr>,
      le_major = \<lambda>(a, b, c, p, s). a, le_minor = \<lambda>(a, b, c, p, s). b, le_make = \<lambda>a b c p s. (a, b, c, p, s),
      le_pre = \<lambda>(a, b, c, p, s). p, le_text = sample_text\<rparr>"

definition sample_latest_index :: cef_index where
  "sample_latest_index =
     (let p = [\<lparr>cv_channel = Stable, cv_version = sample_text (1, 0, 0, [], []), cv_files = []\<rparr>]
      in \<lparr>ix_macosarm64 = p, ix_macosx64 = p, ix_windows64 = p, ix_windowsarm64 = p, ix_windows32 = p, ix_linux64 = p,
          ix_linuxarm64 = p, ix_linuxarm = p\<rparr>)"

lemma update_settles_sample:
  "\<exists>new dependency. update_version sample_latest_env (sample_text (0, 3, 0, [], [])) (1, 0, 0, [], []) = Inr (Some (new, dependency))
     \<and> update_version sample_latest_env new (1, 0, 0, [], []) = Inr None"
proof -
  let ?p = "sample_text (0, 3, 0, [], [])"
  have parse: "dl_parse (le_dl sample_latest_env) (sample_text v) = Some v" for v
    by (simp add: sample_latest_env_def sample_text_def)
  have target: "target_latest sample_latest_env sample_latest_index Stable t = Inr (sample_text (1, 0, 0, [], []))" if "t \<in> set all_targets" for t
    using that parse by (auto simp: all_targets_def target_latest_def ix_platform_def pf_latest_def sample_latest_index_def Let_def
        List.map_filter_def sample_latest_env_def)
  have "latest_version sample_latest_env sample_latest_index Stable = Inr (1, 0, 0, [], [])"
    using target parse by (simp add: latest_version_def all_targets_def)
  moreover have upd: "\<exists>new dependency. update_version sample_latest_env ?p (1, 0, 0, [], []) = Inr (Some (new, dependency))"
    using parse by (simp add: update_version_def default_version_def unwrap_cef_version_def Let_def)
      (simp add: sample_latest_env_def)
  ultimately obtain new dependency where "update_version sample_latest_env ?p (1, 0, 0, [], []) = Inr (Some (new, dependency))"
      "latest_version sample_latest_env sample_latest_index Stable = Inr (1, 0, 0, [], [])" by blast
  moreover from this(2,1) have "update_version sample_latest_env new (1, 0, 0, [], []) = Inr None"
    using update_settles [of sample_latest_env sample_latest_index Stable "(1, 0, 0, [], [])" ?p new dependency "(0, 3, 0, [], [])"] parse
    by (auto simp: sample_latest_env_def sample_text_def)
  ultimately show ?thesis by blast
qed

end
