(* ===== verification/Process_Args.thy ===== *)
theory Process_Args
  imports Prelude
begin

text \<open>
  \<^verbatim>\<open>cef/src/args.rs\<close>: the arguments of the process as the C interface wants them, on systems other than
  Windows: the texts, a vector of pointers to them, and the structure with the number of pointers
  and a pointer to the vector's buffer. Memory is a map of allocations; a read of one that has been freed
  is \<^const>\<open>None\<close>.
\<close>

datatype cell = TextCell string | PointersCell "nat list"

record arg_heap =
  ah_cells :: "nat \<Rightarrow> cell option"
  ah_next :: nat

record args =
  ar_source :: "nat list"
  ar_argv :: "nat option"
  ar_argc :: i32
  ar_argv_pointer :: "nat option"

definition alloc :: "cell \<Rightarrow> arg_heap \<Rightarrow> nat \<times> arg_heap" where
  "alloc c h = (ah_next h, h\<lparr>ah_cells := (ah_cells h)(ah_next h \<mapsto> c), ah_next := Suc (ah_next h)\<rparr>)"

fun alloc_texts :: "string list \<Rightarrow> arg_heap \<Rightarrow> nat list \<times> arg_heap" where
  "alloc_texts [] h = ([], h)"
| "alloc_texts (s # ss) h = (let (a, h) = alloc (TextCell s) h; (as, h) = alloc_texts ss h in (a # as, h))"

text \<open>
  A text with a zero byte is refused with a panic; the system passes none. It passes at least the
  name of the program: for no arguments at all the vector would have no buffer, where there
  is an empty one here.
\<close>

definition args_new :: "string list \<Rightarrow> arg_heap \<Rightarrow> (args \<times> arg_heap) outcome" where
  "args_new env_args h =
     (if \<exists>s\<in>set env_args. CHR 0x00 \<in> set s then Panic
      else
        (let (source, h) = alloc_texts env_args h; (argv, h) = alloc (PointersCell source) h
         in Ret (\<lparr>ar_source = source, ar_argv = Some argv, ar_argc = i32_wrap (int (length source)), ar_argv_pointer = Some argv\<rparr>, h)))"

definition args_from_main_args :: "i32 \<Rightarrow> nat option \<Rightarrow> args" where
  "args_from_main_args argc argv_pointer = \<lparr>ar_source = [], ar_argv = None, ar_argc = argc, ar_argv_pointer = argv_pointer\<rparr>"

definition read_text :: "arg_heap \<Rightarrow> nat \<Rightarrow> string option" where
  "read_text h a = (case ah_cells h a of Some (TextCell s) \<Rightarrow> Some s | _ \<Rightarrow> None)"

definition read_pointers :: "arg_heap \<Rightarrow> nat option \<Rightarrow> nat list option" where
  "read_pointers h p = Option.bind p (\<lambda>a. case ah_cells h a of Some (PointersCell ps) \<Rightarrow> Some ps | _ \<Rightarrow> None)"

text \<open>What CEF reads through the structure, as many pointers as it says there are.\<close>

definition main_args_texts :: "arg_heap \<Rightarrow> args \<Rightarrow> string list option" where
  "main_args_texts h a =
     Option.bind (read_pointers h (ar_argv_pointer a))
       (\<lambda>ps. if nat (ar_argc a) \<le> length ps then those (map (read_text h) (take (nat (ar_argc a)) ps)) else None)"

text \<open>
  The derived clone: the texts are copied, and so is the vector with the pointers as they are;
  the structure is copied bit by bit.
\<close>

definition args_clone :: "args \<Rightarrow> arg_heap \<Rightarrow> (args \<times> arg_heap) option" where
  "args_clone a h =
     Option.bind (those (map (read_text h) (ar_source a))) (\<lambda>texts.
       let (source, h1) = alloc_texts texts h
       in case ar_argv a of
            None \<Rightarrow> Some (a\<lparr>ar_source := source\<rparr>, h1)
          | Some v \<Rightarrow>
              Option.bind (read_pointers h (Some v)) (\<lambda>ps.
                let (argv, h2) = alloc (PointersCell ps) h1 in Some (a\<lparr>ar_source := source, ar_argv := Some argv\<rparr>, h2)))"

definition args_drop :: "args \<Rightarrow> arg_heap \<Rightarrow> arg_heap" where
  "args_drop a h =
     h\<lparr>ah_cells := \<lambda>x. if x \<in> set (ar_source a) \<or> Some x = ar_argv a then None else ah_cells h x\<rparr>"

section \<open>Properties\<close>

definition fresh_above :: "arg_heap \<Rightarrow> bool" where
  "fresh_above h \<longleftrightarrow> (\<forall>a\<ge>ah_next h. ah_cells h a = None)"

lemma alloc_texts_spec:
  assumes "alloc_texts ss h = (as, h')"
  shows "as = [ah_next h..<ah_next h + length ss] \<and> ah_next h' = ah_next h + length ss
    \<and> (\<forall>i<length ss. ah_cells h' (ah_next h + i) = Some (TextCell (ss ! i)))
    \<and> (\<forall>a. a < ah_next h \<or> ah_next h + length ss \<le> a \<longrightarrow> ah_cells h' a = ah_cells h a)"
  using assms
proof (induction ss arbitrary: h as)
  case (Cons s ss)
  obtain bs h1 where rest: "alloc_texts ss (snd (alloc (TextCell s) h)) = (bs, h1)" by fastforce
  with Cons.prems have out: "as = ah_next h # bs" "h' = h1" by (auto simp: alloc_def)
  let ?n = "ah_next h"
  from Cons.IH [OF rest [folded out(2)]] have IH: "bs = [Suc ?n..<Suc ?n + length ss]" "ah_next h' = Suc ?n + length ss"
      "\<And>i. i < length ss \<Longrightarrow> ah_cells h' (Suc ?n + i) = Some (TextCell (ss ! i))"
      "\<And>a. a < Suc ?n \<or> Suc ?n + length ss \<le> a \<Longrightarrow> ah_cells h' a = ((ah_cells h)(?n \<mapsto> TextCell s)) a"
    by (auto simp: alloc_def)
  have "ah_cells h' (?n + i) = Some (TextCell ((s # ss) ! i))" if "i < length (s # ss)" for i
    using that IH(3) [of "i - 1"] IH(4) [of ?n] by (cases i) auto
  moreover have "ah_cells h' a = ah_cells h a" if "a < ?n \<or> ?n + length (s # ss) \<le> a" for a
    using that IH(4) [of a] by auto
  moreover have "as = [?n..<?n + length (s # ss)]" using IH(1) out(1) by (simp add: upt_conv_Cons del: upt_Suc)
  ultimately show ?case using IH(2) by simp
qed simp

lemma those_map_eq: "(\<And>x. x \<in> set xs \<Longrightarrow> f x = Some (g x)) \<Longrightarrow> those (map f xs) = Some (map g xs)"
  by (induction xs) auto

text \<open>The state of a heap that holds the arguments, with all of them below the next address.\<close>

definition holds :: "arg_heap \<Rightarrow> args \<Rightarrow> string list \<Rightarrow> bool" where
  "holds h a texts \<longleftrightarrow>
     (\<exists>n. ar_source a = [n..<n + length texts] \<and> ar_argv a = Some (n + length texts) \<and> n + length texts < ah_next h
        \<and> (\<forall>i<length texts. ah_cells h (n + i) = Some (TextCell (texts ! i)))
        \<and> ah_cells h (n + length texts) = Some (PointersCell [n..<n + length texts])
        \<and> ar_argc a = int (length texts) \<and> ar_argv_pointer a = Some (n + length texts))"

lemma args_new_holds:
  assumes "args_new texts h = Ret (a, h')" "length texts \<le> 2147483647"
  shows "holds h' a texts"
proof -
  obtain source h1 where texts: "alloc_texts texts h = (source, h1)" by fastforce
  note spec = alloc_texts_spec [OF texts]
  have "i32_wrap (int (length texts)) = int (length texts)" using assms(2) by (simp add: i32_wrap_id is_i32_def)
  with assms(1) spec show ?thesis
    by (auto simp: args_new_def texts alloc_def holds_def split: if_splits intro!: exI [of _ "ah_next h"])
qed

lemma holds_reads:
  assumes "holds h a texts"
  shows "main_args_texts h a = Some texts" "those (map (read_text h) (ar_source a)) = Some texts"
proof -
  from assms obtain n where n: "ar_source a = [n..<n + length texts]" "ar_argv_pointer a = Some (n + length texts)" "ar_argc a = int (length texts)"
      "\<forall>i<length texts. ah_cells h (n + i) = Some (TextCell (texts ! i))" "ah_cells h (n + length texts) = Some (PointersCell [n..<n + length texts])"
    by (auto simp: holds_def)
  have "those (map (read_text h) [n..<n + length texts]) = Some (map (\<lambda>a. texts ! (a - n)) [n..<n + length texts])"
  proof (rule those_map_eq)
    fix x
    assume "x \<in> set [n..<n + length texts]"
    then obtain i where "x = n + i" "i < length texts" by (auto simp: le_iff_add)
    with n(4) show "read_text h x = Some (texts ! (x - n))" by (simp add: read_text_def)
  qed
  also have "map (\<lambda>a. texts ! (a - n)) [n..<n + length texts] = texts" by (rule nth_equalityI) auto
  finally show "those (map (read_text h) (ar_source a)) = Some texts" "main_args_texts h a = Some texts"
    by (simp_all add: main_args_texts_def read_pointers_def n)
qed

text \<open>
  Property C40. The arguments CEF reads through the structure are those of the process, and also
  through a clone while the original lives. Once the original is dropped, what the clone points
  to is freed memory: the pointers were copied and not made anew.
\<close>

theorem args_clone_dangles_flaw:
  assumes "args_new texts h = Ret (a, h1)" "length texts \<le> 2147483647" "args_clone a h1 = Some (b, h2)"
  shows "main_args_texts h1 a = Some texts \<and> main_args_texts h2 b = Some texts \<and> main_args_texts (args_drop a h2) b = None
    \<and> those (map (read_text (args_drop a h2)) (ar_source b)) = Some texts"
proof -
  have held: "holds h1 a texts" by (rule args_new_holds [OF assms(1,2)])
  then obtain n where n: "ar_source a = [n..<n + length texts]" "ar_argv a = Some (n + length texts)" "n + length texts < ah_next h1"
      "ah_cells h1 (n + length texts) = Some (PointersCell [n..<n + length texts])" "ar_argv_pointer a = Some (n + length texts)"
    by (auto simp: holds_def)
  obtain source h' where texts: "alloc_texts texts h1 = (source, h')" by fastforce
  note spec = alloc_texts_spec [OF texts]
  have b: "b = a\<lparr>ar_source := source, ar_argv := Some (ah_next h')\<rparr>"
      "h2 = h'\<lparr>ah_cells := (ah_cells h')(ah_next h' \<mapsto> PointersCell [n..<n + length texts]), ah_next := Suc (ah_next h')\<rparr>"
    using assms(3) holds_reads(2) [OF held] n(2,4) by (auto simp: args_clone_def texts read_pointers_def alloc_def)
  have below: "ah_cells h2 x = ah_cells h1 x" if "x < ah_next h1" for x
    using spec that by (auto simp: b(2))
  have "ah_next h1 \<le> ah_next h2" using spec by (simp add: b(2))
  then have "holds h2 a texts"
    using held n below unfolding holds_def by (intro exI [of _ n]) auto
  then have "main_args_texts h2 a = Some texts" by (rule holds_reads)
  moreover have "ar_argc b = ar_argc a" "ar_argv_pointer b = ar_argv_pointer a" by (simp_all add: b(1))
  ultimately have "main_args_texts h2 b = Some texts" by (simp only: main_args_texts_def)
  moreover have "main_args_texts (args_drop a h2) b = None"
    by (simp add: main_args_texts_def read_pointers_def b(1) n args_drop_def)
  moreover have "those (map (read_text (args_drop a h2)) source) = Some (map (\<lambda>x. texts ! (x - ah_next h1)) source)"
  proof (rule those_map_eq)
    fix x
    assume "x \<in> set source"
    then obtain i where i: "x = ah_next h1 + i" "i < length texts" using spec by (auto simp: le_iff_add)
    then show "read_text (args_drop a h2) x = Some (texts ! (x - ah_next h1))"
      using spec n by (auto simp: read_text_def args_drop_def b(2))
  qed
  moreover have "map (\<lambda>x. texts ! (x - ah_next h1)) source = texts" using spec by (auto intro: nth_equalityI)
  ultimately show ?thesis using holds_reads(1) [OF held] by (simp add: b(1))
qed

theorem args_clone_dangles_flaw_witness:
  "\<exists>a h1 b h2. args_new [''app''] \<lparr>ah_cells = \<lambda>x. None, ah_next = 0\<rparr> = Ret (a, h1) \<and> args_clone a h1 = Some (b, h2)
     \<and> main_args_texts (args_drop a h2) b = None"
proof -
  let ?h = "\<lparr>ah_cells = \<lambda>x. None, ah_next = 0\<rparr>"
  obtain a h1 where new: "args_new [''app''] ?h = Ret (a, h1)" by (simp add: args_new_def alloc_def)
  have "args_clone a h1 \<noteq> None"
    using holds_reads(2) [OF args_new_holds [OF new]] args_new_holds [OF new]
    by (auto simp: args_clone_def holds_def read_pointers_def split: prod.splits)
  then obtain b h2 where "args_clone a h1 = Some (b, h2)" by auto
  with new args_clone_dangles_flaw [OF new] show ?thesis by auto
qed

end
