(* ===== verification/Spec2Isabelle.thy ===== *)
theory Spec2Isabelle
  imports Browser_Side_Properties Renderer_Side_Properties Resource_Manager_Properties Ref_Count Export_Cef_Dir Cef_String_Collections
    Message_Pump Binding_Objects Bundle Texture_Import Main_Message_Loop Simple_Handler Get_Latest Process_Args
begin

text \<open>
  A verification of the Rust layer of CEF, \<^verbatim>\<open>src/rust/cef-rs\<close>, with the functions of libcef it
  calls where their source is at hand.

  \<^bold>\<open>The program.\<close> CEF embeds Chromium. Its C++ implementation (\<^verbatim>\<open>src/libcef\<close>) is used through a C
  interface (\<^verbatim>\<open>src/libcef_dll\<close>), for which \<^verbatim>\<open>cef-rs\<close> has a wrapper in Rust: generated bindings, made by
  \<^verbatim>\<open>update-bindings\<close> from the C headers; reference counting and strings at the boundary (\<^verbatim>\<open>cef/src/rc.rs\<close>,
  \<^verbatim>\<open>cef/src/string.rs\<close>); helper classes over the bindings (\<^verbatim>\<open>cef/src/wrapper\<close>), of which the message router
  and the resource manager are the largest; importing the frames of off-screen browsers
  (\<^verbatim>\<open>cef/src/osr_texture_import\<close>); tools that fetch builds of CEF (\<^verbatim>\<open>download-cef\<close>), choose one for a
  build (\<^verbatim>\<open>sys/build.rs\<close>) and put an application together with it (\<^verbatim>\<open>cef/src/build_util\<close>); and sample clients.
  A page asks a query with a JavaScript function; the renderer side of the router registers it
  and sends a process message, the browser side offers it to handlers, and the answer comes
  back the same way. The resource manager answers requests for URLs from providers that serve
  content, directories and zip archives on two threads.

  \<^bold>\<open>Theories and sources.\<close>
  \<^item> \<^verbatim>\<open>Prelude\<close>: integers of Rust and their wrap-around, the outcome of a call (a value, a thread that
    waits for a lock it holds itself, a panic), \<^verbatim>\<open>Mutex\<close>, \<^verbatim>\<open>BTreeMap\<close> as a sorted list, and the locales
    \<open>invariant_machine\<close> and \<open>live_machine\<close>: an invariant kept by every step holds after every run, and
    no run blocks if no step does. \<^verbatim>\<open>Ownership\<close>: multisets of references.
  \<^item> \<^verbatim>\<open>Browser_Info_Map\<close> (\<^verbatim>\<open>wrapper/browser_info_map.rs\<close>): the map from browsers to ids to values, its visitors
    with their loops; visiting is shown to be one pass over the flat list of entries. The locale
    \<open>pending_registry\<close> states what the routers need of it.
  \<^item> \<^verbatim>\<open>Router_Core\<close> (\<^verbatim>\<open>wrapper/message_router.rs\<close>, shared parts): configuration, ids that wrap at 32 bits, the
    deque of handlers with its index arithmetic, which refines a map (locale \<open>handler_registry\<close>).
  \<^item> \<^verbatim>\<open>Process_Messages\<close>, \<^verbatim>\<open>Message_Router_Utils\<close> (\<^verbatim>\<open>libcef/common/values_impl.cc\<close> and others,
    \<^verbatim>\<open>wrapper/message_router_utils.rs\<close>): list values, messages and shared memory, and the two codecs of
    queries and responses with their headers; round trips (locale \<open>wire_codec\<close>, four interpretations).
  \<^item> \<^verbatim>\<open>Browser_Side_Router\<close>, \<^verbatim>\<open>Browser_Side_Reentry\<close>, \<^verbatim>\<open>Browser_Side_Properties\<close>, \<^verbatim>\<open>Renderer_Side_Router\<close>,
    \<^verbatim>\<open>Renderer_Side_Properties\<close> (\<^verbatim>\<open>wrapper/message_router.rs\<close>): the state of the router as a record with its mutexes,
    queries and callbacks, one definition for each method and task, events as a log. Handlers are two
    parameters: their answers (\<open>handler_env\<close>), and what they do to the router while it calls them with its locks
    held (\<open>reentry\<close>, the first argument of the definitions whose names end in \<open>_with\<close>; without the ending they are
    the case of handlers that do nothing to it). The invariants are kept by every step of the machines
    (\<open>browser_machine\<close>, \<open>detached_machine\<close>, \<open>renderer_machine\<close>); the browser side blocks exactly when a handler
    calls it back for its query map, else never; a query is answered once; cancelling for a registered handler,
    or removing it, cancels exactly its queries.
  \<^item> \<^verbatim>\<open>Byte_Read_Handler\<close>, \<^verbatim>\<open>Stream_Resource_Handler\<close>, \<^verbatim>\<open>Zip_Archive\<close> (files of the same names in \<^verbatim>\<open>wrapper\<close>):
    reading and seeking over bytes behind a mutex (locale \<open>byte_source\<close>, interpreted on the handler), a
    stream served in order and to its end, and loading an archive, which ends or provably does not.
  \<^item> \<^verbatim>\<open>Resource_Urls\<close>, \<^verbatim>\<open>Resource_Manager\<close>, \<^verbatim>\<open>Resource_Manager_Invariant\<close>, \<^verbatim>\<open>Resource_Manager_Properties\<close>
    (\<^verbatim>\<open>wrapper/resource_manager.rs\<close>): URLs, providers, requests with their drop, the tasks of the IO and FILE
    threads as queues; the machine \<open>resource_machine\<close> conserves the callbacks of requests, keeps the providers
    in order, and its removal loops end.
  \<^item> \<^verbatim>\<open>Ref_Count\<close> (\<^verbatim>\<open>rc.rs\<close>): a heap of counted objects; in every program the count of an object is the number
    of references to it, and it is freed with the last one.
  \<^item> \<^verbatim>\<open>Cef_String\<close>, \<^verbatim>\<open>Cef_String_Ownership\<close>, \<^verbatim>\<open>Cef_String_Collections\<close> (\<^verbatim>\<open>string.rs\<close>,
    \<^verbatim>\<open>libcef/common/string_types_impl.cc\<close> and the list, map and multimap beside it): strings over a memory of
    buffers and structures; programs on valid text use freed memory exactly when they read or convert a clone whose
    original is gone, and every buffer has one owner.
  \<^item> \<^verbatim>\<open>Binding_Tree\<close>, \<^verbatim>\<open>Binding_Signatures\<close>, \<^verbatim>\<open>Binding_Slices\<close>, \<^verbatim>\<open>Binding_Objects\<close>
    (\<^verbatim>\<open>update-bindings/src/parse_tree.rs\<close>): the tree of parsed items, the resolution of types, the merging of
    parameters into slices, the Rust types of signatures, and what the generated conversions do when a
    slice, a counted object or a structure crosses the C interface, with the code of \<^verbatim>\<open>libcef_dll\<close> on the other
    side. The locales \<open>owning_callee\<close> and \<open>changing_callee\<close> state what a caller needs of an object that comes
    back; both sides are interpretations.
  \<^item> \<^verbatim>\<open>Download_Cef\<close>, \<^verbatim>\<open>Extract_Cef\<close>, \<^verbatim>\<open>Export_Cef_Dir\<close> (\<^verbatim>\<open>download-cef/src/lib.rs\<close>,
    \<^verbatim>\<open>export-cef-dir/src/main.rs\<close>): the index of builds, the download with its verification and retries, the
    extraction over a file system with failing operations, and the tool that exports a build.
  \<^item> \<^verbatim>\<open>Build_Cef_Dir\<close>, \<^verbatim>\<open>Bundle\<close> (\<^verbatim>\<open>sys/build.rs\<close>, \<^verbatim>\<open>sys/src/lib.rs\<close>, \<^verbatim>\<open>cef/src/build_util\<close>), over the same file system: the
    directory the build script chooses is the one the tools find again; the bundle of an application for Linux,
    Windows and macOS, whose copies are complete. \<^verbatim>\<open>Get_Latest\<close> (\<^verbatim>\<open>get-latest/src/main.rs\<close>): the newest version
    all targets have, and the next version of the package.
  \<^item> \<^verbatim>\<open>Texture_Import\<close> (\<^verbatim>\<open>cef/src/osr_texture_import\<close>): the importers of the three systems over drivers whose calls
    may fail, what they acquire, and who is told to free it. \<^verbatim>\<open>Process_Args\<close> (\<^verbatim>\<open>cef/src/args.rs\<close>): arguments over a memory of texts.
  \<^item> \<^verbatim>\<open>Client_Utilities\<close>, \<^verbatim>\<open>Main_Message_Loop\<close>, \<^verbatim>\<open>Simple_Handler\<close> (\<^verbatim>\<open>examples/tests_shared/src\<close>, \<^verbatim>\<open>examples/cefsimple\<close>): codecs of
    messages, files read in pieces, window bounds, the global message loop, posting to it (\<open>loop_machine\<close>), and the handler
    of the sample client with the closing of browsers in libcef.
  \<^item> \<^verbatim>\<open>Message_Pump\<close> (\<^verbatim>\<open>examples/tests_shared/src/browser/main_message_loop_external_pump\<close>): the pump for Linux, its
    pipe, timer and locks, with the loop of \<^verbatim>\<open>run\<close>, which holds the lock of the pump (\<open>pump_machine\<close>).
  \<^item> This theory composes the two sides of the router: a query reaches the handlers with its
    text and ids, the answer reaches the function of the page that asked, and a query nobody
    takes fails there.

  \<^bold>\<open>Correspondence.\<close> A struct is a record, an enum a datatype with its constructors, a method a definition
  that takes the state and gives it back, with the branches, early returns and panics of the
  source. A mutex is its data and whether it is held or poisoned: locking a held mutex is the outcome
  \<^const>\<open>Blocked\<close>. Callbacks and closures that outlive a call are values in a store or tasks in a queue,
  and the order in which threads run them is an explicit sequence of operations that the
  theorems quantify over. Memory errors of unsafe code are values (\<open>Undefined\<close>, or \<^const>\<open>None\<close> where a
  theory says so), so that their absence can be stated.

  \<^bold>\<open>Bounds.\<close> \<open>i32\<close> and \<open>i64\<close> are integers with the wrap-around of release builds written out,
  \<open>usize\<close> a natural number below $2^{64}$ where a count may overflow, bytes and UTF-16 units words. A loop
  that may not end is a partial function whose value \<^const>\<open>None\<close> says so. Two recursions have a bound on
  their depth as an argument: the resolution of type aliases, where \<open>resolve_ends\<close> shows that some bound is
  enough for every type unless the aliases are cyclic, and that a greater one changes nothing; and the copy of a
  directory tree, where \<open>framework_copied\<close> shows that the depth of the tree is enough.

  \<^bold>\<open>What is relied on.\<close> CEF behind the C interface, V8, zip readers, stream readers, HTTP, regular expressions,
  semantic versions, hashing, unpacking, conversion between encodings and between the cases of names
  are parameters: fields of the environments (\<open>cef_env\<close>, \<open>rm_env\<close>, \<open>dl_env\<close>, \<open>xe_env\<close>, \<open>gen_env\<close>,
  \<open>pump_env\<close>, \<open>build_env\<close>, \<open>mac_env\<close>, \<open>gpu_env\<close>, \<open>latest_env\<close>), with what a theorem needs of them among its hypotheses.

  \<^bold>\<open>Flaws.\<close> Theorems and lemmas whose names end in \<open>_flaw\<close> prove where the code departs from its intent: a failed
  persistent query stays registered, cancelling a single query deadlocks the renderer, every request with a
  provider blocks the IO thread, requests to an archive that does not load wait for ever, a clone of a
  string or of the process arguments dangles, the Linux pump does no work before it is asked to quit, every
  imported frame leaks device memory, and closing all browsers of the sample client deadlocks. Others show that
  a query handler that calls the router back deadlocks (\<open>deadlock_iff_called_back\<close>), cancelling for an id that
  has no handler cancels for all (\<open>cancel_pending_exact\<close>), a popup handler in Rust
  leaks a reference to its client (\<open>popup_leaks_client\<close>), changes of a structure passed by reference are lost
  (\<open>struct_changes\<close>), an interrupted build is taken as complete (\<open>interrupted_build\<close>), helpers of an executable with
  a dot in its name share one bundle (\<open>helper_bundles\<close>), an archive with a directory never loads
  (\<open>archive_load_stuck\<close>), a resource bundle handler in Rust cannot provide data
  (\<open>resource_bundle_data_lost\<close>) and a result type is not well formed (\<open>output_unbalanced\<close>).

  \<^bold>\<open>Not modelled.\<close> The text the binding generator writes for structures, enums and global functions,
  and the bindings it has generated: templates without a state; the runs of Cargo, CMake, Git and the
  compiler that the tools start; library loading, the sandbox, window information and the application protocol
  of macOS: single calls of the operating system or of CEF; conversions of coordinates with floating-point
  factors; the message pumps of macOS and Windows, the windows of the example applications and the examples
  that draw off screen; \<^verbatim>\<open>cef-agent\<close>, whose operations are stubs; and the C++ implementation beyond the values,
  messages, strings, the closing of browsers and the boundary functions used here.
\<close>

section \<open>Across the two processes\<close>

lemma failure_arrives:
  assumes "env_text_ok env" "utf8_valid msg"
  shows "browser_message_from env (Some (ListMessage name (failure_args env c r code msg))) =
    Ret \<lparr>bm_context_id = c, bm_request_id = r, bm_is_success = False, bm_error_code = code, bm_payload = PString msg\<rparr>"
  using utf8_there_and_back [OF assms]
  by (simp add: browser_message_from_def failure_args_def lv_defs index_defs)

lemma cancel_text_valid: "utf8_valid (ascii_bytes CANCELED_MESSAGE)"
  by (simp add: ascii_bytes_def CANCELED_MESSAGE_def)

text \<open>
  Property C1. A response travels from the handler to the page that asked: when the
  handler of a pending query answers with a text, the browser side sends one message
  to the frame of the query, and the renderer side, receiving it, calls the success
  function of exactly the request the query was made for, with that text.
\<close>

theorem response_reaches_caller:
  fixes env :: cef_env
  assumes env: "env_text_ok env" "env_create_ok env"
    and bp: "bp_inv bp" "answers bp a b k v" and f: "qi_frame v = Some f"
    and ids: "is_i32 (qi_context_id v)" "is_i32 (qi_request_id v)"
    and valid: "utf8_valid response"
    and name: "cb_message_name (callback_of bp a) = rr_query_message_name (rp_router rp)"
    and rp: "rp_inv rp" "requests rp b (qi_context_id v, qi_request_id v) = Some info"
      "ri_success_callback info = Some fn" "context_of rp (qi_context_id v) = Some ctx"
  shows "\<exists>builder bp' msg rp'. call_task env (callback_of bp a) a (SuccessStr response) = CallbackSuccess a builder
    \<and> execute_success env a builder bp = Ret bp' \<and> bp_events bp' = bp_events bp @ [SendToRenderer f msg]
    \<and> renderer_message_received env (Some b) (Some msg) rp = Ret (True, rp')
    \<and> rp_events rp' = rp_events rp @ [CallFunction fn ctx [V8String (cef_string_from_utf8 env response)]]"
proof -
  note a = answersD [OF bp]
  let ?c = "qi_context_id v" and ?r = "qi_request_id v"
  let ?builder = "create_browser_response_builder env (cb_threshold (callback_of bp a)) (cb_message_name (callback_of bp a)) (PString response)"
  obtain msg where msg: "browser_response env ?builder ?c ?r = Some msg" "pm_name msg = cb_message_name (callback_of bp a)"
    using response_message_built [OF env(2)] by metis
  have content: "browser_message_from env (Some msg) = Ret (bm_success ?c ?r (PString response))"
    using response_arrives [OF env ids, of "PString response" "cb_threshold (callback_of bp a)"
        "cb_message_name (callback_of bp a)"] valid msg(1) by simp
  have "execute_success env a ?builder bp =
      Ret (settle_query (\<not> cb_persistent (callback_of bp a)) a [SendToRenderer f msg] (take_query b k (m_data (query_map_mutex bp))) bp)"
    using a f msg(1) by (simp add: execute_success_eq [OF bp_inv_locks(1) [OF bp(1)] a(1,2)] success_events_def)
  moreover have "renderer_message_received env (Some b) (Some msg) rp =
      Ret (True, rp_logs [CallFunction fn ctx [V8String (cef_string_from_utf8 env response)]] (looked_up False b ?c ?r rp))"
    using content msg(2) name rp
    by (simp add: renderer_message_received_def execute_success_callback_eq bm_success_def success_call_def)
  ultimately show ?thesis
    by (intro exI [of _ ?builder] exI [of _ "settle_query (\<not> cb_persistent (callback_of bp a)) a [SendToRenderer f msg]
          (take_query b k (m_data (query_map_mutex bp))) bp"] exI [of _ msg]
          exI [of _ "rp_logs [CallFunction fn ctx [V8String (cef_string_from_utf8 env response)]] (looked_up False b ?c ?r rp)"])
      (simp add: payload_from_str_def bp_simps rp_simps)
qed

text \<open>The sample renderer process with the request of the sample query pending.\<close>

definition joint_rp :: renderer_process where
  "joint_rp = set_context_map (mutex_new [(10, Some sample_context)])
     (set_request_map (mutex_new (bim_insert 5 (10, 20) (sample_info False) bim_default)) sample_rp)"

lemma joint_inv: "rp_inv joint_rp"
  using sample_inv
  by (simp add: rp_inv_def joint_rp_def rp_simps bim_inv_insert bt_wf_def bt_get_def RESERVED_ID_def)

lemma joint_request:
  "requests joint_rp 5 (10, 20) = Some (sample_info False)" "context_of joint_rp 10 = Some sample_context"
  "rr_query_message_name (rp_router joint_rp) = ''cefQueryMsg''"
  by (simp_all add: joint_rp_def rp_simps bim_lookup_insert bt_get_def) (simp add: sample_rp_def)

theorem response_reaches_caller_witness:
  "\<exists>builder bp' msg rp'. execute_success demo_env 0 builder demo_bp = Ret bp' \<and> bp_events bp' = [SendToRenderer demo_frame msg]
     \<and> renderer_message_received demo_env (Some 5) (Some msg) joint_rp = Ret (True, rp')
     \<and> rp_events rp' = [CallFunction (V8Function 7) sample_context [V8String [72, 105]]]"
proof -
  let ?v = "demo_info 10 20 False 0"
  have "qi_frame ?v = Some demo_frame" "is_i32 (qi_context_id ?v)" "is_i32 (qi_request_id ?v)" "utf8_valid [72, 105]"
      "cb_message_name (callback_of demo_bp 0) = rr_query_message_name (rp_router joint_rp)"
      "requests joint_rp 5 (qi_context_id ?v, qi_request_id ?v) = Some (sample_info False)"
      "ri_success_callback (sample_info False) = Some (V8Function 7)" "context_of joint_rp (qi_context_id ?v) = Some sample_context"
    using joint_request
    by (simp_all add: demo_info_def is_i32_def demo_bp_def demo_callback_def query_callback_def sample_info_def)
  moreover have "env_text_ok demo_env" "env_create_ok demo_env" "cef_string_from_utf8 demo_env [72, 105] = [72, 105]"
    by (simp_all add: demo_env_def ascii_env_ok) (simp add: cef_string_from_utf8_def ascii_env_def)
  moreover have "bp_events demo_bp = []" "rp_events joint_rp = []"
    by (simp_all add: demo_bp_def joint_rp_def rp_simps sample_rp_def)
  ultimately show ?thesis
    using response_reaches_caller [of demo_env demo_bp 0 5 1 ?v demo_frame "[72, 105]" joint_rp "sample_info False"
        "V8Function 7" sample_context] demo_inv demo_answers(1) joint_inv by fastforce
qed

text \<open>
  Property C2. A query travels from the page to the handlers: the message a query call
  sends is recognised by the browser side of the same configuration, which offers the
  text of the request to its handlers under the persistence the page asked for, and
  if a handler takes it, the pending query carries the context id and the request id
  that the renderer registered, so that the answer finds its way back.
\<close>

theorem query_reaches_handlers:
  fixes env :: cef_env
  assumes env: "env_text_ok env" "env_create_ok env"
    and rp: "rp_inv rp" and names: "rr_query_message_name (rp_router rp) = br_query_message_name (bp_router bp)"
    and c: "is_i32 c" and valid: "utf8_valid (utf8_from_cef_string env w)"
    and bp: "bp_inv bp" and ne: "hd_candidates (m_data (br_handlers (bp_router bp))) = (i, h) # cs"
    and taken: "hs (bp_events bp) h (Some b) frame (next_query_id bp) (QueryStr (utf8_from_cef_string env w))
                  (ri_is_persistent info) = (True, calls, keeps)"
  shows "\<exists>msg rp' bp'. send_query env (Some (brw_identifier b)) (Some f) c (V8String w) info rp = Ret (next_request_id rp, rp')
    \<and> rp_events rp' = rp_events rp @ [SendToBrowser f msg]
    \<and> requests rp' (brw_identifier b) (c, next_request_id rp) = Some info
    \<and> on_process_message_received env hs (Some b) frame (Some msg) bp = Ret (True, bp')
    \<and> bp_events bp' = bp_events bp @ [OnQuery h (Some b) frame (next_query_id bp)
          (QueryStr (utf8_from_cef_string env w)) (ri_is_persistent info) (length (bp_callbacks bp))]
    \<and> (\<exists>v. pending bp' (brw_identifier b) (next_query_id bp) = Some v \<and> qi_context_id v = c
          \<and> qi_request_id v = next_request_id rp \<and> qi_handler v = Some (i, h) \<and> qi_frame v = frame)"
proof -
  let ?r = "next_request_id rp" and ?p = "ri_is_persistent info" and ?s = "utf8_from_cef_string env w"
  let ?b = "brw_identifier b" and ?q = "next_query_id bp" and ?a = "length (bp_callbacks bp)"
  obtain msg where msg: "query_message env rp c (V8String w) ?p = Some msg" "pm_name msg = rr_query_message_name (rp_router rp)"
    using query_message_built [OF env(2)] unfolding query_message_def by metis
  have "1 \<le> ?r" "?r \<le> I32_MAX"
    using rp ig_next_inv(2,3) [of I32_MAX "m_data (rr_request_id_generator (rp_router rp))"]
    by (simp_all add: rp_inv_def next_request_id_def I32_MAX_def)
  then have r: "is_i32 ?r" by (simp add: is_i32_def I32_MAX_def)
  let ?content = "\<lparr>rm_context_id = c, rm_request_id = ?r, rm_is_persistent = ?p, rm_payload = PString ?s\<rparr>"
  have content: "render_message_from env (Some msg) = Ret ?content"
    using query_arrives [OF env c r, of "V8String w"
        "message_size_threshold (rr_config (rp_router rp))" "rr_query_message_name (rp_router rp)" ?p]
      valid msg(1) by (simp add: query_message_def)
  have nonempty: "hd_handlers (m_data (br_handlers (bp_router bp))) \<noteq> []"
    using ne by (auto simp: hd_candidates_def List.map_filter_simps)
  let ?rp' = "send_to_browser f (Some msg) (query_sent ?b c info rp)"
  have sent: "send_query env (Some ?b) (Some f) c (V8String w) info rp = Ret (?r, ?rp')"
    using send_query_eq [OF rp] msg(1) by simp
  from receive_query_offered [OF bp nonempty, of env hs b frame "pm_name msg" ?content,
      unfolded render_message.select_convs query_arg_of.simps ne]
  obtain res ts asked H where
    recv: "receive_query env hs (Some b) frame (pm_name msg) ?content bp =
       Ret ((registered b frame (pm_name msg) ?content res bp)\<lparr>bp_tasks := bp_tasks bp @ ts,
              bp_events := bp_events bp @ map (\<lambda>(i, h). OnQuery h (Some b) frame ?q (QueryStr ?s) ?p ?a) asked @
                (if res = None then failure_events env (br_query_message_name (bp_router bp)) frame
                   c ?r CANCELED_CODE (ascii_bytes CANCELED_MESSAGE) else []),
              bp_held := H\<rparr>)" (is "_ = Ret ?bp'")
    and asked: "case res of None \<Rightarrow> asked = (i, h) # cs | Some x \<Rightarrow> \<exists>post. (i, h) # cs = asked @ post \<and> asked \<noteq> [] \<and> last asked = x"
    and first: "first_taker hs (Some b) frame ?q (QueryStr ?s) ?p ?a (bp_events bp) asked (res \<noteq> None)"
    by blast
  obtain rest where "asked = (i, h) # rest" using asked by (cases asked) (auto split: option.splits)
  with first taken have res: "res \<noteq> None" "asked = [(i, h)]" by (auto simp: first_taker_Cons)
  with asked have "res = Some (i, h)" by auto
  have "on_process_message_received env hs (Some b) frame (Some msg) bp = Ret (True, ?bp')"
    using names msg(2) content recv by (simp add: on_process_message_received_with_def Let_def)
  moreover have "pending ?bp' ?b ?q = Some (query_entry (Some b) frame ?content ?a (i, h))"
    using \<open>res = Some (i, h)\<close> by (simp add: bp_simps)
  moreover have "bp_events ?bp' = bp_events bp @ [OnQuery h (Some b) frame ?q (QueryStr ?s) ?p ?a]"
    using res by auto
  moreover have "rp_events ?rp' = rp_events rp @ [SendToBrowser f msg]" "requests ?rp' ?b (c, ?r) = Some info"
    by (simp_all add: rp_simps)
  ultimately show ?thesis
    using sent by (intro exI [of _ msg] exI [of _ ?rp'] exI [of _ ?bp']) (simp add: query_entry_def)
qed

theorem query_reaches_handlers_witness:
  "\<exists>msg rp' bp'. send_query demo_env (Some 5) (Some 3) 1
        (V8String [104, 105]) (sample_info False) sample_rp = Ret (next_request_id sample_rp, rp')
     \<and> rp_events rp' = rp_events sample_rp @ [SendToBrowser 3 msg]
     \<and> on_process_message_received demo_env (\<lambda>_ h _ _ _ _ _. (True, [], True)) (Some demo_browser) (Some demo_frame)
         (Some msg) demo_bp = Ret (True, bp')
     \<and> pending bp' 5 3 \<noteq> None"
proof -
  let ?hs = "\<lambda>_ _ _ _ _ _ _. (True, [], True)" and ?w = "[104, 105] :: utf16"
  have s: "utf8_from_cef_string demo_env ?w = [104, 105]"
    by (simp add: utf8_from_cef_string_def demo_env_def ascii_env_def)
  have "utf8_valid (utf8_from_cef_string demo_env ?w)" unfolding s by simp
  moreover have "env_text_ok demo_env" "env_create_ok demo_env" "is_i32 1"
    by (simp_all add: demo_env_def ascii_env_ok is_i32_def)
  moreover have "rr_query_message_name (rp_router sample_rp) = br_query_message_name (bp_router demo_bp)"
    by (simp add: sample_rp_def demo_bp_def)
  moreover have "hd_candidates (m_data (br_handlers (bp_router demo_bp))) = [(0, 0), (1, 1)]"
    by (simp add: hd_candidates_def demo_bp_def List.map_filter_simps i32_try_from_usize_def i32_wrap_def)
  moreover have "next_query_id demo_bp = 3" "brw_identifier demo_browser = 5"
    by (simp_all add: next_query_id_def demo_bp_def ig_next_def ig_new_def I64_MAX_def demo_browser_def)
  ultimately show ?thesis
    using query_reaches_handlers [of demo_env sample_rp demo_bp 1 ?w 0 0 "[(1, 1)]" ?hs demo_browser "Some demo_frame"
        "sample_info False" "[]" True 3] sample_inv demo_inv
    by fastforce
qed

text \<open>
  Property C3. A query that no handler can take is answered with a failure that the
  page sees: when the browser side has no handlers, the query message causes one
  message back to the frame, and the renderer side, receiving it, calls the failure
  function of the request with code -1 and the text of a cancelled query, and the
  request, persistent or not, is no longer pending.
\<close>

theorem unhandled_query_fails:
  fixes env :: cef_env
  assumes env: "env_text_ok env" "env_create_ok env"
    and bp: "bp_inv bp" "hd_handlers (m_data (br_handlers (bp_router bp))) = []"
    and query: "render_message_from env (Some msg) = Ret content" "pm_name msg = br_query_message_name (bp_router bp)"
    and names: "rr_query_message_name (rp_router rp) = br_query_message_name (bp_router bp)"
    and rp: "rp_inv rp" "requests rp b (rm_context_id content, rm_request_id content) = Some info"
      "ri_failure_callback info = Some fn" "context_of rp (rm_context_id content) = Some ctx"
  shows "\<exists>bp' reply rp'. on_process_message_received env hs (Some br) (Some f) (Some msg) bp = Ret (True, bp')
    \<and> bp_events bp' = bp_events bp @ [SendToRenderer f reply]
    \<and> renderer_message_received env (Some b) (Some reply) rp = Ret (True, rp')
    \<and> rp_events rp' = rp_events rp @ [CallFunction fn ctx
          [V8Int (-1), V8String (cef_string_from_utf8 env (ascii_bytes CANCELED_MESSAGE))]]
    \<and> requests rp' b (rm_context_id content, rm_request_id content) = None"
proof -
  let ?c = "rm_context_id content" and ?r = "rm_request_id content"
  let ?reply = "ListMessage (br_query_message_name (bp_router bp))
      (failure_args env ?c ?r CANCELED_CODE (ascii_bytes CANCELED_MESSAGE))"
  let ?call = "CallFunction fn ctx [V8Int (-1), V8String (cef_string_from_utf8 env (ascii_bytes CANCELED_MESSAGE))]"
  have "on_process_message_received env hs (Some br) (Some f) (Some msg) bp =
      Ret (True, log_events [SendToRenderer f ?reply] bp)"
    using query bp env(2)
    by (simp add: on_process_message_received_with_def receive_query_rejected cancel_unhandled_query_def
        send_query_failure_eq failure_events_def)
  moreover have "renderer_message_received env (Some b) (Some ?reply) rp = Ret (True, rp_logs [?call] (looked_up True b ?c ?r rp))"
    using names rp
    by (simp add: renderer_message_received_def failure_arrives [OF env(1) cancel_text_valid]
        execute_failure_callback_eq failure_call_def CANCELED_CODE_def)
  moreover have "requests (rp_logs [?call] (looked_up True b ?c ?r rp)) b (?c, ?r) = None"
    using rp(2) by (simp add: rp_simps)
  ultimately show ?thesis
    by (intro exI [of _ "log_events [SendToRenderer f ?reply] bp"] exI [of _ ?reply]
        exI [of _ "rp_logs [?call] (looked_up True b ?c ?r rp)"]) (simp add: bp_simps rp_simps)
qed

theorem unhandled_query_fails_witness:
  "\<exists>bp' reply rp'. on_process_message_received demo_env (\<lambda>_ _ _ _ _ _ _. (True, [], True)) (Some demo_browser) (Some demo_frame)
        (Some (ListMessage ''cefQueryMsg'' [VInt 10, VInt 20, VNull, VBool False]))
        (browser_process_new config_default :: nat browser_process) = Ret (True, bp')
     \<and> bp_events bp' = [SendToRenderer demo_frame reply]
     \<and> renderer_message_received demo_env (Some 5) (Some reply) joint_rp = Ret (True, rp')
     \<and> requests rp' 5 (10, 20) = None"
proof -
  let ?bp = "browser_process_new config_default :: nat browser_process"
  let ?msg = "ListMessage ''cefQueryMsg'' [VInt 10, VInt 20, VNull, VBool False]"
  let ?content = "\<lparr>rm_context_id = 10, rm_request_id = 20, rm_is_persistent = False, rm_payload = PBinary []\<rparr>"
  have bp: "hd_handlers (m_data (br_handlers (bp_router ?bp))) = []"
    "br_query_message_name (bp_router ?bp) = ''cefQueryMsg''" "bp_events ?bp = []"
    by (simp_all add: browser_process_new_def router_new_def hd_default_def query_message_name_of_def
        config_default_def MESSAGE_SUFFIX_def)
  have content: "render_message_from demo_env (Some ?msg) = Ret ?content"
    by (simp add: render_message_from_def lv_defs index_defs)
  have env: "env_text_ok demo_env" "env_create_ok demo_env" by (simp_all add: demo_env_def ascii_env_ok)
  have cb: "ri_failure_callback (sample_info False) = Some (V8Function 8)" by (simp add: sample_info_def)
  show ?thesis
    using unhandled_query_fails [OF env bp_inv_new bp(1) content _ _ joint_inv _ cb, of 5 sample_context
        "\<lambda>_ _ _ _ _ _ _. (True, [], True)" demo_browser demo_frame] bp joint_request
    by fastforce
qed

end
